(* ===== verification/Prelude.thy ===== *)
theory Prelude
  imports Main "HOL-Library.Word"
begin

text \<open>
  Prelude of the development: the machine integers of the C sources, the faults a C program
  can run into, checked reads and writes of C arrays, counted loops over them, and the generic
  lemmas the components share.

  A C array or buffer is a list; a pointer into it is the suffix of the list that starts there.
  An access outside of the object is not a value but the fault \<open>OutOfBounds\<close>; a failed
  \<open>assert\<close>, an \<open>abort()\<close>, the dereference of a null pointer, the use of a freed
  object, the read of an uninitialised cell and an endless loop are faults of their own.  A computation that may
  fault has the type \<open>'a res\<close>.
\<close>

unbundle bit_operations_syntax

named_theorems cres \<open>evaluation of faulting computations\<close>

section \<open>Machine integers\<close>

type_synonym u8 = "8 word"
type_synonym u16 = "16 word"
type_synonym u32 = "32 word"
type_synonym u64 = "64 word"

abbreviation nz :: "'a::len word \<Rightarrow> bool" where
  "nz w \<equiv> w \<noteq> 0"

text \<open>The remainder of C, which has the sign of the dividend.\<close>

definition c_rem :: "int \<Rightarrow> int \<Rightarrow> int" where
  "c_rem a b = (if 0 \<le> a then a mod b else - ((- a) mod b))"

text \<open>The bytes of a character literal: C characters are kept as bytes.\<close>

abbreviation chr :: "char \<Rightarrow> u8" where
  "chr c \<equiv> of_char c"

definition str_bytes :: "string \<Rightarrow> u8 list" where
  "str_bytes s = map of_char s"

text \<open>The C string held in a buffer: the bytes before the first NUL.\<close>

definition cstr :: "u8 list \<Rightarrow> u8 list" where
  "cstr buf = takeWhile nz buf"

section \<open>Faults and faulting computations\<close>

datatype c_error =
    OutOfBounds
  | NullDeref
  | AssertFailed
  | Aborted
  | Uninitialised
  | UseAfterFree
  | Diverges

type_synonym 'a res = "c_error + 'a"

definition rbind :: "'a res \<Rightarrow> ('a \<Rightarrow> 'b res) \<Rightarrow> 'b res" where
  "rbind m f = (case m of Inl e \<Rightarrow> Inl e | Inr x \<Rightarrow> f x)"

definition rassert :: "bool \<Rightarrow> unit res" where
  "rassert b = (if b then Inr () else Inl AssertFailed)"

text \<open>Reading and writing one element of an array.\<close>

definition rd :: "'a list \<Rightarrow> nat \<Rightarrow> 'a res" where
  "rd xs i = (if i < length xs then Inr (xs ! i) else Inl OutOfBounds)"

definition wr :: "'a list \<Rightarrow> nat \<Rightarrow> 'a \<Rightarrow> 'a list res" where
  "wr xs i v = (if i < length xs then Inr (xs[i := v]) else Inl OutOfBounds)"

text \<open>
  Reading and writing \<open>n\<close> consecutive elements: \<open>memcpy\<close> from and to an array.
  As the C function does, a copy of no element touches nothing.
\<close>

definition rdn :: "'a list \<Rightarrow> nat \<Rightarrow> nat \<Rightarrow> 'a list res" where
  "rdn xs off n = (if off + n \<le> length xs then Inr (take n (drop off xs)) else Inl OutOfBounds)"

definition wrn :: "'a list \<Rightarrow> nat \<Rightarrow> 'a list \<Rightarrow> 'a list res" where
  "wrn xs off ys =
     (if off + length ys \<le> length xs
      then Inr (take off xs @ ys @ drop (off + length ys) xs) else Inl OutOfBounds)"

text \<open>
  A counted loop: the body runs for every element of the list of indices, in order, and the
  first fault ends the loop.
\<close>

primrec rfold :: "('a \<Rightarrow> 's \<Rightarrow> 's res) \<Rightarrow> 'a list \<Rightarrow> 's \<Rightarrow> 's res" where
  "rfold f [] s = Inr s"
| "rfold f (x # xs) s = rbind (f x s) (rfold f xs)"

text \<open>State transformers that may fault, run one after the other.\<close>

primrec seqs :: "('s \<Rightarrow> 's res) list \<Rightarrow> 's \<Rightarrow> 's res" where
  "seqs [] s = Inr s"
| "seqs (f # fs) s = rbind (f s) (seqs fs)"

section \<open>Lemmas on faulting computations\<close>

lemma rbind_Inl [simp]: "rbind (Inl e) f = Inl e"
  by (simp add: rbind_def)

lemma rbind_Inr [simp]: "rbind (Inr x) f = f x"
  by (simp add: rbind_def)

lemma rbind_eq_Inr: "(rbind m f = Inr y) \<longleftrightarrow> (\<exists>x. m = Inr x \<and> f x = Inr y)"
  by (cases m) auto

lemma rbind_eq_Inl: "(rbind m f = Inl e) \<longleftrightarrow> (m = Inl e \<or> (\<exists>x. m = Inr x \<and> f x = Inl e))"
  by (cases m) auto

lemma rbind_assoc: "rbind (rbind m f) g = rbind m (\<lambda>x. rbind (f x) g)"
  by (cases m) auto

lemma rbind_cong [fundef_cong]:
  "m = m' \<Longrightarrow> (\<And>x. m' = Inr x \<Longrightarrow> f x = f' x) \<Longrightarrow> rbind m f = rbind m' f'"
  by (cases m') auto

lemma rbind_seqs_Nil: "rbind x (seqs []) = x"
  by (cases x) simp_all

lemma seqs_single: "seqs [f] = f"
  by (rule ext) (simp add: rbind_seqs_Nil)

lemma rassert_simps [simp]:
  "rassert True = Inr ()"
  "rassert False = Inl AssertFailed"
  by (simp_all add: rassert_def)

lemma rassert_eq_Inr [simp]: "(rassert b = Inr u) \<longleftrightarrow> b"
  by (simp add: rassert_def)

lemma rd_Inr [simp]: "i < length xs \<Longrightarrow> rd xs i = Inr (xs ! i)"
  by (simp add: rd_def)

lemma rd_eq_Inr: "(rd xs i = Inr x) \<longleftrightarrow> (i < length xs \<and> x = xs ! i)"
  by (auto simp: rd_def)

lemma rd_eq_Inl: "(rd xs i = Inl e) \<longleftrightarrow> (length xs \<le> i \<and> e = OutOfBounds)"
  by (auto simp: rd_def)

lemma wr_Inr [simp]: "i < length xs \<Longrightarrow> wr xs i v = Inr (xs[i := v])"
  by (simp add: wr_def)

lemma wr_eq_Inr: "(wr xs i v = Inr ys) \<longleftrightarrow> (i < length xs \<and> ys = xs[i := v])"
  by (auto simp: wr_def)

lemma wr_eq_Inl: "(wr xs i v = Inl e) \<longleftrightarrow> (length xs \<le> i \<and> e = OutOfBounds)"
  by (auto simp: wr_def)

lemma rdn_Inr [simp]: "off + n \<le> length xs \<Longrightarrow> rdn xs off n = Inr (take n (drop off xs))"
  by (simp add: rdn_def)

lemma rdn_eq_Inr:
  "(rdn xs off n = Inr ys) \<longleftrightarrow> (off + n \<le> length xs \<and> ys = take n (drop off xs))"
  by (auto simp: rdn_def)

lemma length_rdn: "rdn xs off n = Inr ys \<Longrightarrow> length ys = n"
  by (auto simp: rdn_eq_Inr)

lemma wrn_Inr [simp]:
  "off + length ys \<le> length xs \<Longrightarrow>
   wrn xs off ys = Inr (take off xs @ ys @ drop (off + length ys) xs)"
  by (simp add: wrn_def)

lemma length_wrn: "wrn xs off ys = Inr zs \<Longrightarrow> length zs = length xs"
  by (auto simp: wrn_def split: if_splits)

lemmas res_eqs [cres] = rbind_eq_Inr rd_eq_Inr wr_eq_Inr rdn_eq_Inr

lemma rfold_append: "rfold f (xs @ ys) s = rbind (rfold f xs s) (rfold f ys)"
proof (induction xs arbitrary: s)
  case (Cons x xs)
  then show ?case by (cases "f x s") auto
qed simp

lemma rfold_map: "rfold f (map g xs) s = rfold (\<lambda>x. f (g x)) xs s"
proof (induction xs arbitrary: s)
  case (Cons x xs)
  then show ?case by (cases "f (g x) s") auto
qed simp

lemma rfold_cong [fundef_cong]:
  assumes "xs = ys" and "s = t" and "\<And>x s. x \<in> set ys \<Longrightarrow> f x s = g x s"
  shows "rfold f xs s = rfold g ys t"
  unfolding assms(1,2) using assms(3)
proof (induction ys arbitrary: t)
  case (Cons y ys)
  then show ?case by (cases "g y t") auto
qed simp

text \<open>
  The rule for counted loops: an invariant indexed by the number of rounds done, established
  at the start and carried by every round (which therefore does not fault), holds at the end.
\<close>

lemma rfold_upt_rule:
  assumes "P 0 s"
    and "\<And>i s. i < n \<Longrightarrow> P i s \<Longrightarrow> \<exists>s'. f i s = Inr s' \<and> P (Suc i) s'"
  shows "\<exists>s'. rfold f [0..<n] s = Inr s' \<and> P n s'"
  using assms
proof (induction n)
  case (Suc n)
  from Suc.IH Suc.prems obtain s1 where "rfold f [0..<n] s = Inr s1" "P n s1"
    by force
  with Suc.prems(2) [of n s1] show ?case
    by (auto simp: rfold_append)
qed simp

text \<open>The same rule for a loop that starts at \<open>m\<close>.\<close>

lemma rfold_upt_from_rule:
  assumes "P m s" and "m \<le> n"
    and "\<And>i s. m \<le> i \<Longrightarrow> i < n \<Longrightarrow> P i s \<Longrightarrow> \<exists>s'. f i s = Inr s' \<and> P (Suc i) s'"
  shows "\<exists>s'. rfold f [m..<n] s = Inr s' \<and> P n s'"
proof -
  let ?Q = "\<lambda>k. P (k + m)" and ?g = "\<lambda>k. f (k + m)"
  have "\<exists>s'. rfold ?g [0..<n - m] s = Inr s' \<and> ?Q (n - m) s'"
    by (rule rfold_upt_rule) (use assms in auto)
  moreover have "[m..<n] = map (\<lambda>k. k + m) [0..<n - m]"
    using assms(2) by (simp add: map_add_upt)
  ultimately show ?thesis
    using assms(2) by (simp add: rfold_map)
qed

text \<open>A loop that writes cell \<open>i\<close> in round \<open>i\<close> fills a prefix of the array.\<close>

lemma rfold_fill:
  assumes "n \<le> length out" and "\<And>i out. i < n \<Longrightarrow> f i out = wr out i (h i)"
  shows "rfold f [0..<n] out = Inr (map h [0..<n] @ drop n out)"
proof -
  have "\<exists>s'. rfold f [0..<n] out = Inr s' \<and> s' = map h [0..<n] @ drop n out"
  proof (rule rfold_upt_rule [where P = "\<lambda>i s. s = map h [0..<i] @ drop i out"])
    fix i s
    assume i: "i < n" and s: "s = map h [0..<i] @ drop i out"
    then have "drop i out = out ! i # drop (Suc i) out"
      using assms(1) by (simp add: Cons_nth_drop_Suc)
    with s i assms show "\<exists>s'. f i s = Inr s' \<and> s' = map h [0..<Suc i] @ drop (Suc i) out"
      by (simp add: list_update_append)
  qed simp
  then show ?thesis by simp
qed

text \<open>An invariant of the body that does not depend on the round is an invariant of the loop.\<close>

lemma rfold_keeps:
  assumes "rfold f xs s = Inr t" and "P s"
    and "\<And>x s s'. x \<in> set xs \<Longrightarrow> P s \<Longrightarrow> f x s = Inr s' \<Longrightarrow> P s'"
  shows "P t"
  using assms
proof (induction xs arbitrary: s)
  case (Cons x xs)
  from Cons.prems(1) obtain s1 where 1: "f x s = Inr s1" "rfold f xs s1 = Inr t"
    by (auto simp: rbind_eq_Inr)
  moreover from Cons.prems 1 have "P s1" by auto
  ultimately show ?case
    using Cons.IH Cons.prems(3) by auto
qed simp

text \<open>The same for an invariant that depends on the elements the loop has seen.\<close>

lemma rfold_seen:
  assumes "rfold f xs s = Inr t" and "P [] s"
    and "\<And>x seen s s'. x \<in> set xs \<Longrightarrow> P seen s \<Longrightarrow> f x s = Inr s' \<Longrightarrow> P (seen @ [x]) s'"
  shows "P xs t"
proof -
  have "P (seen @ ys) t" if "rfold f ys s = Inr t" "P seen s" "set ys \<subseteq> set xs" for seen ys s
    using that
  proof (induction ys arbitrary: seen s)
    case (Cons y ys)
    from Cons.prems(1) obtain s1 where 1: "f y s = Inr s1" "rfold f ys s1 = Inr t"
      by (auto simp: rbind_eq_Inr)
    with Cons.IH [OF 1(2), of "seen @ [y]"] Cons.prems assms(3) show ?case by simp
  qed simp
  from this [of xs s "[]"] assms(1,2) show ?thesis by simp
qed

lemma rfold_upt_keeps:
  assumes "rfold f [0..<n] s = Inr t" and "P 0 s"
    and "\<And>i s s'. i < n \<Longrightarrow> P i s \<Longrightarrow> f i s = Inr s' \<Longrightarrow> P (Suc i) s'"
  shows "P n t"
  using assms
proof (induction n arbitrary: t)
  case (Suc n)
  then show ?case by (auto simp: rfold_append rbind_eq_Inr)
qed simp

section \<open>Lemmas on lists\<close>

lemma nth_update_block:
  "off + length ys \<le> length xs \<Longrightarrow> i < length xs \<Longrightarrow>
   (take off xs @ ys @ drop (off + length ys) xs) ! i =
   (if off \<le> i \<and> i < off + length ys then ys ! (i - off) else xs ! i)"
  by (auto simp: nth_append min_def)

lemma length_update_block [simp]:
  "off + length ys \<le> length xs \<Longrightarrow>
   length (take off xs @ ys @ drop (off + length ys) xs) = length xs"
  by simp

text \<open>Evaluation of the index list of a loop with a numeral bound.\<close>

lemma upt_eval:
  "[0..<numeral n] = 0 # [Suc 0..<numeral n]"
  "[Suc 0..<numeral n] = (if Suc 0 < numeral n then Suc 0 # [2..<numeral n] else [])"
  by (simp_all add: upt_rec [of 0] upt_rec [of "Suc 0"] numeral_2_eq_2)

section \<open>Lemmas on words\<close>

lemma u8_cases_bit: "(w :: u8) = v \<longleftrightarrow> (\<forall>k < 8. bit w k = bit v k)"
  by (auto simp: bit_eq_iff bit_imp_le_length intro: ccontr)

lemma bit_one_push:
  "n < LENGTH('a::len) \<Longrightarrow> bit (push_bit n (1 :: 'a word)) k \<longleftrightarrow> k = n"
  by (auto simp: bit_simps)

lemma unat_le_mask: "unat (w AND v) \<le> unat (v :: 'a::len word)"
  by (metis word_and_le1 word_le_nat_alt)

lemma unat_ucast_le: "unat (ucast (w :: 'a::len word) :: 'b::len word) \<le> unat w"
  by (simp add: unsigned_ucast_eq take_bit_nat_less_eq_self)

lemma unat_ucast_up [simp]:
  "unat (ucast (b :: u8) :: u32) = unat b" "unat (ucast (b :: u8) :: u16) = unat b"
  "unat (ucast (h :: u16) :: u32) = unat h"
  using unsigned_less [of b, where 'a = nat] unsigned_less [of h, where 'a = nat]
  by (simp_all add: unsigned_ucast_eq take_bit_nat_eq_self)

lemma unat_of_nat_small: "n < 2 ^ LENGTH('a) \<Longrightarrow> unat (of_nat n :: 'a::len word) = n"
  by (simp add: unsigned_of_nat take_bit_nat_eq_self)

lemma ucast_of_nat: "LENGTH('b) \<le> LENGTH('a) \<Longrightarrow> ucast (of_nat n :: 'a::len word) = (of_nat n :: 'b::len word)"
  by (simp add: word_unat_eq_iff unsigned_ucast_eq unsigned_of_nat take_bit_take_bit)

end
