(* ===== verification/Bit_Func.thy ===== *)
theory Bit_Func
  imports Prelude
begin

text \<open>
  The bit and string helpers of \<open>gsm-parser/bit_func.c\<close>: packing of bit arrays into bytes
  and back in both bit orders, hexadecimal and BCD conversion, the unescaping reader of the
  diagnostic file format and the small comparison helpers.  The C strings these routines write
  are buffers of bytes with an explicit end; a write behind the end of the buffer is a fault.
\<close>

section \<open>Definitions\<close>

subsection \<open>Comparison helpers\<close>

function not_zero_from :: "u8 list \<Rightarrow> nat \<Rightarrow> nat \<Rightarrow> nat res" where
  "not_zero_from t sz i =
     (if i < sz
      then rbind (rd t i) (\<lambda>b. if nz b then Inr i else not_zero_from t sz (Suc i))
      else Inr i)"
  by pat_completeness auto
termination
  by (relation "measure (\<lambda>(t, sz, i). sz - i)") auto

definition not_zero :: "u8 list \<Rightarrow> nat \<Rightarrow> bool res" where
  "not_zero t sz = rbind (not_zero_from t sz 0) (\<lambda>i. Inr (i \<noteq> sz))"

definition hamming_distance :: "u8 list \<Rightarrow> u8 list \<Rightarrow> nat \<Rightarrow> u32 res" where
  "hamming_distance v1 v2 len =
     rfold (\<lambda>i diff. rbind (rd v1 i) (\<lambda>a. rbind (rd v2 i) (\<lambda>b.
              Inr (diff + (if nz (a XOR b) then 1 else 0))))) [0..<len] 0"

text \<open>
  The loop condition of \<open>is_printable\<close> tests \<open>str[0]\<close>, not \<open>str[i]\<close>.
\<close>

function is_printable_from :: "u8 list \<Rightarrow> nat \<Rightarrow> nat \<Rightarrow> bool res" where
  "is_printable_from str len i =
     (if i < len
      then rbind (rd str 0) (\<lambda>c0.
           if c0 = 0 then Inr True
           else rbind (rd str i) (\<lambda>c.
                if c <s 0x20 then Inr False
                else if 0x7f \<le>s c then Inr False
                else is_printable_from str len (Suc i)))
      else Inr True)"
  by pat_completeness auto
termination
  by (relation "measure (\<lambda>(str, len, i). len - i)") auto

definition is_printable :: "u8 list \<Rightarrow> nat \<Rightarrow> bool res" where
  "is_printable str len = is_printable_from str len 0"

subsection \<open>Packing and unpacking of bits\<close>

definition compress_lsb :: "u8 list \<Rightarrow> u8 list \<Rightarrow> nat \<Rightarrow> u8 list res" where
  "compress_lsb inp out sz =
     rfold (\<lambda>i out.
       let dbyte = i div 8; dbit = push_bit (i mod 8) (1 :: u8)
       in rbind (rd inp i) (\<lambda>b. rbind (rd out dbyte) (\<lambda>x.
          wr out dbyte (if nz b then x OR dbit else x AND NOT dbit)))) [0..<sz] out"

definition compress_msb :: "u8 list \<Rightarrow> u8 list \<Rightarrow> nat \<Rightarrow> u8 list res" where
  "compress_msb inp out sz =
     rfold (\<lambda>i out.
       let dbyte = i div 8; dbit = push_bit (7 - i mod 8) (1 :: u8)
       in rbind (rd inp i) (\<lambda>b. rbind (rd out dbyte) (\<lambda>x.
          wr out dbyte (if nz b then x OR dbit else x AND NOT dbit)))) [0..<sz] out"

definition expand_lsb :: "u8 list \<Rightarrow> u8 list \<Rightarrow> nat \<Rightarrow> u8 list res" where
  "expand_lsb inp out sz =
     rfold (\<lambda>i out.
       let dbyte = i div 8; dbit = push_bit (i mod 8) (1 :: u8)
       in rbind (rd inp dbyte) (\<lambda>x. wr out i (if nz (x AND dbit) then 1 else 0))) [0..<sz] out"

definition expand_msb :: "u8 list \<Rightarrow> u8 list \<Rightarrow> nat \<Rightarrow> u8 list res" where
  "expand_msb inp out sz =
     rfold (\<lambda>i out.
       let dbyte = i div 8; dbit = push_bit (7 - i mod 8) (1 :: u8)
       in rbind (rd inp dbyte) (\<lambda>x. wr out i (if nz (x AND dbit) then 1 else 0))) [0..<sz] out"

subsection \<open>Hexadecimal and BCD\<close>

definition hexchar :: "u8 list" where
  "hexchar = str_bytes ''0123456789ABCDEF''"

definition hex_bin2str :: "u8 list \<Rightarrow> u8 list \<Rightarrow> nat \<Rightarrow> (u8 list \<times> nat) res" where
  "hex_bin2str vec str len =
     rbind (rfold (\<lambda>i str. rbind (rd vec i) (\<lambda>v.
              rbind (rd hexchar (unat (drop_bit 4 v))) (\<lambda>h.
              rbind (rd hexchar (unat (v AND 0x0f))) (\<lambda>l.
              rbind (wr str (2 * i + 0) h) (\<lambda>str. wr str (2 * i + 1) l))))) [0..<len] str)
       (\<lambda>str. Inr (str, len))"

text \<open>The value of one hexadecimal digit, \<open>None\<close> for the \<open>default\<close> branch of the switch.\<close>

definition hex_digit :: "u8 \<Rightarrow> u8 option" where
  "hex_digit c =
     (if chr (CHR ''0'') \<le> c \<and> c \<le> chr (CHR ''9'') then Some (c - chr (CHR ''0''))
      else if chr (CHR ''a'') \<le> c \<and> c \<le> chr (CHR ''f'') then Some (c - chr (CHR ''a'') + 10)
      else if chr (CHR ''A'') \<le> c \<and> c \<le> chr (CHR ''F'') then Some (c - chr (CHR ''A'') + 10)
      else None)"

function hex_str2bin_from :: "u8 list \<Rightarrow> u8 list \<Rightarrow> nat \<Rightarrow> nat \<Rightarrow> (u8 list \<times> nat) res" where
  "hex_str2bin_from str vec len i =
     rbind (rd str i) (\<lambda>c.
     if nz c \<and> i div 2 < len
     then (case hex_digit c of
             None \<Rightarrow> Inr (vec, i div 2)
           | Some d \<Rightarrow>
               rbind (if odd i then rbind (rd vec (i div 2)) (\<lambda>x. wr vec (i div 2) (x OR d))
                      else wr vec (i div 2) (push_bit 4 d))
                 (\<lambda>vec. hex_str2bin_from str vec len (Suc i)))
     else Inr (vec, i div 2))"
  by pat_completeness auto
termination
  by (relation "measure (\<lambda>(str, vec, len, i). 2 * len - i)") auto

definition hex_str2bin :: "u8 list \<Rightarrow> u8 list \<Rightarrow> nat \<Rightarrow> (u8 list \<times> nat) res" where
  "hex_str2bin str vec len = hex_str2bin_from str vec len 0"

definition bcd_code :: "u8 list" where
  "bcd_code = str_bytes ''0123456789**#*#''"

text \<open>
  \<open>bcd2str\<close> advances the destination pointer; the model carries it as the index \<open>k\<close>.
  The result is the buffer and the index of the digit at which the loop stopped.
\<close>

function bcd2str_from :: "u8 list \<Rightarrow> nat \<Rightarrow> nat \<Rightarrow> u8 list \<Rightarrow> nat \<Rightarrow> (u8 list \<times> nat) res" where
  "bcd2str_from bcd len i s k =
     (if i < len
      then rbind (rd bcd (i div 2)) (\<lambda>x.
           let n = (if odd i then drop_bit 4 x else x AND 0xf)
           in if n < 15
              then rbind (rd bcd_code (unat n)) (\<lambda>c.
                   rbind (wr s k c) (\<lambda>s. bcd2str_from bcd len (Suc i) s (Suc k)))
              else rbind (wr s k 0) (\<lambda>s. Inr (s, i)))
      else rbind (wr s k 0) (\<lambda>s. Inr (s, i)))"
  by pat_completeness auto
termination
  by (relation "measure (\<lambda>(bcd, len, i, s, k). len - i)") auto

definition bcd2str :: "u8 list \<Rightarrow> u8 list \<Rightarrow> nat \<Rightarrow> nat \<Rightarrow> (u8 list \<times> nat) res" where
  "bcd2str bcd s len off = bcd2str_from bcd len off s 0"

subsection \<open>Reading of escaped files and of statement lists\<close>

text \<open>
  A file is the list of the bytes not yet read.  \<open>fread\<close> of one byte at the end of the file
  returns 0 and leaves the destination as it is.  The result is the message buffer, the number
  of bytes and the rest of the file.
\<close>

function fread_unescape_from ::
  "u8 list \<Rightarrow> u8 list \<Rightarrow> nat \<Rightarrow> nat \<Rightarrow> (u8 list \<times> nat \<times> u8 list) res" where
  "fread_unescape_from f msg len i =
     (if i < len
      then (case f of
              [] \<Rightarrow> Inr (msg, i, [])
            | b # f' \<Rightarrow>
                rbind (wr msg i b) (\<lambda>msg.
                if b = 0x7e then Inr (msg, i, f')
                else if b = 0x7d
                then (case f' of
                        [] \<Rightarrow> Inr (msg, i, [])
                      | c # f'' \<Rightarrow> rbind (wr msg i ((c AND 0x0f) OR 0x70))
                                      (\<lambda>msg. fread_unescape_from f'' msg len (Suc i)))
                else fread_unescape_from f' msg len (Suc i)))
      else Inr (msg, i, f))"
  by pat_completeness auto
termination
  by (relation "measure (\<lambda>(f, msg, len, i). len - i)") auto

definition fread_unescape :: "u8 list \<Rightarrow> u8 list \<Rightarrow> nat \<Rightarrow> (u8 list \<times> nat \<times> u8 list) res" where
  "fread_unescape f msg len = fread_unescape_from f msg len 0"

text \<open>
  \<open>strescape_or_null\<close>: with SQLite (\<open>Some q\<close>) the library's quoting function \<open>q\<close>
  (\<open>sqlite3_mprintf\<close> with the format \<open>%Q\<close>) is applied, without it the string is only put
  between quotes.  A null pointer is \<open>None\<close>.  The argument is taken to be terminated: all buffers that the
  parser passes are (their writers leave room for the NUL); of one that is not, the model would read
  the bytes of the buffer, where the code would read on behind it.
\<close>

definition strescape_or_null ::
  "(u8 list \<Rightarrow> u8 list) option \<Rightarrow> u8 list option \<Rightarrow> u8 list" where
  "strescape_or_null sqlite str =
     (case str of
        None \<Rightarrow> str_bytes ''NULL''
      | Some s \<Rightarrow>
          if cstr s = [] then str_bytes ''NULL''
          else (case sqlite of
                  Some q \<Rightarrow> q (cstr s)
                | None \<Rightarrow> [chr (CHR 0x27)] @ cstr s @ [chr (CHR 0x27)]))"

text \<open>
  \<open>sgets\<close> copies one statement, up to and including a semicolon, from the input string to the
  buffer \<open>s\<close>.  The result is \<open>None\<close> for the null pointer (nothing copied, \<open>*input\<close> kept),
  otherwise the buffer and the remaining input.
\<close>

function sgets_skip :: "u8 list \<Rightarrow> nat \<Rightarrow> u8 list res" where
  "sgets_skip next len =
     (if 0 + 1 < len
      then (case next of
              [] \<Rightarrow> Inl OutOfBounds
            | c # next' \<Rightarrow> if c = chr (CHR 0x0A) then sgets_skip next' len else Inr next)
      else Inr next)"
  by pat_completeness auto
termination
  by (relation "measure (\<lambda>(next, len). length next)") auto

function sgets_copy ::
  "u8 list \<Rightarrow> nat \<Rightarrow> u8 list \<Rightarrow> nat \<Rightarrow> bool \<Rightarrow> (u8 list \<times> u8 list \<times> nat) res" where
  "sgets_copy next len s count eol =
     (if count + 1 < len
      then (case next of
              [] \<Rightarrow> Inl OutOfBounds
            | c # next' \<Rightarrow>
                if nz c \<and> \<not> eol
                then rbind (wr s count c) (\<lambda>s.
                     sgets_copy next' len s (Suc count) (c = chr (CHR 0x3B)))
                else Inr (s, next, count))
      else Inr (s, next, count))"
  by pat_completeness auto
termination
  by (relation "measure (\<lambda>(next, len, s, count, eol). length next)") auto

definition sgets :: "u8 list \<Rightarrow> nat \<Rightarrow> u8 list \<Rightarrow> (u8 list \<times> u8 list) option res" where
  "sgets s len input =
     rbind (sgets_skip input len) (\<lambda>next.
     rbind (sgets_copy next len s 0 False) (\<lambda>(s, next, count).
     if count = 0 then Inr None
     else rbind (wr s count 0) (\<lambda>s. Inr (Some (s, next)))))"

declare not_zero_from.simps [simp del] is_printable_from.simps [simp del]
  hex_str2bin_from.simps [simp del] bcd2str_from.simps [simp del]
  fread_unescape_from.simps [simp del] sgets_skip.simps [simp del] sgets_copy.simps [simp del]

section \<open>Packing and unpacking are inverse, in either bit order\<close>

text \<open>
  The four packing routines differ only in the place a bit takes inside its byte: bit \<open>k\<close>
  of a group of eight goes to place \<open>k\<close> in the \<open>lsb\<close> and to \<open>7 - k\<close> in the \<open>msb\<close>
  routines.  The contract they share is stated once, for any permutation of the eight places.
\<close>

locale bit_order =
  fixes pos :: "nat \<Rightarrow> nat"
  assumes pos_lt: "k < 8 \<Longrightarrow> pos k < 8"
    and pos_inj: "k < 8 \<Longrightarrow> l < 8 \<Longrightarrow> pos k = pos l \<longleftrightarrow> k = l"
    and pos_surj: "m < 8 \<Longrightarrow> \<exists>k < 8. pos k = m"
begin

lemma unpack:
  fixes inp out :: "u8 list"
  assumes "sz \<le> length out" and "sz \<le> 8 * length inp"
  shows "rfold (\<lambda>i out. let dbyte = i div 8; dbit = push_bit (pos (i mod 8)) (1 :: u8)
            in rbind (rd inp dbyte) (\<lambda>x. wr out i (if nz (x AND dbit) then 1 else 0))) [0..<sz] out
         = Inr (map (\<lambda>i. of_bool (bit (inp ! (i div 8)) (pos (i mod 8)))) [0..<sz] @ drop sz out)"
proof (rule rfold_fill [OF assms(1)])
  fix i and out :: "u8 list"
  assume "i < sz"
  with assms have "i div 8 < length inp" by simp
  moreover have "nz (x AND push_bit (pos (i mod 8)) 1) \<longleftrightarrow> bit x (pos (i mod 8))" for x :: u8
    by (simp add: and_exp_eq_0_iff_not_bit flip: push_bit_eq_mult)
  ultimately show "(let dbyte = i div 8; dbit = push_bit (pos (i mod 8)) (1 :: u8)
      in rbind (rd inp dbyte) (\<lambda>x. wr out i (if nz (x AND dbit) then 1 else 0)))
      = wr out i (of_bool (bit (inp ! (i div 8)) (pos (i mod 8))))"
    by (simp add: Let_def)
qed

lemma pack:
  fixes inp out :: "u8 list"
  assumes "sz \<le> length inp" and "sz \<le> 8 * length out"
  shows "\<exists>out'. rfold (\<lambda>i out. let dbyte = i div 8; dbit = push_bit (pos (i mod 8)) (1 :: u8)
            in rbind (rd inp i) (\<lambda>b. rbind (rd out dbyte) (\<lambda>x.
               wr out dbyte (if nz b then x OR dbit else x AND NOT dbit)))) [0..<sz] out = Inr out'
         \<and> length out' = length out
         \<and> (\<forall>j < length out. \<forall>k < 8. bit (out' ! j) (pos k) =
              (if 8 * j + k < sz then nz (inp ! (8 * j + k)) else bit (out ! j) (pos k)))"
proof -
  let ?P = "\<lambda>i (out' :: u8 list). length out' = length out
      \<and> (\<forall>j < length out. \<forall>k < 8. bit (out' ! j) (pos k) =
            (if 8 * j + k < i then nz (inp ! (8 * j + k)) else bit (out ! j) (pos k)))"
  show ?thesis
  proof (rule rfold_upt_rule [where P = ?P])
    fix i s
    assume i: "i < sz" and P: "?P i s"
    let ?s' = "s[i div 8 := (if nz (inp ! i) then s ! (i div 8) OR push_bit (pos (i mod 8)) 1
                 else s ! (i div 8) AND NOT (push_bit (pos (i mod 8)) 1))]"
    have d: "i div 8 < length s" using i assms(2) P by simp
    have *: "bit (?s' ! j) (pos k) =
        (if 8 * j + k < Suc i then nz (inp ! (8 * j + k)) else bit (out ! j) (pos k))"
      if "j < length out" "k < 8" for j k
    proof (cases "8 * j + k = i")
      case True
      with that have "j = i div 8" "k = i mod 8" by auto
      then show ?thesis
        using that d True pos_lt [of k] by (auto simp: bit_simps)
    next
      case False
      have "bit (?s' ! j) (pos k) = bit (s ! j) (pos k)"
      proof (cases "j = i div 8")
        case True
        with False have "k \<noteq> i mod 8" by auto
        then have "pos k \<noteq> pos (i mod 8)" using that pos_inj [of k "i mod 8"] by simp
        then show ?thesis
          using True d pos_lt [OF that(2)] by (auto simp: bit_simps)
      qed simp
      with P that False show ?thesis by auto
    qed
    have "(let dbyte = i div 8; dbit = push_bit (pos (i mod 8)) (1 :: u8)
            in rbind (rd inp i) (\<lambda>b. rbind (rd s dbyte) (\<lambda>x.
               wr s dbyte (if nz b then x OR dbit else x AND NOT dbit)))) = Inr ?s'"
      using d i assms(1) by (simp add: Let_def)
    moreover have "?P (Suc i) ?s'"
      using * P by (simp only: length_list_update) blast
    ultimately show "\<exists>s'. (let dbyte = i div 8; dbit = push_bit (pos (i mod 8)) (1 :: u8)
            in rbind (rd inp i) (\<lambda>b. rbind (rd s dbyte) (\<lambda>x.
               wr s dbyte (if nz b then x OR dbit else x AND NOT dbit)))) = Inr s' \<and> ?P (Suc i) s'"
      by blast
  qed simp
qed

text \<open>Unpacked bits pack again to the bytes they came from.\<close>

lemma bits_determine:
  assumes "\<And>k. k < 8 \<Longrightarrow> bit (x :: u8) (pos k) = bit y (pos k)"
  shows "x = y"
  unfolding u8_cases_bit
proof (intro allI impI)
  fix m :: nat assume "m < 8"
  then obtain k where "k < 8" "pos k = m" using pos_surj by blast
  with assms show "bit x m = bit y m" by auto
qed

lemma pack_unpack:
  fixes inp out buf :: "u8 list"
  assumes "length inp = n" and "n \<le> length out" and "8 * n \<le> length buf"
  shows "rfold (\<lambda>i out. let dbyte = i div 8; dbit = push_bit (pos (i mod 8)) (1 :: u8)
            in rbind (rd (map (\<lambda>i. of_bool (bit (inp ! (i div 8)) (pos (i mod 8)))) [0..<8 * n]
                           @ drop (8 * n) buf) i) (\<lambda>b. rbind (rd out dbyte) (\<lambda>x.
               wr out dbyte (if nz b then x OR dbit else x AND NOT dbit)))) [0..<8 * n] out
         = Inr (inp @ drop n out)"
proof -
  let ?bits = "map (\<lambda>i. of_bool (bit (inp ! (i div 8)) (pos (i mod 8)))) [0..<8 * n]
      @ drop (8 * n) buf :: u8 list"
  have "8 * n \<le> length ?bits" "8 * n \<le> 8 * length out" using assms(2) by simp_all
  from pack [OF this] obtain out' where out': "rfold (\<lambda>i out. let dbyte = i div 8;
            dbit = push_bit (pos (i mod 8)) (1 :: u8)
            in rbind (rd ?bits i) (\<lambda>b. rbind (rd out dbyte) (\<lambda>x.
               wr out dbyte (if nz b then x OR dbit else x AND NOT dbit)))) [0..<8 * n] out = Inr out'"
    and len: "length out' = length out"
    and bits: "\<And>j k. j < length out \<Longrightarrow> k < 8 \<Longrightarrow> bit (out' ! j) (pos k) =
              (if 8 * j + k < 8 * n then nz (?bits ! (8 * j + k)) else bit (out ! j) (pos k))"
    by blast
  have "out' = inp @ drop n out"
  proof (rule nth_equalityI)
    fix j assume j: "j < length out'"
    show "out' ! j = (inp @ drop n out) ! j"
    proof (rule bits_determine)
      fix k :: nat assume k: "k < 8"
      show "bit (out' ! j) (pos k) = bit ((inp @ drop n out) ! j) (pos k)"
      proof (cases "j < n")
        case True
        with k have "8 * j + k < 8 * n" by simp
        with True k j len bits assms(1) show ?thesis by (simp add: nth_append)
      next
        case False
        with k j len bits [of j k] assms show ?thesis by (simp add: nth_append)
      qed
    qed
  qed (use len assms in simp)
  with out' show ?thesis by simp
qed

end

interpretation lsb: bit_order "\<lambda>k. k"
  by unfold_locales auto

interpretation msb: bit_order "\<lambda>k. 7 - k"
proof unfold_locales
  fix m :: nat assume "m < 8"
  then show "\<exists>k < 8. 7 - k = m" by (intro exI [of _ "7 - m"]) auto
qed auto

lemma expand_lsb_bits:
  "sz \<le> length out \<Longrightarrow> sz \<le> 8 * length inp \<Longrightarrow>
   expand_lsb inp out sz =
     Inr (map (\<lambda>i. of_bool (bit (inp ! (i div 8)) (i mod 8))) [0..<sz] @ drop sz out)"
  unfolding expand_lsb_def by (rule lsb.unpack)

lemma expand_msb_bits:
  "sz \<le> length out \<Longrightarrow> sz \<le> 8 * length inp \<Longrightarrow>
   expand_msb inp out sz =
     Inr (map (\<lambda>i. of_bool (bit (inp ! (i div 8)) (7 - i mod 8))) [0..<sz] @ drop sz out)"
  unfolding expand_msb_def by (rule msb.unpack)

section \<open>Hexadecimal conversion\<close>

lemma length_hexchar [simp]: "length hexchar = 16"
  by (simp add: hexchar_def str_bytes_def)

lemma hexchar_digits: "\<forall>h \<in> set [0..<16]. nz (hexchar ! h) \<and> hex_digit (hexchar ! h) = Some (of_nat h)"
  by code_simp

lemma hexchar_digit:
  "h < 16 \<Longrightarrow> nz (hexchar ! h)"
  "h < 16 \<Longrightarrow> hex_digit (hexchar ! h) = Some (of_nat h)"
  using hexchar_digits by simp_all

lemma u8_nibbles: "push_bit 4 (drop_bit 4 v) OR (v AND 0xf) = (v :: u8)"
proof -
  have "(0xf :: u8) = mask 4" by (simp add: mask_eq_exp_minus_1)
  then show ?thesis
    by (simp only: \<open>0xf = mask 4\<close>) (rule bit_word_eqI, auto simp: bit_simps)
qed

lemma u8_nibble_lt:
  "unat (drop_bit 4 (v :: u8)) < 16"
  "unat (v AND 0xf) < 16"
proof -
  show "unat (drop_bit 4 v) < 16"
    unfolding drop_bit_eq_div unat_div_distrib using unsigned_less [of v, where 'a = nat] by simp
  show "unat (v AND 0xf) < 16"
    using unat_le_mask [of v "0xf"] by simp
qed

lemma hex_bin2str_text:
  assumes "len \<le> length vec" and "2 * len \<le> length str"
  shows "\<exists>str'. hex_bin2str vec str len = Inr (str', len) \<and> length str' = length str
    \<and> drop (2 * len) str' = drop (2 * len) str
    \<and> (\<forall>i < len. str' ! (2 * i) = hexchar ! unat (drop_bit 4 (vec ! i))
              \<and> str' ! (2 * i + 1) = hexchar ! unat (vec ! i AND 0xf))"
proof -
  let ?P = "\<lambda>i str'. length str' = length str \<and> drop (2 * i) str' = drop (2 * i) str
    \<and> (\<forall>j < i. str' ! (2 * j) = hexchar ! unat (drop_bit 4 (vec ! j))
              \<and> str' ! (2 * j + 1) = hexchar ! unat (vec ! j AND 0xf))"
  let ?f = "\<lambda>i str. rbind (rd vec i) (\<lambda>v.
              rbind (rd hexchar (unat (drop_bit 4 v))) (\<lambda>h.
              rbind (rd hexchar (unat (v AND 0x0f))) (\<lambda>l.
              rbind (wr str (2 * i + 0) h) (\<lambda>str. wr str (2 * i + 1) l))))"
  have "\<exists>s'. rfold ?f [0..<len] str = Inr s' \<and> ?P len s'"
  proof (rule rfold_upt_rule)
    fix i s assume i: "i < len" and P: "?P i s"
    let ?s' = "s[2 * i := hexchar ! unat (drop_bit 4 (vec ! i)),
                 2 * i + 1 := hexchar ! unat (vec ! i AND 0xf)]"
    have "?f i s = Inr ?s'"
      using i P assms u8_nibble_lt by simp
    moreover have "drop (2 * Suc i) s = drop (2 * Suc i) str"
      using P by (metis add.commute drop_drop mult_Suc_right)
    then have "?P (Suc i) ?s'"
      using i P assms by (auto simp: nth_list_update less_Suc_eq)
    ultimately show "\<exists>s'. ?f i s = Inr s' \<and> ?P (Suc i) s'" by blast
  qed simp
  then show ?thesis
    by (auto simp: hex_bin2str_def)
qed

lemma hex_str2bin_pair:
  assumes "i < len" "i < length vec" "2 * i + 1 < length str" "h < 16" "l < 16"
    and "str ! (2 * i) = hexchar ! h" and "str ! (2 * i + 1) = hexchar ! l"
  shows "hex_str2bin_from str vec len (2 * i) =
         hex_str2bin_from str (vec[i := push_bit 4 (of_nat h) OR of_nat l]) len (2 * Suc i)"
  using assms hexchar_digit
  by (simp add: hex_str2bin_from.simps [of str _ len "2 * i"]
        hex_str2bin_from.simps [of str _ len "Suc (2 * i)"])

lemma hex_str2bin_digits:
  assumes "len \<le> length vec" "len \<le> length out" "2 * len < length str"
    and "\<forall>i < len. str ! (2 * i) = hexchar ! unat (drop_bit 4 (vec ! i))
              \<and> str ! (2 * i + 1) = hexchar ! unat (vec ! i AND 0xf)"
    and "i \<le> len" and "take i out = take i vec"
  shows "hex_str2bin_from str out len (2 * i) = Inr (take len vec @ drop len out, len)"
  using assms(2,5,6)
proof (induction "len - i" arbitrary: i out)
  case 0
  then have "i = len" by simp
  with 0 have "out = take len vec @ drop len out"
    by (metis append_take_drop_id)
  with \<open>i = len\<close> assms(3) show ?case
    by (simp add: hex_str2bin_from.simps [of str out len "2 * len"])
next
  case (Suc m)
  then have i: "i < len" by simp
  let ?out = "out[i := vec ! i]"
  have "push_bit 4 (of_nat (unat (drop_bit 4 (vec ! i)))) OR of_nat (unat (vec ! i AND 0xf)) = vec ! i"
    by (simp add: u8_nibbles)
  with i Suc.prems assms u8_nibble_lt have "hex_str2bin_from str out len (2 * i) =
      hex_str2bin_from str ?out len (2 * Suc i)"
    by (subst hex_str2bin_pair [where h = "unat (drop_bit 4 (vec ! i))"
          and l = "unat (vec ! i AND 0xf)"]) auto
  moreover have "take (Suc i) ?out = take (Suc i) vec"
    using i Suc.prems assms(1) by (simp add: take_Suc_conv_app_nth)
  ultimately show ?case
    using Suc.hyps(1) [of "Suc i" ?out] Suc.hyps(2) Suc.prems i by simp
qed

section \<open>Escaped frames\<close>

text \<open>
  The framing of the diagnostic protocol, against which \<open>fread_unescape\<close> reads: the two
  reserved bytes are sent as an escape byte and the byte with bit 5 flipped.
\<close>

definition escape_byte :: "u8 \<Rightarrow> u8 list" where
  "escape_byte b = (if b = 0x7e \<or> b = 0x7d then [0x7d, b XOR 0x20] else [b])"

lemma fread_unescape_step:
  assumes "i < len" "i < length msg"
  shows "fread_unescape_from (escape_byte b @ f) msg len i =
         fread_unescape_from f (msg[i := b]) len (Suc i)"
  using assms
  by (auto simp: escape_byte_def fread_unescape_from.simps [of "_ # _"])

lemma fread_unescape_frame:
  "i + length bs < len \<Longrightarrow> len \<le> length msg \<Longrightarrow>
   \<exists>msg'. fread_unescape_from (concat (map escape_byte bs) @ 0x7e # f) msg len i =
            Inr (msg', i + length bs, f)
        \<and> take (i + length bs) msg' = take i msg @ bs"
proof (induction bs arbitrary: i msg)
  case Nil
  then show ?case by (simp add: fread_unescape_from.simps)
next
  case (Cons b bs)
  then have "i < len" "i < length msg" by simp_all
  moreover from Cons obtain msg' where
    "fread_unescape_from (concat (map escape_byte bs) @ 0x7e # f) (msg[i := b]) len (Suc i) =
       Inr (msg', Suc i + length bs, f)"
    "take (Suc i + length bs) msg' = take (Suc i) (msg[i := b]) @ bs"
    by (metis (no_types, lifting) add_Suc_right add_Suc length_Cons length_list_update)
  ultimately show ?case
    by (simp add: fread_unescape_step take_Suc_conv_app_nth)
qed

section \<open>BCD digits\<close>

text \<open>The digits \<open>bcd2str\<close> is to print: the nibbles up to the first filler (15).\<close>

definition bcd_nibble :: "u8 list \<Rightarrow> nat \<Rightarrow> u8" where
  "bcd_nibble bcd i = (if odd i then drop_bit 4 (bcd ! (i div 2)) else bcd ! (i div 2) AND 0xf)"

definition bcd_digits :: "u8 list \<Rightarrow> nat \<Rightarrow> nat \<Rightarrow> u8 list" where
  "bcd_digits bcd len off = takeWhile (\<lambda>n. n < 15) (map (bcd_nibble bcd) [off..<len])"

definition bcd_text :: "u8 list \<Rightarrow> nat \<Rightarrow> nat \<Rightarrow> u8 list" where
  "bcd_text bcd len off = map (\<lambda>n. bcd_code ! unat n) (bcd_digits bcd len off)"

lemma length_bcd_code [simp]: "length bcd_code = 15"
  by (simp add: bcd_code_def str_bytes_def)

lemma bcd_digits_unfold:
  "bcd_digits bcd len i =
     (if i < len \<and> bcd_nibble bcd i < 15 then bcd_nibble bcd i # bcd_digits bcd len (Suc i) else [])"
  by (cases "i < len") (auto simp: bcd_digits_def upt_conv_Cons)

lemma length_bcd_text [simp]: "length (bcd_text bcd len off) = length (bcd_digits bcd len off)"
  by (simp add: bcd_text_def)

lemma length_bcd_digits: "length (bcd_digits bcd len off) \<le> len - off"
  unfolding bcd_digits_def by (metis length_map length_takeWhile_le length_upt)

lemma bcd2str_from_text:
  assumes "len \<le> 2 * length bcd" and "k \<le> length s" and "i \<le> len"
  shows "bcd2str_from bcd len i s k =
    (if k + length (bcd_digits bcd len i) < length s
     then Inr (take k s @ bcd_text bcd len i @ 0 # drop (Suc (k + length (bcd_digits bcd len i))) s,
               i + length (bcd_digits bcd len i))
     else Inl OutOfBounds)"
  using assms(2,3)
proof (induction "len - i" arbitrary: i s k rule: less_induct)
  case less
  let ?n = "bcd_nibble bcd i"
  show ?case
  proof (cases "i < len \<and> ?n < 15")
    case True
    then have i: "i div 2 < length bcd" and n: "unat ?n < 15"
      using assms(1) by (auto simp: word_less_nat_alt)
    have step: "bcd2str_from bcd len i s k = rbind (wr s k (bcd_code ! unat ?n))
        (\<lambda>s. bcd2str_from bcd len (Suc i) s (Suc k))"
      using True i n by (subst bcd2str_from.simps) (simp add: bcd_nibble_def Let_def)
    show ?thesis
    proof (cases "k < length s")
      case k: True
      let ?s = "s[k := bcd_code ! unat ?n]"
      have "bcd2str_from bcd len (Suc i) ?s (Suc k) =
        (if Suc k + length (bcd_digits bcd len (Suc i)) < length ?s
         then Inr (take (Suc k) ?s @ bcd_text bcd len (Suc i) @
                     0 # drop (Suc (Suc k + length (bcd_digits bcd len (Suc i)))) ?s,
                   Suc i + length (bcd_digits bcd len (Suc i)))
         else Inl OutOfBounds)"
        using True k by (intro less.hyps) auto
      with step k True show ?thesis
        by (simp add: bcd_digits_unfold [of bcd len i] bcd_text_def take_Suc_conv_app_nth)
    next
      case False
      with step True less.prems show ?thesis
        by (simp add: bcd_digits_unfold [of bcd len i] wr_def)
    qed
  next
    case False
    have "bcd2str_from bcd len i s k = rbind (wr s k 0) (\<lambda>s. Inr (s, i))"
    proof (cases "i < len")
      case True
      with assms(1) have "i div 2 < length bcd" by simp
      with True False show ?thesis
        by (subst bcd2str_from.simps) (simp add: bcd_nibble_def Let_def)
    next
      case False
      then show ?thesis by (subst bcd2str_from.simps) simp
    qed
    with False show ?thesis
      by (auto simp: bcd_digits_unfold [of bcd len i] bcd_text_def wr_def upd_conv_take_nth_drop)
  qed
qed

section \<open>Properties\<close>

text \<open>Packing the bits unpacked from \<open>n\<close> bytes gives the bytes back, whatever the
  destination held before; the rest of the destination is untouched (\<open>expand_lsb\<close>,
  \<open>compress_lsb\<close>).\<close>

theorem compress_expand_lsb:
  assumes "length inp = n" and "8 * n \<le> length buf" and "n \<le> length out"
  shows "rbind (expand_lsb inp buf (8 * n)) (\<lambda>bits. compress_lsb bits out (8 * n))
         = Inr (inp @ drop n out)"
  using assms lsb.pack_unpack [OF assms(1,3,2)]
  by (simp add: expand_lsb_bits compress_lsb_def)

theorem compress_expand_lsb_witness:
  "rbind (expand_lsb [0xc5] (replicate 8 7) (8 * 1)) (\<lambda>bits. compress_lsb bits [1, 2] (8 * 1))
   = Inr ([0xc5] @ drop 1 [1, 2])"
  by (rule compress_expand_lsb) simp_all

text \<open>Binary data written as hexadecimal text with \<open>hex_bin2str\<close>, terminated by a NUL, is
  read back unchanged by \<open>hex_str2bin\<close>, which reports the number of bytes.\<close>

theorem hex_roundtrip:
  assumes "len \<le> length vec" and "2 * len < length str" and "str ! (2 * len) = 0"
    and "len \<le> length out"
  shows "rbind (hex_bin2str vec str len) (\<lambda>(str', n). hex_str2bin str' out n)
         = Inr (take len vec @ drop len out, len)"
proof -
  from assms hex_bin2str_text [of len vec str] obtain str' where
    s: "hex_bin2str vec str len = Inr (str', len)" "length str' = length str"
    "\<forall>i < len. str' ! (2 * i) = hexchar ! unat (drop_bit 4 (vec ! i))
              \<and> str' ! (2 * i + 1) = hexchar ! unat (vec ! i AND 0xf)"
    by auto
  then show ?thesis
    using assms hex_str2bin_digits [of len vec out str' 0] by (simp add: hex_str2bin_def)
qed

theorem hex_roundtrip_witness:
  "rbind (hex_bin2str [0x3f, 0xa0] (replicate 5 0) 2) (\<lambda>(str', n). hex_str2bin str' [9, 9, 9] n)
   = Inr (take 2 [0x3f, 0xa0] @ drop 2 [9, 9, 9], 2)"
  by (rule hex_roundtrip) simp_all

text \<open>A frame escaped as the diagnostic protocol prescribes and closed by the flag byte is
  recovered by \<open>fread_unescape\<close>: the buffer starts with the original bytes, their number is
  returned and the file is left behind the flag.\<close>

theorem fread_unescape_escaped:
  assumes "length bs < len" and "len \<le> length msg"
  shows "\<exists>msg'. fread_unescape (concat (map escape_byte bs) @ 0x7e # f) msg len
                  = Inr (msg', length bs, f) \<and> take (length bs) msg' = bs"
  using fread_unescape_frame [of 0 bs len msg f] assms by (simp add: fread_unescape_def)

theorem fread_unescape_escaped_witness:
  "\<exists>msg'. fread_unescape (concat (map escape_byte [0x10, 0x7e, 0x7d]) @ 0x7e # [1, 2]) [0, 0, 0, 0] 4
            = Inr (msg', length [0x10, 0x7e, 0x7d :: u8], [1, 2])
        \<and> take (length [0x10, 0x7e, 0x7d :: u8]) msg' = [0x10, 0x7e, 0x7d]"
  by (rule fread_unescape_escaped) simp_all

text \<open>\<open>bcd2str\<close> writes exactly the digits before the first filler nibble, followed by a NUL,
  and returns the index of the nibble it stopped at; it runs over the end of the destination
  exactly when the destination has no room for the digits and the NUL.\<close>

theorem bcd2str_text:
  assumes "len \<le> 2 * length bcd" and "off \<le> len"
  shows "bcd2str bcd s len off =
    (if length (bcd_digits bcd len off) < length s
     then Inr (bcd_text bcd len off @ 0 # drop (Suc (length (bcd_digits bcd len off))) s,
               off + length (bcd_digits bcd len off))
     else Inl OutOfBounds)"
  using bcd2str_from_text [OF assms(1) _ assms(2), of 0 s] by (simp add: bcd2str_def)

theorem bcd2str_text_witness:
  "bcd2str [0x21, 0xf3] (replicate 4 1) 4 0 =
    (if length (bcd_digits [0x21, 0xf3] 4 0) < length (replicate 4 (1 :: u8))
     then Inr (bcd_text [0x21, 0xf3] 4 0 @ 0 # drop (Suc (length (bcd_digits [0x21, 0xf3] 4 0))) (replicate 4 1),
               0 + length (bcd_digits [0x21, 0xf3] 4 0))
     else Inl OutOfBounds)"
  by (rule bcd2str_text) simp_all

end
