(* ===== verification/Crc.thy ===== *)
theory Crc
  imports Prelude
begin

text \<open>
  The parity codes of \<open>gsm-parser/crc.c\<close>: polynomial division over bit arrays
  (\<open>parity_encode\<close>, \<open>parity_check\<close>), used for the FIRE code of the signalling channels and for
  the CRC-16 of GPRS, and the shift register decoder of the FIRE code (\<open>FC_check_crc\<close>).  The
  division loop is related to an abstract remainder on bit lists, whose linearity gives the round
  trip and the detection of error bursts.
\<close>

section \<open>Definitions\<close>

subsection \<open>Polynomial division\<close>

text \<open>
  The loop both parity functions run over their copy \<open>buf\<close> of the data: where the leading bit is
  set, the generator polynomial is subtracted (xor) in place.
\<close>

definition parity_xor :: "u8 list \<Rightarrow> nat \<Rightarrow> nat \<Rightarrow> u8 list \<Rightarrow> u8 list res" where
  "parity_xor poly psize q buf =
     rfold (\<lambda>i buf. rbind (rd buf (q + i)) (\<lambda>x. rbind (rd poly i) (\<lambda>p. wr buf (q + i) (x XOR p))))
       [0..<psize + 1] buf"

definition parity_divide :: "u8 list \<Rightarrow> nat \<Rightarrow> nat \<Rightarrow> u8 list \<Rightarrow> u8 list res" where
  "parity_divide poly dsize psize buf =
     rfold (\<lambda>q buf. rbind (rd buf q) (\<lambda>x. if nz x then parity_xor poly psize q buf else Inr buf))
       [0..<dsize] buf"

definition parity_encode :: "u8 list \<Rightarrow> nat \<Rightarrow> u8 list \<Rightarrow> u8 list \<Rightarrow> nat \<Rightarrow> u8 list res" where
  "parity_encode data dsize poly parity psize =
     rbind (rdn data 0 dsize) (\<lambda>d.
     rbind (parity_divide poly dsize psize (d @ replicate psize 0)) (\<lambda>buf.
     rfold (\<lambda>i parity. rbind (rd buf (dsize + i)) (\<lambda>x. wr parity i (if nz x then 0 else 1)))
       [0..<psize] parity))"

text \<open>The result of \<open>parity_check\<close> is that of \<open>memcmp\<close>: here, whether it is not 0.\<close>

definition parity_check :: "u8 list \<Rightarrow> nat \<Rightarrow> u8 list \<Rightarrow> u8 list \<Rightarrow> nat \<Rightarrow> bool res" where
  "parity_check data dsize poly remainder psize =
     rbind (rdn data 0 (dsize + psize)) (\<lambda>d.
     rbind (parity_divide poly dsize psize d) (\<lambda>buf.
     rbind (rdn buf dsize psize) (\<lambda>r.
     rbind (rdn remainder 0 psize) (\<lambda>want. Inr (r \<noteq> want)))))"

subsection \<open>FIRE code decoder\<close>

record FC_CTX =
  crc_size :: u32
  data_size :: u32
  syn_start :: u32
  syndrome_reg :: "u32 list"

definition FC_init :: "FC_CTX \<Rightarrow> u32 \<Rightarrow> u32 \<Rightarrow> FC_CTX" where
  "FC_init ctx crc_sz data_sz = ctx\<lparr>crc_size := crc_sz, data_size := data_sz, syn_start := 0\<rparr>"

text \<open>\<open>REM(x, 40)\<close> on unsigned operands, as an index of the syndrome register.\<close>

definition REM40 :: "u32 \<Rightarrow> nat" where
  "REM40 x = unat (x mod 40)"

text \<open>
  One shift of the register.  The source copies the register to a temporary, whose cells it then
  assigns from the old register, and copies the temporary back; the feedback taps are assigned
  before the input taps.  The result is the number of the 28 leading cells that are set.

  The temporary is declared with \<open>sizeof ctx->syndrome_reg\<close> cells, which is the size in bytes: it has
  160 ints, and the first copy, of the size of the temporary, reads 120 ints behind the register.
  \<open>behind\<close> is the number of ints behind the register that may be read; what they hold is copied to
  cells of the temporary that nothing reads.
\<close>

definition FC_tap :: "u32 list \<Rightarrow> u32 \<Rightarrow> u32 \<Rightarrow> u32 list \<Rightarrow> u32 list res" where
  "FC_tap reg x at temp = rbind (rd reg (REM40 at)) (\<lambda>r. wr temp (REM40 at) (r XOR x))"

definition FC_syndrome_shift :: "nat \<Rightarrow> FC_CTX \<Rightarrow> u32 \<Rightarrow> (FC_CTX \<times> u32) res" where
  "FC_syndrome_shift behind ctx b =
    (let start = (if syn_start ctx = 0 then 39 else syn_start ctx - 1);
         reg = syndrome_reg ctx
     in if length reg + behind < 4 * length reg then Inl OutOfBounds
        else
        rbind (rd reg (unat start)) (\<lambda>fb.
        rbind (rfold (\<lambda>t temp. FC_tap reg fb (start + t) temp) [3, 17, 23, 26] reg) (\<lambda>temp.
        rbind (rfold (\<lambda>t temp. FC_tap reg b (start + t) temp) [4, 6, 10, 16, 27, 29, 33, 39] temp) (\<lambda>temp.
        rbind (wr temp (unat start) (fb XOR b)) (\<lambda>temp.
        rbind (rfold (\<lambda>i n. rbind (rd temp (REM40 (start + of_nat i))) (\<lambda>r. Inr (n + r))) [0..<28] 0) (\<lambda>n.
        Inr (ctx\<lparr>syn_start := start, syndrome_reg := temp\<rparr>, n)))))))"

text \<open>
  The search for the position of the error burst: the register runs on with zero input.  The
  bound of the loop is \<open>data_size + crc_size\<close>, which no shift changes.
\<close>

function FC_search :: "nat \<Rightarrow> nat \<Rightarrow> FC_CTX \<Rightarrow> u32 \<Rightarrow> nat \<Rightarrow> (FC_CTX \<times> u32 \<times> nat) res" where
  "FC_search behind bound ctx n error_index =
     (if error_index < bound
      then rbind (FC_syndrome_shift behind ctx 0) (\<lambda>(ctx, n).
           if n = 0 then Inr (ctx, n, Suc error_index)
           else FC_search behind bound ctx n (Suc error_index))
      else Inr (ctx, n, error_index))"
  by pat_completeness auto
termination
  by (relation "measure (\<lambda>(behind, bound, ctx, n, e). bound - e)") auto

declare FC_search.simps [simp del]

definition FC_check_crc :: "nat \<Rightarrow> FC_CTX \<Rightarrow> u8 list \<Rightarrow> u8 list \<Rightarrow> (FC_CTX \<times> u8 list \<times> bool) res" where
  "FC_check_crc behind ctx input_bits control_data =
    (let ctx = ctx\<lparr>syn_start := 0, syndrome_reg := replicate 40 0\<rparr>;
         ds = unat (data_size ctx)
     in
     rbind (rfold (\<lambda>i (ctx, n, cd). rbind (rd input_bits i) (\<lambda>b.
              rbind (FC_syndrome_shift behind ctx (ucast b)) (\<lambda>(ctx, n).
              rbind (wr cd i b) (\<lambda>cd. Inr (ctx, n, cd))))) [0..<ds] (ctx, 0, control_data))
       (\<lambda>(ctx, n, cd).
     rbind (rfold (\<lambda>i (ctx, n). rbind (rd input_bits (i + ds)) (\<lambda>b.
              FC_syndrome_shift behind ctx (1 - ucast b))) [0..<unat (crc_size ctx)] (ctx, n))
       (\<lambda>(ctx, n).
     rbind (if n = 0 then Inr (ctx, 0)
            else rbind (FC_syndrome_shift behind ctx 0) (\<lambda>(ctx, n).
                 rbind (FC_search behind (unat (data_size ctx + crc_size ctx)) ctx n 2) (\<lambda>(ctx, n, e). Inr (ctx, e))))
       (\<lambda>(ctx, error_index).
     if error_index = 224 then Inr (ctx, cd, False)
     else
       let syn_index = (if error_index = 0 then 0 else error_index - 1)
       in rbind
            (if error_index < 184
             then rfold (\<lambda>j cd. if j < 184
                    then rbind (rd cd j) (\<lambda>c.
                         rbind (rd (syndrome_reg ctx)
                                   (REM40 (syn_start ctx + 39 - of_nat j + of_nat syn_index))) (\<lambda>r.
                         wr cd j (c XOR ucast r)))
                    else Inr cd) [error_index..<error_index + 12] cd
             else if error_index > 212
             then rfold (\<lambda>j cd. rbind (rd cd j) (\<lambda>c.
                         rbind (rd (syndrome_reg ctx)
                                   (REM40 (syn_start ctx + 39 - of_nat j - 224 + of_nat syn_index))) (\<lambda>r.
                         wr cd j (c XOR ucast r)))) [0..<error_index - 212] cd
             else Inr cd)
            (\<lambda>cd. Inr (ctx, cd, True))))))"

section \<open>Remainders of bit lists\<close>

definition is_bits :: "u8 list \<Rightarrow> bool" where
  "is_bits xs = list_all (\<lambda>x. x = 0 \<or> x = 1) xs"

lemma is_bits_simps [simp]:
  "is_bits []"
  "is_bits (x # xs) \<longleftrightarrow> (x = 0 \<or> x = 1) \<and> is_bits xs"
  "is_bits (xs @ ys) \<longleftrightarrow> is_bits xs \<and> is_bits ys"
  "is_bits (replicate n 0)"
  by (auto simp: is_bits_def list_all_iff)

lemma is_bits_nth: "is_bits xs \<Longrightarrow> i < length xs \<Longrightarrow> xs ! i = 0 \<or> xs ! i = 1"
  by (auto simp: is_bits_def list_all_length)

lemma is_bits_take_drop [simp]:
  "is_bits xs \<Longrightarrow> is_bits (take n xs)"
  "is_bits xs \<Longrightarrow> is_bits (drop n xs)"
  by (auto simp: is_bits_def list_all_iff dest: in_set_takeD in_set_dropD)

text \<open>Exclusive or of a bit list with the beginning of another one.\<close>

fun xor_into :: "u8 list \<Rightarrow> u8 list \<Rightarrow> u8 list" where
  "xor_into (x # xs) (y # ys) = (y XOR x) # xor_into xs ys"
| "xor_into xs ys = ys"

text \<open>
  The remainder of the division by a polynomial with leading coefficient 1 and further
  coefficients \<open>g\<close>, after \<open>n\<close> steps of the division.
\<close>

primrec prem :: "u8 list \<Rightarrow> nat \<Rightarrow> u8 list \<Rightarrow> u8 list" where
  "prem g 0 xs = xs"
| "prem g (Suc n) xs = prem g n (if nz (hd xs) then xor_into g (tl xs) else tl xs)"

lemma length_xor_into [simp]: "length (xor_into xs ys) = length ys"
  by (induction xs ys rule: xor_into.induct) auto

lemma xor_into_Nil [simp]: "xor_into [] ys = ys"
  by (cases ys) auto

lemma is_bits_xor_into [simp]: "is_bits xs \<Longrightarrow> is_bits ys \<Longrightarrow> is_bits (xor_into xs ys)"
  by (induction xs ys rule: xor_into.induct) auto

lemma nth_xor_into:
  "i < length ys \<Longrightarrow> xor_into xs ys ! i = (if i < length xs then ys ! i XOR xs ! i else ys ! i)"
proof (induction xs ys arbitrary: i rule: xor_into.induct)
  case (1 x xs y ys)
  then show ?case by (cases i) auto
qed auto

lemma length_prem: "n \<le> length xs \<Longrightarrow> length (prem g n xs) = length xs - n"
  by (induction n arbitrary: xs) auto

lemma is_bits_prem: "is_bits g \<Longrightarrow> is_bits xs \<Longrightarrow> n \<le> length xs \<Longrightarrow> is_bits (prem g n xs)"
proof (induction n arbitrary: xs)
  case (Suc n)
  then show ?case by (cases xs) auto
qed simp

text \<open>Division is linear.\<close>

lemma xor_into_xor:
  "length xs = length ys \<Longrightarrow> xor_into g (xor_into xs ys) = xor_into xs (xor_into g ys)"
  by (rule nth_equalityI) (auto simp: nth_xor_into ac_simps)

lemma xor_into_twice:
  "length xs = length ys \<Longrightarrow> xor_into (xor_into g xs) (xor_into g ys) = xor_into xs ys"
proof (rule nth_equalityI)
  fix i assume "length xs = length ys" "i < length (xor_into (xor_into g xs) (xor_into g ys))"
  moreover have "(a XOR g) XOR (b XOR g) = a XOR b" for a b g :: u8
    by (rule bit_word_eqI) (auto simp: bit_simps)
  ultimately show "xor_into (xor_into g xs) (xor_into g ys) ! i = xor_into xs ys ! i"
    by (auto simp: nth_xor_into)
qed simp

lemma xor_into_assoc:
  "length xs = length ys \<Longrightarrow> xor_into (xor_into g xs) ys = xor_into g (xor_into xs ys)"
  by (rule nth_equalityI) (auto simp: nth_xor_into ac_simps)

lemma prem_xor:
  assumes g: "is_bits g"
    and "is_bits xs" "is_bits ys" "length xs = length ys" "n \<le> length xs"
  shows "prem g n (xor_into xs ys) = xor_into (prem g n xs) (prem g n ys)"
  using assms(2-)
proof (induction n arbitrary: xs ys)
  case (Suc n)
  then obtain x xs' y ys' where xy: "xs = x # xs'" "ys = y # ys'"
    by (cases xs; cases ys) auto
  let ?s = "\<lambda>z zs. if nz z then xor_into g zs else zs"
  have "prem g (Suc n) (xor_into xs ys) = prem g n (?s (y XOR x) (xor_into xs' ys'))"
    by (simp add: xy)
  also have "?s (y XOR x) (xor_into xs' ys') = xor_into (?s x xs') (?s y ys')"
    using Suc.prems xy xor_into_xor [of xs' ys' g] xor_into_twice [of xs' ys' g]
      xor_into_assoc [of xs' ys' g] by auto
  also have "prem g n (xor_into (?s x xs') (?s y ys')) =
      xor_into (prem g n (?s x xs')) (prem g n (?s y ys'))"
    using Suc.prems xy g by (intro Suc.IH) auto
  finally show ?case
    by (simp add: xy)
qed simp

lemma prem_zeros: "j \<le> n \<Longrightarrow> prem g n (replicate j 0 @ xs) = prem g (n - j) xs"
proof (induction n arbitrary: j)
  case (Suc n)
  then show ?case by (cases j) auto
qed simp

text \<open>
  With a generator whose last coefficient is 1 the remainder register is never cleared by zero
  input: a window of \<open>length g\<close> bits that is not all zero stays so.
\<close>

lemma prem_nonzero:
  assumes "g \<noteq> []" "last g = 1" "length w = length g" and "w \<noteq> replicate (length g) 0"
  shows "prem g n (w @ replicate n 0) \<noteq> replicate (length g) 0"
  using assms(3,4)
proof (induction n arbitrary: w)
  case (Suc n)
  from Suc.prems assms(1) obtain x w' where w: "w = x # w'" by (cases w) auto
  let ?w = "if nz x then xor_into g (w' @ [0]) else w' @ [0]"
  have "prem g (Suc n) (w @ replicate (Suc n) 0) = prem g n (?w @ replicate n 0)"
  proof -
    have "xor_into g (w' @ 0 # replicate n 0) = xor_into g (w' @ [0]) @ replicate n 0"
      using Suc.prems w by (intro nth_equalityI) (auto simp: nth_xor_into nth_append nth_Cons')
    then show ?thesis by (simp add: w)
  qed
  moreover have "?w \<noteq> replicate (length g) 0"
  proof (cases "nz x")
    case True
    have "xor_into g (w' @ [0]) ! (length g - 1) = 1"
      using assms(1,2) Suc.prems w
      by (auto simp: nth_xor_into nth_append last_conv_nth)
    with True assms(1) show ?thesis by (metis diff_less length_greater_0_conv nth_replicate zero_neq_one
          zero_less_one)
  next
    case False
    with Suc.prems w have "w' \<noteq> replicate (length w') 0"
      by (metis length_Cons replicate_Suc)
    then have "w' @ [0] \<noteq> replicate (length w') 0 @ [0]" by simp
    with False Suc.prems w show ?thesis
      by (metis length_Cons replicate_Suc replicate_append_same)
  qed
  ultimately show ?case
    using Suc.IH [of ?w] Suc.prems w by simp
qed simp

section \<open>The division loop computes the remainder\<close>

lemma parity_xor_into:
  assumes "q + psize < length buf" and "psize < length poly"
  shows "parity_xor poly psize q buf =
         Inr (take q buf @ xor_into (take (psize + 1) poly) (drop q buf))"
proof -
  let ?r = "\<lambda>i. take q buf @ xor_into (take i poly) (drop q buf)"
  let ?f = "\<lambda>i buf. rbind (rd buf (q + i)) (\<lambda>x. rbind (rd poly i) (\<lambda>p. wr buf (q + i) (x XOR p)))"
  have "\<exists>s'. rfold ?f [0..<psize + 1] buf = Inr s' \<and> s' = ?r (psize + 1)"
  proof (rule rfold_upt_rule)
    fix i s assume i: "i < psize + 1" and s: "s = ?r i"
    have "?f i s = Inr (?r (Suc i))"
      using i s assms
      by simp (intro nth_equalityI;
          auto simp: nth_append nth_list_update nth_xor_into min_def take_Suc_conv_app_nth)
    with s show "\<exists>s'. ?f i s = Inr s' \<and> s' = ?r (Suc i)" by simp
  qed simp
  then show ?thesis by (simp add: parity_xor_def)
qed

lemma parity_divide_rem:
  assumes "length buf = dsize + psize" and "length poly = psize + 1" and "poly ! 0 = 1"
  shows "\<exists>buf'. parity_divide poly dsize psize buf = Inr buf' \<and> length buf' = length buf
         \<and> drop dsize buf' = prem (tl poly) dsize buf"
proof -
  let ?P = "\<lambda>q s. length s = length buf \<and> drop q s = prem (tl poly) q buf"
  let ?f = "\<lambda>q buf. rbind (rd buf q) (\<lambda>x. if nz x then parity_xor poly psize q buf else Inr buf)"
  from assms(2) obtain p g where poly: "poly = p # g" by (cases poly) auto
  have prem_Suc: "prem g (Suc q) xs = (let ys = prem g q xs in
      if nz (hd ys) then xor_into g (tl ys) else tl ys)" for g q xs
    by (induction q arbitrary: xs) (auto simp: Let_def)
  have "\<exists>s'. rfold ?f [0..<dsize] buf = Inr s' \<and> ?P dsize s'"
  proof (rule rfold_upt_rule)
    fix q s assume q: "q < dsize" and P: "?P q s"
    have hd: "drop q s = s ! q # drop (Suc q) s"
      using q P assms(1) by (simp add: Cons_nth_drop_Suc)
    show "\<exists>s'. ?f q s = Inr s' \<and> ?P (Suc q) s'"
    proof (cases "nz (s ! q)")
      case True
      let ?s' = "take q s @ xor_into (take (psize + 1) poly) (drop q s)"
      have "?f q s = Inr ?s'"
        using True q P assms by (simp add: parity_xor_into)
      moreover from P hd poly have "prem g q buf = s ! q # drop (Suc q) s" by simp
      then have "prem (tl poly) (Suc q) buf = xor_into g (drop (Suc q) s)"
        using True poly by (simp add: prem_Suc Let_def del: prem.simps)
      moreover have "drop (Suc q) ?s' = xor_into g (drop (Suc q) s)"
        unfolding hd using q P assms poly by simp
      ultimately show ?thesis using P q assms by (simp add: length_prem)
    next
      case False
      from P hd have "prem (tl poly) q buf = s ! q # drop (Suc q) s" by simp
      with False have "drop (Suc q) s = prem (tl poly) (Suc q) buf"
        by (simp add: prem_Suc Let_def del: prem.simps)
      moreover from False q P assms have "?f q s = Inr s" by simp
      ultimately show ?thesis using P by blast
    qed
  qed simp
  then show ?thesis by (simp add: parity_divide_def)
qed

lemma parity_encode_rem:
  assumes "dsize \<le> length data" "length poly = psize + 1" "poly ! 0 = 1" "psize \<le> length parity"
  shows "parity_encode data dsize poly parity psize =
         Inr (map (\<lambda>x. if nz x then 0 else 1)
                (prem (tl poly) dsize (take dsize data @ replicate psize 0)) @ drop psize parity)"
proof -
  let ?d = "take dsize data @ replicate psize 0"
  have "length ?d = dsize + psize" using assms(1) by simp
  from parity_divide_rem [OF this assms(2,3)] obtain buf where
    buf: "parity_divide poly dsize psize ?d = Inr buf" "length buf = dsize + psize"
      "drop dsize buf = prem (tl poly) dsize ?d"
    using assms(1) by auto
  let ?f = "\<lambda>i parity. rbind (rd buf (dsize + i)) (\<lambda>x. wr parity i (if nz x then 0 else 1 :: u8))"
  have "rfold ?f [0..<psize] parity =
      Inr (map (\<lambda>i. if nz (buf ! (dsize + i)) then 0 else 1) [0..<psize] @ drop psize parity)"
    by (rule rfold_fill [OF assms(4)]) (use buf in simp)
  moreover have "map (\<lambda>i. if nz (buf ! (dsize + i)) then 0 else 1) [0..<psize] =
      map (\<lambda>x. if nz x then 0 else 1 :: u8) (drop dsize buf)"
    using buf(2) by (intro nth_equalityI) simp_all
  ultimately show ?thesis
    using assms(1) buf by (simp add: parity_encode_def)
qed

lemma parity_check_rem:
  assumes "dsize + psize \<le> length data" "length poly = psize + 1" "poly ! 0 = 1"
    and "psize \<le> length remainder"
  shows "parity_check data dsize poly remainder psize =
         Inr (prem (tl poly) dsize (take (dsize + psize) data) \<noteq> take psize remainder)"
proof -
  let ?d = "take (dsize + psize) data"
  have "length ?d = dsize + psize" using assms(1) by simp
  from parity_divide_rem [OF this assms(2,3)] obtain buf where
    "parity_divide poly dsize psize ?d = Inr buf" "length buf = dsize + psize"
      "drop dsize buf = prem (tl poly) dsize ?d"
    using assms(1) by auto
  with assms show ?thesis
    by (simp add: parity_check_def length_prem)
qed

text \<open>
  A generator polynomial as the channel codes use them: bits, with the first and the last
  coefficient set.
\<close>

definition generator :: "u8 list \<Rightarrow> nat \<Rightarrow> bool" where
  "generator poly psize \<longleftrightarrow> is_bits poly \<and> length poly = psize + 1 \<and> 0 < psize
     \<and> poly ! 0 = 1 \<and> last poly = 1"

lemma generatorD:
  assumes "generator poly psize"
  shows "is_bits (tl poly)" "length (tl poly) = psize" "tl poly \<noteq> []" "last (tl poly) = 1"
    "length poly = psize + 1" "poly ! 0 = 1"
  using assms by (cases poly; auto simp: generator_def split: if_splits)+

text \<open>The remainder of data and a parity part is the remainder of the data alone plus the parity.\<close>

lemma prem_append:
  assumes "is_bits g" "is_bits d" "is_bits p" "length d = n" "length p = m"
  shows "prem g n (d @ p) = xor_into (prem g n (d @ replicate m 0)) p"
proof -
  have "d @ p = xor_into (d @ replicate m 0) (replicate n 0 @ p)"
    using assms by (intro nth_equalityI) (auto simp: nth_xor_into nth_append)
  moreover have "prem g n (replicate n 0 @ p) = p" by (simp add: prem_zeros)
  ultimately show ?thesis
    using prem_xor [OF assms(1), of "d @ replicate m 0" "replicate n 0 @ p" n] assms by simp
qed

lemma prem_codeword:
  assumes "is_bits g" "is_bits d" "length d = n"
  shows "prem g n (d @ map (\<lambda>x. if nz x then 0 else 1) (prem g n (d @ replicate m 0)))
         = replicate m 1"
proof -
  let ?r = "prem g n (d @ replicate m 0)"
  let ?p = "map (\<lambda>x. if nz x then 0 else 1) ?r :: u8 list"
  have r: "is_bits ?r" "length ?r = m"
    using assms by (simp_all add: is_bits_prem length_prem)
  have "is_bits ?p" by (auto simp: is_bits_def list_all_iff)
  with assms r have "prem g n (d @ ?p) = xor_into ?r ?p" by (intro prem_append) simp_all
  also have "\<dots> = replicate m 1"
    using r by (intro nth_equalityI) (auto simp: nth_xor_into dest: is_bits_nth)
  finally show ?thesis .
qed

text \<open>A burst of errors that is not longer than the generator leaves a remainder.\<close>

lemma xor_into_pad: "xor_into (xs @ replicate k 0) ys = xor_into xs ys"
  by (rule nth_equalityI) (auto simp: nth_xor_into nth_append)

lemma xor_into_cancel:
  assumes "xor_into xs ys = ys" "length xs = length ys"
  shows "xs = replicate (length xs) 0"
proof (rule nth_equalityI)
  fix i assume i: "i < length xs"
  with assms have "ys ! i XOR xs ! i = ys ! i" by (metis nth_xor_into)
  then have "(ys ! i XOR ys ! i) XOR xs ! i = 0" unfolding xor.assoc by simp
  with i show "xs ! i = replicate (length xs) 0 ! i" by simp
qed simp

lemma prem_burst:
  assumes "g \<noteq> []" "last g = 1" and "length burst \<le> length g"
    and "burst \<noteq> replicate (length burst) 0"
    and "length burst + pos + k = n + length g"
  shows "prem g n (replicate pos 0 @ burst @ replicate k 0) \<noteq> replicate (length g) 0"
proof (cases "pos \<le> n")
  case True
  let ?w = "burst @ replicate (length g - length burst) 0"
  have "?w \<noteq> replicate (length g) 0"
    using assms(4) by (metis append_eq_append_conv_if append_take_drop_id length_append
        length_replicate take_replicate append_eq_conv_conj min.absorb2 assms(3))
  then have "prem g (n - pos) (?w @ replicate (n - pos) 0) \<noteq> replicate (length g) 0"
    using assms by (intro prem_nonzero) simp_all
  moreover have "burst @ replicate k 0 = ?w @ replicate (n - pos) 0"
    using assms(3,5) True by (simp add: replicate_add [symmetric])
  ultimately show ?thesis
    using True by (simp add: prem_zeros)
next
  case False
  then have "replicate pos 0 = replicate n (0 :: u8) @ replicate (pos - n) 0"
    by (simp add: replicate_add [symmetric])
  then have "prem g n (replicate pos 0 @ burst @ replicate k 0)
      = replicate (pos - n) 0 @ burst @ replicate k 0"
    by (simp add: prem_zeros)
  moreover have "length g = (pos - n) + (length burst + k)" using assms(5) False by simp
  ultimately show ?thesis
    using assms(4) by (simp add: replicate_add)
qed

section \<open>Properties\<close>

text \<open>Data followed by the parity bits \<open>parity_encode\<close> computes passes \<open>parity_check\<close> with
  the all-ones remainder (the inverted remainder is transmitted), for every generator polynomial
  with first and last coefficient 1 and every bit string.\<close>

theorem parity_roundtrip:
  assumes "generator poly psize" and "is_bits data" and "length data = dsize"
    and "length parity = psize"
  shows "rbind (parity_encode data dsize poly parity psize)
           (\<lambda>p. parity_check (data @ p) dsize poly (replicate psize 1) psize) = Inr False"
proof -
  note g = generatorD [OF assms(1)]
  let ?p = "map (\<lambda>x. if nz x then 0 else 1) (prem (tl poly) dsize (data @ replicate psize 0)) :: u8 list"
  have "length ?p = psize" using assms(3) by (simp add: length_prem)
  moreover have "prem (tl poly) dsize (data @ ?p) = replicate psize 1"
    by (rule prem_codeword [OF g(1) assms(2,3)])
  ultimately show ?thesis
    using assms g by (simp add: parity_encode_rem parity_check_rem)
qed

theorem parity_roundtrip_witness:
  "rbind (parity_encode [1, 0, 1, 1] 4 [1, 0, 1, 1] [0, 0, 0] 3)
     (\<lambda>p. parity_check ([1, 0, 1, 1] @ p) 4 [1, 0, 1, 1] (replicate 3 1) 3) = Inr False"
  by (rule parity_roundtrip) (simp_all add: generator_def)

text \<open>C31. Every error burst that is no longer than the parity part is detected: if a word passes
  \<open>parity_check\<close>, then the word with the bits of a non-zero pattern of at most \<open>psize\<close> bits
  flipped, at any position, does not.\<close>

theorem parity_detects_bursts:
  assumes "generator poly psize" and "is_bits word" and "length word = dsize + psize"
    and "parity_check word dsize poly (replicate psize 1) psize = Inr False"
    and "is_bits burst" and "burst \<noteq> replicate (length burst) 0" and "length burst \<le> psize"
    and "length burst + pos \<le> dsize + psize"
  shows "parity_check (xor_into (replicate pos 0 @ burst) word) dsize poly (replicate psize 1) psize
         = Inr True"
proof -
  note g = generatorD [OF assms(1)]
  let ?g = "tl poly" and ?k = "dsize + psize - (length burst + pos)"
  let ?e = "replicate pos 0 @ burst @ replicate ?k 0"
  have e: "xor_into (replicate pos 0 @ burst) word = xor_into ?e word"
    using xor_into_pad [of "replicate pos 0 @ burst" ?k word] by simp
  have "prem ?g dsize word = replicate psize 1"
    using assms(3,4) g by (simp add: parity_check_rem)
  then have "prem ?g dsize (xor_into ?e word) = xor_into (prem ?g dsize ?e) (replicate psize 1)"
    using assms g(1) by (subst prem_xor) simp_all
  moreover have "prem ?g dsize ?e \<noteq> replicate psize 0"
    using prem_burst [OF g(3,4), of burst pos ?k dsize] assms(6-8) g(2) by simp
  then have "xor_into (prem ?g dsize ?e) (replicate psize 1) \<noteq> replicate psize 1"
    using xor_into_cancel [of "prem ?g dsize ?e" "replicate psize 1"] assms(8)
    by (auto simp: length_prem)
  ultimately show ?thesis
    using assms(3) g by (simp add: e parity_check_rem)
qed

theorem parity_detects_bursts_witness:
  "parity_check (xor_into (replicate 2 0 @ [1, 1]) [1, 1, 1, 1, 0, 1]) 3 [1, 0, 1, 1] (replicate 3 1) 3
   = Inr True"
proof (rule parity_detects_bursts)
  show "parity_check [1, 1, 1, 1, 0, 1] 3 [1, 0, 1, 1] (replicate 3 1) 3 = Inr False"
    by code_simp
qed (simp_all add: generator_def)

end
