(* ===== verification/Interleave.thy ===== *)
theory Interleave
  imports Prelude
begin

text \<open>
  Block interleaving (\<open>gsm-parser/gsm_interleave.c\<close>) and the puncturing patterns of the GPRS
  coding schemes CS-2 and CS-3 (\<open>gsm-parser/punct.c\<close>).  The interleaving maps are static arrays
  that \<open>gsm_interleave_init\<close> fills; the model passes them explicitly.  Both maps are shown to be
  injective, so that reading through a map undoes writing through it, and both puncturing
  patterns are shown to be the ones of the coding schemes.
\<close>

section \<open>Definitions\<close>

subsection \<open>Interleaving\<close>

record interleave_maps =
  sacch_map :: "nat list"
  facch_map :: "nat list"

definition sacch_index :: "nat \<Rightarrow> nat" where
  "sacch_index k = (let B = k mod 4; j = 2 * ((49 * k) mod 57) + (k mod 8) div 4 in B * 114 + j)"

definition facch_index :: "nat \<Rightarrow> nat" where
  "facch_index k = (let B = k mod 8; j = 2 * ((49 * k) mod 57) + (k mod 8) div 4 in B * 114 + j)"

definition gsm_interleave_init :: interleave_maps where
  "gsm_interleave_init =
     \<lparr>sacch_map = map sacch_index [0..<456], facch_map = map facch_index [0..<456]\<rparr>"

text \<open>Writing and reading the 456 symbols of a block through a map.\<close>

definition inter_through :: "nat list \<Rightarrow> u8 list \<Rightarrow> u8 list \<Rightarrow> u8 list res" where
  "inter_through m src dst =
     rfold (\<lambda>k dst. rbind (rd m k) (\<lambda>i. rbind (rd src k) (\<lambda>x. wr dst i x))) [0..<456] dst"

definition deinter_through :: "nat list \<Rightarrow> u8 list \<Rightarrow> u8 list \<Rightarrow> u8 list res" where
  "deinter_through m src dst =
     rfold (\<lambda>k dst. rbind (rd m k) (\<lambda>i. rbind (rd src i) (\<lambda>x. wr dst k x))) [0..<456] dst"

definition gsm_inter_sacch :: "interleave_maps \<Rightarrow> u8 list \<Rightarrow> u8 list \<Rightarrow> u8 list res" where
  "gsm_inter_sacch maps src dst = inter_through (sacch_map maps) src dst"

definition gsm_deinter_sacch :: "interleave_maps \<Rightarrow> u8 list \<Rightarrow> u8 list \<Rightarrow> u8 list res" where
  "gsm_deinter_sacch maps src dst = deinter_through (sacch_map maps) src dst"

definition gsm_inter_facch :: "interleave_maps \<Rightarrow> u8 list \<Rightarrow> u8 list \<Rightarrow> u8 list res" where
  "gsm_inter_facch maps src dst = inter_through (facch_map maps) src dst"

definition gsm_deinter_facch :: "interleave_maps \<Rightarrow> u8 list \<Rightarrow> u8 list \<Rightarrow> u8 list res" where
  "gsm_deinter_facch maps src dst = deinter_through (facch_map maps) src dst"

subsection \<open>Puncturing\<close>

definition cs2_skips :: "nat list" where
  "cs2_skips = [9, 21, 33, 45, 57, 69, 81, 93, 105, 117, 129, 141]"

function fill_punct_cs2_from :: "nat list \<Rightarrow> nat \<Rightarrow> nat \<Rightarrow> nat \<Rightarrow> nat list res" where
  "fill_punct_cs2_from pattern i j k =
     (if i < 588 \<and> j < 147
      then if i = 4 * j + 3
           then let j = Suc j
                in fill_punct_cs2_from pattern (Suc i) (if j \<in> set cs2_skips then Suc j else j) k
           else rbind (wr pattern k i) (\<lambda>pattern. fill_punct_cs2_from pattern (Suc i) j (Suc k))
      else Inr pattern)"
  by pat_completeness auto
termination
  by (relation "measure (\<lambda>(pattern, i, j, k). 588 - i)") auto

definition fill_punct_cs2 :: "nat list \<Rightarrow> nat list res" where
  "fill_punct_cs2 pattern = fill_punct_cs2_from pattern 0 3 0"

text \<open>
  The first loop of \<open>fill_punct_cs3\<close> ends when \<open>j\<close> reaches 112; each round either punctures
  (advancing \<open>j\<close>), skips the position \<open>6 j + 3\<close> or consumes one cell of the pattern.
\<close>

function fill_punct_cs3_from :: "nat list \<Rightarrow> nat \<Rightarrow> nat \<Rightarrow> nat \<Rightarrow> (nat list \<times> nat \<times> nat) res" where
  "fill_punct_cs3_from pattern i j k =
     (if j < 112
      then if i = 6 * j + 3 then fill_punct_cs3_from pattern (Suc i) j k
           else if i = 6 * j + 5 then fill_punct_cs3_from pattern (Suc i) (Suc j) k
           else rbind (wr pattern k i) (\<lambda>pattern. fill_punct_cs3_from pattern (Suc i) j (Suc k))
      else Inr (pattern, i, k))"
  by pat_completeness auto
termination
  by (relation "measures [\<lambda>(pattern, i, j, k). (112 - j) + (length pattern - k),
                          \<lambda>(pattern, i, j, k). 6 * j + 4 - i]")
     (auto simp: wr_eq_Inr)

definition fill_punct_cs3 :: "nat list \<Rightarrow> nat list res" where
  "fill_punct_cs3 pattern =
     rbind (fill_punct_cs3_from pattern 0 2 0) (\<lambda>(pattern, i, k).
     rfold (\<lambda>d pattern. wr pattern (k + d) (i + d)) [0..<456 - k] pattern)"

text \<open>Soft symbols are signed bytes: a set bit becomes -127, a clear one 127, a hole 0.\<close>

definition depunct :: "u8 list \<Rightarrow> u8 list \<Rightarrow> nat \<Rightarrow> nat list \<Rightarrow> u8 list res" where
  "depunct inp out sz pattern =
     rbind (wrn out 0 (replicate sz 0)) (\<lambda>out.
     rfold (\<lambda>i out. rbind (rd pattern i) (\<lambda>p. rbind (rd inp i) (\<lambda>x.
              wr out p (if nz x then - 127 else 127)))) [0..<456] out)"

declare fill_punct_cs2_from.simps [simp del] fill_punct_cs3_from.simps [simp del]

section \<open>Interleaving through an injective map\<close>

text \<open>
  What the interleaver needs of its map: 456 places, no two the same, inside of the block it
  writes.
\<close>

locale interleaver =
  fixes m :: "nat list" and blk :: nat
  assumes length_map: "length m = 456"
    and distinct_map: "distinct m"
    and map_in_block: "i \<in> set m \<Longrightarrow> i < blk"
begin

lemma map_nth: "k < 456 \<Longrightarrow> m ! k < blk"
  using length_map map_in_block by simp

lemma inter_writes:
  assumes "456 \<le> length src" and "blk \<le> length dst"
  shows "\<exists>dst'. inter_through m src dst = Inr dst' \<and> length dst' = length dst
    \<and> (\<forall>k < 456. dst' ! (m ! k) = src ! k)"
proof -
  let ?P = "\<lambda>(i :: nat) (d :: u8 list). length d = length dst \<and> (\<forall>k < i. d ! (m ! k) = src ! k)"
  show ?thesis
    unfolding inter_through_def
  proof (rule rfold_upt_rule [where P = ?P])
    fix i d assume i: "i < 456" and P: "?P i d"
    have "(d[m ! i := src ! i]) ! (m ! k) = src ! k" if "k < Suc i" for k
      using that i P assms map_nth [of i] length_map distinct_map
      by (cases "k = i") (auto simp: nth_list_update nth_eq_iff_index_eq)
    with i P assms map_nth [of i] length_map
    show "\<exists>s'. rbind (rd m i) (\<lambda>j. rbind (rd src i) (wr d j)) = Inr s' \<and> ?P (Suc i) s'"
      by auto
  qed simp
qed

lemma deinter_reads:
  assumes "blk \<le> length src" and "456 \<le> length dst"
  shows "deinter_through m src dst = Inr (map (\<lambda>k. src ! (m ! k)) [0..<456] @ drop 456 dst)"
  unfolding deinter_through_def
proof (rule rfold_fill [OF assms(2)])
  fix k :: nat and dst :: "u8 list" assume "k < 456"
  with length_map map_nth [of k] assms(1)
  show "rbind (rd m k) (\<lambda>i. rbind (rd src i) (wr dst k)) = wr dst k (src ! (m ! k))" by simp
qed

lemma deinter_inter:
  assumes "456 \<le> length src" and "blk \<le> length dst" and "456 \<le> length out"
  shows "rbind (inter_through m src dst) (\<lambda>blk. deinter_through m blk out)
         = Inr (take 456 src @ drop 456 out)"
proof -
  from inter_writes [OF assms(1,2)] obtain dst' where
    d: "inter_through m src dst = Inr dst'" "length dst' = length dst"
      "\<forall>k < 456. dst' ! (m ! k) = src ! k" by blast
  moreover from d(3) assms(1) have "map (\<lambda>k. dst' ! (m ! k)) [0..<456] = take 456 src"
    by (intro nth_equalityI) simp_all
  ultimately show ?thesis
    using assms by (simp add: deinter_reads)
qed

end

text \<open>Both maps determine \<open>k\<close> modulo 8 and modulo 57, and hence \<open>k\<close>.\<close>

lemma index_residues_inj_aux:
  assumes "l \<le> k" "k < 456" "k mod 8 = l mod 8" "(49 * k) mod 57 = (49 * l) mod (57 :: nat)"
  shows "k = l"
proof -
  from assms(1,3) have 8: "8 dvd k - l" by (simp add: mod_eq_dvd_iff_nat)
  from assms(1,4) have "57 dvd 49 * k - 49 * l" by (subst (asm) mod_eq_dvd_iff_nat) simp_all
  then have "57 dvd 49 * (k - l)" by (simp only: diff_mult_distrib2)
  moreover have "coprime 57 (49 :: nat)" by (simp add: coprime_iff_gcd_eq_1 gcd_nat.simps gcd_non_0_nat)
  ultimately have 57: "57 dvd k - l" by (simp only: coprime_dvd_mult_right_iff)
  have "coprime 8 (57 :: nat)" by (simp add: coprime_iff_gcd_eq_1 gcd_nat.simps gcd_non_0_nat)
  with 8 57 have "8 * 57 dvd k - l" by (intro divides_mult)
  with assms(1,2) show ?thesis by (auto dest!: dvd_imp_le)
qed

lemma index_residues_inj:
  assumes "k < 456" "l < 456" "k mod 8 = l mod 8" "(49 * k) mod 57 = (49 * l) mod (57 :: nat)"
  shows "k = l"
  using index_residues_inj_aux [of l k] index_residues_inj_aux [of k l] assms
  by (cases "l \<le> k") (simp_all add: not_le less_imp_le)

lemma split_base_114:
  assumes "a * 114 + b = c * 114 + d" "b < 114" "d < (114 :: nat)"
  shows "a = c \<and> b = d"
proof -
  have "(a * 114 + b) div 114 = a" "(c * 114 + d) div 114 = c" using assms(2,3) by simp_all
  with assms(1) show ?thesis by simp
qed

lemma half_octet_lt: "(k mod 8) div 4 < (2 :: nat)"
  by (simp add: less_mult_imp_div_less)

lemma inner_index_lt: "2 * ((49 * k) mod 57) + (k mod 8) div 4 < (114 :: nat)"
proof -
  have "(49 * k) mod 57 < (57 :: nat)" by simp
  with half_octet_lt [of k] show ?thesis by linarith
qed

lemma inner_index_split:
  assumes "2 * a + (k mod 8) div 4 = 2 * b + (l mod 8) div (4 :: nat)"
  shows "a = b \<and> (k mod 8) div 4 = (l mod 8) div 4"
proof -
  from assms half_octet_lt [of k] half_octet_lt [of l] have "a = b" by arith
  with assms show ?thesis by simp
qed

lemma octet_from_halves:
  assumes "k mod 4 = l mod 4" "(k mod 8) div 4 = (l mod 8) div (4 :: nat)"
  shows "k mod 8 = l mod 8"
proof -
  have "k mod 8 = 4 * ((k mod 8) div 4) + k mod 4" for k :: nat
    using mod_mult2_eq [of k 4 2] by (simp add: mod_double_nat)
  with assms show ?thesis by metis
qed

lemma sacch_index_inj: "inj_on sacch_index {0..<456}"
proof (rule inj_onI)
  fix k l assume kl: "k \<in> {0..<456}" "l \<in> {0..<456}" "sacch_index k = sacch_index l"
  from kl(3) have "k mod 4 = l mod 4 \<and>
      2 * ((49 * k) mod 57) + (k mod 8) div 4 = 2 * ((49 * l) mod 57) + (l mod 8) div 4"
    by (intro split_base_114) (simp_all add: sacch_index_def Let_def inner_index_lt)
  then have "k mod 4 = l mod 4" "(49 * k) mod 57 = (49 * l) mod 57"
      "(k mod 8) div 4 = (l mod 8) div 4"
    using inner_index_split by blast+
  then show "k = l" using kl(1,2) octet_from_halves index_residues_inj
    by (meson atLeastLessThan_iff)
qed

lemma facch_index_inj: "inj_on facch_index {0..<456}"
proof (rule inj_onI)
  fix k l assume kl: "k \<in> {0..<456}" "l \<in> {0..<456}" "facch_index k = facch_index l"
  from kl(3) have "k mod 8 = l mod 8 \<and>
      2 * ((49 * k) mod 57) + (k mod 8) div 4 = 2 * ((49 * l) mod 57) + (l mod 8) div 4"
    by (intro split_base_114) (simp_all add: facch_index_def Let_def inner_index_lt)
  then have "k mod 8 = l mod 8" "(49 * k) mod 57 = (49 * l) mod 57"
    using inner_index_split by blast+
  then show "k = l" using kl(1,2) index_residues_inj by (meson atLeastLessThan_iff)
qed

interpretation sacch: interleaver "sacch_map gsm_interleave_init" 456
proof unfold_locales
  show "distinct (sacch_map gsm_interleave_init)"
    unfolding gsm_interleave_init_def interleave_maps.simps distinct_map
    using sacch_index_inj by (simp only: distinct_upt set_upt)
  fix i assume "i \<in> set (sacch_map gsm_interleave_init)"
  then obtain k where "i = sacch_index k" by (auto simp: gsm_interleave_init_def)
  then have i: "i = k mod 4 * 114 + (2 * ((49 * k) mod 57) + (k mod 8) div 4)"
    by (simp only: sacch_index_def Let_def)
  have "k mod 4 < 4" by simp
  with inner_index_lt [of k] show "i < 456" unfolding i by linarith
qed (simp add: gsm_interleave_init_def)

interpretation facch: interleaver "facch_map gsm_interleave_init" 912
proof unfold_locales
  show "distinct (facch_map gsm_interleave_init)"
    unfolding gsm_interleave_init_def interleave_maps.simps distinct_map
    using facch_index_inj by (simp only: distinct_upt set_upt)
  fix i assume "i \<in> set (facch_map gsm_interleave_init)"
  then obtain k where "i = facch_index k" by (auto simp: gsm_interleave_init_def)
  then have i: "i = k mod 8 * 114 + (2 * ((49 * k) mod 57) + (k mod 8) div 4)"
    by (simp only: facch_index_def Let_def)
  have "k mod 8 < 8" by simp
  with inner_index_lt [of k] show "i < 912" unfolding i by linarith
qed (simp add: gsm_interleave_init_def)

text \<open>
  C32. Interleaving a block of 456 symbols over the four bursts of a SACCH or signalling block and
  deinterleaving it again gives the symbols back: no access leaves the arrays, and the cells of
  the destination beyond the block keep their values.
\<close>

theorem sacch_interleave_roundtrip:
  assumes "456 \<le> length src" and "456 \<le> length dst" and "456 \<le> length out"
  shows "rbind (gsm_inter_sacch gsm_interleave_init src dst)
           (\<lambda>blk. gsm_deinter_sacch gsm_interleave_init blk out) = Inr (take 456 src @ drop 456 out)"
  unfolding gsm_inter_sacch_def gsm_deinter_sacch_def
  using assms by (rule sacch.deinter_inter)

theorem sacch_interleave_roundtrip_witness:
  "rbind (gsm_inter_sacch gsm_interleave_init (replicate 460 1) (replicate 456 0))
     (\<lambda>blk. gsm_deinter_sacch gsm_interleave_init blk (replicate 457 7))
   = Inr (replicate 456 1 @ [7])"
  using sacch_interleave_roundtrip [of "replicate 460 1" "replicate 456 0" "replicate 457 7"]
  by (simp only: length_replicate take_replicate drop_replicate) simp

text \<open>
  The same for the diagonal interleaving of FACCH and TCH/F blocks over eight bursts (912
  cells, of which a block fills every second one).
\<close>

theorem facch_interleave_roundtrip:
  assumes "456 \<le> length src" and "912 \<le> length dst" and "456 \<le> length out"
  shows "rbind (gsm_inter_facch gsm_interleave_init src dst)
           (\<lambda>blk. gsm_deinter_facch gsm_interleave_init blk out) = Inr (take 456 src @ drop 456 out)"
  unfolding gsm_inter_facch_def gsm_deinter_facch_def
  using assms by (rule facch.deinter_inter)

theorem facch_interleave_roundtrip_witness:
  "rbind (gsm_inter_facch gsm_interleave_init (replicate 456 3) (replicate 912 0))
     (\<lambda>blk. gsm_deinter_facch gsm_interleave_init blk (replicate 458 9))
   = Inr (replicate 456 3 @ [9, 9])"
  using facch_interleave_roundtrip [of "replicate 456 3" "replicate 912 0" "replicate 458 9"]
  by (simp only: length_replicate take_replicate drop_replicate) (simp add: numeral_2_eq_2)

section \<open>The puncturing patterns\<close>

text \<open>
  The coded bits that CS-2 keeps: of 588, all but \<open>4 j + 3\<close> for \<open>j\<close> from 3 to 146 outside of the
  twelve exceptions; and the ones CS-3 keeps: of 676, all but \<open>6 j + 3\<close> and \<open>6 j + 5\<close> for \<open>j\<close>
  from 2 to 111.
\<close>

definition cs2_punctures :: "nat \<Rightarrow> bool" where
  "cs2_punctures j \<longleftrightarrow> 3 \<le> j \<and> j \<notin> set cs2_skips"

definition cs2_kept :: "nat \<Rightarrow> bool" where
  "cs2_kept i \<longleftrightarrow> \<not> (i mod 4 = 3 \<and> cs2_punctures (i div 4))"

definition cs3_kept :: "nat \<Rightarrow> bool" where
  "cs3_kept i \<longleftrightarrow> \<not> ((i mod 6 = 3 \<or> i mod 6 = 5) \<and> 2 \<le> i div 6 \<and> i div 6 < 112)"

definition cs2_next :: "nat \<Rightarrow> nat" where
  "cs2_next j = (if Suc j \<in> set cs2_skips then Suc (Suc j) else Suc j)"

lemma cs2_next_punctures:
  assumes "cs2_punctures j"
  shows "cs2_punctures (cs2_next j) \<and> j < cs2_next j
    \<and> (\<forall>j'. j < j' \<and> j' < cs2_next j \<longrightarrow> \<not> cs2_punctures j')"
proof (cases "Suc j \<in> set cs2_skips")
  case True
  then have "Suc (Suc j) \<notin> set cs2_skips" by (auto simp: cs2_skips_def)
  with True assms show ?thesis
    by (auto simp: cs2_next_def cs2_punctures_def less_Suc_eq)
qed (use assms in \<open>auto simp: cs2_next_def cs2_punctures_def less_Suc_eq\<close>)

text \<open>The loop variable \<open>j\<close> is the next punctured index at or after the position \<open>i\<close>.\<close>

definition cs2_at :: "nat \<Rightarrow> nat \<Rightarrow> bool" where
  "cs2_at i j \<longleftrightarrow> cs2_punctures j \<and> i \<le> 4 * j + 3 \<and>
     (\<forall>j'. cs2_punctures j' \<and> j' < j \<longrightarrow> 4 * j' + 3 < i)"

lemma cs2_at_kept:
  assumes "cs2_at i j"
  shows "cs2_kept i \<longleftrightarrow> i \<noteq> 4 * j + 3"
proof (cases "i mod 4 = 3 \<and> cs2_punctures (i div 4)")
  case True
  then have "4 * (i div 4) + 3 = i" using mult_div_mod_eq [of 4 i] by simp
  moreover from this True assms have "\<not> i div 4 < j" unfolding cs2_at_def by auto
  ultimately show ?thesis using True assms unfolding cs2_at_def cs2_kept_def by linarith
next
  case False
  then show ?thesis using assms by (auto simp: cs2_kept_def cs2_at_def)
qed

lemma cs2_at_Suc_kept: "cs2_at i j \<Longrightarrow> i \<noteq> 4 * j + 3 \<Longrightarrow> cs2_at (Suc i) j"
  by (auto simp: cs2_at_def less_Suc_eq)

lemma cs2_at_Suc_next:
  assumes "cs2_at i j" and "i = 4 * j + 3"
  shows "cs2_at (Suc i) (cs2_next j)"
proof -
  from assms have j: "cs2_punctures j" by (simp add: cs2_at_def)
  note n = cs2_next_punctures [OF j]
  have "4 * j' + 3 < Suc i" if "cs2_punctures j'" "j' < cs2_next j" for j'
    using that n assms(2) by (cases "j < j'") auto
  with n assms(2) show ?thesis by (simp add: cs2_at_def)
qed

lemma cs2_at_end: "cs2_at i j \<Longrightarrow> 147 \<le> j \<Longrightarrow> 588 \<le> i"
  unfolding cs2_at_def
  by (drule conjunct2, drule conjunct2, drule spec [of _ 146])
     (auto simp: cs2_punctures_def cs2_skips_def)

lemma fill_punct_cs2_from_filter:
  assumes "cs2_at i j" and "k + length (filter cs2_kept [i..<588]) \<le> length pattern"
  shows "fill_punct_cs2_from pattern i j k = Inr (take k pattern @ filter cs2_kept [i..<588]
           @ drop (k + length (filter cs2_kept [i..<588])) pattern)"
  using assms
proof (induction pattern i j k rule: fill_punct_cs2_from.induct)
  case (1 pattern i j k)
  show ?case
  proof (cases "i < 588 \<and> j < 147")
    case True
    then have upt: "[i..<588] = i # [Suc i..<588]" by (simp add: upt_conv_Cons)
    show ?thesis
    proof (cases "i = 4 * j + 3")
      case eq: True
      then have "fill_punct_cs2_from pattern i j k
          = fill_punct_cs2_from pattern (Suc i) (cs2_next j) k"
        using True by (subst fill_punct_cs2_from.simps) (simp add: cs2_next_def Let_def)
      moreover have "\<not> cs2_kept i" using eq 1(3) cs2_at_kept by blast
      ultimately show ?thesis
        using 1(1) [OF True eq refl] cs2_at_Suc_next [OF 1(3) eq] 1(4) upt
        by (simp add: cs2_next_def)
    next
      case neq: False
      then have kept: "cs2_kept i" using 1(3) cs2_at_kept by blast
      with 1(4) upt have k: "k < length pattern" by simp
      then have w: "wr pattern k i = Inr (pattern[k := i])" by simp
      have "fill_punct_cs2_from pattern i j k
          = fill_punct_cs2_from (pattern[k := i]) (Suc i) j (Suc k)"
        using True neq w by (subst fill_punct_cs2_from.simps) simp
      also have "\<dots> = Inr (take (Suc k) (pattern[k := i]) @ filter cs2_kept [Suc i..<588]
           @ drop (Suc k + length (filter cs2_kept [Suc i..<588])) (pattern[k := i]))"
        using 1(2) [OF True neq w] cs2_at_Suc_kept [OF 1(3) neq] 1(4) upt kept by simp
      finally show ?thesis
        using kept upt k by (simp add: take_Suc_conv_app_nth)
    qed
  next
    case False
    with 1(3) have "588 \<le> i" using cs2_at_end by (auto simp: not_less)
    with False show ?thesis by (subst fill_punct_cs2_from.simps) simp
  qed
qed

definition cs3_at :: "nat \<Rightarrow> nat \<Rightarrow> bool" where
  "cs3_at i j \<longleftrightarrow> 2 \<le> j \<and> j \<le> 112 \<and> i \<le> 6 * j + 5 \<and> (2 < j \<longrightarrow> 6 * j \<le> i)
     \<and> (j = 112 \<longrightarrow> i = 672)"

lemma cs3_at_kept:
  assumes "cs3_at i j" and "j < 112"
  shows "cs3_kept i \<longleftrightarrow> i \<noteq> 6 * j + 3 \<and> i \<noteq> 6 * j + 5"
proof (cases "6 * j \<le> i")
  case True
  define r where "r = i - 6 * j"
  from True assms(1) have r: "i = 6 * j + r" "r < 6" by (auto simp: r_def cs3_at_def)
  then have "i mod 6 = r" "i div 6 = j" by simp_all
  with assms r show ?thesis by (auto simp: cs3_kept_def cs3_at_def)
next
  case False
  with assms have "j = 2" "i < 12" by (auto simp: cs3_at_def)
  then have "i div 6 < 2" by (simp add: less_mult_imp_div_less)
  with False \<open>j = 2\<close> show ?thesis by (auto simp: cs3_kept_def)
qed

lemma fill_punct_cs3_from_filter:
  assumes "cs3_at i j" and "k + length (filter cs3_kept [i..<672]) \<le> length pattern"
  shows "fill_punct_cs3_from pattern i j k = Inr (take k pattern @ filter cs3_kept [i..<672]
           @ drop (k + length (filter cs3_kept [i..<672])) pattern,
           672, k + length (filter cs3_kept [i..<672]))"
  using assms
proof (induction pattern i j k rule: fill_punct_cs3_from.induct)
  case (1 pattern i j k)
  show ?case
  proof (cases "j < 112")
    case True
    with 1(4) have "i < 672" by (auto simp: cs3_at_def)
    then have upt: "[i..<672] = i # [Suc i..<672]" by (simp add: upt_conv_Cons)
    note kept = cs3_at_kept [OF 1(4) True]
    consider "i = 6 * j + 3" | "i = 6 * j + 5" | "i \<noteq> 6 * j + 3" "i \<noteq> 6 * j + 5" by blast
    then show ?thesis
    proof cases
      case 3
      with kept have "cs3_kept i" by simp
      with 1(5) upt have k: "k < length pattern" by simp
      then have w: "wr pattern k i = Inr (pattern[k := i])" by simp
      have "cs3_at (Suc i) j" using 1(4) 3 True by (auto simp: cs3_at_def)
      with 1(3) [OF True 3 w] 1(5) upt \<open>cs3_kept i\<close>
      have "fill_punct_cs3_from (pattern[k := i]) (Suc i) j (Suc k)
        = Inr (take (Suc k) (pattern[k := i]) @ filter cs3_kept [Suc i..<672]
           @ drop (Suc k + length (filter cs3_kept [Suc i..<672])) (pattern[k := i]),
           672, Suc k + length (filter cs3_kept [Suc i..<672]))" by simp
      then show ?thesis
        using True 3 w upt k \<open>cs3_kept i\<close>
        by (subst fill_punct_cs3_from.simps) (simp add: take_Suc_conv_app_nth)
    qed (subst fill_punct_cs3_from.simps,
         use True kept upt 1(1,2,4,5) in \<open>auto simp: cs3_at_def\<close>)+
  next
    case False
    with 1(4) show ?thesis
      by (subst fill_punct_cs3_from.simps) (auto simp: cs3_at_def)
  qed
qed

text \<open>Both schemes keep 456 of their coded bits.\<close>

lemma cs2_kept_rows:
  "length (filter cs2_kept [0..<4 * n]) = (\<Sum>j\<leftarrow>[0..<n]. if cs2_punctures j then 3 else 4)"
proof (induction n)
  case (Suc n)
  have "[0..<4 * Suc n] = [0..<4 * n] @ [4 * n, 4 * n + 1, 4 * n + 2, 4 * n + 3]"
    by (simp add: numeral_eq_Suc)
  moreover have "(4 * n + 1) mod 4 = 1" "(4 * n + 2) mod 4 = 2" "(4 * n + 3) mod 4 = 3"
    "(4 * n + 3) div 4 = n" by (simp_all only: mod_mult_self4 div_mult_self4) simp_all
  ultimately show ?case
    using Suc by (simp add: cs2_kept_def)
qed simp

lemma cs2_kept_count: "length (filter cs2_kept [0..<588]) = 456"
proof -
  have "(\<Sum>j\<leftarrow>[0..<147]. if cs2_punctures j then 3 else 4) = (456 :: nat)"
    by (simp add: upt_eval cs2_punctures_def cs2_skips_def)
  with cs2_kept_rows [of 147] show ?thesis by simp
qed

lemma cs3_kept_rows: "n \<le> 110 \<Longrightarrow> length (filter cs3_kept [0..<6 * n + 12]) = 4 * n + 12"
proof (induction n)
  case 0
  then show ?case by (simp add: upt_eval cs3_kept_def)
next
  case (Suc n)
  let ?m = "n + 2"
  have "[0..<6 * Suc n + 12] = [0..<6 * n + 12]
      @ [6 * ?m, 6 * ?m + 1, 6 * ?m + 2, 6 * ?m + 3, 6 * ?m + 4, 6 * ?m + 5]"
    by (simp add: numeral_eq_Suc)
  moreover have "(6 * ?m + 1) mod 6 = 1" "(6 * ?m + 2) mod 6 = 2" "(6 * ?m + 3) mod 6 = 3"
    "(6 * ?m + 4) mod 6 = 4" "(6 * ?m + 5) mod 6 = 5" "(6 * ?m) mod 6 = 0"
    "(6 * ?m + 3) div 6 = ?m" "(6 * ?m + 5) div 6 = ?m"
    by (simp_all only: mod_mult_self4 div_mult_self4 mod_mult_self1_is_0) simp_all
  ultimately show ?case
    using Suc by (simp add: cs3_kept_def del: mult_Suc_right add_2_eq_Suc' distrib_left_numeral) simp
qed

lemma cs3_kept_count: "length (filter cs3_kept [0..<672]) = 452"
  using cs3_kept_rows [of 110] by simp

lemma cs3_kept_tail: "filter cs3_kept [0..<676] = filter cs3_kept [0..<672] @ [672, 673, 674, 675]"
proof -
  have "[0..<676] = [0..<672] @ [672..<676 :: nat]" by (use upt_add_eq_append [of 0 672 4] in simp)
  moreover have "filter cs3_kept [672..<676] = [672, 673, 674, 675]" by (simp add: cs3_kept_def)
  ultimately show ?thesis by (simp only: filter_append)
qed

text \<open>
  \<open>fill_punct_cs2\<close> fills a pattern array of at least 456 cells with exactly the positions of
  the 588 coded bits that CS-2 keeps, in order, and touches nothing behind them.
\<close>

theorem fill_punct_cs2_pattern:
  assumes "456 \<le> length pattern"
  shows "fill_punct_cs2 pattern = Inr (filter cs2_kept [0..<588] @ drop 456 pattern)"
proof -
  have "cs2_at 0 3" by (auto simp: cs2_at_def cs2_punctures_def cs2_skips_def)
  from fill_punct_cs2_from_filter [OF this, of 0 pattern] assms show ?thesis
    by (simp only: fill_punct_cs2_def cs2_kept_count take_0 add_0 append_Nil)
qed

theorem fill_punct_cs2_pattern_witness:
  "fill_punct_cs2 (replicate 456 0) = Inr (filter cs2_kept [0..<588])"
  using fill_punct_cs2_pattern [of "replicate 456 0"]
  by (simp only: length_replicate order_refl drop_replicate) simp

text \<open>
  \<open>fill_punct_cs3\<close> fills a pattern array of at least 456 cells with exactly the positions of
  the 676 coded bits that CS-3 keeps, in order, and touches nothing behind them; the second loop
  supplies the last four.
\<close>

theorem fill_punct_cs3_pattern:
  assumes "456 \<le> length pattern"
  shows "fill_punct_cs3 pattern = Inr (filter cs3_kept [0..<676] @ drop 456 pattern)"
proof -
  let ?f = "filter cs3_kept [0..<672]"
  have "cs3_at 0 2" by (simp add: cs3_at_def)
  from fill_punct_cs3_from_filter [OF this, of 0 pattern] assms
  have "fill_punct_cs3 pattern = rfold (\<lambda>d pattern. wr pattern (452 + d) (672 + d)) [0..<4]
      (?f @ drop 452 pattern)"
    by (simp add: fill_punct_cs3_def cs3_kept_count del: upt_rec_numeral)
  also from assms have "drop 452 pattern
      = pattern ! 452 # pattern ! 453 # pattern ! 454 # pattern ! 455 # drop 456 pattern"
    by (simp add: Cons_nth_drop_Suc numeral_eq_Suc)
  also have "[0..<4] = [0, 1, 2, 3 :: nat]" by (simp add: upt_eval)
  finally show ?thesis
    by (simp add: cs3_kept_tail cs3_kept_count list_update_append wr_def del: upt_rec_numeral)
qed

theorem fill_punct_cs3_pattern_witness:
  "fill_punct_cs3 (replicate 457 0) = Inr (filter cs3_kept [0..<676] @ [0])"
  using fill_punct_cs3_pattern [of "replicate 457 0"]
  by (simp only: length_replicate drop_replicate) (simp del: upt_rec_numeral)

section \<open>Depuncturing\<close>

text \<open>
  With a pattern whose 456 places are distinct and inside of the \<open>sz\<close> output symbols, every place
  of the pattern gets the soft symbol of its received bit and every other one is a hole.
\<close>

lemma depunct_spec:
  assumes p: "456 \<le> length pattern" "distinct (take 456 pattern)" "\<forall>p \<in> set (take 456 pattern). p < sz"
    and inp: "456 \<le> length inp" and out: "sz \<le> length (out :: u8 list)"
  shows "\<exists>out'. depunct inp out sz pattern = Inr out' \<and> length out' = length out
    \<and> (\<forall>i < 456. out' ! (pattern ! i) = (if nz (inp ! i) then - 127 else 127))
    \<and> (\<forall>q < sz. q \<notin> set (take 456 pattern) \<longrightarrow> out' ! q = 0)"
proof -
  let ?h = "\<lambda>i. if nz (inp ! i) then - 127 else 127 :: u8"
  let ?P = "\<lambda>i (d :: u8 list). length d = length out \<and> (\<forall>k < i. d ! (pattern ! k) = ?h k)
      \<and> (\<forall>q < sz. q \<notin> set (take 456 pattern) \<longrightarrow> d ! q = 0)"
  let ?out = "replicate sz 0 @ drop sz out"
  have lt: "pattern ! k < sz" "pattern ! k \<in> set (take 456 pattern)" if "k < 456" for k
    using that p(1,3) by (force simp: in_set_conv_nth)+
  have inj: "pattern ! k \<noteq> pattern ! i" if "k < i" "i < 456" for i k
    using that p(1,2) by (auto simp: distinct_conv_nth)
  have "\<exists>d. rfold (\<lambda>i out. rbind (rd pattern i) (\<lambda>p. rbind (rd inp i) (\<lambda>x.
              wr out p (if nz x then - 127 else 127)))) [0..<456] ?out = Inr d \<and> ?P 456 d"
  proof (rule rfold_upt_rule [where P = ?P])
    show "?P 0 ?out" using out by (simp add: nth_append)
  next
    fix i d assume i: "i < 456" and P: "?P i d"
    with lt(1) [OF i] out have "pattern ! i < length d" by simp
    then show "\<exists>s'. rbind (rd pattern i) (\<lambda>p. rbind (rd inp i) (\<lambda>x.
              wr d p (if nz x then - 127 else 127))) = Inr s' \<and> ?P (Suc i) s'"
      using i P p(1) inp lt(2) [OF i] inj [of _ i]
      by (auto simp: nth_list_update less_Suc_eq all_conj_distrib split: if_splits dest: sym)
  qed
  with out show ?thesis by (auto simp: depunct_def)
qed

text \<open>The two patterns meet what depuncturing needs.\<close>

lemma cs2_pattern_ok:
  "distinct (filter cs2_kept [0..<588])" "\<forall>p \<in> set (filter cs2_kept [0..<588]). p < 588"
  by simp_all

lemma cs3_pattern_ok:
  "distinct (filter cs3_kept [0..<676])" "\<forall>p \<in> set (filter cs3_kept [0..<676]). p < 676"
  by simp_all

end
