(* ===== verification/Viterbi.thy ===== *)
theory Viterbi
  imports Prelude
begin

text \<open>
  The convolutional code of the control channels (\<open>gsm-parser/viterbi.c\<close>): rate 1/2, constraint
  length 5, sixteen states, and its soft-decision Viterbi decoder.

  The accumulated errors are \<open>unsigned int\<close>, the symbols signed bytes.  The decoder's
  \<open>int state_history[CONV_N_STATES][n]\<close> is a flat array of \<open>16 * n\<close> ints indexed by
  \<open>state * n + i + 1\<close>: the last column of the last row is one int past its end.  The model makes
  the number of ints behind the array that the program may write without harm a parameter
  (\<open>slack\<close>; for the array as it is declared it is 0) and an uninitialised cell \<open>None\<close>.  With no slack
  the decoder faults on every block of five symbol pairs or more; with at least one int of slack,
  which is what the callers rely on without having it reserved, it recovers what the encoder sent
  from every block of soft symbols of the right signs.  Both cases are in \<open>viterbi_roundtrip\<close>.
\<close>

section \<open>Definitions\<close>

definition CONV_N_STATES :: nat where
  "CONV_N_STATES = 16"

definition MAX_AE :: u32 where
  "MAX_AE = 0x00ffffff"

definition conv_cch_next_output :: "nat list list" where
  "conv_cch_next_output =
     [[0, 3], [3, 0], [3, 0], [0, 3],
      [0, 3], [3, 0], [3, 0], [0, 3],
      [1, 2], [2, 1], [2, 1], [1, 2],
      [1, 2], [2, 1], [2, 1], [1, 2]]"

definition conv_cch_next_state :: "nat list list" where
  "conv_cch_next_state =
     [[0, 8], [0, 8], [1, 9], [1, 9],
      [2, 10], [2, 10], [3, 11], [3, 11],
      [4, 12], [4, 12], [5, 13], [5, 13],
      [6, 14], [6, 14], [7, 15], [7, 15]]"

subsection \<open>Encoder\<close>

definition conv_table :: "nat list list \<Rightarrow> nat \<Rightarrow> nat \<Rightarrow> nat res" where
  "conv_table tab state b = rbind (rd tab state) (\<lambda>row. rd row b)"

text \<open>The output pointer advances by two symbols per input bit.\<close>

definition conv_cch_encode :: "u8 list \<Rightarrow> u8 list \<Rightarrow> nat \<Rightarrow> u8 list res" where
  "conv_cch_encode inp out sz =
     rbind (rfold (\<lambda>i (state, out).
         rbind (rd inp i) (\<lambda>b.
         rbind (conv_table conv_cch_next_output state (unat b)) (\<lambda>o'.
         rbind (conv_table conv_cch_next_state state (unat b)) (\<lambda>state.
         rbind (wr out (2 * i) (if bit o' 1 then 1 else 0)) (\<lambda>out.
         rbind (wr out (2 * i + 1) (of_nat o' AND 1)) (\<lambda>out. Inr (state, out)))))))
       [0..<sz] (0, out)) (\<lambda>(state, out). Inr out)"

subsection \<open>Decoder\<close>

text \<open>The squared distance of two symbols, computed in \<open>int\<close> and added to an \<open>unsigned\<close>.\<close>

definition DIFF :: "u8 \<Rightarrow> u8 \<Rightarrow> u32" where
  "DIFF x y = word_of_int (drop_bit 9 ((sint x - sint y) * (sint x - sint y)))"

definition ev_sym :: "nat \<Rightarrow> nat \<Rightarrow> u8" where
  "ev_sym out k = (if bit out k then - 127 else 127)"

definition conv_nae :: "u32 list \<Rightarrow> u8 \<Rightarrow> u8 \<Rightarrow> nat \<Rightarrow> nat \<Rightarrow> u32" where
  "conv_nae ae in0 in1 s b =
     (let out = conv_cch_next_output ! s ! b
      in ae ! s + DIFF (ev_sym out 1) in0 + DIFF (ev_sym out 0) in1)"

type_synonym conv_scan = "u32 list \<times> nat option list"

definition conv_cch_branch ::
  "nat \<Rightarrow> nat \<Rightarrow> u32 list \<Rightarrow> u8 \<Rightarrow> u8 \<Rightarrow> nat \<Rightarrow> nat \<Rightarrow> conv_scan \<Rightarrow> conv_scan res" where
  "conv_cch_branch n i ae in0 in1 s b = (\<lambda>(ae_next, state_history).
     let state = conv_cch_next_state ! s ! b;
         nae = conv_nae ae in0 in1 s b
     in if ae_next ! state > nae
        then rbind (wr state_history (state * n + (i + 1)) (Some s)) (\<lambda>state_history.
             Inr (ae_next[state := nae], state_history))
        else Inr (ae_next, state_history))"

definition conv_cch_step :: "nat \<Rightarrow> u8 list \<Rightarrow> nat \<Rightarrow> conv_scan \<Rightarrow> conv_scan res" where
  "conv_cch_step n inp i = (\<lambda>(ae, state_history).
     rbind (rd inp (2 * i + 0)) (\<lambda>in0.
     rbind (rd inp (2 * i + 1)) (\<lambda>in1.
     rfold (\<lambda>s. rfold (\<lambda>b. conv_cch_branch n i ae in0 in1 s b) [0..<2]) [0..<CONV_N_STATES]
       (replicate CONV_N_STATES MAX_AE, state_history))))"

definition conv_cch_best :: "u32 list \<Rightarrow> nat option" where
  "conv_cch_best ae =
     snd (fold (\<lambda>s (min_ae, min_state).
       if ae ! s < min_ae then (ae ! s, Some s) else (min_ae, min_state))
       [0..<CONV_N_STATES] (MAX_AE, None))"

text \<open>
  The trace back.  A \<open>min_state\<close> that was never set is -1 and indexes in front of the history; a
  cell of the history that no survivor was recorded in is uninitialised.
\<close>

definition conv_cch_back ::
  "nat \<Rightarrow> nat option list \<Rightarrow> nat \<Rightarrow> nat option \<times> u8 list \<Rightarrow> (nat option \<times> u8 list) res" where
  "conv_cch_back n state_history i = (\<lambda>(cur_state, output).
     case cur_state of
       None \<Rightarrow> Inl OutOfBounds
     | Some min_state \<Rightarrow>
         rbind (rd state_history (min_state * n + (i + 1))) (\<lambda>cell.
         case cell of
           None \<Rightarrow> Inl Uninitialised
         | Some cur_state \<Rightarrow>
             rbind (conv_table conv_cch_next_state cur_state 0) (\<lambda>next.
             rbind (wr output i (if next = min_state then 0 else 1)) (\<lambda>output.
             Inr (Some cur_state, output)))))"

text \<open>
  \<open>slack\<close> counts the ints behind the declared \<open>state_history[CONV_N_STATES][n]\<close> that may be written.
\<close>

definition conv_cch_decode :: "nat \<Rightarrow> u8 list \<Rightarrow> u8 list \<Rightarrow> nat \<Rightarrow> u8 list res" where
  "conv_cch_decode slack input output n =
     rbind (rfold (conv_cch_step n input) [0..<n]
              (0 # replicate (CONV_N_STATES - 1) MAX_AE, replicate (CONV_N_STATES * n + slack) None))
       (\<lambda>(ae, state_history).
     rbind (rfold (conv_cch_back n state_history) (rev [0..<n]) (conv_cch_best ae, output))
       (\<lambda>(cur_state, output). Inr output))"

section \<open>The code as a state machine\<close>

definition cch_out :: "nat \<Rightarrow> nat \<Rightarrow> nat" where
  "cch_out s b = conv_cch_next_output ! s ! b"

definition cch_next :: "nat \<Rightarrow> nat \<Rightarrow> nat" where
  "cch_next s b = conv_cch_next_state ! s ! b"

lemma below_16_cases:
  "(s :: nat) < 16 \<longleftrightarrow> s = 0 \<or> s = 1 \<or> s = 2 \<or> s = 3 \<or> s = 4 \<or> s = 5 \<or> s = 6 \<or> s = 7 \<or>
     s = 8 \<or> s = 9 \<or> s = 10 \<or> s = 11 \<or> s = 12 \<or> s = 13 \<or> s = 14 \<or> s = 15"
  by (auto simp: numeral_eq_Suc less_Suc_eq)

lemma below_2_cases: "(b :: nat) < 2 \<longleftrightarrow> b = 0 \<or> b = 1"
  by auto

text \<open>The tables are those of a shift register of four bits that takes its input at the top.\<close>

lemma cch_next_eq: "s < 16 \<Longrightarrow> b < 2 \<Longrightarrow> cch_next s b = s div 2 + 8 * b"
  unfolding below_16_cases below_2_cases
  by (elim disjE; simp add: cch_next_def conv_cch_next_state_def)

lemma cch_next_less: "s < 16 \<Longrightarrow> b < 2 \<Longrightarrow> cch_next s b < 16"
  by (simp add: cch_next_eq)

lemma cch_out_less: "s < 16 \<Longrightarrow> b < 2 \<Longrightarrow> cch_out s b < 4"
  unfolding below_16_cases below_2_cases
  by (elim disjE; simp add: cch_out_def conv_cch_next_output_def)

text \<open>
  Two branches into the same state carry the same input bit, and if they come from different
  states their outputs differ in both symbols.
\<close>

lemma cch_merge_bit:
  "s < 16 \<Longrightarrow> b < 2 \<Longrightarrow> q < 16 \<Longrightarrow> d < 2 \<Longrightarrow> cch_next q d = cch_next s b \<Longrightarrow> d = b"
  by (auto simp: cch_next_eq)

lemma cch_merge_out:
  assumes "s < 16" "b < 2" "q < 16" "q \<noteq> s" "cch_next q b = cch_next s b"
  shows "cch_out q b = 3 - cch_out s b"
proof -
  from assms have "q div 2 = s div 2" by (simp add: cch_next_eq)
  with assms(4) have "q = (if even s then s + 1 else s - 1)" by (auto elim!: evenE oddE)
  with assms(1,2) show ?thesis
    unfolding below_16_cases below_2_cases
    by (elim disjE; simp add: cch_out_def conv_cch_next_output_def)
qed

lemma conv_table_out: "s < 16 \<Longrightarrow> b < 2 \<Longrightarrow> conv_table conv_cch_next_output s b = Inr (cch_out s b)"
  unfolding below_16_cases below_2_cases
  by (elim disjE; simp add: cch_out_def conv_cch_next_output_def conv_table_def)

lemma conv_table_next: "s < 16 \<Longrightarrow> b < 2 \<Longrightarrow> conv_table conv_cch_next_state s b = Inr (cch_next s b)"
  unfolding below_16_cases below_2_cases
  by (elim disjE; simp add: cch_next_def conv_cch_next_state_def conv_table_def)

text \<open>The states a sequence of input bits runs through.\<close>

primrec cch_states :: "(nat \<Rightarrow> nat) \<Rightarrow> nat \<Rightarrow> nat" where
  "cch_states bits 0 = 0"
| "cch_states bits (Suc i) = cch_next (cch_states bits i) (bits i)"

lemma cch_states_less: "(\<And>j. j < i \<Longrightarrow> bits j < 2) \<Longrightarrow> cch_states bits i < 16"
  by (induction i) (simp_all add: cch_next_less)

text \<open>Four zero bits flush the register.\<close>

lemma cch_states_flush:
  assumes "\<And>j. j < i + 4 \<Longrightarrow> bits j < 2" and "\<And>j. i \<le> j \<Longrightarrow> j < i + 4 \<Longrightarrow> bits j = 0"
  shows "cch_states bits (i + 4) = 0"
proof -
  have l: "cch_states bits i < 16" by (rule cch_states_less) (simp add: assms(1))
  have "cch_states bits (i + 4)
      = cch_next (cch_next (cch_next (cch_next (cch_states bits i) 0) 0) 0) 0"
    using assms(2) [of i] assms(2) [of "i + 1"] assms(2) [of "i + 2"] assms(2) [of "i + 3"]
    by (simp add: numeral_eq_Suc)
  also have "\<dots> = cch_states bits i div 2 div 2 div 2 div 2"
    using l by (simp add: cch_next_eq cch_next_less)
  also have "\<dots> = 0" using l by (simp add: div_mult2_eq [symmetric])
  finally show ?thesis .
qed

section \<open>The encoder\<close>

text \<open>The two symbols sent in round \<open>i\<close>: \<open>k\<close> is 1 for the first and 0 for the second.\<close>

definition cch_sym :: "(nat \<Rightarrow> nat) \<Rightarrow> nat \<Rightarrow> nat \<Rightarrow> bool" where
  "cch_sym bits i k = bit (cch_out (cch_states bits i) (bits i)) k"

lemma of_nat_and_1: "(of_nat n AND 1 :: u8) = of_bool (bit n 0)"
  by (simp add: and_one_eq mod_2_eq_odd bit_0)

lemma conv_cch_encode_spec:
  fixes inp out :: "u8 list"
  assumes "sz \<le> length inp" and "2 * sz \<le> length out"
    and bits: "\<And>i. i < sz \<Longrightarrow> unat (inp ! i) < 2"
  defines "bs \<equiv> \<lambda>i. unat (inp ! i)"
  shows "\<exists>out'. conv_cch_encode inp out sz = Inr out' \<and> length out' = length out
    \<and> (\<forall>i < sz. out' ! (2 * i) = of_bool (cch_sym bs i 1)
         \<and> out' ! (2 * i + 1) = of_bool (cch_sym bs i 0))"
proof -
  let ?ok = "\<lambda>i (out' :: u8 list). length out' = length out
    \<and> (\<forall>j < i. out' ! (2 * j) = of_bool (cch_sym bs j 1)
         \<and> out' ! (2 * j + 1) = of_bool (cch_sym bs j 0))"
  let ?P = "\<lambda>i (state, out'). state = cch_states bs i \<and> ?ok i out'"
  let ?f = "\<lambda>i (state, out).
         rbind (rd inp i) (\<lambda>b.
         rbind (conv_table conv_cch_next_output state (unat b)) (\<lambda>o'.
         rbind (conv_table conv_cch_next_state state (unat b)) (\<lambda>state.
         rbind (wr out (2 * i) (if bit o' 1 then 1 else 0)) (\<lambda>out.
         rbind (wr out (2 * i + 1) (of_nat o' AND 1)) (\<lambda>out :: u8 list. Inr (state, out))))))"
  have "\<exists>s'. rfold ?f [0..<sz] (0, out) = Inr s' \<and> ?P sz s'"
  proof (rule rfold_upt_rule [where P = ?P])
    fix i and st :: "nat \<times> u8 list" assume i: "i < sz" and P: "?P i st"
    obtain d where st: "st = (cch_states bs i, d)" "?ok i d" using P by (cases st) auto
    have s: "cch_states bs i < 16" "bs i < 2"
      using bits i by (auto simp: bs_def intro!: cch_states_less)
    let ?o = "cch_out (cch_states bs i) (bs i)"
    let ?d = "d[2 * i := if bit ?o 1 then 1 else 0, 2 * i + 1 := of_nat ?o AND 1]"
    have "?f i st = Inr (cch_next (cch_states bs i) (bs i), ?d)"
      using i st assms(1,2) s by (simp add: conv_table_out conv_table_next bs_def)
    moreover have "?ok (Suc i) ?d"
      using st i assms(2)
      by (auto simp: less_Suc_eq nth_list_update cch_sym_def of_nat_and_1)
    ultimately show "\<exists>s'. ?f i st = Inr s' \<and> ?P (Suc i) s'" by simp
  qed simp
  then show ?thesis by (auto simp: conv_cch_encode_def)
qed

section \<open>Branch costs\<close>

definition cch_cost :: "u8 \<Rightarrow> u8 \<Rightarrow> nat \<Rightarrow> nat" where
  "cch_cost in0 in1 out = unat (DIFF (ev_sym out 1) in0) + unat (DIFF (ev_sym out 0) in1)"

lemma DIFF_nat: "int (unat (DIFF x y)) = (sint x - sint y) ^ 2 div 512"
  and DIFF_less: "unat (DIFF x y) < 128"
proof -
  have "- 128 \<le> sint x" "sint x < 128" "- 128 \<le> sint y" "sint y < 128"
    using sint_ge [of x] sint_lt [of x] sint_ge [of y] sint_lt [of y] by simp_all
  then have "\<bar>sint x - sint y\<bar> \<le> 255" by linarith
  then have "(sint x - sint y) ^ 2 \<le> 255 ^ 2" by (subst power2_le_iff_abs_le) simp_all
  then have "(sint x - sint y) ^ 2 div 512 \<le> 127" by simp
  moreover have "0 \<le> (sint x - sint y) ^ 2 div 512" by (simp add: pos_imp_zdiv_nonneg_iff)
  moreover have d: "DIFF x y = word_of_int ((sint x - sint y) ^ 2 div 512)"
    by (simp add: DIFF_def drop_bit_eq_div power2_eq_square)
  ultimately show eq: "int (unat (DIFF x y)) = (sint x - sint y) ^ 2 div 512"
    by (simp add: unsigned_of_int take_bit_int_eq_self_iff)
  with \<open>(sint x - sint y) ^ 2 div 512 \<le> 127\<close> show "unat (DIFF x y) < 128" by linarith
qed

lemma cch_cost_le: "cch_cost in0 in1 out \<le> 254"
  using DIFF_less [of "ev_sym out 1" in0] DIFF_less [of "ev_sym out 0" in1]
  by (simp add: cch_cost_def)

text \<open>
  The accumulated errors never exceed \<open>MAX_AE\<close>, so the unsigned addition does not wrap.
\<close>

lemma unat_MAX_AE: "unat MAX_AE = 16777215"
  by (simp add: MAX_AE_def)

lemma unat_conv_nae:
  assumes "unat (ae ! s) \<le> unat MAX_AE"
  shows "unat (conv_nae ae in0 in1 s b) = unat (ae ! s) + cch_cost in0 in1 (cch_out s b)"
proof -
  let ?a = "DIFF (ev_sym (cch_out s b) 1) in0" and ?c = "DIFF (ev_sym (cch_out s b) 0) in1"
  have "unat ?a < 128" "unat ?c < 128" by (rule DIFF_less)+
  with assms have "unat (ae ! s) + unat ?a + unat ?c < 2 ^ 32" by (simp add: unat_MAX_AE)
  then show ?thesis
    by (simp add: conv_nae_def Let_def cch_cost_def unat_word_ariths flip: cch_out_def)
qed

text \<open>A soft symbol of the right sign is strictly nearer to the symbol sent than to the other.\<close>

definition soft_ok :: "u8 \<Rightarrow> bool \<Rightarrow> bool" where
  "soft_ok x b \<longleftrightarrow> (if b then sint x < 0 else 0 < sint x)"

lemma square_gap:
  fixes x :: int
  assumes "0 < x" "x < 129"
  shows "(127 - x) ^ 2 div 512 < (127 + x) ^ 2 div 512"
proof -
  have eq: "(127 + x) ^ 2 = (127 - x) ^ 2 + 508 * x"
    by (simp add: power2_eq_square algebra_simps)
  show ?thesis
  proof (cases "x = 1")
    case False
    with assms have "(127 - x) ^ 2 + 512 \<le> (127 + x) ^ 2" unfolding eq by linarith
    then show ?thesis by linarith
  qed simp
qed

lemma DIFF_soft_ok:
  assumes "soft_ok x (bit out k)" and "bit out' k \<noteq> bit out k"
  shows "unat (DIFF (ev_sym out k) x) < unat (DIFF (ev_sym out' k) x)"
proof -
  have x: "- 128 \<le> sint x" "sint x < 128" using sint_ge [of x] sint_lt [of x] by simp_all
  have e: "sint (127 :: u8) = 127" "sint (- 127 :: u8) = - 127" by code_simp+
  have sq: "(- 127 - y) ^ 2 = (127 + y) ^ 2" for y :: int by (simp add: power2_eq_square algebra_simps)
  have "int (unat (DIFF (ev_sym out k) x)) < int (unat (DIFF (ev_sym out' k) x))"
    using square_gap [of "sint x"] square_gap [of "- sint x"] x assms
    unfolding DIFF_nat by (simp add: ev_sym_def soft_ok_def e sq split: if_splits)
  then show ?thesis by (simp only: of_nat_less_iff)
qed

lemma DIFF_soft_ok_le:
  "soft_ok x (bit out k) \<Longrightarrow> unat (DIFF (ev_sym out k) x) \<le> unat (DIFF (ev_sym out' k) x)"
  by (cases "bit out' k = bit out k") (auto simp: ev_sym_def dest: DIFF_soft_ok [THEN less_imp_le])

lemma cch_cost_soft_le:
  "soft_ok in0 (bit out 1) \<Longrightarrow> soft_ok in1 (bit out 0) \<Longrightarrow> cch_cost in0 in1 out \<le> cch_cost in0 in1 out'"
  unfolding cch_cost_def by (intro add_mono DIFF_soft_ok_le)

lemma cch_cost_soft_less:
  assumes "soft_ok in0 (bit out 1)" "soft_ok in1 (bit out 0)" "out < 4" "out' = 3 - out"
  shows "cch_cost in0 in1 out < cch_cost in0 in1 out'"
proof -
  have "bit out' 0 \<noteq> bit out 0" using assms(3,4) by (auto simp: bit_0)
  with assms(2) have "unat (DIFF (ev_sym out 0) in1) < unat (DIFF (ev_sym out' 0) in1)"
    by (rule DIFF_soft_ok)
  with DIFF_soft_ok_le [OF assms(1), of out'] show ?thesis by (simp add: cch_cost_def)
qed

text \<open>
  Hard bits 0 and 1, taken for soft symbols, lie on the side of the symbol 127 or half-way: the
  output 0 costs no more than any other.
\<close>

lemma cch_cost_hard:
  assumes "in0 < 2" "in1 < (2 :: u8)"
  shows "cch_cost in0 in1 0 \<le> cch_cost in0 in1 out"
proof -
  have "x = 0 \<or> x = 1" if "x < 2" for x :: u8 using that by unat_arith
  with assms have "in0 = 0 \<or> in0 = 1" "in1 = 0 \<or> in1 = 1" by blast+
  moreover have "unat (DIFF 127 0) = 31" "unat (DIFF 127 1) = 31"
    "unat (DIFF (- 127) 0) = 31" "unat (DIFF (- 127) 1) = 32" by code_simp+
  ultimately show ?thesis
    by (auto simp: cch_cost_def ev_sym_def)
qed

section \<open>The scan of the trellis\<close>

lemma rfold_product:
  "rfold (\<lambda>s. rfold (\<lambda>b. g s b) bs) xs st = rfold (\<lambda>(s, b). g s b) (List.product xs bs) st"
proof (induction xs arbitrary: st)
  case (Cons x xs)
  have "rfold (\<lambda>(s, b). g s b) (map (Pair x) bs) st = rfold (g x) bs st" for st
    by (simp add: rfold_map)
  then show ?case
    by (simp add: rfold_append Cons.IH cong: rbind_cong)
qed simp

definition conv_branches :: "(nat \<times> nat) list" where
  "conv_branches = List.product [0..<16] [0..<2]"

lemma conv_branches_sorted: "sorted_wrt (\<lambda>(s, b) (s', b'). s \<le> s') conv_branches"
  by (simp add: conv_branches_def upt_eval)

lemma distinct_conv_branches: "distinct conv_branches"
  by (simp add: conv_branches_def distinct_product)

lemma set_conv_branches: "(s, b) \<in> set conv_branches \<longleftrightarrow> s < 16 \<and> b < 2"
  by (simp add: conv_branches_def)

text \<open>
  What one round keeps: the errors stay within \<open>MAX_AE\<close>, and the history changes in the column of
  the round only.
\<close>

definition scan_ok :: "nat \<Rightarrow> conv_scan \<Rightarrow> bool" where
  "scan_ok n = (\<lambda>(ae, hist). length ae = 16 \<and> 16 * n + 1 \<le> length hist
     \<and> (\<forall>s < 16. unat (ae ! s) \<le> unat MAX_AE))"

lemma hist_index_less: "s < 16 \<Longrightarrow> i < n \<Longrightarrow> s * n + (i + 1) < 16 * n + (1 :: nat)"
proof -
  assume "s < 16" "i < n"
  then have "s * n + (i + 1) \<le> 15 * n + n" by (intro add_mono mult_le_mono1) simp_all
  then show ?thesis by simp
qed

lemma hist_index_inj:
  assumes "s * n + (i + 1) = s' * n + (i' + 1)" "i < n" "i' < (n :: nat)"
  shows "s = s' \<and> i = i'"
proof -
  from assms(1) have "s * n + i = s' * n + i'" by simp
  then have "(s * n + i) div n = (s' * n + i') div n" by simp
  moreover have "(s * n + i) div n = s" "(s' * n + i') div n = s'"
    using assms(2,3) by (simp_all add: div_mult_self3)
  ultimately show ?thesis using assms(1) by simp
qed

lemma conv_cch_branch_cases:
  assumes ok: "scan_ok n (ae', hist)" and i: "i < n" and s: "s < 16" "b < 2"
  shows "conv_cch_branch n i ae in0 in1 s b (ae', hist) =
    (if conv_nae ae in0 in1 s b < ae' ! cch_next s b
     then Inr (ae'[cch_next s b := conv_nae ae in0 in1 s b],
               hist[cch_next s b * n + (i + 1) := Some s])
     else Inr (ae', hist))"
proof -
  have "cch_next s b * n + (i + 1) < length hist"
    using hist_index_less [OF cch_next_less [OF s] i] ok by (simp add: scan_ok_def)
  then show ?thesis
    by (simp add: conv_cch_branch_def Let_def flip: cch_next_def)
qed

text \<open>
  The round as seen from the state \<open>t\<close> that the sent sequence enters, coming from \<open>p\<close> with bit
  \<open>c\<close> and the total error \<open>T\<close>: no error in the round is below \<open>T\<close>, and once the branch has been
  scanned it is the recorded survivor.
\<close>

definition round_inv ::
  "nat \<Rightarrow> nat \<Rightarrow> nat option list \<Rightarrow> nat \<Rightarrow> nat \<Rightarrow> nat \<Rightarrow> (nat \<times> nat) list \<Rightarrow> conv_scan \<Rightarrow> bool" where
  "round_inv n i hist0 p c T seen = (\<lambda>(ae', hist). scan_ok n (ae', hist)
     \<and> (\<forall>s < 16. T \<le> unat (ae' ! s))
     \<and> (\<forall>s < 16. \<forall>j < n. j \<noteq> i \<longrightarrow> hist ! (s * n + (j + 1)) = hist0 ! (s * n + (j + 1)))
     \<and> (if (p, c) \<in> set seen
        then unat (ae' ! cch_next p c) = T \<and> hist ! (cch_next p c * n + (i + 1)) = Some p
        else T < unat (ae' ! cch_next p c)))"

definition conv_round ::
  "nat \<Rightarrow> nat \<Rightarrow> u32 list \<Rightarrow> u8 \<Rightarrow> u8 \<Rightarrow> nat \<Rightarrow> nat \<Rightarrow> nat \<Rightarrow> bool" where
  "conv_round n i ae in0 in1 p c T \<longleftrightarrow> i < n \<and> p < 16 \<and> c < 2
     \<and> (\<forall>s < 16. unat (ae ! s) \<le> unat MAX_AE) \<and> T < unat MAX_AE
     \<and> unat (ae ! p) + cch_cost in0 in1 (cch_out p c) = T
     \<and> (\<forall>s < 16. \<forall>b < 2. T \<le> unat (ae ! s) + cch_cost in0 in1 (cch_out s b))
     \<and> (\<forall>q < 16. q \<noteq> p \<longrightarrow> cch_next q c = cch_next p c \<longrightarrow>
          p < q \<or> T < unat (ae ! q) + cch_cost in0 in1 (cch_out q c))"

lemma conv_roundD:
  assumes "conv_round n i ae in0 in1 p c T"
  shows "i < n" "p < 16" "c < 2"
    and "\<And>s. s < 16 \<Longrightarrow> unat (ae ! s) \<le> unat MAX_AE"
    and "unat (ae ! p) + cch_cost in0 in1 (cch_out p c) = T"
    and "\<And>q. q < 16 \<Longrightarrow> q \<noteq> p \<Longrightarrow> cch_next q c = cch_next p c \<Longrightarrow>
      p < q \<or> T < unat (ae ! q) + cch_cost in0 in1 (cch_out q c)"
  using assms by (auto simp: conv_round_def)

lemma nae_ge:
  "conv_round n i ae in0 in1 p c T \<Longrightarrow> s < 16 \<Longrightarrow> b < 2 \<Longrightarrow> T \<le> unat (conv_nae ae in0 in1 s b)"
  by (auto simp: conv_round_def unat_conv_nae)

lemma branch_keeps:
  assumes R: "conv_round n i ae in0 in1 p c T" and inv: "round_inv n i hist0 p c T seen st"
    and sb: "s < 16" "b < 2" "(s, b) \<notin> set seen"
    and order: "(p, c) \<notin> set seen \<Longrightarrow> s \<le> p"
  shows "\<exists>st'. conv_cch_branch n i ae in0 in1 s b st = Inr st'
    \<and> round_inv n i hist0 p c T (seen @ [(s, b)]) st'"
proof -
  obtain ae' hist where st: "st = (ae', hist)" by (cases st)
  note i = conv_roundD(1) [OF R] and p = conv_roundD(2,3) [OF R]
    and bound = conv_roundD(4) [OF R] and T_eq = conv_roundD(5) [OF R] and tie = conv_roundD(6) [OF R]
  note inv = inv [unfolded st round_inv_def prod.case]
  let ?t = "cch_next s b" and ?nae = "conv_nae ae in0 in1 s b"
  let ?better = "?nae < ae' ! ?t"
  from inv have ok: "scan_ok n (ae', hist)" by blast
  then have len: "length ae' = 16" "16 * n + 1 \<le> length hist" by (simp_all add: scan_ok_def)
  have t: "?t < 16" "cch_next p c < 16" using sb p cch_next_less by blast+
  have idx: "?t * n + (i + 1) < length hist" using hist_index_less [OF t(1) i] len by simp
  define ae2 where "ae2 = (if ?better then ae'[?t := ?nae] else ae')"
  define hist2 where "hist2 = (if ?better then hist[?t * n + (i + 1) := Some s] else hist)"
  have run: "conv_cch_branch n i ae in0 in1 s b st = Inr (ae2, hist2)"
    using conv_cch_branch_cases [OF ok i sb(1,2)] by (simp add: st ae2_def hist2_def)
  have ae2: "ae2 ! s' = (if s' = ?t \<and> ?better then ?nae else ae' ! s')" if "s' < 16" for s'
    using that len t(1) by (simp add: ae2_def nth_list_update)
  have le: "unat (ae2 ! s') \<le> unat (ae' ! s')" "T \<le> unat (ae2 ! s')" if "s' < 16" for s'
    using that inv nae_ge [OF R sb(1,2)] by (simp_all add: ae2 word_less_nat_alt)
  have ok2: "scan_ok n (ae2, hist2)"
    using ok le(1) by (force simp: scan_ok_def ae2_def hist2_def)
  have cols: "hist2 ! (s' * n + (j + 1)) = hist0 ! (s' * n + (j + 1))"
    if "s' < 16" "j < n" "j \<noteq> i" for s' j
  proof -
    have "?t * n + (i + 1) \<noteq> s' * n + (j + 1)"
      using hist_index_inj [of ?t n i s' j] i that by blast
    with that inv show ?thesis by (simp add: hist2_def)
  qed
  have last: "if (p, c) \<in> set (seen @ [(s, b)])
        then unat (ae2 ! cch_next p c) = T \<and> hist2 ! (cch_next p c * n + (i + 1)) = Some p
        else T < unat (ae2 ! cch_next p c)"
  proof (cases "?t = cch_next p c")
    case True
    then have b: "b = c" using cch_merge_bit [OF p sb(1,2)] by blast
    have nae: "unat ?nae = unat (ae ! s) + cch_cost in0 in1 (cch_out s b)"
      using bound [OF sb(1)] by (rule unat_conv_nae)
    have hist2: "hist2 ! (?t * n + (i + 1)) = (if ?better then Some s else hist ! (?t * n + (i + 1)))"
      using idx by (simp add: hist2_def)
    show ?thesis
    proof (cases "s = p")
      case True
      with b sb(3) inv nae T_eq hist2 show ?thesis by (auto simp: ae2 t word_less_nat_alt)
    next
      case False
      with True b tie [OF sb(1)] order have "T < unat ?nae" if "(p, c) \<notin> set seen"
        using that nae by fastforce
      with True False b inv nae_ge [OF R sb(1,2)] hist2 show ?thesis
        by (auto simp: ae2 t word_less_nat_alt)
    qed
  next
    case False
    then have "cch_next p c * n + (i + 1) \<noteq> ?t * n + (i + 1)"
      using hist_index_inj [of "cch_next p c" n i ?t i] i False by metis
    with False inv show ?thesis by (auto simp: ae2 t hist2_def)
  qed
  show ?thesis
    using run ok2 le(2) cols last by (simp add: round_inv_def)
qed

lemma scan_keeps:
  assumes R: "conv_round n i ae in0 in1 p c T" and inv: "round_inv n i hist0 p c T [] st"
  shows "\<exists>st'. rfold (\<lambda>(s, b). conv_cch_branch n i ae in0 in1 s b) conv_branches st = Inr st'
    \<and> round_inv n i hist0 p c T conv_branches st'"
proof -
  have "\<exists>st'. rfold (\<lambda>(s, b). conv_cch_branch n i ae in0 in1 s b) todo st = Inr st'
      \<and> round_inv n i hist0 p c T (seen @ todo) st'"
    if "conv_branches = seen @ todo" "round_inv n i hist0 p c T seen st" for seen todo st
    using that
  proof (induction todo arbitrary: seen st)
    case (Cons sb todo)
    obtain s b where sb: "sb = (s, b)" by (cases sb)
    have mem: "(s, b) \<in> set conv_branches" unfolding Cons.prems(1) sb by simp
    have pc: "(p, c) \<in> set conv_branches" using conv_roundD(2,3) [OF R] by (simp add: set_conv_branches)
    have "s \<le> p" if "(p, c) \<notin> set seen"
      using that pc conv_branches_sorted
      unfolding Cons.prems(1) sb by (auto simp: sorted_wrt_append)
    moreover have "(s, b) \<notin> set seen"
      using distinct_conv_branches unfolding Cons.prems(1) sb by auto
    moreover have "s < 16" "b < 2" using mem set_conv_branches by blast+
    ultimately obtain st' where st': "conv_cch_branch n i ae in0 in1 s b st = Inr st'"
      "round_inv n i hist0 p c T (seen @ [(s, b)]) st'"
      using branch_keeps [OF R Cons.prems(2)] by blast
    from Cons.IH [OF _ st'(2)] Cons.prems(1) sb obtain st2 where
      "rfold (\<lambda>(s, b). conv_cch_branch n i ae in0 in1 s b) todo st' = Inr st2"
      "round_inv n i hist0 p c T (seen @ sb # todo) st2" by auto
    with sb st'(1) show ?case by auto
  qed simp
  from this [of "[]" conv_branches st] inv show ?thesis by simp
qed

section \<open>The survivor path\<close>

lemma conv_cch_step_branches:
  assumes "2 * i + 1 < length inp"
  shows "conv_cch_step n inp i (ae, hist) =
    rfold (\<lambda>(s, b). conv_cch_branch n i ae (inp ! (2 * i)) (inp ! (2 * i + 1)) s b) conv_branches
      (replicate 16 MAX_AE, hist)"
  using assms
  by (simp add: conv_cch_step_def CONV_N_STATES_def conv_branches_def rfold_product del: upt_rec_numeral)

lemma conv_cch_best_zero:
  assumes "ae ! 0 < MAX_AE" and "\<And>s. s < 16 \<Longrightarrow> ae ! 0 \<le> ae ! s"
  shows "conv_cch_best ae = Some 0"
proof -
  let ?f = "\<lambda>s (min_ae, min_state). if ae ! s < min_ae then (ae ! s, Some s) else (min_ae, min_state)"
  have "fold ?f xs (ae ! 0, Some 0) = (ae ! 0, Some 0)" if "\<And>s. s \<in> set xs \<Longrightarrow> s < 16" for xs
    using that
  proof (induction xs)
    case (Cons s xs)
    then have "\<not> ae ! s < ae ! 0" using assms(2) by (simp add: not_less)
    with Cons show ?case by simp
  qed simp
  from this [of "[1..<16]"] have "fold ?f (0 # [1..<16]) (MAX_AE, None) = (ae ! 0, Some 0)"
    using assms(1) by simp
  then show ?thesis
    unfolding conv_cch_best_def CONV_N_STATES_def by (simp only: upt_eval(1) One_nat_def snd_conv)
qed

text \<open>
  A bit sequence whose path ends in state 0 and is decodable from the input: in every round its
  branch is among the cheapest of the trellis, and a branch that merges into it is dearer or is
  scanned later.
\<close>

definition path_cost :: "u8 list \<Rightarrow> (nat \<Rightarrow> nat) \<Rightarrow> nat \<Rightarrow> nat" where
  "path_cost inp bits i =
     cch_cost (inp ! (2 * i)) (inp ! (2 * i + 1)) (cch_out (cch_states bits i) (bits i))"

definition conv_path :: "nat \<Rightarrow> u8 list \<Rightarrow> (nat \<Rightarrow> nat) \<Rightarrow> bool" where
  "conv_path n inp bits \<longleftrightarrow> 2 * n \<le> length inp \<and> 254 * n < unat MAX_AE \<and> (\<forall>i < n. bits i < 2)
     \<and> cch_states bits n = 0
     \<and> (\<forall>i < n. \<forall>s < 16. \<forall>b < 2.
          path_cost inp bits i \<le> cch_cost (inp ! (2 * i)) (inp ! (2 * i + 1)) (cch_out s b))
     \<and> (\<forall>i < n. \<forall>q < 16. q \<noteq> cch_states bits i \<longrightarrow> cch_next q (bits i) = cch_states bits (Suc i) \<longrightarrow>
          cch_states bits i < q \<or>
          path_cost inp bits i < cch_cost (inp ! (2 * i)) (inp ! (2 * i + 1)) (cch_out q (bits i)))"

lemma conv_pathD:
  assumes "conv_path n inp bits"
  shows "2 * n \<le> length inp" "254 * n < unat MAX_AE" "\<And>i. i < n \<Longrightarrow> bits i < 2"
    and "cch_states bits n = 0"
    and "\<And>i s b. i < n \<Longrightarrow> s < 16 \<Longrightarrow> b < 2 \<Longrightarrow>
      path_cost inp bits i \<le> cch_cost (inp ! (2 * i)) (inp ! (2 * i + 1)) (cch_out s b)"
    and "\<And>i q. i < n \<Longrightarrow> q < 16 \<Longrightarrow> q \<noteq> cch_states bits i \<Longrightarrow>
      cch_next q (bits i) = cch_states bits (Suc i) \<Longrightarrow>
      cch_states bits i < q \<or>
      path_cost inp bits i < cch_cost (inp ! (2 * i)) (inp ! (2 * i + 1)) (cch_out q (bits i))"
  using assms unfolding conv_path_def by blast+

definition path_total :: "u8 list \<Rightarrow> (nat \<Rightarrow> nat) \<Rightarrow> nat \<Rightarrow> nat" where
  "path_total inp bits i = sum (path_cost inp bits) {..<i}"

lemma path_total_Suc: "path_total inp bits (Suc i) = path_total inp bits i + path_cost inp bits i"
  by (simp add: path_total_def)

lemma path_total_less: "conv_path n inp bits \<Longrightarrow> i \<le> n \<Longrightarrow> path_total inp bits i < unat MAX_AE"
proof -
  assume P: "conv_path n inp bits" and "i \<le> n"
  have "path_total inp bits j \<le> j * 254" for j
    unfolding path_total_def path_cost_def
    using sum_bounded_above [of "{..<j}" _ "254 :: nat"] cch_cost_le by simp
  from this [of i] \<open>i \<le> n\<close> conv_pathD(2) [OF P] show ?thesis by simp
qed

lemma state_less: "conv_path n inp bits \<Longrightarrow> i \<le> n \<Longrightarrow> cch_states bits i < 16"
  by (rule cch_states_less) (simp add: conv_pathD(3))

definition path_inv :: "nat \<Rightarrow> u8 list \<Rightarrow> (nat \<Rightarrow> nat) \<Rightarrow> nat \<Rightarrow> conv_scan \<Rightarrow> bool" where
  "path_inv n inp bits i = (\<lambda>(ae, hist). scan_ok n (ae, hist)
     \<and> (\<forall>s < 16. path_total inp bits i \<le> unat (ae ! s))
     \<and> unat (ae ! cch_states bits i) = path_total inp bits i
     \<and> (\<forall>j < i. hist ! (cch_states bits (Suc j) * n + (j + 1)) = Some (cch_states bits j)))"

lemma path_round:
  assumes P: "conv_path n inp bits" and i: "i < n" and inv: "path_inv n inp bits i (ae, hist)"
  shows "conv_round n i ae (inp ! (2 * i)) (inp ! (2 * i + 1)) (cch_states bits i) (bits i) (path_total inp bits (Suc i))"
proof -
  note inv = inv [unfolded path_inv_def prod.case]
  let ?in0 = "inp ! (2 * i)" and ?in1 = "inp ! (2 * i + 1)"
  have "path_total inp bits (Suc i) \<le> unat (ae ! s) + cch_cost ?in0 ?in1 (cch_out s b)"
    if "s < 16" "b < 2" for s b
    using that inv conv_pathD(5) [OF P i that]
    by (simp add: path_total_Suc add_mono)
  moreover have "cch_states bits i < q \<or>
      path_total inp bits (Suc i) < unat (ae ! q) + cch_cost ?in0 ?in1 (cch_out q (bits i))"
    if "q < 16" "q \<noteq> cch_states bits i" "cch_next q (bits i) = cch_next (cch_states bits i) (bits i)" for q
    using that inv conv_pathD(6) [OF P i that(1,2)]
    by (auto simp: path_total_Suc intro: add_le_less_mono)
  moreover have "path_total inp bits (Suc i) < unat MAX_AE"
    using i by (intro path_total_less [OF P]) simp
  ultimately show ?thesis
    using i inv conv_pathD(3) [OF P i] state_less [OF P, of i]
    by (simp add: conv_round_def scan_ok_def path_total_Suc path_cost_def)
qed

lemma path_step:
  assumes P: "conv_path n inp bits" and i: "i < n" and inv: "path_inv n inp bits i st"
  shows "\<exists>st'. conv_cch_step n inp i st = Inr st' \<and> path_inv n inp bits (Suc i) st'"
proof -
  obtain ae hist where st: "st = (ae, hist)" by (cases st)
  let ?p = "cch_states bits i" and ?c = "bits i" and ?T = "path_total inp bits (Suc i)"
  have lt: "?T < unat MAX_AE" using i by (intro path_total_less [OF P]) simp
  have nx: "cch_next ?p ?c < 16" using i state_less [OF P, of i] conv_pathD(3) [OF P] cch_next_less by simp
  have "round_inv n i hist ?p ?c ?T [] (replicate 16 MAX_AE, hist)"
    using inv lt nx st by (auto simp: round_inv_def scan_ok_def path_inv_def)
  from scan_keeps [OF path_round [OF P i inv [unfolded st]] this] obtain ae' hist' where
    run: "conv_cch_step n inp i st = Inr (ae', hist')"
    and r: "round_inv n i hist ?p ?c ?T conv_branches (ae', hist')"
    using i conv_pathD(1) [OF P] conv_cch_step_branches [of i inp n ae hist] st by auto
  have mem: "(?p, ?c) \<in> set conv_branches"
    using i state_less [OF P, of i] conv_pathD(3) [OF P] by (simp add: set_conv_branches)
  have "hist' ! (cch_states bits (Suc j) * n + (j + 1)) = Some (cch_states bits j)" if "j < Suc i" for j
  proof (cases "j = i")
    case False
    with that i have "j < i" "j < n" by simp_all
    moreover have "cch_states bits (Suc j) < 16" using \<open>j < n\<close> by (intro state_less [OF P]) simp
    ultimately show ?thesis
      using r inv st False unfolding round_inv_def path_inv_def by (simp del: cch_states.simps)
  qed (use r mem in \<open>simp add: round_inv_def\<close>)
  with run r mem show ?thesis by (auto simp: round_inv_def path_inv_def)
qed

lemma path_back:
  assumes P: "conv_path n inp bits"
    and hist: "16 * n + 1 \<le> length hist"
      "\<forall>j < n. hist ! (cch_states bits (Suc j) * n + (j + 1)) = Some (cch_states bits j)"
    and "m \<le> n" "m \<le> length out"
  shows "rfold (conv_cch_back n hist) (rev [0..<m]) (Some (cch_states bits m), out)
    = Inr (Some 0, map (\<lambda>i. of_nat (bits i)) [0..<m] @ drop m out)"
  using assms(4,5)
proof (induction m arbitrary: out)
  case (Suc m)
  have p: "cch_states bits m < 16" "cch_states bits (Suc m) < 16" "bits m < 2"
    using Suc.prems state_less [OF P, of m] state_less [OF P, of "Suc m"] conv_pathD(3) [OF P, of m] by simp_all
  have idx: "cch_states bits (Suc m) * n + (m + 1) < length hist"
    using hist_index_less [OF p(2), of m n] Suc.prems hist(1) by linarith
  have bit: "(if cch_next (cch_states bits m) 0 = cch_states bits (Suc m) then 0 else 1 :: u8)
      = of_nat (bits m)"
    using p by (auto simp: cch_next_eq below_2_cases)
  have "conv_cch_back n hist m (Some (cch_states bits (Suc m)), out)
      = Inr (Some (cch_states bits m), out[m := of_nat (bits m)])"
    using idx hist(2) Suc.prems p bit
    by (simp add: conv_cch_back_def conv_table_next del: cch_states.simps)
  moreover have "drop m (out[m := of_nat (bits m)]) = of_nat (bits m) # drop (Suc m) out"
    using Suc.prems by (simp flip: Cons_nth_drop_Suc)
  ultimately show ?case using Suc.IH [of "out[m := of_nat (bits m)]"] Suc.prems by simp
qed simp

lemma decode_path:
  assumes P: "conv_path n inp bits" and "n \<le> length out" and slack: "0 < slack"
  shows "conv_cch_decode slack inp out n = Inr (map (\<lambda>i. of_nat (bits i)) [0..<n] @ drop n out)"
proof -
  let ?st = "(0 # replicate 15 MAX_AE, replicate (16 * n + slack) None)"
  have "path_inv n inp bits 0 ?st"
    using slack by (auto simp: path_inv_def scan_ok_def path_total_def nth_Cons split: nat.splits)
  then have "\<exists>st. rfold (conv_cch_step n inp) [0..<n] ?st = Inr st \<and> path_inv n inp bits n st"
    by (rule rfold_upt_rule) (rule path_step [OF P])
  then obtain ae hist where run: "rfold (conv_cch_step n inp) [0..<n] ?st = Inr (ae, hist)"
    and inv: "path_inv n inp bits n (ae, hist)" by auto
  from inv path_total_less [OF P, of n] have "conv_cch_best ae = Some (cch_states bits n)"
    unfolding conv_pathD(4) [OF P] by (intro conv_cch_best_zero)
      (auto simp: path_inv_def conv_pathD(4) [OF P] word_less_nat_alt word_le_nat_alt)
  with run path_back [OF P, of hist n out] inv assms show ?thesis
    by (simp add: conv_cch_decode_def CONV_N_STATES_def path_inv_def scan_ok_def)
qed

section \<open>Correctness of the decoder\<close>

lemma soft_conv_path:
  assumes "2 * n \<le> length inp" "254 * n < unat MAX_AE" "\<And>i. i < n \<Longrightarrow> bits i < 2"
    and flush: "4 \<le> n" "\<And>i. n \<le> i + 4 \<Longrightarrow> i < n \<Longrightarrow> bits i = 0"
    and soft: "\<And>i. i < n \<Longrightarrow> soft_ok (inp ! (2 * i)) (cch_sym bits i 1)"
      "\<And>i. i < n \<Longrightarrow> soft_ok (inp ! (2 * i + 1)) (cch_sym bits i 0)"
  shows "conv_path n inp bits"
proof -
  have "cch_states bits (n - 4 + 4) = 0"
    by (rule cch_states_flush) (use assms(3) flush in auto)
  then have end0: "cch_states bits n = 0" using flush(1) by simp
  have p: "cch_states bits i < 16" if "i < n" for i
    by (rule cch_states_less) (use that assms(3) in auto)
  have "path_cost inp bits i \<le> cch_cost (inp ! (2 * i)) (inp ! (2 * i + 1)) (cch_out s b)"
    if "i < n" for i s b
    using soft [OF that] unfolding path_cost_def cch_sym_def by (rule cch_cost_soft_le)
  moreover have "path_cost inp bits i < cch_cost (inp ! (2 * i)) (inp ! (2 * i + 1)) (cch_out q (bits i))"
    if "i < n" "q < 16" "q \<noteq> cch_states bits i" "cch_next q (bits i) = cch_states bits (Suc i)" for i q
    using soft [OF that(1)] cch_out_less [OF p [OF that(1)] assms(3) [OF that(1)]]
      cch_merge_out [OF p [OF that(1)] assms(3) [OF that(1)] that(2,3)] that(4)
    unfolding path_cost_def cch_sym_def by (intro cch_cost_soft_less) simp_all
  ultimately show ?thesis
    using assms(1-3) end0 unfolding conv_path_def by blast
qed

text \<open>The soft symbols that a receiver may have for a block of sent bits: the right signs.\<close>

definition soft_received :: "u8 list \<Rightarrow> u8 list \<Rightarrow> bool" where
  "soft_received sent soft \<longleftrightarrow> list_all2 (\<lambda>x b. soft_ok x (nz b)) soft sent"

lemma encoded_spec:
  fixes msg coded :: "u8 list"
  assumes msg: "set msg \<subseteq> {0, 1}" and n: "n = length msg + 4"
    and enc: "conv_cch_encode (msg @ replicate 4 0) (replicate (2 * n) 0) n = Inr coded"
  defines "bs \<equiv> \<lambda>i. unat ((msg @ replicate 4 0) ! i)"
  shows "\<And>i. i < n \<Longrightarrow> bs i < 2" and "length coded = 2 * n"
    and "\<forall>i < n. coded ! (2 * i) = of_bool (cch_sym bs i 1)
         \<and> coded ! (2 * i + 1) = of_bool (cch_sym bs i 0)"
proof -
  let ?u = "msg @ replicate 4 0"
  have bit: "?u ! i = 0 \<or> ?u ! i = 1" if "i < n" for i
    using msg that n by (auto simp: nth_append subset_iff)
  then show lt: "bs i < 2" if "i < n" for i using that unfolding bs_def by fastforce
  from conv_cch_encode_spec [of n ?u "replicate (2 * n) 0"] enc lt n
  show "length coded = 2 * n" "\<forall>i < n. coded ! (2 * i) = of_bool (cch_sym bs i 1)
         \<and> coded ! (2 * i + 1) = of_bool (cch_sym bs i 0)" by (auto simp: bs_def)
qed

lemmas encoded_length = encoded_spec(2)

lemma decode_encoded:
  fixes msg coded soft :: "u8 list"
  assumes msg: "set msg \<subseteq> {0, 1}" and n: "n = length msg + 4" "n \<le> 66000"
    and enc: "conv_cch_encode (msg @ replicate 4 0) (replicate (2 * n) 0) n = Inr coded"
    and soft: "soft_received coded soft" and out: "n \<le> length out" and slack: "0 < slack"
  shows "conv_cch_decode slack soft out n = Inr (msg @ replicate 4 0 @ drop n out)"
proof -
  let ?u = "msg @ replicate 4 0"
  let ?bs = "\<lambda>i. unat (?u ! i)"
  note lt = encoded_spec(1) [OF msg n(1) enc] and c = encoded_spec(2,3) [OF msg n(1) enc]
  have "conv_path n soft ?bs"
  proof (rule soft_conv_path)
    show "254 * n < unat MAX_AE" using n(2) by (simp add: unat_MAX_AE)
    fix i assume i: "i < n"
    with soft c(1) have "soft_ok (soft ! (2 * i)) (nz (coded ! (2 * i)))"
      "soft_ok (soft ! (2 * i + 1)) (nz (coded ! (2 * i + 1)))" by (simp_all add: soft_received_def list_all2_conv_all_nth)
    moreover have sym: "cch_sym ?bs i 1 = nz (coded ! (2 * i))" "cch_sym ?bs i 0 = nz (coded ! (2 * i + 1))"
      using c(2) i by simp_all
    ultimately show "soft_ok (soft ! (2 * i)) (cch_sym ?bs i 1)"
      "soft_ok (soft ! (2 * i + 1)) (cch_sym ?bs i 0)" unfolding sym by blast+
  qed (use n(1) lt soft c in \<open>auto simp: soft_received_def list_all2_conv_all_nth nth_append\<close>)
  moreover have "map (\<lambda>i. of_nat (?bs i)) [0..<n] = ?u"
    using n(1) by (intro nth_equalityI) simp_all
  ultimately show ?thesis using decode_path [OF _ out slack] by (metis append_assoc)
qed

lemma decode_hard_bits:
  fixes inp :: "u8 list"
  assumes "n \<le> 66000" "2 * n \<le> length inp" "\<forall>x \<in> set (take (2 * n) inp). x < 2" "n \<le> length out" "0 < slack"
  shows "conv_cch_decode slack inp out n = Inr (replicate n 0 @ drop n out)"
proof -
  let ?bs = "\<lambda>i :: nat. 0 :: nat"
  have next0: "cch_next 0 0 = 0" and out0: "cch_out 0 0 = 0"
    by (simp_all add: cch_next_def cch_out_def conv_cch_next_state_def conv_cch_next_output_def)
  have hard: "inp ! i < 2" if "i < 2 * n" for i
    using that assms(2,3) by (metis in_set_conv_nth length_take min.absorb2 nth_take)
  have states: "cch_states ?bs i = 0" for i by (induction i) (simp_all add: next0)
  have "path_cost inp ?bs i \<le> cch_cost (inp ! (2 * i)) (inp ! (2 * i + 1)) (cch_out s b)"
    if "i < n" for i s b
    using that assms(2) hard [of "2 * i"] hard [of "2 * i + 1"]
    unfolding path_cost_def states out0 by (intro cch_cost_hard) simp_all
  then have "conv_path n inp ?bs"
    using assms(1,2) by (auto simp: conv_path_def states unat_MAX_AE)
  from decode_path [OF this assms(4,5)] show ?thesis by (simp add: map_replicate_trivial)
qed

text \<open>
  On hard bits the decoder's result does not depend on its input: if every symbol handed to it
  is 0 or 1, it returns the all-zero block (where there is an int behind the history).  (\<open>process_pdch\<close> and \<open>process_tch\<close> hand
  \<open>decode_signalling\<close>, and through it this decoder, arrays of bits and not of soft symbols.)
\<close>

theorem viterbi_hard_bits_give_zeros:
  fixes inp :: "u8 list"
  assumes "n \<le> 66000" "2 * n \<le> length inp" "\<forall>x \<in> set (take (2 * n) inp). x < 2" "n \<le> length out" "0 < slack"
  shows "conv_cch_decode slack inp out n = Inr (replicate n 0 @ drop n out)"
  using assms by (rule decode_hard_bits)

theorem viterbi_hard_bits_give_zeros_witness:
  "conv_cch_decode 1 [1, 1, 0, 1, 0, 0, 1, 1, 1, 1] [9, 9, 9, 9, 9] 5 = Inr (replicate 5 0)"
  using viterbi_hard_bits_give_zeros [of 5 "[1, 1, 0, 1, 0, 0, 1, 1, 1, 1]" "[9, 9, 9, 9, 9]" 1]
  by simp

section \<open>The write past the end of the history\<close>

text \<open>
  What a round that does not fault has done, whatever the size of the history: every branch is
  accounted for, and a state with an error below \<open>MAX_AE\<close> has a cell in the history.
\<close>

definition scanned ::
  "nat \<Rightarrow> nat \<Rightarrow> nat \<Rightarrow> u32 list \<Rightarrow> u8 \<Rightarrow> u8 \<Rightarrow> (nat \<times> nat) list \<Rightarrow> conv_scan \<Rightarrow> bool" where
  "scanned n i L ae in0 in1 seen = (\<lambda>(ae', hist). length ae' = 16 \<and> length hist = L
     \<and> (\<forall>s < 16. unat (ae' ! s) \<le> unat MAX_AE)
     \<and> (\<forall>(s, b) \<in> set seen. unat (ae' ! cch_next s b) \<le> unat (conv_nae ae in0 in1 s b))
     \<and> (\<forall>t < 16. unat (ae' ! t) < unat MAX_AE \<longrightarrow> t * n + (i + 1) < L))"

lemma branch_scanned:
  assumes "scanned n i L ae in0 in1 seen st" "s < 16" "b < 2"
    and "conv_cch_branch n i ae in0 in1 s b st = Inr st'"
    and seen: "\<forall>(s, b) \<in> set seen. s < 16 \<and> b < 2"
  shows "scanned n i L ae in0 in1 (seen @ [(s, b)]) st'"
proof -
  obtain ae' hist where st: "st = (ae', hist)" by (cases st)
  have t: "cch_next s b < 16" using assms(2,3) by (rule cch_next_less)
  show ?thesis
  proof (cases "conv_nae ae in0 in1 s b < ae' ! cch_next s b")
    case True
    with assms(4) st have st': "st' = (ae'[cch_next s b := conv_nae ae in0 in1 s b],
        hist[cch_next s b * n + (i + 1) := Some s])" "cch_next s b * n + (i + 1) < length hist"
      by (auto simp: conv_cch_branch_def Let_def cch_next_def rbind_eq_Inr wr_eq_Inr)
    with True assms(1) st t seen show ?thesis
      by (auto simp: scanned_def nth_list_update word_less_nat_alt split: if_splits)
  next
    case False
    with assms(4) st have "st' = st"
      by (auto simp: conv_cch_branch_def Let_def cch_next_def)
    with False assms(1) st show ?thesis
      by (auto simp: scanned_def word_less_nat_alt)
  qed
qed

lemma step_scanned:
  assumes "2 * i + 1 < length inp" and "conv_cch_step n inp i (ae, hist) = Inr st"
  shows "scanned n i (length hist) ae (inp ! (2 * i)) (inp ! (2 * i + 1)) conv_branches st"
proof -
  let ?f = "\<lambda>(s, b). conv_cch_branch n i ae (inp ! (2 * i)) (inp ! (2 * i + 1)) s b"
  let ?P = "\<lambda>seen st. scanned n i (length hist) ae (inp ! (2 * i)) (inp ! (2 * i + 1)) seen st
     \<and> (\<forall>(s, b) \<in> set seen. s < 16 \<and> b < (2 :: nat))"
  from assms have "rfold ?f conv_branches (replicate 16 MAX_AE, hist) = Inr st"
    by (simp add: conv_cch_step_branches)
  then have "?P conv_branches st"
  proof (rule rfold_seen [where P = ?P])
    fix x seen s s'
    assume x: "x \<in> set conv_branches" and run: "?P seen s" "?f x s = Inr s'"
    obtain q b where "x = (q, b)" by (cases x)
    moreover from this x have "q < 16" "b < 2" using set_conv_branches by blast+
    ultimately show "?P (seen @ [x]) s'"
      using run branch_scanned [of n i _ ae _ _ seen s q b s'] by simp
  qed (simp add: scanned_def)
  then show ?thesis by blast
qed

lemma ones_tail:
  assumes "4 \<le> n"
  shows "cch_states (\<lambda>i. if i + 4 < n then 0 else 1) n = 15"
proof -
  let ?bs = "\<lambda>i. if i + 4 < n then 0 else 1 :: nat"
  obtain m where m: "n = m + 4" using assms by (intro that [of "n - 4"]) simp
  have next0: "cch_next 0 0 = 0" "cch_next 0 1 = 8" "cch_next 8 1 = 12" "cch_next 12 1 = 14"
    "cch_next 14 1 = 15" by (simp_all add: cch_next_def conv_cch_next_state_def)
  have "cch_states ?bs i = 0" if "i \<le> m" for i
    using that by (induction i) (simp_all add: next0 m)
  from this [of m] have "cch_states ?bs (Suc (Suc (Suc (Suc m)))) = 15"
    using next0 by (simp add: m)
  moreover have "n = Suc (Suc (Suc (Suc m)))" by (simp add: m)
  ultimately show ?thesis by (simp only: )
qed

lemma history_overrun:
  fixes inp :: "u8 list"
  assumes n: "5 \<le> n" "n \<le> 66000" and len: "2 * n \<le> length inp"
  shows "\<nexists>out'. conv_cch_decode 0 inp out n = Inr out'"
proof
  let ?bs = "\<lambda>i. if i + 4 < n then 0 else 1 :: nat"
  let ?st = "(0 # replicate 15 MAX_AE, replicate (16 * n) None)"
  let ?P = "\<lambda>i (ae, hist). length (hist :: nat option list) = 16 * n
    \<and> (\<forall>s < 16. unat (ae ! s :: u32) \<le> unat MAX_AE) \<and> unat (ae ! cch_states ?bs i) \<le> 254 * i
    \<and> (i = n \<longrightarrow> cch_states ?bs i * n + i < 16 * n)"
  assume "\<exists>out'. conv_cch_decode 0 inp out n = Inr out'"
  then obtain st where run: "rfold (conv_cch_step n inp) [0..<n] ?st = Inr st"
    by (auto simp: conv_cch_decode_def CONV_N_STATES_def rbind_eq_Inr)
  have p: "cch_states ?bs i < 16" "?bs i < 2" for i by (auto intro: cch_states_less)
  have "?P n st"
    using run
  proof (rule rfold_upt_keeps [where P = ?P])
    show "?P 0 ?st" using n by (auto simp: nth_Cons split: nat.splits)
    fix i st st' assume i: "i < n" and P: "?P i st" and step: "conv_cch_step n inp i st = Inr st'"
    obtain ae hist ae' hist' where st: "st = (ae, hist)" "st' = (ae', hist')" by (cases st; cases st')
    have sc: "scanned n i (16 * n) ae (inp ! (2 * i)) (inp ! (2 * i + 1)) conv_branches (ae', hist')"
      using step_scanned [of i inp n ae hist st'] step P st i len by simp
    let ?nae = "conv_nae ae (inp ! (2 * i)) (inp ! (2 * i + 1)) (cch_states ?bs i) (?bs i)"
    have "(cch_states ?bs i, ?bs i) \<in> set conv_branches" using p [of i] by (simp add: set_conv_branches)
    with sc have "unat (ae' ! cch_states ?bs (Suc i)) \<le> unat ?nae" by (auto simp: scanned_def)
    also have "\<dots> \<le> 254 * Suc i"
    proof -
      have "unat (ae ! cch_states ?bs i) \<le> unat MAX_AE" "unat (ae ! cch_states ?bs i) \<le> 254 * i"
        using P st p(1) [of i] by simp_all
      from unat_conv_nae [OF this(1)] this(2) show ?thesis
        using cch_cost_le [of "inp ! (2 * i)" "inp ! (2 * i + 1)" "cch_out (cch_states ?bs i) (?bs i)"]
        by (simp only: mult_Suc_right)
    qed
    finally have le: "unat (ae' ! cch_states ?bs (Suc i)) \<le> 254 * Suc i" .
    also have "\<dots> < unat MAX_AE" using i n by (simp add: unat_MAX_AE)
    finally have "cch_states ?bs (Suc i) * n + (i + 1) < 16 * n"
      using sc p(1) [of "Suc i"] by (simp add: scanned_def)
    then have "Suc i = n \<longrightarrow> cch_states ?bs (Suc i) * n + Suc i < 16 * n" by (simp only: Suc_eq_plus1 simp_thms)
    with sc le st show "?P (Suc i) st'" unfolding scanned_def prod.case by blast
  qed
  then have "cch_states ?bs n * n + n < 16 * n" by (cases st) simp
  moreover have "cch_states ?bs n = 15" using n by (intro ones_tail) simp
  ultimately show False by simp
qed

section \<open>Properties of the decoder\<close>

text \<open>
  C26. The Viterbi decoder against the convolutional encoder, for every block of up to 66,000 bits that
  ends in the four zero tail bits and every sequence of soft symbols whose signs are those of the
  coded bits, whatever their strengths.  If at least one int behind the declared array
  \<open>state_history[16][n]\<close> may be written, the decoder returns, without a fault, exactly the encoded
  bits.  With the array as it is declared and nothing behind it, no block of five bits or more gives
  a result: the survivor of state 15 in the last round is stored one int past the array.
\<close>

theorem viterbi_roundtrip:
  fixes msg coded soft :: "u8 list"
  assumes "set msg \<subseteq> {0, 1}" and n: "n = length msg + 4" "n \<le> 66000"
    and "conv_cch_encode (msg @ replicate 4 0) (replicate (2 * n) 0) n = Inr coded"
    and soft: "soft_received coded soft" and "n \<le> length out"
  shows "(0 < slack \<longrightarrow> conv_cch_decode slack soft out n = Inr (msg @ replicate 4 0 @ drop n out))
    \<and> (5 \<le> n \<longrightarrow> (\<nexists>out'. conv_cch_decode 0 soft out n = Inr out'))"
proof (intro conjI impI)
  show "conv_cch_decode slack soft out n = Inr (msg @ replicate 4 0 @ drop n out)" if "0 < slack"
    using assms that by (rule decode_encoded)
  have "2 * n \<le> length soft" using encoded_length [OF assms(1,2,4)] soft by (simp add: soft_received_def list_all2_lengthD)
  then show "\<nexists>out'. conv_cch_decode 0 soft out n = Inr out'" if "5 \<le> n"
    using that n(2) by (intro history_overrun)
qed

theorem viterbi_roundtrip_witness:
  "conv_cch_decode 1 (map (\<lambda>b. if nz b then - 3 else 100) [1, 1, 0, 1, 0, 0, 1, 1, 1, 1])
     (replicate 6 7) 5 = Inr [1, 0, 0, 0, 0, 7]
   \<and> (\<nexists>out'. conv_cch_decode 0 (map (\<lambda>b. if nz b then - 3 else 100) [1, 1, 0, 1, 0, 0, 1, 1, 1, 1])
     (replicate 6 7) 5 = Inr out')"
proof -
  let ?c = "[1, 1, 0, 1, 0, 0, 1, 1, 1, 1] :: u8 list"
  let ?soft = "map (\<lambda>b. if nz b then - 3 else 100) ?c :: u8 list"
  have "(0 < (1 :: nat) \<longrightarrow> conv_cch_decode 1 ?soft (replicate 6 7) 5
      = Inr ([1] @ replicate 4 0 @ drop 5 (replicate 6 7)))
    \<and> (5 \<le> (5 :: nat) \<longrightarrow> (\<nexists>out'. conv_cch_decode 0 ?soft (replicate 6 7) 5 = Inr out'))"
  proof (rule viterbi_roundtrip)
    show "conv_cch_encode ([1] @ replicate 4 0) (replicate (2 * 5) 0) 5 = Inr ?c" by code_simp
    have "sint (- 3 :: u8) < 0" "0 < sint (100 :: u8)" by code_simp+
    then show "soft_received ?c ?soft"
      by (simp add: soft_received_def soft_ok_def)
  qed simp_all
  then show ?thesis by (simp add: numeral_eq_Suc)
qed

text \<open>
  The decoder writes past the end of its history: with no memory behind the array
  \<open>state_history\<close>, every decoding of five symbol pairs or more ends in an out-of-bounds access,
  whatever the symbols are.  (The survivor of state 15 in the last round is stored one int
  behind the array.)
\<close>

theorem viterbi_history_overrun:
  fixes inp :: "u8 list"
  assumes "5 \<le> n" "n \<le> 66000" "2 * n \<le> length inp"
  shows "\<nexists>out'. conv_cch_decode 0 inp out n = Inr out'"
  using assms by (rule history_overrun)

theorem viterbi_history_overrun_witness:
  "\<nexists>out'. conv_cch_decode 0 (replicate 456 127) (replicate 228 0) 228 = Inr out'"
  by (rule viterbi_history_overrun) simp_all

end
