(* ===== verification/Cch.thy ===== *)
theory Cch
  imports Bit_Func Crc Interleave Viterbi
begin

text \<open>
  The coding of signalling blocks (\<open>gsm-parser/cch.c\<close>): 23 bytes, 40 bits of Fire code parity, four
  tail bits, the convolutional code and the interleaving over four bursts.  The stack buffers are
  written in full before they are read, but for the last 40 bytes of \<open>crc_result\<close>, which are copied and
  not used any more; the model starts them as zeros.
\<close>

section \<open>Definitions\<close>

definition DATA_BLOCK_SIZE :: nat where "DATA_BLOCK_SIZE = 184"
definition PARITY_SIZE :: nat where "PARITY_SIZE = 40"
definition PARITY_OUTPUT_SIZE :: nat where "PARITY_OUTPUT_SIZE = 228"
definition CONV_SIZE :: nat where "CONV_SIZE = 456"

definition parity_polynomial :: "u8 list" where
  "parity_polynomial =
    [1, 0, 0, 0, 0, 0, 0, 0,
     0, 0, 0, 0, 0, 0, 1, 0,
     0, 1, 0, 0, 0, 0, 0, 1,
     0, 0, 0, 0, 0, 0, 0, 0,
     0, 0, 0, 0, 0, 1, 0, 0,
     1]"

definition parity_remainder :: "u8 list" where
  "parity_remainder =
    [1, 1, 1, 1, 1, 1, 1, 1,
     1, 1, 1, 1, 1, 1, 1, 1,
     1, 1, 1, 1, 1, 1, 1, 1,
     1, 1, 1, 1, 1, 1, 1, 1,
     1, 1, 1, 1, 1, 1, 1, 1]"

text \<open>
  \<open>encode_signalling\<close>: the parity bits are written into the same buffer, behind the data.
\<close>

definition encode_signalling :: "interleave_maps \<Rightarrow> u8 list \<Rightarrow> u8 list \<Rightarrow> u8 list res" where
  "encode_signalling maps msg raw_data =
     rbind (expand_lsb msg (replicate PARITY_OUTPUT_SIZE 0) DATA_BLOCK_SIZE) (\<lambda>decoded_data.
     rbind (wrn decoded_data DATA_BLOCK_SIZE (replicate (PARITY_OUTPUT_SIZE - DATA_BLOCK_SIZE) 0))
       (\<lambda>decoded_data.
     rbind (parity_encode decoded_data DATA_BLOCK_SIZE parity_polynomial
              (drop DATA_BLOCK_SIZE decoded_data) PARITY_SIZE) (\<lambda>parity.
     let decoded_data = take DATA_BLOCK_SIZE decoded_data @ parity in
     rbind (conv_cch_encode decoded_data (replicate CONV_SIZE 0) PARITY_OUTPUT_SIZE) (\<lambda>coded_data.
     gsm_inter_sacch maps coded_data raw_data))))"

text \<open>
  What lies on the stack behind two arrays that the decoder leaves: the ints behind \<open>state_history\<close>
  in \<open>conv_cch_decode\<close> that may be written, and the ints behind \<open>fc_ctx.syndrome_reg\<close> that may be
  read.  The compiler decides about it, and the C program reserves neither: by the declarations both
  are 0.
\<close>

record call_stack =
  st_history :: nat
  st_syndrome :: nat

text \<open>
  \<open>decode_signalling\<close> returns 23, or 0 when the parity is wrong and the Fire code cannot correct it.
\<close>

definition decode_signalling :: "call_stack \<Rightarrow> u8 list \<Rightarrow> u8 list \<Rightarrow> (nat \<times> u8 list) res" where
  "decode_signalling st soft_data msg =
     rbind (conv_cch_decode (st_history st) soft_data (replicate PARITY_OUTPUT_SIZE 0) PARITY_OUTPUT_SIZE)
       (\<lambda>decoded_data.
     rbind (parity_check decoded_data DATA_BLOCK_SIZE parity_polynomial parity_remainder PARITY_SIZE)
       (\<lambda>ret.
     if ret
     then let fc_ctx = FC_init \<lparr>crc_size = 0, data_size = 0, syn_start = 0, syndrome_reg = []\<rparr>
                         (of_nat PARITY_SIZE) (of_nat DATA_BLOCK_SIZE)
          in rbind (FC_check_crc (st_syndrome st) fc_ctx decoded_data (replicate (DATA_BLOCK_SIZE + PARITY_SIZE) 0))
               (\<lambda>(fc_ctx, crc_result, ret).
             if \<not> ret then Inr (0, msg)
             else rbind (wrn decoded_data 0 crc_result) (\<lambda>decoded_data.
                  rbind (compress_lsb decoded_data msg DATA_BLOCK_SIZE) (\<lambda>msg. Inr (23, msg))))
     else rbind (compress_lsb decoded_data msg DATA_BLOCK_SIZE) (\<lambda>msg. Inr (23, msg))))"

section \<open>The coded block\<close>

lemmas cch_sizes = DATA_BLOCK_SIZE_def PARITY_SIZE_def PARITY_OUTPUT_SIZE_def CONV_SIZE_def

lemma parity_polynomial_generator: "generator parity_polynomial 40"
  by (simp add: generator_def parity_polynomial_def)

lemma parity_remainder_ones: "parity_remainder = replicate 40 1"
  by (simp add: parity_remainder_def numeral_eq_Suc)

definition block_bits :: "u8 list \<Rightarrow> u8 list" where
  "block_bits msg = map (\<lambda>i. of_bool (bit (msg ! (i div 8)) (i mod 8))) [0..<184]"

definition block_parity :: "u8 list \<Rightarrow> u8 list" where
  "block_parity msg =
     map (\<lambda>x. if nz x then 0 else 1) (prem (tl parity_polynomial) 184 (block_bits msg @ replicate 40 0))"

lemma length_block_bits [simp]: "length (block_bits msg) = 184"
  by (simp add: block_bits_def)

lemma length_block_parity [simp]: "length (block_parity msg) = 40"
  by (simp add: block_parity_def length_prem)

lemma is_bits_block: "is_bits (block_bits msg)" "is_bits (block_parity msg)"
  by (auto simp: block_bits_def block_parity_def is_bits_def list_all_iff)

lemma encode_signalling_coded:
  assumes "length msg = 23"
  shows "encode_signalling maps msg raw =
    rbind (conv_cch_encode (block_bits msg @ block_parity msg @ replicate 4 0) (replicate 456 0) 228)
      (\<lambda>coded. gsm_inter_sacch maps coded raw)"
proof -
  note g = generatorD [OF parity_polynomial_generator]
  let ?z = "replicate 44 0 :: u8 list"
  have e: "expand_lsb msg (replicate 228 0) 184 = Inr (block_bits msg @ ?z)"
    using assms by (simp add: expand_lsb_bits block_bits_def)
  have "parity_encode (block_bits msg @ ?z) 184 parity_polynomial ?z 40
      = Inr (block_parity msg @ replicate 4 0)"
    using g by (simp add: parity_encode_rem block_parity_def)
  with e show ?thesis
    by (simp add: encode_signalling_def cch_sizes Let_def)
qed

lemma encode_signalling_total:
  assumes "length msg = 23" and "456 \<le> length raw"
  shows "\<exists>coded sent. conv_cch_encode (block_bits msg @ block_parity msg @ replicate 4 0) (replicate 456 0) 228
      = Inr coded \<and> length coded = 456
    \<and> encode_signalling gsm_interleave_init msg raw = Inr sent \<and> length sent = length raw
    \<and> gsm_deinter_sacch gsm_interleave_init sent (replicate 456 0) = Inr coded"
proof -
  let ?u = "block_bits msg @ block_parity msg @ replicate 4 0"
  have "is_bits ?u" using is_bits_block by simp
  then have "unat (?u ! i) < 2" if "i < 228" for i
    using is_bits_nth [of ?u i] that by auto
  from conv_cch_encode_spec [of 228 ?u "replicate 456 0", OF _ _ this] obtain coded where
    c: "conv_cch_encode ?u (replicate 456 0) 228 = Inr coded" "length coded = 456" by auto
  from sacch.inter_writes [of coded raw] c assms(2) obtain sent where
    s: "gsm_inter_sacch gsm_interleave_init coded raw = Inr sent" "length sent = length raw"
    by (auto simp: gsm_inter_sacch_def)
  from sacch.deinter_inter [of coded raw "replicate 456 0"] s c assms(2)
  have "gsm_deinter_sacch gsm_interleave_init sent (replicate 456 0) = Inr coded"
    by (simp add: gsm_inter_sacch_def gsm_deinter_sacch_def)
  with c s assms(1) show ?thesis by (auto simp: encode_signalling_coded)
qed

lemma block_check:
  "parity_check (block_bits msg @ block_parity msg @ t) 184 parity_polynomial parity_remainder 40 = Inr False"
proof -
  note g = generatorD [OF parity_polynomial_generator]
  have "prem (tl parity_polynomial) 184 (block_bits msg @ block_parity msg) = replicate 40 1"
    unfolding block_parity_def by (rule prem_codeword [OF g(1) is_bits_block(1)]) simp
  with g show ?thesis by (simp add: parity_check_rem parity_remainder_ones)
qed

lemma compress_block_bits:
  assumes "length msg = 23" "23 \<le> length out"
  shows "compress_lsb (block_bits msg @ t) out 184 = Inr (msg @ drop 23 out)"
proof -
  have "length (replicate 184 0 @ t) \<ge> 8 * 23" by simp
  from lsb.pack_unpack [OF assms this] show ?thesis
    by (simp add: compress_lsb_def block_bits_def)
qed

lemma decode_received:
  assumes "length msg = 23" "456 \<le> length raw" "23 \<le> length out"
    and "encode_signalling gsm_interleave_init msg raw = Inr sent"
    and "gsm_deinter_sacch gsm_interleave_init sent (replicate 456 0) = Inr coded"
    and "soft_received coded soft" and "0 < st_history st"
  shows "decode_signalling st soft out = Inr (23, msg @ drop 23 out)"
proof -
  let ?m = "block_bits msg @ block_parity msg"
  from encode_signalling_total [OF assms(1,2)] assms(4,5) have
    "conv_cch_encode (?m @ replicate 4 0) (replicate (2 * 228) 0) 228 = Inr coded" by auto
  moreover have "set ?m \<subseteq> {0, 1}"
    using is_bits_block [of msg] by (auto simp: is_bits_def list_all_iff)
  ultimately have "conv_cch_decode (st_history st) soft (replicate 228 0) 228 = Inr (?m @ replicate 4 0 @ drop 228 (replicate 228 0))"
    using assms(6,7) by (intro decode_encoded) simp_all
  then show ?thesis
    using assms(1,3) by (simp add: decode_signalling_def cch_sizes block_check compress_block_bits)
qed

text \<open>With the history array as it is declared no block of 456 symbols is decoded.\<close>

lemma decode_signalling_overrun:
  assumes "456 \<le> length soft" "st_history st = 0"
  shows "decode_signalling st soft out \<noteq> Inr r"
proof -
  have "\<nexists>o'. conv_cch_decode 0 soft (replicate 228 0) 228 = Inr o'"
    using assms(1) by (intro history_overrun) simp_all
  then show ?thesis
    using assms(2) by (auto simp: decode_signalling_def cch_sizes rbind_eq_Inr)
qed

section \<open>Properties\<close>

text \<open>
  C25. The signalling chain as a round trip: a message of 23 bytes that \<open>encode_signalling\<close> codes,
  protects and interleaves over four bursts is received as soft symbols of the right signs (of any
  strength) and deinterleaved.  If at least one int on the stack behind \<open>state_history\<close> may be
  written, \<open>decode_signalling\<close> decodes it to the same 23 bytes, reports 23 and writes nothing behind
  them.  With the array as it is declared and nothing behind it, the decoder gives no result for any
  such block.
\<close>

theorem signalling_roundtrip:
  assumes "length msg = 23" "456 \<le> length raw" "23 \<le> length out"
    and "encode_signalling gsm_interleave_init msg raw = Inr sent"
    and "gsm_deinter_sacch gsm_interleave_init sent (replicate 456 0) = Inr coded"
    and "soft_received coded soft"
  shows "(0 < st_history st \<longrightarrow> decode_signalling st soft out = Inr (23, msg @ drop 23 out))
    \<and> (st_history st = 0 \<longrightarrow> (\<nexists>r. decode_signalling st soft out = Inr r))"
proof (intro conjI impI)
  show "decode_signalling st soft out = Inr (23, msg @ drop 23 out)" if "0 < st_history st"
    using assms that by (rule decode_received)
  have "length soft = 456"
    using encode_signalling_total [OF assms(1,2)] assms(4-6) by (auto simp: soft_received_def list_all2_lengthD)
  then show "\<nexists>r. decode_signalling st soft out = Inr r" if "st_history st = 0"
    using that decode_signalling_overrun by simp
qed

theorem signalling_roundtrip_witness:
  "\<exists>sent coded. encode_signalling gsm_interleave_init (replicate 23 0x2b) (replicate 456 0) = Inr sent
    \<and> gsm_deinter_sacch gsm_interleave_init sent (replicate 456 0) = Inr coded
    \<and> decode_signalling \<lparr>st_history = 1, st_syndrome = 0\<rparr> (map (\<lambda>b. if nz b then - 1 else 90) coded) (replicate 23 0)
      = Inr (23, replicate 23 0x2b)
    \<and> (\<nexists>r. decode_signalling \<lparr>st_history = 0, st_syndrome = 0\<rparr> (map (\<lambda>b. if nz b then - 1 else 90) coded) (replicate 23 0)
      = Inr r)"
proof -
  from encode_signalling_total [of "replicate 23 0x2b" "replicate 456 0"] obtain sent coded where
    e: "encode_signalling gsm_interleave_init (replicate 23 0x2b) (replicate 456 0) = Inr sent"
      "gsm_deinter_sacch gsm_interleave_init sent (replicate 456 0) = Inr coded" by auto
  have "sint (- 1 :: u8) < 0" "0 < sint (90 :: u8)" by code_simp+
  then have "soft_received coded (map (\<lambda>b. if nz b then - 1 else 90) coded)"
    by (auto simp: soft_received_def soft_ok_def list_all2_map1 list_all2_same)
  note r = signalling_roundtrip [OF _ _ _ e this, of "replicate 23 0"]
  from r [of "\<lparr>st_history = 1, st_syndrome = 0\<rparr>"] r [of "\<lparr>st_history = 0, st_syndrome = 0\<rparr>"] e show ?thesis by auto
qed

text \<open>
  Fed with hard bits 0 and 1 in place of soft symbols, \<open>decode_signalling\<close> does not look at
  them: every such block gives the result of the all-zero block (where there is an int behind the
  history).  (\<open>process_pdch\<close> for CS-1 and
  \<open>process_tch\<close> for FACCH call it with arrays of bits.)
\<close>

theorem decode_signalling_ignores_hard_bits:
  assumes "456 \<le> length inp" "\<forall>x \<in> set (take 456 inp). x < 2" "0 < st_history st"
  shows "decode_signalling st inp out = decode_signalling st (replicate 456 0) out"
proof -
  have "conv_cch_decode (st_history st) inp (replicate 228 0) 228 = conv_cch_decode (st_history st) (replicate 456 0) (replicate 228 0) 228"
    using assms by (simp add: decode_hard_bits)
  then show ?thesis by (simp only: decode_signalling_def PARITY_OUTPUT_SIZE_def)
qed

theorem decode_signalling_ignores_hard_bits_witness:
  "decode_signalling \<lparr>st_history = 1, st_syndrome = 120\<rparr> (replicate 100 0 @ replicate 356 1) []
    = decode_signalling \<lparr>st_history = 1, st_syndrome = 120\<rparr> (replicate 456 0) []"
  by (rule decode_signalling_ignores_hard_bits) auto

end
