(* ===== verification/Osmo.thy ===== *)
theory Osmo
  imports Prelude
begin

text \<open>
  The functions of the bundled \<open>libosmocore\<close> that the message handlers rest on: the parser of
  tagged information elements (\<open>src/gsm/tlv_parser.c\<close>) with the element tables of the call control
  and radio resource messages (\<open>src/gsm/gsm48.c\<close>), the decoding of channel numbers
  (\<open>src/gsm/rsl.c\<close>) and the unpacking of 7-bit text (\<open>src/gsm/gsm_utils.c\<close>).

  A pointer into the message is the suffix of the message that starts there, so an element that
  the parser locates is a tag with a length and a suffix.
\<close>

section \<open>Information elements\<close>

datatype tlv_type =
    TLV_TYPE_NONE
  | TLV_TYPE_FIXED nat
  | TLV_TYPE_T
  | TLV_TYPE_TV
  | TLV_TYPE_TLV
  | TLV_TYPE_TL16V
  | TLV_TYPE_TvLV
  | TLV_TYPE_SINGLE_TV
  | TLV_TYPE_vTvLV_GAN

type_synonym tlv_definition = "u8 \<Rightarrow> tlv_type"

text \<open>An entry of \<open>struct tlv_parsed\<close>: \<open>None\<close> is a null \<open>val\<close> pointer.\<close>

type_synonym tlv_parsed = "u8 \<Rightarrow> (nat \<times> u8 list) option"

text \<open>
  Parsing one element: \<open>Inr (Inl rv)\<close> is a negative return value, \<open>Inr (Inr (tag, len, val, n))\<close>
  the element and the number \<open>n\<close> of bytes it takes.
\<close>

type_synonym tlv_one = "int + (u8 \<times> nat \<times> u8 list \<times> nat)"

definition tlv_like_TLV :: "u8 \<Rightarrow> u8 list \<Rightarrow> int \<Rightarrow> tlv_one res" where
  "tlv_like_TLV tag buf buf_len =
     (if buf_len < 1 then Inr (Inl (- 1))
      else rbind (rd buf 1) (\<lambda>l.
           if int (unat l + 2) > buf_len then Inr (Inl (- 2))
           else Inr (Inr (tag, unat l, drop 2 buf, unat l + 2))))"

definition tlv_like_TL16V :: "u8 \<Rightarrow> u8 \<Rightarrow> u8 list \<Rightarrow> int \<Rightarrow> tlv_one res" where
  "tlv_like_TL16V len_mask tag buf buf_len =
     (if 2 > buf_len then Inr (Inl (- 1))
      else rbind (rd buf 1) (\<lambda>h. rbind (rd buf 2) (\<lambda>l.
           let len = unat (h AND len_mask) * 256 + unat l in
           if int (len + 3) > buf_len then Inr (Inl (- 2))
           else Inr (Inr (tag, len, drop 3 buf, len + 3)))))"

definition tlv_parse_one :: "tlv_definition \<Rightarrow> u8 list \<Rightarrow> int \<Rightarrow> tlv_one res" where
  "tlv_parse_one def buf buf_len =
     rbind (rd buf 0) (\<lambda>tag.
     if def (tag AND 0xf0) = TLV_TYPE_SINGLE_TV then Inr (Inr (tag AND 0xf0, 1, buf, 1))
     else case def tag of
            TLV_TYPE_T \<Rightarrow> Inr (Inr (tag, 0, buf, 1))
          | TLV_TYPE_TV \<Rightarrow> Inr (Inr (tag, 1, drop 1 buf, 2))
          | TLV_TYPE_FIXED n \<Rightarrow> Inr (Inr (tag, n, drop 1 buf, n + 1))
          | TLV_TYPE_TLV \<Rightarrow> tlv_like_TLV tag buf buf_len
          | TLV_TYPE_vTvLV_GAN \<Rightarrow> rbind (rd buf 1) (\<lambda>l.
              if nz (l AND 0x80) then tlv_like_TL16V 0x7f tag buf buf_len
              else tlv_like_TLV tag buf buf_len)
          | TLV_TYPE_TvLV \<Rightarrow> rbind (rd buf 1) (\<lambda>l.
              if nz (l AND 0x80)
              then if buf_len < 1 then Inr (Inl (- 1))
                   else let len = unat (l AND 0x7f) in
                        if int (len + 2) > buf_len then Inr (Inl (- 2))
                        else Inr (Inr (tag, len, drop 2 buf, len + 2))
              else tlv_like_TL16V 0xff tag buf buf_len)
          | TLV_TYPE_TL16V \<Rightarrow> tlv_like_TL16V 0xff tag buf buf_len
          | _ \<Rightarrow> Inr (Inl (- 3)))"

lemma tlv_parse_one_consumes:
  "tlv_parse_one def buf buf_len = Inr (Inr (tag, len, val, n)) \<Longrightarrow> 0 < n"
  by (auto simp: tlv_parse_one_def tlv_like_TLV_def tlv_like_TL16V_def Let_def rbind_eq_Inr
      split: if_splits tlv_type.splits)

text \<open>
  Parsing a buffer.  Both callers pass 0 for the two initial LV tags, so the loop is all there is.
  The result is the return value and the elements found, the last one of a tag winning.
\<close>

function tlv_parse_from :: "tlv_definition \<Rightarrow> u8 list \<Rightarrow> int \<Rightarrow> tlv_parsed \<Rightarrow> nat \<Rightarrow> (int \<times> tlv_parsed) res" where
  "tlv_parse_from def buf buf_len dec num_parsed =
     (if 0 < buf_len
      then rbind (tlv_parse_one def buf buf_len) (\<lambda>one. case one of
             Inl rv \<Rightarrow> Inr (rv, dec)
           | Inr (tag, len, val, n) \<Rightarrow>
               tlv_parse_from def (drop n buf) (buf_len - int n) (dec(tag \<mapsto> (len, val))) (num_parsed + 1))
      else Inr (int num_parsed, dec))"
  by pat_completeness auto
termination
  by (relation "measure (\<lambda>(def, buf, buf_len, dec, num_parsed). nat buf_len)")
     (auto dest: tlv_parse_one_consumes)

declare tlv_parse_from.simps [simp del]

definition tlv_parse :: "tlv_definition \<Rightarrow> u8 list \<Rightarrow> int \<Rightarrow> (int \<times> tlv_parsed) res" where
  "tlv_parse def buf buf_len = tlv_parse_from def buf buf_len (\<lambda>_. None) 0"

definition GSM48_IE_MOBILE_ID :: u8 where "GSM48_IE_MOBILE_ID = 0x17"
definition GSM48_IE_CALLING_BCD :: u8 where "GSM48_IE_CALLING_BCD = 0x5c"
definition GSM48_IE_CALLED_BCD :: u8 where "GSM48_IE_CALLED_BCD = 0x5e"
definition GSM48_IE_MUL_RATE_CFG :: u8 where "GSM48_IE_MUL_RATE_CFG = 0x03"
definition GSM48_IE_FREQ_L_AFTER :: u8 where "GSM48_IE_FREQ_L_AFTER = 0x05"
definition GSM48_IE_CELL_CH_DESC :: u8 where "GSM48_IE_CELL_CH_DESC = 0x62"
definition GSM48_IE_CHANMODE_1 :: u8 where "GSM48_IE_CHANMODE_1 = 0x63"
definition GSM48_IE_MA_AFTER :: u8 where "GSM48_IE_MA_AFTER = 0x72"

definition gsm48_att_tlvdef :: tlv_definition where
  "gsm48_att_tlvdef tag =
     (if tag \<in> {0x17, 0x43, 0x45, 0x48, 0x04, 0x08, 0x15, 0x19, 0x1c, 0x1e, 0x24, 0x4c, 0x4d, 0x5c,
                0x5d, 0x5e, 0x6d, 0x74, 0x75, 0x7c, 0x7d, 0x7e, 0x7f} then TLV_TYPE_TLV
      else if tag \<in> {0x46, 0x27, 0x2c, 0x34} then TLV_TYPE_TV
      else if tag = 0x47 then TLV_TYPE_FIXED 7
      else if tag \<in> {0xa0, 0xa1, 0xa2, 0xa3, 0xd1, 0xd3} then TLV_TYPE_T
      else TLV_TYPE_NONE)"

definition gsm48_rr_att_tlvdef :: tlv_definition where
  "gsm48_rr_att_tlvdef tag =
     (if tag \<in> {0x01, 0x03, 0x05, 0x10, 0x19, 0x20, 0x21, 0x22, 0x23, 0x72, 0x73, 0x74, 0x75, 0x77,
                0x7b} then TLV_TYPE_TLV
      else if tag \<in> {0x11, 0x13, 0x14, 0x15, 0x16, 0x17, 0x18, 0x63, 0x66, 0x7d} then TLV_TYPE_TV
      else if tag \<in> {0x02, 0x12, 0x1e, 0x69} then TLV_TYPE_FIXED 9
      else if tag \<in> {0x1c, 0x1d, 0x64} then TLV_TYPE_FIXED 3
      else if tag = 0x62 then TLV_TYPE_FIXED 16
      else if tag = 0x7c then TLV_TYPE_FIXED 2
      else if tag \<in> {0x80, 0x90, 0xc0, 0xd0} then TLV_TYPE_SINGLE_TV
      else TLV_TYPE_NONE)"

section \<open>Channel numbers\<close>

definition RSL_CHAN_Bm_ACCHs :: u8 where "RSL_CHAN_Bm_ACCHs = 0x08"
definition RSL_CHAN_Lm_ACCHs :: u8 where "RSL_CHAN_Lm_ACCHs = 0x10"
definition RSL_CHAN_SDCCH4_ACCH :: u8 where "RSL_CHAN_SDCCH4_ACCH = 0x20"
definition RSL_CHAN_SDCCH8_ACCH :: u8 where "RSL_CHAN_SDCCH8_ACCH = 0x40"
definition RSL_CHAN_BCCH :: u8 where "RSL_CHAN_BCCH = 0x80"
definition RSL_CHAN_RACH :: u8 where "RSL_CHAN_RACH = 0x88"
definition RSL_CHAN_PCH_AGCH :: u8 where "RSL_CHAN_PCH_AGCH = 0x90"

lemmas rsl_chans = RSL_CHAN_Bm_ACCHs_def RSL_CHAN_Lm_ACCHs_def RSL_CHAN_SDCCH4_ACCH_def
  RSL_CHAN_SDCCH8_ACCH_def RSL_CHAN_BCCH_def RSL_CHAN_RACH_def RSL_CHAN_PCH_AGCH_def

text \<open>Type and sub-channel are \<open>None\<close> where the C function returns an error and stores neither.\<close>

definition rsl_dec_chan_nr :: "u8 \<Rightarrow> (u8 \<times> u8) option \<times> u8" where
  "rsl_dec_chan_nr chan_nr =
     (if chan_nr AND 0xf8 = RSL_CHAN_Bm_ACCHs then Some (RSL_CHAN_Bm_ACCHs, 0)
      else if chan_nr AND 0xf0 = RSL_CHAN_Lm_ACCHs then Some (RSL_CHAN_Lm_ACCHs, drop_bit 3 chan_nr AND 0x1)
      else if chan_nr AND 0xe0 = RSL_CHAN_SDCCH4_ACCH then Some (RSL_CHAN_SDCCH4_ACCH, drop_bit 3 chan_nr AND 0x3)
      else if chan_nr AND 0xc0 = RSL_CHAN_SDCCH8_ACCH then Some (RSL_CHAN_SDCCH8_ACCH, drop_bit 3 chan_nr AND 0x7)
      else if chan_nr AND 0xf8 = RSL_CHAN_BCCH then Some (RSL_CHAN_BCCH, 0)
      else if chan_nr AND 0xf8 = RSL_CHAN_RACH then Some (RSL_CHAN_RACH, 0)
      else if chan_nr AND 0xf8 = RSL_CHAN_PCH_AGCH then Some (RSL_CHAN_PCH_AGCH, 0)
      else None,
      chan_nr AND 0x7)"

section \<open>7-bit text\<close>

definition gsm_7bit_alphabet :: "u8 list" where
  "gsm_7bit_alphabet =
    [0xff, 0xff, 0xff, 0xff, 0xff, 0xff, 0xff, 0xff, 0xff, 0xff, 0x0a, 0xff, 0xff, 0x0d, 0xff,
     0xff, 0xff, 0xff, 0xff, 0xff, 0xff, 0xff, 0xff, 0xff, 0xff, 0xff, 0xff, 0xff, 0xff, 0xff,
     0xff, 0xff, 0x20, 0x21, 0x22, 0x23, 0x02, 0x25, 0x26, 0x27, 0x28, 0x29, 0x2a, 0x2b, 0x2c,
     0x2d, 0x2e, 0x2f, 0x30, 0x31, 0x32, 0x33, 0x34, 0x35, 0x36, 0x37, 0x38, 0x39, 0x3a, 0x3b,
     0x3c, 0x3d, 0x3e, 0x3f, 0x00, 0x41, 0x42, 0x43, 0x44, 0x45, 0x46, 0x47, 0x48, 0x49, 0x4a,
     0x4b, 0x4c, 0x4d, 0x4e, 0x4f, 0x50, 0x51, 0x52, 0x53, 0x54, 0x55, 0x56, 0x57, 0x58, 0x59,
     0x5a, 0x3c, 0x2f, 0x3e, 0x14, 0x11, 0xff, 0x61, 0x62, 0x63, 0x64, 0x65, 0x66, 0x67, 0x68,
     0x69, 0x6a, 0x6b, 0x6c, 0x6d, 0x6e, 0x6f, 0x70, 0x71, 0x72, 0x73, 0x74, 0x75, 0x76, 0x77,
     0x78, 0x79, 0x7a, 0x28, 0x40, 0x29, 0x3d, 0xff, 0xff, 0xff, 0xff, 0xff, 0xff, 0xff, 0xff,
     0xff, 0xff, 0x0c, 0xff, 0xff, 0xff, 0xff, 0xff, 0xff, 0xff, 0xff, 0xff, 0x5e, 0xff, 0xff,
     0xff, 0xff, 0xff, 0xff, 0xff, 0xff, 0xff, 0xff, 0xff, 0xff, 0xff, 0x40, 0xff, 0x01, 0xff,
     0x03, 0xff, 0x7b, 0x7d, 0xff, 0xff, 0xff, 0xff, 0xff, 0x5c, 0xff, 0xff, 0xff, 0xff, 0xff,
     0xff, 0xff, 0xff, 0xff, 0xff, 0xff, 0xff, 0x5b, 0x7e, 0x5d, 0xff, 0x7c, 0xff, 0xff, 0xff,
     0xff, 0x5b, 0x0e, 0x1c, 0x09, 0xff, 0x1f, 0xff, 0xff, 0xff, 0xff, 0xff, 0xff, 0xff, 0x5d,
     0xff, 0xff, 0xff, 0xff, 0x5c, 0xff, 0x0b, 0xff, 0xff, 0xff, 0x5e, 0xff, 0xff, 0x1e, 0x7f,
     0xff, 0xff, 0xff, 0x7b, 0x0f, 0x1d, 0xff, 0x04, 0x05, 0xff, 0xff, 0x07, 0xff, 0xff, 0xff,
     0xff, 0x7d, 0x08, 0xff, 0xff, 0xff, 0x7c, 0xff, 0x0c, 0x06, 0xff, 0xff, 0x7e, 0xff, 0xff]"

definition gsm_septet_lookup :: "u8 \<Rightarrow> u8" where
  "gsm_septet_lookup ch =
     (case List.find (\<lambda>i. gsm_7bit_alphabet ! i = ch) [0..<length gsm_7bit_alphabet] of
        Some i \<Rightarrow> of_nat i | None \<Rightarrow> - 1)"

text \<open>The septet with index \<open>i\<close> of the packed data.\<close>

definition gsm_septet :: "u8 list \<Rightarrow> nat \<Rightarrow> u8 res" where
  "gsm_septet user_data i =
     rbind (rd user_data ((i * 7 + 7) div 8)) (\<lambda>hi.
     rbind (rd user_data (i * 7 div 8)) (\<lambda>lo.
     Inr ((push_bit (7 - (i * 7 + 7) mod 8) hi OR drop_bit (i * 7 mod 8) lo) AND 0x7f)))"

text \<open>
  The loop of \<open>gsm_7bit_decode_n_hdr\<close>: \<open>t\<close> is the number of characters written so far; the last
  of the \<open>n\<close> cells is kept for the terminating NUL.
\<close>

function gsm_7bit_from ::
  "nat \<Rightarrow> u8 list \<Rightarrow> nat \<Rightarrow> nat \<Rightarrow> nat \<Rightarrow> bool \<Rightarrow> nat \<Rightarrow> u8 list \<Rightarrow> (u8 list \<times> nat) res" where
  "gsm_7bit_from n user_data septet_l shift i next_is_ext t text =
     (if i < septet_l \<and> t \<noteq> n - 1
      then rbind (gsm_septet user_data (i + shift)) (\<lambda>c7.
           if next_is_ext
           then rbind (rd gsm_7bit_alphabet (0x7f + unat c7)) (\<lambda>c8.
                rbind (wr text t c8) (\<lambda>text.
                gsm_7bit_from n user_data septet_l shift (Suc i) False (Suc t) text))
           else if c7 = 0x1b \<and> i + 1 < septet_l
           then gsm_7bit_from n user_data septet_l shift (Suc i) True t text
           else rbind (wr text t (gsm_septet_lookup c7)) (\<lambda>text.
                gsm_7bit_from n user_data septet_l shift (Suc i) False (Suc t) text))
      else rbind (wr text t 0) (\<lambda>text. Inr (text, t)))"
  by pat_completeness auto
termination
  by (relation "measure (\<lambda>(n, user_data, septet_l, shift, i, next_is_ext, t, text). septet_l - i)") auto

declare gsm_7bit_from.simps [simp del]

definition gsm_7bit_decode_n_hdr ::
  "u8 list \<Rightarrow> nat \<Rightarrow> u8 list \<Rightarrow> u8 \<Rightarrow> bool \<Rightarrow> (u8 list \<times> nat) res" where
  "gsm_7bit_decode_n_hdr text n user_data septet_l ud_hdr_ind =
     rbind (rassert (0 < n)) (\<lambda>_.
     if ud_hdr_ind
     then rbind (rd user_data 0) (\<lambda>l.
          let b = (unat l + 1) * 8; shift = (if b mod 7 \<noteq> 0 then b div 7 + 1 else b div 7)
          in gsm_7bit_from n user_data (unat (septet_l - of_nat shift)) shift 0 False 0 text)
     else gsm_7bit_from n user_data (unat septet_l) 0 0 False 0 text)"

definition gsm_7bit_decode_n :: "u8 list \<Rightarrow> nat \<Rightarrow> u8 list \<Rightarrow> u8 \<Rightarrow> (u8 list \<times> nat) res" where
  "gsm_7bit_decode_n text n user_data septet_l = gsm_7bit_decode_n_hdr text n user_data septet_l False"

section \<open>Bit vectors\<close>

text \<open>
  Reading a \<open>struct bitvec\<close> (\<open>src/bitvec.c\<close>).  A bit of the rest octets is \<open>H\<close> (3) or \<open>L\<close> (2) after
  comparison with the padding pattern 0x2b; behind the end the result is \<open>-EINVAL\<close> (-22).
\<close>

record bitvec =
  bv_cur :: nat
  bv_data :: "u8 list"
  bv_len :: nat

definition BV_H :: int where "BV_H = 3"
definition BV_L :: int where "BV_L = 2"

definition bitvec_get_bit_pos :: "bitvec \<Rightarrow> nat \<Rightarrow> int res" where
  "bitvec_get_bit_pos bv bitnr =
     (if bitnr div 8 \<ge> bv_len bv then Inr (- 22)
      else rbind (rd (bv_data bv) (bitnr div 8)) (\<lambda>b. Inr (of_bool (bit b (7 - bitnr mod 8)))))"

definition bitvec_get_bit_pos_high :: "bitvec \<Rightarrow> nat \<Rightarrow> int res" where
  "bitvec_get_bit_pos_high bv bitnr =
     (if bitnr div 8 \<ge> bv_len bv then Inr (- 22)
      else rbind (rd (bv_data bv) (bitnr div 8)) (\<lambda>b.
           Inr (if bit b (7 - bitnr mod 8) = (\<not> bit (0x2b :: u8) (7 - bitnr mod 8)) then BV_H else BV_L)))"

definition bitvec_get_bit_high :: "bitvec \<Rightarrow> (int \<times> bitvec) res" where
  "bitvec_get_bit_high bv = rbind (bitvec_get_bit_pos_high bv (bv_cur bv)) (\<lambda>rc.
     Inr (rc, if rc \<ge> 0 then bv\<lparr>bv_cur := bv_cur bv + 1\<rparr> else bv))"

fun bitvec_uint_from :: "nat \<Rightarrow> int \<Rightarrow> bitvec \<Rightarrow> (int \<times> bitvec) res" where
  "bitvec_uint_from 0 ui bv = Inr (ui, bv)"
| "bitvec_uint_from (Suc n) ui bv = rbind (bitvec_get_bit_pos bv (bv_cur bv)) (\<lambda>b.
     if b < 0 then Inr (b, bv)
     else bitvec_uint_from n (if b \<noteq> 0 then ui + 2 ^ n else ui) (bv\<lparr>bv_cur := bv_cur bv + 1\<rparr>))"

definition bitvec_get_uint :: "bitvec \<Rightarrow> nat \<Rightarrow> (int \<times> bitvec) res" where
  "bitvec_get_uint bv num_bits = bitvec_uint_from num_bits 0 bv"

section \<open>Lemmas\<close>

text \<open>The search for a character, without indexing: the form that is evaluated.\<close>

primrec septet_index :: "u8 \<Rightarrow> u8 list \<Rightarrow> u8 \<Rightarrow> u8" where
  "septet_index i [] ch = - 1"
| "septet_index i (c # cs) ch = (if c = ch then i else septet_index (i + 1) cs ch)"

lemma septet_index_find:
  "septet_index (of_nat n) cs ch = (case List.find (\<lambda>i. cs ! (i - n) = ch) [n..<n + length cs] of Some i \<Rightarrow> of_nat i | None \<Rightarrow> - 1)"
proof (induction cs arbitrary: n)
  case (Cons c cs)
  have "List.find (\<lambda>i. (c # cs) ! (i - n) = ch) [Suc n..<Suc n + length cs] = List.find (\<lambda>i. cs ! (i - Suc n) = ch) [Suc n..<Suc n + length cs]"
    by (rule find_cong) (auto simp: nth_Cons' Suc_diff_le)
  moreover have "[n..<n + length (c # cs)] = n # [Suc n..<Suc n + length cs]" by (simp add: upt_conv_Cons del: upt_Suc)
  ultimately show ?case using Cons.IH [of "Suc n"] by (simp add: add.commute del: upt_Suc)
qed simp

lemma gsm_septet_lookup_code [code]: "gsm_septet_lookup ch = septet_index 0 gsm_7bit_alphabet ch"
  using septet_index_find [of 0] by (simp add: gsm_septet_lookup_def)

end
