(* ===== verification/Address.thy ===== *)
theory Address
  imports Bit_Func Osmo
begin

text \<open>
  Decoding of telephone numbers (\<open>gsm-parser/address.c\<close>) into a text buffer.  The callers pass
  buffers of \<open>GSM48_MI_SIZE\<close> (32) bytes and pointers that are never null, so the null checks of
  the C functions are not repeated.
\<close>

section \<open>Definitions\<close>

definition GSM48_MI_SIZE :: nat where "GSM48_MI_SIZE = 32"

text \<open>\<open>snprintf\<close> and \<open>strncpy\<close> of a literal shorter than the size.\<close>

definition put_str :: "u8 list \<Rightarrow> string \<Rightarrow> u8 list res" where
  "put_str dest txt = wrn dest 0 (str_bytes txt @ [0])"

definition strncpy_lit :: "u8 list \<Rightarrow> string \<Rightarrow> nat \<Rightarrow> u8 list res" where
  "strncpy_lit dest txt n = wrn dest 0 (take n (str_bytes txt @ replicate n 0))"

text \<open>\<open>bcd2str\<close> into the buffer from the cell \<open>k\<close> on.\<close>

definition bcd2str_at :: "nat \<Rightarrow> u8 list \<Rightarrow> u8 list \<Rightarrow> nat \<Rightarrow> (u8 list \<times> nat) res" where
  "bcd2str_at k data dest digit_len =
     rbind (bcd2str data (drop k dest) digit_len 0) (\<lambda>(d, ret). Inr (take k dest @ d, ret))"

definition handle_addr_national :: "u8 list \<Rightarrow> nat \<Rightarrow> u8 list \<Rightarrow> (u8 list \<times> nat) res" where
  "handle_addr_national data digit_len dest =
     (if digit_len = 0 then Inr (dest, 0)
      else rbind (rd data 0) (\<lambda>d0.
           if nz (d0 AND 0x0f)
           then rbind (wr dest 0 (chr CHR ''0'')) (\<lambda>dest. bcd2str_at 1 data dest digit_len)
           else bcd2str_at 0 data dest digit_len))"

definition handle_addr_e164 :: "u8 list \<Rightarrow> nat \<Rightarrow> u8 list \<Rightarrow> (u8 list \<times> nat) res" where
  "handle_addr_e164 data digit_len dest =
     (if digit_len = 0 then Inr (dest, 0)
      else rbind (wr dest 0 (chr CHR ''+'')) (\<lambda>dest.
           rbind (rd data 0) (\<lambda>d0.
           if d0 = 0x00
           then if digit_len < 2 then Inr (dest, 0)
                else bcd2str_at 1 (drop 1 data) dest (digit_len - 2)
           else bcd2str_at 1 data dest digit_len)))"

definition address_digits :: "u8 \<Rightarrow> u8 \<Rightarrow> u8 list \<Rightarrow> u8 \<Rightarrow> u8 list \<Rightarrow> (u8 list \<times> nat) res" where
  "address_digits ton npi data digit_len dest =
     (if ton = 2 then
        if npi = 1 then handle_addr_national data (unat digit_len) dest
        else bcd2str_at 0 data dest (unat digit_len)
      else if ton = 1 then
        if npi = 1 then handle_addr_e164 data (unat digit_len) dest
        else bcd2str_at 0 data dest (unat digit_len)
      else if ton = 5 then
        gsm_7bit_decode_n dest GSM48_MI_SIZE data ((digit_len + 1) div 2)
      else if npi = 8 then handle_addr_national data (unat digit_len) dest
      else bcd2str_at 0 data dest (unat digit_len))"

text \<open>
  The number of digits is a \<open>uint8_t\<close>; \<open>len\<close> is unsigned and the arithmetic on it wraps before the
  truncation.
\<close>

definition address_tail :: "u8 \<Rightarrow> u8 \<Rightarrow> u8 list \<Rightarrow> u8 \<Rightarrow> u8 list \<Rightarrow> u8 list res" where
  "address_tail ton npi data digit_len dest =
     (if digit_len = 0 then Inr dest
      else let digit_len = (if digit_len > 31 then 31 else digit_len) in
           rbind (address_digits ton npi data digit_len dest) (\<lambda>(dest, ret).
           rbind (rd dest 0) (\<lambda>c0.
           if c0 = 0 then put_str dest ''<NON-PRINTABLE>''
           else rbind (is_printable dest (unat (of_nat ret :: u8))) (\<lambda>p.
                if p then Inr dest else put_str dest ''<NON-PRINTABLE>''))))"

definition handle_address :: "u8 list \<Rightarrow> u32 \<Rightarrow> u8 list \<Rightarrow> bool \<Rightarrow> u8 list res" where
  "handle_address data len dest digit_only =
     (if len = 0 then put_str dest ''<NO ADDRESS>''
      else rbind (rd data 0) (\<lambda>d0.
           let ext = d0 AND 0x80; ton = drop_bit 4 (d0 AND 0x70); npi = d0 AND 0x0f in
           if nz ext
           then let digit_len = (if len = 1 then 1 else ucast ((len - 1) * 2)) in
                address_tail ton npi (drop 1 data) (if digit_only then ucast len else digit_len) dest
           else rbind (rd data 1) (\<lambda>d1.
                if nz (d1 AND 0x60) then strncpy_lit dest ''<hidden>'' 32
                else let digit_len = (if len = 2 then 1 else ucast ((len - 2) * 2)) in
                     address_tail ton npi (drop 2 data) (if digit_only then ucast len else digit_len) dest)))"

section \<open>Lemmas\<close>

lemma bcd_code_printable:
  "i < 15 \<Longrightarrow> \<not> bcd_code ! i <s 0x20 \<and> \<not> 0x7f \<le>s bcd_code ! i \<and> bcd_code ! i \<noteq> 0"
proof -
  have "list_all (\<lambda>c. \<not> c <s (0x20 :: u8) \<and> \<not> 0x7f \<le>s c \<and> c \<noteq> 0) bcd_code" by code_simp
  then show "i < 15 \<Longrightarrow> ?thesis" by (simp add: list_all_length)
qed

definition printable :: "u8 \<Rightarrow> bool" where
  "printable c \<longleftrightarrow> \<not> c <s 0x20 \<and> \<not> 0x7f \<le>s c \<and> c \<noteq> 0"

lemma bcd_text_printable: "c \<in> set (bcd_text bcd len off) \<Longrightarrow> printable c"
proof -
  assume "c \<in> set (bcd_text bcd len off)"
  then obtain n where "c = bcd_code ! unat n" "n \<in> set (bcd_digits bcd len off)"
    by (auto simp: bcd_text_def)
  moreover from this(2) have "unat n < 15"
    by (auto simp: bcd_digits_def word_less_nat_alt dest: set_takeWhileD)
  ultimately show ?thesis using bcd_code_printable by (simp add: printable_def)
qed

lemma is_printable_prefix:
  assumes "\<And>k. i \<le> k \<Longrightarrow> k < len \<Longrightarrow> printable (txt ! k)" "len \<le> length txt"
  shows "is_printable_from txt len i = Inr True"
  using assms(1)
proof (induction "len - i" arbitrary: i rule: less_induct)
  case less
  then show ?case
  proof (cases "i < len")
    case True
    with assms(2) have "0 < length txt" "i < length txt" by auto
    with True less.prems [of i] less.hyps [of "Suc i"] less.prems show ?thesis
      by (subst is_printable_from.simps) (auto simp: printable_def)
  qed (subst is_printable_from.simps, simp)
qed

lemma is_printable_text:
  "(\<And>c. c \<in> set (take len txt) \<Longrightarrow> printable c) \<Longrightarrow> len \<le> length txt \<Longrightarrow> is_printable txt len = Inr True"
  unfolding is_printable_def
  by (rule is_printable_prefix) (metis in_set_conv_nth length_take min.absorb2 nth_take)

lemma bcd2str_at_text:
  assumes "len \<le> 2 * length bcd" and "k \<le> length dest"
  shows "bcd2str_at k bcd dest len =
    (if k + length (bcd_digits bcd len 0) < length dest
     then Inr (take k dest @ bcd_text bcd len 0 @ 0 # drop (Suc (k + length (bcd_digits bcd len 0))) dest,
               length (bcd_digits bcd len 0))
     else Inl OutOfBounds)"
  using bcd2str_from_text [OF assms(1), of 0 "drop k dest" 0] assms(2)
  by (auto simp: bcd2str_at_def bcd2str_def add.commute)

lemma ucast_twice:
  shows "ucast ((of_nat (Suc n) - 1 :: u32) * 2) = (of_nat (2 * n) :: u8)"
proof -
  have "(of_nat (Suc n) - 1 :: u32) * 2 = of_nat (2 * n)" by simp
  moreover have "ucast (of_nat (2 * n) :: u32) = (of_nat (2 * n) :: u8)" by (rule ucast_of_nat) simp
  ultimately show ?thesis by (simp only:)
qed

lemma unat_digit_len:
  assumes "0 < n" "n \<le> 127"
  shows "unat (if (of_nat (2 * n) :: u8) > 31 then 31 else of_nat (2 * n) :: u8) = min 31 (2 * n)"
    and "(of_nat (2 * n) :: u8) \<noteq> 0"
proof -
  have u: "unat (of_nat (2 * n) :: u8) = 2 * n" by (rule unat_of_nat_small) (use assms in simp)
  then show "unat (if (of_nat (2 * n) :: u8) > 31 then 31 else of_nat (2 * n) :: u8) = min 31 (2 * n)"
    by (auto simp: word_less_nat_alt)
  show "(of_nat (2 * n) :: u8) \<noteq> 0" using u assms(1) by (metis mult_eq_0_iff not_gr_zero unsigned_0 zero_neq_numeral)
qed

section \<open>Properties\<close>

text \<open>
  C37. An international E.164 number (type-of-address byte 0x91) is written as a plus sign, its
  digits up to the first filler and a NUL; the rest of the 32-byte buffer is untouched.  A number
  of more than 30 digits runs over the end of the buffer: the limit of 31 digits that
  \<open>handle_address\<close> sets does not count the plus sign.
\<close>

theorem international_address:
  fixes bcd dest :: "u8 list"
  assumes "0 < length bcd" "length bcd \<le> 127" and "bcd ! 0 \<noteq> 0" and "length dest = 32"
  defines "n \<equiv> min 31 (2 * length bcd)"
  shows "handle_address (0x91 # bcd) (of_nat (Suc (length bcd))) dest False =
    (if length (bcd_digits bcd n 0) < 31
     then Inr (chr CHR ''+'' # bcd_text bcd n 0 @ 0 # drop (2 + length (bcd_digits bcd n 0)) dest)
     else Inl OutOfBounds)"
proof -
  let ?l = "length (bcd_digits bcd n 0)" and ?t = "bcd_text bcd n 0"
  obtain c d where d: "dest = c # d" "length d = 31" using assms(4) by (cases dest) auto
  define dl :: u8 where "dl = (if (of_nat (2 * length bcd) :: u8) > 31 then 31 else of_nat (2 * length bcd))"
  have dl: "unat dl = n" "(of_nat (2 * length bcd) :: u8) \<noteq> 0" "0 < n"
    unfolding dl_def n_def using unat_digit_len [OF assms(1,2)] assms(1) by auto
  have len: "(of_nat (Suc (length bcd)) :: u32) \<noteq> 0" "(of_nat (Suc (length bcd)) :: u32) \<noteq> 1"
    using assms(1,2) unat_of_nat_small [of "Suc (length bcd)", where 'a = 32]
    by (auto simp only: word_unat_eq_iff) simp_all
  have "bcd2str_at 1 bcd (chr CHR ''+'' # d) n =
    (if ?l < 31 then Inr (chr CHR ''+'' # ?t @ 0 # drop (Suc ?l) d, ?l) else Inl OutOfBounds)"
    using d(2) by (subst bcd2str_at_text) (auto simp: n_def)
  then have e: "address_digits 1 1 bcd dl dest =
    (if ?l < 31 then Inr (chr CHR ''+'' # ?t @ 0 # drop (Suc ?l) d, ?l) else Inl OutOfBounds)"
    using assms(1,3) d(1) dl(3) by (simp add: address_digits_def handle_addr_e164_def dl(1))
  have ret: "unat (of_nat ?l :: u8) = ?l" if "?l < 31"
    using that by (simp add: unsigned_of_nat take_bit_nat_eq_self)
  have p: "is_printable (chr CHR ''+'' # ?t @ r) ?l = Inr True" for r
  proof (rule is_printable_text)
    fix c assume "c \<in> set (take ?l (chr CHR ''+'' # ?t @ r))"
    then have "c = chr CHR ''+'' \<or> c \<in> set ?t"
      by (cases ?l) (auto dest!: in_set_takeD simp: take_append)
    moreover have "printable (chr CHR ''+'')" by (simp add: printable_def)
    ultimately show "printable c" using bcd_text_printable by auto
  qed simp
  have "address_tail 1 1 bcd (of_nat (2 * length bcd)) dest =
    (if ?l < 31 then Inr (chr CHR ''+'' # ?t @ 0 # drop (Suc ?l) d) else Inl OutOfBounds)"
    using e p ret dl(2) unfolding address_tail_def Let_def dl_def [symmetric] by simp
  then show ?thesis
    using len ucast_twice [of "length bcd"] d(1) by (simp add: handle_address_def Let_def)
qed

theorem international_address_witness:
  "handle_address [0x91, 0x94, 0x71] 3 (replicate 32 0) False
   = Inr (str_bytes ''+4917'' @ replicate 27 0)"
proof -
  have "handle_address (0x91 # [0x94, 0x71]) (of_nat (Suc (length [0x94, 0x71 :: u8]))) (replicate 32 0) False =
    (if length (bcd_digits [0x94, 0x71] (min 31 (2 * length [0x94, 0x71 :: u8])) 0) < 31
     then Inr (chr CHR ''+'' # bcd_text [0x94, 0x71] (min 31 (2 * length [0x94, 0x71 :: u8])) 0
               @ 0 # drop (2 + length (bcd_digits [0x94, 0x71] (min 31 (2 * length [0x94, 0x71 :: u8])) 0)) (replicate 32 0))
     else Inl OutOfBounds)"
    by (rule international_address) simp_all
  moreover have "bcd_digits [0x94, 0x71] 4 0 = [4, 9, 1, 7]" by code_simp
  moreover have "bcd_text [0x94, 0x71] 4 0 = str_bytes ''4917''" by code_simp
  ultimately show ?thesis by (simp add: str_bytes_def replicate_Suc [symmetric] numeral_eq_Suc)
qed

end
