(* ===== verification/Chan_Detect.thy ===== *)
theory Chan_Detect
  imports Prelude
begin

text \<open>
  The channel a frame number starts a block of (\<open>gsm-parser/chan_detect.c\<close>), on the timeslot of the
  BCCH and on a timeslot with SDCCH/8.  The sub-channel, which the C functions store through a
  pointer, is part of the result; the diagnostic output of \<open>chan_detect\<close> is left out.
\<close>

section \<open>Definitions\<close>

definition UNKNOWN :: u8 where "UNKNOWN = 0"
definition BCCH :: u8 where "BCCH = 1"
definition CCCH :: u8 where "CCCH = 2"
definition SDCCH :: u8 where "SDCCH = 4"
definition SACCH :: u8 where "SACCH = 8"

lemmas chan_types = UNKNOWN_def BCCH_def CCCH_def SDCCH_def SACCH_def

definition bcch_detect :: "u32 \<Rightarrow> bool \<Rightarrow> u8 \<times> u8" where
  "bcch_detect fn combined =
     (let fn_mod = ucast (fn mod 51) :: u8;
          sacch_sub = (if fn mod 102 \<ge> 51 then 2 else 0 :: u8);
          (type, subchan) =
            (if fn_mod \<in> {0, 10, 20, 30, 40} then (UNKNOWN, 0)
             else if fn_mod \<in> {1, 11, 21, 31, 41} then (UNKNOWN, 0)
             else if fn_mod = 50 then (UNKNOWN, 0)
             else if fn_mod = 2 \<or> fn_mod = 6 then (BCCH, 0)
             else if fn_mod = 12 \<or> fn_mod = 16 then (CCCH, 0)
             else if fn_mod = 22 then (SDCCH, 0)
             else if fn_mod = 26 then (SDCCH, 1)
             else if fn_mod = 32 then (SDCCH, 2)
             else if fn_mod = 36 then (SDCCH, 3)
             else if fn_mod = 42 then (SACCH, 0 + sacch_sub)
             else if fn_mod = 46 then (SACCH, 1 + sacch_sub)
             else (UNKNOWN, 0))
      in (if \<not> combined \<and> (type = SDCCH \<or> type = SACCH) then CCCH else type, subchan))"

definition xcch_detect :: "u32 \<Rightarrow> u8 \<times> u8" where
  "xcch_detect fn =
     (let fn_mod = ucast (fn mod 51) :: u8;
          msg_mod = fn_mod mod 4;
          sacch_sub = (if fn mod 102 \<ge> 51 then 4 else 0 :: u8)
      in if fn_mod > 47 then (UNKNOWN, 0)
         else if nz msg_mod then (UNKNOWN, 0)
         else if fn_mod < 32 then (SDCCH, fn_mod div 4)
         else (SACCH, (fn_mod - 32) div 4 + sacch_sub))"

definition chan_detect :: "u32 \<Rightarrow> u8 \<Rightarrow> bool \<Rightarrow> u8 \<times> u8" where
  "chan_detect fn ts combined = (if ts = 0 then bcch_detect fn combined else xcch_detect fn)"

section \<open>The schedule of a timeslot with SDCCH/8\<close>

lemma unat_frame_mod:
  "unat (ucast ((fn :: u32) mod 51) :: u8) = unat fn mod 51"
  "(51 \<le> fn mod 102) = (51 \<le> unat fn mod 102)"
proof -
  have "unat fn mod 51 < 2 ^ 8" by (rule less_trans [of _ 51]) simp_all
  then show "unat (ucast (fn mod 51) :: u8) = unat fn mod 51"
    by (simp add: unsigned_ucast_eq take_bit_nat_eq_self unat_mod_distrib)
  show "(51 \<le> fn mod 102) = (51 \<le> unat fn mod 102)"
    by (simp add: word_le_nat_alt unat_mod_distrib)
qed

text \<open>The result of \<open>xcch_detect\<close> as a function of the position in the cycle of 102 frames.\<close>

definition xcch_at :: "nat \<Rightarrow> nat \<times> nat" where
  "xcch_at f = (let m = f mod 51 in
     if 47 < m \<or> m mod 4 \<noteq> 0 then (0, 0)
     else if m < 32 then (4, m div 4) else (8, (m - 32) div 4 + (if 51 \<le> f then 4 else 0)))"

lemma xcch_detect_at:
  "(unat (fst (xcch_detect fn)), unat (snd (xcch_detect fn))) = xcch_at (unat fn mod 102)"
proof -
  define w :: u8 where "w = ucast (fn mod 51)"
  have m: "unat w = unat fn mod 102 mod 51"
    unfolding w_def unat_frame_mod(1) by (rule mod_mod_cancel [symmetric]) simp
  have c: "(47 < w) = (47 < unat w)" "(w mod 4 \<noteq> 0) = (unat w mod 4 \<noteq> 0)" "(w < 32) = (unat w < 32)"
    "unat (w div 4) = unat w div 4"
    by (simp_all add: word_less_nat_alt word_unat_eq_iff unat_mod_distrib unat_div_distrib)
  have s: "unat ((w - 32) div 4 + (if 51 \<le> fn mod 102 then 4 else 0))
      = (unat w - 32) div 4 + (if 51 \<le> unat fn mod 102 then 4 else 0)" if "\<not> unat w < 32" "\<not> 47 < unat w"
  proof -
    have "unat (w - 32) = unat w - 32" using that by (simp add: unat_sub word_le_nat_alt)
    then have "unat ((w - 32) div 4) = (unat w - 32) div 4" "(unat w - 32) div 4 < 4"
      using that by (simp_all add: unat_div_distrib)
    then show ?thesis by (simp add: unat_word_ariths unat_frame_mod(2))
  qed
  show ?thesis
    unfolding xcch_detect_def Let_def w_def [symmetric] xcch_at_def m [symmetric]
    using s by (simp add: c chan_types)
qed

lemma nat_half_102: "f < 102 \<Longrightarrow> f mod 51 = (if 51 \<le> f then f - 51 else (f :: nat))"
  by (simp add: mod_if)

lemma xcch_at_SDCCH:
  assumes "f < 102" "n < 8"
  shows "xcch_at f = (4, n) \<longleftrightarrow> f mod 51 = 4 * n"
proof -
  have "m mod 4 = 0 \<and> m < 32 \<and> m div 4 = n \<longleftrightarrow> m = 4 * n" for m
    using assms(2) by auto
  from this [of "f mod 51"] show ?thesis by (auto simp: xcch_at_def Let_def)
qed

lemma xcch_at_SACCH:
  assumes "f < 102" "n < 8"
  shows "xcch_at f = (8, n) \<longleftrightarrow> f = 32 + 4 * (n mod 4) + 51 * (n div 4)"
proof -
  define h where "h = (if 51 \<le> f then 1 else 0 :: nat)"
  define m where "m = f mod 51"
  have f: "f = m + 51 * h" "m < 51" "h < 2" using assms(1) by (auto simp: h_def m_def nat_half_102)
  have n: "n = n mod 4 + 4 * (n div 4)" "n mod 4 < 4" "n div 4 < 2" using assms(2) by auto
  have "xcch_at f = (8, n) \<longleftrightarrow> m mod 4 = 0 \<and> m \<le> 47 \<and> 32 \<le> m \<and> (m - 32) div 4 + 4 * h = n"
    by (auto simp: xcch_at_def Let_def m_def h_def)
  also have "\<dots> \<longleftrightarrow> m = 32 + 4 * (n mod 4) \<and> h = n div 4"
  proof
    assume a: "m mod 4 = 0 \<and> m \<le> 47 \<and> 32 \<le> m \<and> (m - 32) div 4 + 4 * h = n"
    define k where "k = (m - 32) div 4"
    from a have "m = 32 + 4 * k" "k < 4" unfolding k_def by (auto elim!: dvdE simp: mod_eq_0_iff_dvd)
    with a show "m = 32 + 4 * (n mod 4) \<and> h = n div 4" by auto
  next
    assume "m = 32 + 4 * (n mod 4) \<and> h = n div 4"
    with n show "m mod 4 = 0 \<and> m \<le> 47 \<and> 32 \<le> m \<and> (m - 32) div 4 + 4 * h = n" by auto
  qed
  also have "\<dots> \<longleftrightarrow> f = 32 + 4 * (n mod 4) + 51 * (n div 4)"
  proof -
    have "m = a \<and> h = b" if "m + 51 * h = a + 51 * b" "a < 51" for a b
    proof -
      have "(m + 51 * h) mod 51 = m" "(a + 51 * b) mod 51 = a" using that(2) f(2) by simp_all
      then have "m = a" using that(1) by metis
      with that(1) show ?thesis by simp
    qed
    from this [of "32 + 4 * (n mod 4)" "n div 4"] f(1) n(2) show ?thesis by auto
  qed
  finally show ?thesis .
qed

section \<open>Properties\<close>

text \<open>
  On a timeslot other than 0, \<open>chan_detect\<close> follows the SDCCH/8 schedule: sub-channel \<open>n\<close>
  starts an SDCCH block exactly at the frames \<open>4 n\<close> of every 51-multiframe, and its SACCH block
  exactly once per 102 frames, at frame \<open>32 + 4 (n mod 4)\<close> of the first multiframe for the
  sub-channels 0 to 3 and of the second one for 4 to 7.
\<close>

theorem xcch_schedule:
  assumes "nz ts" and "n < 8"
  shows "(chan_detect fn ts combined = (SDCCH, n) \<longleftrightarrow> unat fn mod 51 = 4 * unat n)
    \<and> (chan_detect fn ts combined = (SACCH, n) \<longleftrightarrow>
         unat fn mod 102 = 32 + 4 * (unat n mod 4) + 51 * (unat n div 4))"
proof -
  have n: "unat n < 8" using assms(2) by (simp add: word_less_nat_alt)
  have f: "unat fn mod 102 < 102" by simp
  have "xcch_detect fn = (t, n) \<longleftrightarrow> xcch_at (unat fn mod 102) = (unat t, unat n)" for t
    unfolding xcch_detect_at [symmetric] by (cases "xcch_detect fn") (auto simp: word_unat_eq_iff)
  moreover have "unat fn mod 102 mod 51 = unat fn mod 51" by (rule mod_mod_cancel) simp
  ultimately show ?thesis
    using xcch_at_SDCCH [OF f n] xcch_at_SACCH [OF f n] assms(1)
    by (simp add: chan_detect_def SDCCH_def SACCH_def)
qed

theorem xcch_schedule_witness:
  "chan_detect 1020 3 True = (SDCCH, 0) \<and> chan_detect (1020 + 87) 3 True = (SACCH, 5)"
  using xcch_schedule [of 3 0 1020 True] xcch_schedule [of 3 5 "1020 + 87" True] by simp

end
