(* ===== verification/Radio.thy ===== *)
theory Radio
  imports Prelude
begin

text \<open>
  The data that the receiver passes on: bursts (\<open>gsm-parser/burst_desc.h\<close>), buffers of bursts and
  messages (\<open>gsm-parser/process.h\<close>).  Arrays are lists of the declared length.  The
  text \<open>info\<close> of a message, a buffer of 128 bytes, is the text before its NUL.  The links of a
  message are addresses in the store of messages, \<open>None\<close> being the null pointer.
\<close>

definition RAT_GSM :: u8 where "RAT_GSM = 0"
definition RAT_UMTS :: u8 where "RAT_UMTS = 1"
definition RAT_LTE :: u8 where "RAT_LTE = 2"
definition DOMAIN_CS :: u8 where "DOMAIN_CS = 0"
definition DOMAIN_PS :: u8 where "DOMAIN_PS = 1"

definition MSG_SDCCH :: u8 where "MSG_SDCCH = 0x01"
definition MSG_SACCH :: u8 where "MSG_SACCH = 0x02"
definition MSG_FACCH :: u8 where "MSG_FACCH = 0x04"
definition MSG_BCCH :: u8 where "MSG_BCCH = 0x08"
definition MSG_CIPHERED :: u8 where "MSG_CIPHERED = 0x40"
definition MSG_DECODED :: u8 where "MSG_DECODED = 0x80"

definition ARFCN_UPLINK :: u16 where "ARFCN_UPLINK = 0x4000"
definition BI_FLG_SACCH :: u8 where "BI_FLG_SACCH = 0x20"

lemmas radio_consts = RAT_GSM_def RAT_UMTS_def RAT_LTE_def DOMAIN_CS_def DOMAIN_PS_def
  MSG_SDCCH_def MSG_SACCH_def MSG_FACCH_def MSG_BCCH_def MSG_CIPHERED_def MSG_DECODED_def
  ARFCN_UPLINK_def BI_FLG_SACCH_def

text \<open>
  A burst as the receiver reports it.  The frame number and the ARFCN are in network byte order;
  the model keeps them as \<open>ntohl\<close> and \<open>ntohs\<close> deliver them.
\<close>

record l1ctl_burst_ind =
  frame_nr :: u32
  band_arfcn :: u16
  bi_chan_nr :: u8
  bi_flags :: u8
  rx_level :: u8
  bi_snr :: u8
  bi_bits :: "u8 list"

record burst_buf =
  bb_count :: u32
  bb_errors :: u32
  bb_snr :: "u32 list"
  bb_rxl :: "u32 list"
  bb_fn :: "u32 list"
  bb_arfcn :: "u16 list"
  bb_data :: "u8 list"
  bb_sbit :: "u8 list"

definition zero_burst_buf :: burst_buf where
  "zero_burst_buf = \<lparr>bb_count = 0, bb_errors = 0, bb_snr = replicate 8 0, bb_rxl = replicate 8 0,
     bb_fn = replicate 8 0, bb_arfcn = replicate 8 0, bb_data = replicate 912 0, bb_sbit = replicate 16 0\<rparr>"

definition burst_buf_ok :: "burst_buf \<Rightarrow> bool" where
  "burst_buf_ok bb \<longleftrightarrow> length (bb_snr bb) = 8 \<and> length (bb_rxl bb) = 8 \<and> length (bb_fn bb) = 8
     \<and> length (bb_arfcn bb) = 8 \<and> length (bb_data bb) = 912 \<and> length (bb_sbit bb) = 16"

lemma burst_buf_ok_zero [simp]: "burst_buf_ok zero_burst_buf"
  by (simp add: burst_buf_ok_def zero_burst_buf_def)

record timeval =
  tv_sec :: u64
  tv_usec :: u64

definition zero_timeval :: timeval where
  "zero_timeval = \<lparr>tv_sec = 0, tv_usec = 0\<rparr>"

record radio_message =
  rm_rat :: u8
  rm_domain :: u8
  rm_flags :: u8
  rm_timestamp :: timeval
  rm_info :: string
  rm_chan_nr :: u8
  rm_msg :: "u8 list"
  rm_msg_len :: u32
  rm_bb :: burst_buf
  rm_next :: "nat option"
  rm_prev :: "nat option"

definition zero_radio_message :: radio_message where
  "zero_radio_message = \<lparr>rm_rat = 0, rm_domain = 0, rm_flags = 0, rm_timestamp = zero_timeval, rm_info = [], rm_chan_nr = 0,
     rm_msg = replicate 256 0, rm_msg_len = 0, rm_bb = zero_burst_buf, rm_next = None, rm_prev = None\<rparr>"

definition radio_message_ok :: "radio_message \<Rightarrow> bool" where
  "radio_message_ok m \<longleftrightarrow> length (rm_msg m) = 256 \<and> length (rm_info m) \<le> 127 \<and> burst_buf_ok (rm_bb m)"

lemma radio_message_ok_zero [simp]: "radio_message_ok zero_radio_message"
  by (simp add: radio_message_ok_def zero_radio_message_def)

text \<open>The uplink flag of a message: \<open>!!(m->bb.arfcn[0] & ARFCN_UPLINK)\<close>.\<close>

definition msg_uplink :: "radio_message \<Rightarrow> bool res" where
  "msg_uplink m = rbind (rd (bb_arfcn (rm_bb m)) 0) (\<lambda>a. Inr (nz (a AND ARFCN_UPLINK)))"

definition msg_fn :: "radio_message \<Rightarrow> u32 res" where
  "msg_fn m = rd (bb_fn (rm_bb m)) 0"

lemma msg_uplink_ok: "radio_message_ok m \<Longrightarrow> msg_uplink m = Inr (nz (bb_arfcn (rm_bb m) ! 0 AND ARFCN_UPLINK))"
  by (simp add: msg_uplink_def radio_message_ok_def burst_buf_ok_def)

lemma msg_fn_ok: "radio_message_ok m \<Longrightarrow> msg_fn m = Inr (bb_fn (rm_bb m) ! 0)"
  by (simp add: msg_fn_def radio_message_ok_def burst_buf_ok_def)

end
