(* ===== verification/Rlcmac.thy ===== *)
theory Rlcmac
  imports Radio
begin

text \<open>
  Reassembly of GPRS logical link frames from radio blocks (\<open>gsm-parser/rlcmac.c\<close>).  A temporary
  block flow (TBF) is a window of 128 fragments indexed by their block sequence number; every data
  block updates a fragment and runs \<open>process_blocks\<close>, which walks the window and sends completed
  frames.

  The frames handed to \<open>net_send_llc\<close> and the blocks handed to \<open>net_send_rlcmac\<close> are appended to a
  list of events; the diagnostic output is left out, and so is \<open>llc_first_bsn\<close>, which is set and
  never used.  The frame buffer \<open>llc_data\<close> is the list of the \<open>llc_len\<close> bytes in it.
\<close>

section \<open>Definitions\<close>

record gprs_lime =
  lime_li :: u8
  lime_m :: bool
  lime_e :: bool
  lime_used :: bool

record gprs_frag =
  frag_fn :: u32
  frag_last :: bool
  frag_len :: u8
  frag_data :: "u8 list"
  n_blocks :: u8
  frag_blocks :: "gprs_lime list"

record gprs_tbf =
  last_bsn :: u8
  start_bsn :: u8
  frags :: "gprs_frag list"

datatype gprs_event =
    Net_send_llc "u8 list" bool
  | Net_send_rlcmac "u8 list" u8 bool

definition OLD_TIME :: int where "OLD_TIME = 2000"

definition zero_frag :: gprs_frag where
  "zero_frag = \<lparr>frag_fn = 0, frag_last = False, frag_len = 0, frag_data = replicate 53 0, n_blocks = 0,
     frag_blocks = replicate 20 \<lparr>lime_li = 0, lime_m = False, lime_e = False, lime_used = False\<rparr>\<rparr>"

definition zero_tbf :: gprs_tbf where
  "zero_tbf = \<lparr>last_bsn = 0, start_bsn = 0, frags = replicate 128 zero_frag\<rparr>"

text \<open>\<open>abs\<close> of an unsigned difference, taken as an \<open>int\<close>.\<close>

definition too_old :: "u32 \<Rightarrow> u32 \<Rightarrow> bool" where
  "too_old current_fn test_fn = (\<bar>sint (current_fn - test_fn)\<bar> > OLD_TIME)"

definition bsn_is_next :: "u8 \<Rightarrow> u8 \<Rightarrow> bool" where
  "bsn_is_next b1 b2 = ((unat b1 + 1) mod 128 = unat b2)"

text \<open>Successors of a block sequence number, modulo 128.\<close>

definition bsn_add :: "u8 \<Rightarrow> nat \<Rightarrow> u8" where
  "bsn_add bsn k = of_nat ((unat bsn + k) mod 128)"

text \<open>The variables of the walk through the window.\<close>

record llc_walk =
  lw_tbf :: gprs_tbf
  lw_llc :: "u8 list"
  lw_last_bsn :: u8
  lw_fn :: u32
  lw_skip :: bool
  lw_out :: "gprs_event list"

definition llc_append :: "u8 list \<Rightarrow> llc_walk \<Rightarrow> llc_walk res" where
  "llc_append d w = (if length (lw_llc w) + length d \<le> 65536 then Inr (w\<lparr>lw_llc := lw_llc w @ d\<rparr>)
                     else Inl OutOfBounds)"

definition walk_frag :: "u8 \<Rightarrow> (gprs_frag \<Rightarrow> gprs_frag) \<Rightarrow> llc_walk \<Rightarrow> llc_walk" where
  "walk_frag bsn f w =
     w\<lparr>lw_tbf := (lw_tbf w)\<lparr>frags := (frags (lw_tbf w))[unat bsn := f (frags (lw_tbf w) ! unat bsn)]\<rparr>\<rparr>"

text \<open>One part of a fragment with several parts; the offset \<open>li_off\<close> is a \<open>uint8_t\<close>.\<close>

definition process_lime :: "bool \<Rightarrow> u8 \<Rightarrow> nat \<Rightarrow> llc_walk \<times> u8 \<Rightarrow> (llc_walk \<times> u8) res" where
  "process_lime ul bsn i = (\<lambda>(w, li_off).
     rbind (rd (frags (lw_tbf w)) (unat bsn)) (\<lambda>f.
     rbind (rd (frag_blocks f) i) (\<lambda>l.
     rbind
       (if lime_used l then Inr (if lw_llc w \<noteq> [] then w\<lparr>lw_llc := []\<rparr> else w)
        else rbind (rdn (frag_data f) (unat li_off) (unat (lime_li l))) (\<lambda>d.
             rbind (llc_append d w) (\<lambda>w.
             let w = w\<lparr>lw_last_bsn := bsn\<rparr> in
             if \<not> lime_e l \<or> \<not> lime_m l \<or> (lime_e l \<and> lime_m l)
             then let w = w\<lparr>lw_out := lw_out w @ [Net_send_llc (lw_llc w) ul]\<rparr>;
                      w = walk_frag bsn (\<lambda>f. f\<lparr>frag_blocks := (frag_blocks f)[i := l\<lparr>lime_used := True\<rparr>]\<rparr>) w;
                      w = w\<lparr>lw_llc := []\<rparr>
                  in Inr (if \<not> lw_skip w then w\<lparr>lw_tbf := (lw_tbf w)\<lparr>start_bsn := bsn\<rparr>\<rparr> else w)
             else Inr w)))
       (\<lambda>w. Inr (w, li_off + lime_li l)))))"

text \<open>One fragment of the walk; \<open>lw_skip\<close> and the early \<open>continue\<close>s as in the loop body.\<close>

definition process_frag :: "bool \<Rightarrow> u8 \<Rightarrow> llc_walk \<Rightarrow> llc_walk res" where
  "process_frag ul bsn w =
     rbind (rd (frags (lw_tbf w)) (unat bsn)) (\<lambda>f.
     if frag_len f = 0 then Inr (w\<lparr>lw_llc := [], lw_skip := True\<rparr>)
     else if too_old (lw_fn w) (frag_fn f) then Inr (w\<lparr>lw_llc := [], lw_skip := True\<rparr>)
     else let w = w\<lparr>lw_fn := frag_fn f\<rparr> in
       if lw_llc w \<noteq> [] \<and> \<not> bsn_is_next (lw_last_bsn w) bsn
       then Inr (w\<lparr>lw_llc := [], lw_skip := True\<rparr>)
       else if n_blocks f = 0
       then rbind (rdn (frag_data f) 0 (unat (frag_len f))) (\<lambda>d.
            rbind (llc_append d w) (\<lambda>w.
            let w = w\<lparr>lw_last_bsn := bsn\<rparr> in
            if frag_last f
            then Inr (w\<lparr>lw_out := lw_out w @ [Net_send_llc (lw_llc w) ul],
                       lw_tbf := (lw_tbf w)\<lparr>frags := map (\<lambda>f. f\<lparr>frag_len := 0, n_blocks := 0\<rparr>) (frags (lw_tbf w)),
                                           start_bsn := 0\<rparr>,
                       lw_llc := []\<rparr>)
            else Inr w))
       else rbind (rfold (process_lime ul bsn) [0..<unat (n_blocks f)] (w, 0)) (\<lambda>(w, li_off).
            rbind (rd (frag_blocks f) (unat (n_blocks f) - 1)) (\<lambda>l.
            if lime_m l \<and> frag_len f > li_off
            then rbind (rdn (frag_data f) (unat li_off) (unat (frag_len f) - unat li_off)) (\<lambda>d.
                 Inr (w\<lparr>lw_llc := d, lw_last_bsn := bsn, lw_tbf := (lw_tbf w)\<lparr>start_bsn := bsn\<rparr>\<rparr>))
            else Inr w)))"

text \<open>
  The search for the oldest fragment: \<open>start_bsn\<close> is used as an index as it is, the successors are reduced
  modulo 128.
\<close>

definition oldest_frag :: "gprs_tbf \<Rightarrow> u8 option res" where
  "oldest_frag t =
     rbind (rd (frags t) (unat (start_bsn t))) (\<lambda>f.
     if frag_len f \<noteq> 0 then Inr (Some (start_bsn t))
     else rfold (\<lambda>k found. case found of
            Some bsn \<Rightarrow> Inr found
          | None \<Rightarrow> let bsn = bsn_add (start_bsn t) k in
              rbind (rd (frags t) (unat bsn)) (\<lambda>f. Inr (if frag_len f \<noteq> 0 then Some bsn else None))) [1..<128] None)"

text \<open>
  The walk visits the numbers from \<open>start_bsn\<close> up to and including \<open>last_bsn\<close>, modulo 128; neither
  the loop variable nor \<open>last_bsn\<close> changes in the loop body.
\<close>

definition window :: "u8 \<Rightarrow> u8 \<Rightarrow> u8 list" where
  "window start lst = map (bsn_add start) [0..<nat ((int (unat lst) + 1 - int (unat start)) mod 128)]"

definition process_blocks :: "gprs_tbf \<Rightarrow> bool \<Rightarrow> (gprs_tbf \<times> gprs_event list) res" where
  "process_blocks t ul =
     rbind (oldest_frag t) (\<lambda>found. case found of
        None \<Rightarrow> Inr (t, [])
      | Some bsn \<Rightarrow>
          let current_fn = frag_fn (frags t ! unat bsn);
              t = t\<lparr>start_bsn := bsn\<rparr>
          in rbind (rfold (process_frag ul) (window bsn (last_bsn t))
                      \<lparr>lw_tbf = t, lw_llc = [], lw_last_bsn = 0, lw_fn = current_fn, lw_skip = False,
                       lw_out = []\<rparr>) (\<lambda>w.
             let t = lw_tbf w in
             Inr (if c_rem (int (unat (last_bsn t)) - int (unat (start_bsn t))) 128 > 64
                  then t\<lparr>start_bsn := of_int (c_rem (int (unat (last_bsn t)) - 64) 128)\<rparr> else t,
                  lw_out w)))"

text \<open>The scan of the length indicators behind the header.\<close>

function scan_lime :: "u8 list \<Rightarrow> nat \<Rightarrow> gprs_frag \<Rightarrow> (gprs_frag \<times> nat) res" where
  "scan_lime msg off f =
     (if off < length msg
      then if nz (msg ! off AND 0x01) then Inr (f, Suc off)
           else rbind (rd (frag_blocks f) (unat (n_blocks f))) (\<lambda>l.
                rbind (rd msg (Suc off)) (\<lambda>x.
                scan_lime msg (Suc off)
                  (f\<lparr>frag_blocks := (frag_blocks f)[unat (n_blocks f) :=
                        \<lparr>lime_li = drop_bit 2 (x AND 0xfc), lime_m = nz (x AND 0x02), lime_e = nz (x AND 0x01),
                         lime_used = False\<rparr>],
                     n_blocks := n_blocks f + 1\<rparr>)))
      else Inl OutOfBounds)"
  by pat_completeness auto
termination
  by (relation "measure (\<lambda>(msg, off, f). length msg - off)") auto

declare scan_lime.simps [simp del]

text \<open>The decision whether a block is new, in which the window of the TBF moves.\<close>

datatype block_age = New_tbf | New_frag | Duplicate | Inconsistent

definition block_decision :: "u32 \<Rightarrow> u32 \<Rightarrow> int \<Rightarrow> block_age" where
  "block_decision d_same_bsn d_last_bsn d_bsn =
     (if uint d_same_bsn > OLD_TIME
      then if uint d_last_bsn > OLD_TIME then New_tbf
           else if d_bsn \<ge> 0 \<or> d_bsn < - 64 then New_frag else Duplicate
      else if uint d_last_bsn > OLD_TIME then Inconsistent
           else if d_bsn > 0 then Inconsistent
           else if d_bsn < - 64 then New_frag else Duplicate)"

definition rlc_store :: "radio_message \<Rightarrow> bool \<Rightarrow> bool \<Rightarrow> u32 \<Rightarrow> u8 \<Rightarrow> gprs_tbf \<Rightarrow> gprs_tbf res" where
  "rlc_store m ul is_last fn bsn t =
     rbind (rd (frags t) (unat bsn)) (\<lambda>f.
     rbind (scan_lime (rm_msg m) 2 (f\<lparr>n_blocks := 0\<rparr>)) (\<lambda>(f, off).
     rbind (rd (rm_msg m) 1) (\<lambda>m1.
     let f = f\<lparr>frag_last := is_last\<rparr> in
     rbind (if ul \<and> nz (m1 AND 0x01) then rbind (rdn (rm_msg m) off 4) (\<lambda>tlli. Inr (off + 4)) else Inr off) (\<lambda>off.
     rbind (if ul \<and> nz (m1 AND 0x40) then rbind (rd (rm_msg m) off) (\<lambda>pfi. Inr (off + 1)) else Inr off) (\<lambda>off.
     let flen = ucast (rm_msg_len m - of_nat off) :: u8
     in rbind (rdn (rm_msg m) off (unat flen)) (\<lambda>d.
        rbind (wrn (frag_data f) 0 d) (\<lambda>data.
        Inr (t\<lparr>frags := (frags t)[unat bsn := f\<lparr>frag_len := flen, frag_fn := fn, frag_data := data\<rparr>]\<rparr>))))))))"

type_synonym tbf_table = "gprs_tbf list"

definition rlc_data_handler :: "radio_message \<Rightarrow> tbf_table \<Rightarrow> (tbf_table \<times> gprs_event list) res" where
  "rlc_data_handler m tbfs =
     rbind (rd (rm_msg m) 0) (\<lambda>m0. rbind (rd (rm_msg m) 1) (\<lambda>m1. rbind (rd (rm_msg m) 2) (\<lambda>m2.
     rbind (msg_uplink m) (\<lambda>ul. rbind (msg_fn m) (\<lambda>fn.
     let tfi = drop_bit 1 (m1 AND 0x3e); bsn = drop_bit 1 (m2 AND 0xfe);
         cv = (if ul then drop_bit 2 (m0 AND 0x3c) else 1);
         fbi = (if ul then 0 else m1 AND 0x01);
         ti = 2 * unat tfi + (if ul then 1 else 0)
     in rbind (rd tbfs ti) (\<lambda>t.
        rbind (rd (frags t) (unat bsn)) (\<lambda>f_same.
        rbind (rd (frags t) (unat (last_bsn t))) (\<lambda>f_last.
        let d_bsn = c_rem (int (unat bsn) - int (unat (last_bsn t))) 128 in
        case block_decision (fn - frag_fn f_same) (fn - frag_fn f_last) d_bsn of
          New_tbf \<Rightarrow>
            let pi = 2 * ((unat tfi + 1) mod 32) + (if ul then 1 else 0) in
            rbind (rd tbfs pi) (\<lambda>t_prev.
            rbind (rd (frags t_prev) (unat (last_bsn t_prev))) (\<lambda>f.
            rbind (if nz (frag_len f)
                   then process_blocks
                          (t_prev\<lparr>frags := (frags t_prev)[unat (last_bsn t_prev) := f\<lparr>frag_last := True\<rparr>]\<rparr>) ul
                   else Inr (t_prev, [])) (\<lambda>(t_prev, out1).
            let tbfs = tbfs[pi := t_prev];
                t = \<lparr>last_bsn = bsn, start_bsn = 0, frags = replicate 128 zero_frag\<rparr>
            in rbind (rlc_store m ul (cv = 0 \<or> nz fbi) fn bsn t) (\<lambda>t.
               rbind (process_blocks t ul) (\<lambda>(t, out2).
               Inr (tbfs[ti := t], out1 @ out2))))))
        | New_frag \<Rightarrow>
            rbind (rlc_store m ul (cv = 0 \<or> nz fbi) fn bsn (t\<lparr>last_bsn := bsn\<rparr>)) (\<lambda>t.
            rbind (process_blocks t ul) (\<lambda>(t, out).
            Inr (tbfs[ti := t], out)))
        | Duplicate \<Rightarrow>
            Inr (tbfs[ti := t\<lparr>frags := (frags t)[unat bsn := f_same\<lparr>frag_fn := fn\<rparr>]\<rparr>], [])
        | Inconsistent \<Rightarrow> Inr (tbfs, [])))))))))"

definition net_send_rlcmac :: "radio_message \<Rightarrow> bool \<Rightarrow> gprs_event res" where
  "net_send_rlcmac m ul =
     rbind (rdn (rm_msg m) 0 (unat (rm_msg_len m))) (\<lambda>blk. Inr (Net_send_rlcmac blk (rm_chan_nr m) ul))"

definition rlc_type_handler :: "radio_message \<Rightarrow> tbf_table \<Rightarrow> (tbf_table \<times> gprs_event list) res" where
  "rlc_type_handler m tbfs =
     rbind (msg_uplink m) (\<lambda>ul.
     rbind (rd (rm_msg m) 0) (\<lambda>m0.
     let kind = drop_bit 6 (m0 AND 0xc0) in
     if kind = 0
     then rbind (net_send_rlcmac m ul) (\<lambda>send.
          rbind (rlc_data_handler m tbfs) (\<lambda>(tbfs, out). Inr (tbfs, send # out)))
     else if kind = 1 \<or> kind = 2 then rbind (net_send_rlcmac m ul) (\<lambda>send. Inr (tbfs, [send]))
     else Inr (tbfs, [])))"

section \<open>Lemmas\<close>

lemma unat_bsn_add: "unat (bsn_add bsn k) = (unat bsn + k) mod 128"
  unfolding bsn_add_def by (rule unat_of_nat_small) (rule less_trans [of _ 128], simp_all)

lemma bsn_add_0: "unat bsn < 128 \<Longrightarrow> bsn_add bsn 0 = bsn"
  by (simp add: word_unat_eq_iff unat_bsn_add)

lemma bsn_is_next_add: "bsn_is_next (bsn_add bsn k) (bsn_add bsn (Suc k))"
  by (simp add: bsn_is_next_def unat_bsn_add mod_Suc_eq)

lemma window_add:
  assumes "unat bsn < 128" "k < 127"
  shows "window bsn (bsn_add bsn k) = map (bsn_add bsn) [0..<Suc k]"
proof -
  have "(int ((unat bsn + k) mod 128) + 1 - int (unat bsn)) mod 128
      = (int (unat bsn + k) + 1 - int (unat bsn)) mod 128"
  proof -
    have "(x mod 128 + 1 - b) mod 128 = (x + 1 - b) mod 128" for x b :: int
      by (simp add: mod_eq_dvd_iff) (simp add: minus_mult_div_eq_mod [symmetric])
    then show ?thesis by (simp only: zmod_int of_nat_numeral)
  qed
  also have "\<dots> = int (Suc k)" using assms(2) by simp
  finally show ?thesis unfolding window_def unat_bsn_add by (simp only: nat_int)
qed

text \<open>
  A fragment without length indicators that is not the last of its TBF and holds \<open>d\<close>; one that is the
  last of its TBF and holds \<open>d\<close>; and one with a single length indicator that ends a frame after the
  bytes \<open>d\<close>, which has been used or not.
\<close>

definition whole_frag :: "gprs_frag \<Rightarrow> u8 list \<Rightarrow> bool" where
  "whole_frag f d \<longleftrightarrow> d \<noteq> [] \<and> n_blocks f = 0 \<and> \<not> frag_last f \<and> length (frag_data f) = 53
     \<and> unat (frag_len f) = length d \<and> length d \<le> 53 \<and> take (length d) (frag_data f) = d"

definition tbf_end_frag :: "gprs_frag \<Rightarrow> u8 list \<Rightarrow> bool" where
  "tbf_end_frag f d \<longleftrightarrow> frag_last f \<and> whole_frag (f\<lparr>frag_last := False\<rparr>) d"

definition final_frag :: "bool \<Rightarrow> gprs_frag \<Rightarrow> u8 list \<Rightarrow> bool" where
  "final_frag used f d \<longleftrightarrow> n_blocks f = 1 \<and> frag_len f \<noteq> 0 \<and> length (frag_data f) = 53 \<and> length d \<le> 53
     \<and> length (frag_blocks f) = 20 \<and> lime_li (frag_blocks f ! 0) = of_nat (length d)
     \<and> lime_e (frag_blocks f ! 0) \<and> \<not> lime_m (frag_blocks f ! 0) \<and> lime_used (frag_blocks f ! 0) = used
     \<and> take (length d) (frag_data f) = d"

lemma whole_frag_walk:
  assumes "bsn_n = unat bsn" "unat bsn < length (frags (lw_tbf w))" "whole_frag (frags (lw_tbf w) ! bsn_n) d"
    and "\<not> too_old (lw_fn w) (frag_fn (frags (lw_tbf w) ! bsn_n))"
    and "lw_llc w = [] \<or> bsn_is_next (lw_last_bsn w) bsn" "length (lw_llc w) + length d \<le> 65536"
  shows "process_frag ul bsn w = Inr (w\<lparr>lw_fn := frag_fn (frags (lw_tbf w) ! bsn_n), lw_llc := lw_llc w @ d,
           lw_last_bsn := bsn\<rparr>)"
proof -
  let ?f = "frags (lw_tbf w) ! unat bsn"
  have f: "whole_frag ?f d" using assms(1,3) by simp
  then have "frag_len ?f \<noteq> 0" by (auto simp: whole_frag_def)
  moreover have "rdn (frag_data ?f) 0 (unat (frag_len ?f)) = Inr d"
    using f by (auto simp: whole_frag_def)
  ultimately show ?thesis
    using assms f by (auto simp: process_frag_def Let_def whole_frag_def llc_append_def)
qed

lemma final_frag_walk:
  assumes "unat bsn < length (frags (lw_tbf w))" "final_frag False (frags (lw_tbf w) ! unat bsn) d"
    and "\<not> too_old (lw_fn w) (frag_fn (frags (lw_tbf w) ! unat bsn))"
    and "lw_llc w = [] \<or> bsn_is_next (lw_last_bsn w) bsn" "length (lw_llc w) + length d \<le> 65536"
    and "\<not> lw_skip w"
  shows "\<exists>w'. process_frag ul bsn w = Inr w' \<and> lw_out w' = lw_out w @ [Net_send_llc (lw_llc w @ d) ul]
    \<and> start_bsn (lw_tbf w') = bsn \<and> last_bsn (lw_tbf w') = last_bsn (lw_tbf w)
    \<and> length (frags (lw_tbf w')) = length (frags (lw_tbf w))
    \<and> final_frag True (frags (lw_tbf w') ! unat bsn) d
    \<and> frag_fn (frags (lw_tbf w') ! unat bsn) = frag_fn (frags (lw_tbf w) ! unat bsn)"
proof -
  let ?f = "frags (lw_tbf w) ! unat bsn"
  note f = assms(2) [unfolded final_frag_def]
  have li: "unat (lime_li (frag_blocks ?f ! 0)) = length d"
    using f unat_of_nat_small [of "length d", where 'a = 8] by simp
  have "rdn (frag_data ?f) 0 (length d) = Inr d" using f by simp
  then show ?thesis
    using assms(1,3-6) f li
    by (auto simp: process_frag_def Let_def process_lime_def llc_append_def walk_frag_def final_frag_def)
qed

lemma final_frag_again:
  assumes "unat bsn < length (frags (lw_tbf w))" "final_frag True (frags (lw_tbf w) ! unat bsn) d"
    and "\<not> too_old (lw_fn w) (frag_fn (frags (lw_tbf w) ! unat bsn))" "lw_llc w = []"
  shows "\<exists>w'. process_frag ul bsn w = Inr w' \<and> lw_out w' = lw_out w"
  using assms by (auto simp: process_frag_def Let_def process_lime_def final_frag_def)

text \<open>The last block of a TBF: the frame is sent, and all fragments are given up.\<close>

lemma tbf_end_walk:
  assumes "unat bsn < length (frags (lw_tbf w))" "tbf_end_frag (frags (lw_tbf w) ! unat bsn) d"
    and "\<not> too_old (lw_fn w) (frag_fn (frags (lw_tbf w) ! unat bsn))"
    and "lw_llc w = [] \<or> bsn_is_next (lw_last_bsn w) bsn" "length (lw_llc w) + length d \<le> 65536"
  shows "\<exists>w'. process_frag ul bsn w = Inr w' \<and> lw_out w' = lw_out w @ [Net_send_llc (lw_llc w @ d) ul]
    \<and> start_bsn (lw_tbf w') = 0 \<and> last_bsn (lw_tbf w') = last_bsn (lw_tbf w)
    \<and> frags (lw_tbf w') = map (\<lambda>f. f\<lparr>frag_len := 0, n_blocks := 0\<rparr>) (frags (lw_tbf w))"
proof -
  let ?f = "frags (lw_tbf w) ! unat bsn"
  note f = assms(2) [unfolded tbf_end_frag_def whole_frag_def]
  then have "frag_len ?f \<noteq> 0" by auto
  moreover have "rdn (frag_data ?f) 0 (unat (frag_len ?f)) = Inr d" using f by auto
  ultimately show ?thesis
    using assms f by (auto simp: process_frag_def Let_def llc_append_def)
qed

lemma oldest_frag_none:
  assumes "length (frags t) = 128" "\<forall>f \<in> set (frags t). frag_len f = 0" "unat (start_bsn t) < 128"
  shows "process_blocks t ul = Inr (t, [])"
proof -
  have z: "frag_len (frags t ! k) = 0" if "k < 128" for k using assms(1,2) that by simp
  have "\<exists>r. rfold (\<lambda>k found. case found of Some bsn \<Rightarrow> Inr found
          | None \<Rightarrow> let bsn = bsn_add (start_bsn t) k in
              rbind (rd (frags t) (unat bsn)) (\<lambda>f. Inr (if frag_len f \<noteq> 0 then Some bsn else None))) ks None = Inr r \<and> r = None" for ks
    by (induction ks) (use assms(1) z in \<open>simp_all add: Let_def unat_bsn_add\<close>)
  then show ?thesis using assms(1,3) z by (simp add: process_blocks_def oldest_frag_def)
qed

text \<open>A TBF whose window holds the blocks of one frame; \<open>closing\<close> says what the last of them is.\<close>

definition frame_tbf :: "(gprs_frag \<Rightarrow> bool) \<Rightarrow> gprs_tbf \<Rightarrow> u8 \<Rightarrow> u8 list list \<Rightarrow> bool" where
  "frame_tbf closing t bsn ds \<longleftrightarrow> unat bsn < 128 \<and> length ds < 127 \<and> length (frags t) = 128
     \<and> start_bsn t = bsn \<and> last_bsn t = bsn_add bsn (length ds)
     \<and> (\<forall>i < length ds. whole_frag (frags t ! unat (bsn_add bsn i)) (ds ! i))
     \<and> closing (frags t ! unat (bsn_add bsn (length ds)))
     \<and> (\<forall>i < length ds. \<not> too_old (frag_fn (frags t ! unat (bsn_add bsn i)))
                                (frag_fn (frags t ! unat (bsn_add bsn (Suc i)))))"

lemma oldest_frag_start:
  assumes "unat (start_bsn t) < length (frags t)" "frag_len (frags t ! unat (start_bsn t)) \<noteq> 0"
  shows "oldest_frag t = Inr (Some (start_bsn t))"
  using assms by (simp add: oldest_frag_def)

lemma length_concat_53: "(\<And>x. x \<in> set xs \<Longrightarrow> length x \<le> 53) \<Longrightarrow> length (concat xs) \<le> 53 * length xs"
  by (induction xs) (auto intro: add_mono)

lemma too_old_refl [simp]: "\<not> too_old fn fn"
  by (simp add: too_old_def OLD_TIME_def)

lemma whole_frags_walk:
  assumes F: "frame_tbf closing t bsn ds"
    and w0: "w0 = \<lparr>lw_tbf = t, lw_llc = [], lw_last_bsn = 0, lw_fn = frag_fn (frags t ! unat bsn),
                   lw_skip = False, lw_out = []\<rparr>"
  shows "\<exists>w. rfold (\<lambda>i. process_frag ul (bsn_add bsn i)) [0..<length ds] w0 = Inr w
    \<and> lw_tbf w = t \<and> lw_llc w = concat ds \<and> \<not> lw_skip w \<and> lw_out w = []
    \<and> (lw_llc w = [] \<or> bsn_is_next (lw_last_bsn w) (bsn_add bsn (length ds)))
    \<and> \<not> too_old (lw_fn w) (frag_fn (frags t ! unat (bsn_add bsn (length ds))))"
proof -
  let ?fn = "\<lambda>i. frag_fn (frags t ! unat (bsn_add bsn i))"
  let ?P = "\<lambda>i (w :: llc_walk). lw_tbf w = t \<and> lw_llc w = concat (take i ds) \<and> \<not> lw_skip w \<and> lw_out w = []
    \<and> (i = 0 \<or> lw_last_bsn w = bsn_add bsn (i - 1)) \<and> lw_fn w = ?fn (i - 1)"
  have b: "unat bsn < 128" "length ds < 127" "length (frags t) = 128" using F by (auto simp: frame_tbf_def)
  have len: "length (concat (take i ds)) \<le> 53 * i" if "i \<le> length ds" for i
  proof -
    have "length x \<le> 53" if "x \<in> set (take i ds)" for x
      using that F by (auto simp: frame_tbf_def whole_frag_def in_set_conv_nth)
    with length_concat_53 [of "take i ds"] that show ?thesis by simp
  qed
  have old: "\<not> too_old (?fn (i - 1)) (?fn i)" if "i \<le> length ds" for i
    using that F by (cases i) (auto simp: frame_tbf_def)
  have nxt: "concat (take i ds) = [] \<or> bsn_is_next (bsn_add bsn (i - 1)) (bsn_add bsn i)" for i
    by (cases i) (auto simp: bsn_is_next_add)
  have "\<exists>w. rfold (\<lambda>i. process_frag ul (bsn_add bsn i)) [0..<length ds] w0 = Inr w \<and> ?P (length ds) w"
  proof (rule rfold_upt_rule [where P = ?P])
    show "?P 0 w0" using b by (simp add: w0 bsn_add_0)
    fix i and w :: llc_walk assume i: "i < length ds" and P: "?P i w"
    have wh: "whole_frag (frags (lw_tbf w) ! unat (bsn_add bsn i)) (ds ! i)" using F i P by (simp add: frame_tbf_def)
    have sz: "length (ds ! i) \<le> 53" using wh by (simp add: whole_frag_def)
    have "process_frag ul (bsn_add bsn i) w = Inr (w\<lparr>lw_fn := ?fn i, lw_llc := lw_llc w @ ds ! i,
             lw_last_bsn := bsn_add bsn i\<rparr>)"
      using whole_frag_walk [OF refl _ wh, of ul] P b old [of i] nxt [of i] i sz len [of i]
      by (auto simp: unat_bsn_add)
    with P i show "\<exists>s'. process_frag ul (bsn_add bsn i) w = Inr s' \<and> ?P (Suc i) s'"
      by (simp add: take_Suc_conv_app_nth)
  qed
  with old [of "length ds"] nxt [of "length ds"] show ?thesis by force
qed

section \<open>Properties\<close>

lemma tbf_end_start:
  assumes "t' = (let t = u in if c_rem (int (unat (last_bsn t)) - int (unat (start_bsn t))) 128 > 64
      then t\<lparr>start_bsn := of_int (c_rem (int (unat (last_bsn t)) - 64) 128)\<rparr> else t)"
    and "start_bsn u = 0" "last_bsn u = l" "unat l < 128"
  shows "unat (start_bsn t') < 128"
proof -
  have small: "c_rem (int n) 128 = int n" if "n < 128" for n using that by (simp add: c_rem_def)
  note c = small [OF assms(4)]
  show ?thesis
  proof (cases "unat l > 64")
    case True
    then have "c_rem (int (unat l) - 64) 128 = int (unat l - 64)" using small [of "unat l - 64"] assms(4) by (simp add: of_nat_diff)
    moreover have "unat (of_nat (unat l - 64) :: u8) < 128" using assms(4) by (simp add: unat_of_nat)
    ultimately show ?thesis using assms(1-3) c True by (simp add: Let_def)
  next
    case False
    then have "\<not> 64 < uint l" unfolding uint_nat by linarith
    then show ?thesis using assms(1-3) c by (simp add: Let_def)
  qed
qed

lemma whole_frags_length:
  assumes "frame_tbf closing t bsn ds"
  shows "length (concat ds) \<le> 53 * length ds"
  by (rule length_concat_53) (use assms in \<open>auto simp: frame_tbf_def whole_frag_def in_set_conv_nth\<close>)

text \<open>The walk up to the last block of the frame.\<close>

lemma frame_walk:
  assumes "frame_tbf closing t bsn ds" and closing: "\<And>f. closing f \<Longrightarrow> frag_len f \<noteq> 0"
    and step: "\<And>w. lw_tbf w = t \<Longrightarrow> lw_llc w = concat ds \<Longrightarrow> \<not> lw_skip w \<Longrightarrow> lw_out w = [] \<Longrightarrow>
      lw_llc w = [] \<or> bsn_is_next (lw_last_bsn w) (bsn_add bsn (length ds)) \<Longrightarrow>
      \<not> too_old (lw_fn w) (frag_fn (frags t ! unat (bsn_add bsn (length ds)))) \<Longrightarrow>
      \<exists>w'. process_frag ul (bsn_add bsn (length ds)) w = Inr w' \<and> Q w'"
  shows "\<exists>w'. Q w' \<and> process_blocks t ul = Inr (let t = lw_tbf w' in
    if c_rem (int (unat (last_bsn t)) - int (unat (start_bsn t))) 128 > 64
    then t\<lparr>start_bsn := of_int (c_rem (int (unat (last_bsn t)) - 64) 128)\<rparr> else t, lw_out w')"
proof -
  note F = assms(1) [unfolded frame_tbf_def]
  let ?k = "length ds" and ?l = "bsn_add bsn (length ds)"
  let ?w0 = "\<lparr>lw_tbf = t, lw_llc = [], lw_last_bsn = 0, lw_fn = frag_fn (frags t ! unat bsn),
              lw_skip = False, lw_out = []\<rparr>"
  from whole_frags_walk [OF assms(1) refl, of ul] obtain w where
    w: "rfold (\<lambda>i. process_frag ul (bsn_add bsn i)) [0..<?k] ?w0 = Inr w" "lw_tbf w = t"
      "lw_llc w = concat ds" "\<not> lw_skip w" "lw_out w = []"
      "lw_llc w = [] \<or> bsn_is_next (lw_last_bsn w) ?l" "\<not> too_old (lw_fn w) (frag_fn (frags t ! unat ?l))"
    by blast
  from step [OF w(2-7)] obtain w' where w': "process_frag ul ?l w = Inr w'" "Q w'" by blast
  have head: "frag_len (frags t ! unat bsn) \<noteq> 0"
    using F closing by (cases ds) (auto simp: whole_frag_def bsn_add_0 dest: spec [of _ 0])
  have t: "t\<lparr>start_bsn := bsn\<rparr> = t" using F by (cases t) simp
  show ?thesis
    using F head oldest_frag_start [of t] window_add [of bsn ?k] w(1) w'
    by (intro exI [of _ w']) (simp add: process_blocks_def t rfold_map rfold_append Let_def)
qed

lemma frame_by_indicator:
  assumes A: "frame_tbf (\<lambda>f. final_frag False f d) t bsn ds"
  shows "\<exists>t' t''. process_blocks t ul = Inr (t', [Net_send_llc (concat ds @ d) ul])
    \<and> start_bsn t' = bsn_add bsn (length ds) \<and> process_blocks t' ul = Inr (t'', [])"
proof -
  note F = A [unfolded frame_tbf_def]
  let ?l = "bsn_add bsn (length ds)"
  let ?Q = "\<lambda>w' :: llc_walk. lw_out w' = [Net_send_llc (concat ds @ d) ul] \<and> start_bsn (lw_tbf w') = ?l \<and> last_bsn (lw_tbf w') = ?l
    \<and> length (frags (lw_tbf w')) = 128 \<and> final_frag True (frags (lw_tbf w') ! unat ?l) d"
  have lt: "unat ?l < 128" by (simp add: unat_bsn_add)
  have sz: "length (concat ds) + length d \<le> 65536" using whole_frags_length [OF A] F by (simp add: final_frag_def)
  have "\<exists>w' :: llc_walk. ?Q w' \<and> process_blocks t ul = Inr (let t = lw_tbf w' in
    if c_rem (int (unat (last_bsn t)) - int (unat (start_bsn t))) 128 > 64
    then t\<lparr>start_bsn := of_int (c_rem (int (unat (last_bsn t)) - 64) 128)\<rparr> else t, lw_out w')"
  proof (rule frame_walk [OF A])
    show "\<exists>w'. process_frag ul ?l w = Inr w' \<and> ?Q w'"
      if "lw_tbf w = t" "lw_llc w = concat ds" "\<not> lw_skip w" "lw_out w = []" "lw_llc w = [] \<or> bsn_is_next (lw_last_bsn w) ?l"
        "\<not> too_old (lw_fn w) (frag_fn (frags t ! unat ?l))" for w
      using final_frag_walk [of ?l w d ul] F that lt sz by auto
  qed (simp add: final_frag_def)
  then obtain w' :: llc_walk where w': "?Q w'" "process_blocks t ul = Inr (lw_tbf w', lw_out w')" by (auto simp: Let_def c_rem_def)
  let ?t = "lw_tbf w'"
  let ?v = "\<lparr>lw_tbf = ?t, lw_llc = [], lw_last_bsn = 0, lw_fn = frag_fn (frags ?t ! unat ?l), lw_skip = False, lw_out = []\<rparr>"
  have t': "?t\<lparr>start_bsn := ?l\<rparr> = ?t" using w'(1) by (cases ?t) simp
  have "frag_len (frags ?t ! unat ?l) \<noteq> 0" using w'(1) by (simp add: final_frag_def)
  then have "oldest_frag ?t = Inr (Some ?l)" using oldest_frag_start [of ?t] w'(1) lt by simp
  moreover have "window ?l ?l = [?l]" using window_add [OF lt, of 0] lt by (simp add: bsn_add_0)
  moreover from final_frag_again [of ?l ?v d ul] w'(1) lt obtain v where "process_frag ul ?l ?v = Inr v" "lw_out v = []" by auto
  ultimately have "\<exists>t''. process_blocks ?t ul = Inr (t'', [])" using w'(1) by (simp add: process_blocks_def t' Let_def)
  with w' show ?thesis by auto
qed

lemma frame_by_tbf_end:
  assumes A: "frame_tbf (\<lambda>f. tbf_end_frag f d) t bsn ds"
  shows "\<exists>t'. process_blocks t ul = Inr (t', [Net_send_llc (concat ds @ d) ul])
    \<and> (\<forall>f \<in> set (frags t'). frag_len f = 0 \<and> n_blocks f = 0) \<and> process_blocks t' ul = Inr (t', [])"
proof -
  note F = A [unfolded frame_tbf_def]
  let ?l = "bsn_add bsn (length ds)"
  let ?Q = "\<lambda>w' :: llc_walk. lw_out w' = [Net_send_llc (concat ds @ d) ul] \<and> start_bsn (lw_tbf w') = 0 \<and> last_bsn (lw_tbf w') = ?l
    \<and> frags (lw_tbf w') = map (\<lambda>f. f\<lparr>frag_len := 0, n_blocks := 0\<rparr>) (frags t)"
  let ?fin = "\<lambda>u. let t = u in if c_rem (int (unat (last_bsn t)) - int (unat (start_bsn t))) 128 > 64
    then t\<lparr>start_bsn := of_int (c_rem (int (unat (last_bsn t)) - 64) 128)\<rparr> else t"
  have lt: "unat ?l < 128" by (simp add: unat_bsn_add)
  have sz: "length (concat ds) + length d \<le> 65536" using whole_frags_length [OF A] F by (simp add: tbf_end_frag_def whole_frag_def)
  have "\<exists>w' :: llc_walk. ?Q w' \<and> process_blocks t ul = Inr (?fin (lw_tbf w'), lw_out w')"
  proof (rule frame_walk [OF A])
    show "\<exists>w'. process_frag ul ?l w = Inr w' \<and> ?Q w'"
      if "lw_tbf w = t" "lw_llc w = concat ds" "\<not> lw_skip w" "lw_out w = []" "lw_llc w = [] \<or> bsn_is_next (lw_last_bsn w) ?l"
        "\<not> too_old (lw_fn w) (frag_fn (frags t ! unat ?l))" for w
      using tbf_end_walk [of ?l w d ul] F that lt sz by auto
  qed (auto simp: tbf_end_frag_def whole_frag_def)
  then obtain w' :: llc_walk where w': "?Q w'" "process_blocks t ul = Inr (?fin (lw_tbf w'), lw_out w')" by blast
  have "frags (?fin (lw_tbf w')) = map (\<lambda>f. f\<lparr>frag_len := 0, n_blocks := 0\<rparr>) (frags t)" using w'(1) by (simp add: Let_def)
  then have z: "length (frags (?fin (lw_tbf w'))) = 128" "\<forall>f \<in> set (frags (?fin (lw_tbf w'))). frag_len f = 0 \<and> n_blocks f = 0"
    using F by (simp_all only: length_map) auto
  have "unat (start_bsn (?fin (lw_tbf w'))) < 128" by (rule tbf_end_start [OF refl _ _ lt]) (use w'(1) in simp_all)
  with z have "process_blocks (?fin (lw_tbf w')) ul = Inr (?fin (lw_tbf w'), [])" by (intro oldest_frag_none) blast+
  moreover have "process_blocks t ul = Inr (?fin (lw_tbf w'), [Net_send_llc (concat ds @ d) ul])" using w' by metis
  ultimately show ?thesis using z(2) by blast
qed

text \<open>
  C34. Reassembly.  Let the window of a TBF hold the consecutive blocks of one frame, received close
  enough in time: blocks without length indicators that are not the last of the TBF, and then one that
  ends the frame.  If that has a single length indicator \<open>li\<close> (with E = 1 and M = 0), \<open>process_blocks\<close> sends
  exactly one frame, the data of the blocks followed by the first \<open>li\<close> octets of the last one, and moves the start of the
  window to the last block.  If it is the last block of the TBF, without length indicators, the frame ends with all
  of its data, and all fragments of the TBF are given up.  In both cases processing the TBF again sends nothing.
\<close>

theorem llc_reassembly:
  "(frame_tbf (\<lambda>f. final_frag False f d) t bsn ds \<longrightarrow>
     (\<exists>t' t''. process_blocks t ul = Inr (t', [Net_send_llc (concat ds @ d) ul])
       \<and> start_bsn t' = bsn_add bsn (length ds) \<and> process_blocks t' ul = Inr (t'', [])))
   \<and> (frame_tbf (\<lambda>f. tbf_end_frag f d) t bsn ds \<longrightarrow>
     (\<exists>t'. process_blocks t ul = Inr (t', [Net_send_llc (concat ds @ d) ul])
       \<and> (\<forall>f \<in> set (frags t'). frag_len f = 0 \<and> n_blocks f = 0) \<and> process_blocks t' ul = Inr (t', [])))"
  using frame_by_indicator frame_by_tbf_end by blast

theorem llc_reassembly_witness:
  "\<exists>t t' t'' u u'. process_blocks t False = Inr (t', [Net_send_llc [1, 2, 3] False])
    \<and> start_bsn t' = 6 \<and> process_blocks t' False = Inr (t'', [])
    \<and> process_blocks u False = Inr (u', [Net_send_llc [1, 2, 3, 4] False]) \<and> process_blocks u' False = Inr (u', [])"
proof -
  let ?f5 = "zero_frag\<lparr>frag_fn := 100, frag_len := 2, frag_data := [1, 2] @ replicate 51 0\<rparr>"
  let ?f6 = "zero_frag\<lparr>frag_fn := 104, frag_len := 20, frag_data := 3 # replicate 52 0x2b, n_blocks := 1,
     frag_blocks := \<lparr>lime_li = 1, lime_m = False, lime_e = True, lime_used = False\<rparr> # replicate 19
        \<lparr>lime_li = 0, lime_m = False, lime_e = False, lime_used = False\<rparr>\<rparr>"
  let ?g6 = "zero_frag\<lparr>frag_fn := 104, frag_len := 2, frag_data := [3, 4] @ replicate 51 0, frag_last := True\<rparr>"
  let ?t = "\<lambda>f6. \<lparr>last_bsn = 6, start_bsn = 5, frags = (replicate 128 zero_frag)[5 := ?f5, 6 := f6]\<rparr>"
  have b: "bsn_add 5 0 = 5" "bsn_add 5 (Suc 0) = 6" by (simp_all add: bsn_add_def)
  have "\<not> too_old 100 104" by code_simp
  then have "frame_tbf (\<lambda>f. final_frag False f [3]) (?t ?f6) 5 [[1, 2]]" "frame_tbf (\<lambda>f. tbf_end_frag f [3, 4]) (?t ?g6) 5 [[1, 2]]"
    by (simp_all add: frame_tbf_def b whole_frag_def final_frag_def tbf_end_frag_def zero_frag_def nth_list_update)
  with llc_reassembly [of "[3]" "?t ?f6" 5 "[[1, 2]]" False] llc_reassembly [of "[3, 4]" "?t ?g6" 5 "[[1, 2]]" False] b show ?thesis by auto
qed

lemma scan_lime_full:
  assumes "length (frag_blocks f) = 20" "unat (n_blocks f) = j" "j \<le> 20" "off + 21 < length msg + j"
    and "\<forall>i < 21 - j. msg ! (off + i) AND 0x01 = 0"
  shows "scan_lime msg off f = Inl OutOfBounds"
  using assms
proof (induction "20 - j" arbitrary: j off f)
  case 0
  then show ?case by (subst scan_lime.simps) (auto simp: rd_def)
next
  case (Suc k)
  let ?x = "msg ! Suc off"
  let ?f = "f\<lparr>frag_blocks := (frag_blocks f)[unat (n_blocks f) :=
       \<lparr>lime_li = drop_bit 2 (?x AND 0xfc), lime_m = nz (?x AND 0x02), lime_e = nz (?x AND 0x01),
        lime_used = False\<rparr>], n_blocks := n_blocks f + 1\<rparr>"
  from Suc.hyps(2) have j: "j < 20" by simp
  have "unat (n_blocks f + 1) = Suc j" using Suc.prems(2) j by (simp add: unat_word_ariths)
  moreover have "\<forall>i < 21 - Suc j. msg ! (Suc off + i) AND 0x01 = 0"
  proof (intro allI impI)
    fix i assume "i < 21 - Suc j"
    with j have "Suc i < 21 - j" by simp
    from Suc.prems(5) [rule_format, OF this] show "msg ! (Suc off + i) AND 0x01 = 0" by simp
  qed
  ultimately have "scan_lime msg (Suc off) ?f = Inl OutOfBounds"
    using Suc.hyps(2) Suc.prems j by (intro Suc.hyps(1) [of "Suc j"]) simp_all
  moreover have "msg ! off AND 0x01 = 0" using Suc.prems(5) j by (auto dest: spec [of _ 0])
  moreover have "scan_lime msg off f =
      (if nz (msg ! off AND 0x01) then Inr (f, Suc off) else scan_lime msg (Suc off) ?f)"
    using Suc.prems(1,2,4) j by (subst scan_lime.simps) simp
  ultimately show ?case by simp
qed

text \<open>
  C35. A received block can overrun the table of length indicators: \<open>rlc_data_handler\<close> scans
  indicators until one has its extension bit set, but a fragment has room for 20.  Any message
  whose 21 bytes from byte 2 on have an even value ends in an out-of-bounds write.
\<close>

theorem length_indicator_overrun:
  assumes "unat bsn < length (frags t)" "length (frag_blocks (frags t ! unat bsn)) = 20"
    and "length (rm_msg m) = 256" and "\<forall>i < 21. rm_msg m ! (2 + i) AND 0x01 = 0"
  shows "rlc_store m ul is_last fn bsn t = Inl OutOfBounds"
proof -
  have "scan_lime (rm_msg m) 2 ((frags t ! unat bsn)\<lparr>n_blocks := 0\<rparr>) = Inl OutOfBounds"
    by (rule scan_lime_full [of _ 0]) (use assms in simp_all)
  with assms(1) show ?thesis by (simp add: rlc_store_def)
qed

theorem length_indicator_overrun_witness:
  "rlc_store (zero_radio_message\<lparr>rm_msg_len := 33\<rparr>) False False 1000 5 zero_tbf = Inl OutOfBounds"
  by (rule length_indicator_overrun) (simp_all add: zero_tbf_def zero_frag_def zero_radio_message_def)

end
