(* ===== verification/Gprs.thy ===== *)
theory Gprs
  imports Cch Rlcmac
begin

text \<open>
  Decoding of packet data blocks (\<open>gsm-parser/gprs.c\<close>): the coding scheme and the uplink state flag
  are estimated as the nearest code word, the block is depunctured, decoded and checked, and the
  result is handed to the RLC/MAC layer.

  The state a call works on is the array \<open>gprs\<close> of burst buffers of the session and the TBF
  table.  \<open>gprs_init\<close> also clears a TBF table, but \<open>rlcmac.h\<close> declares the table \<open>static\<close>, so it is
  a copy of its own that nothing else uses.
\<close>

section \<open>Definitions\<close>

definition gprs_init :: "(nat list \<times> nat list) res" where
  "gprs_init = rbind (fill_punct_cs2 (replicate 456 0)) (\<lambda>map_cs2.
               rbind (fill_punct_cs3 (replicate 456 0)) (\<lambda>map_cs3. Inr (map_cs2, map_cs3)))"

definition distance :: "u8 list \<Rightarrow> u8 list \<Rightarrow> nat \<Rightarrow> nat res" where
  "distance a b sz =
     rfold (\<lambda>i dist. rbind (rd a i) (\<lambda>x. rbind (rd b i) (\<lambda>y.
              Inr (dist + (if nz (x XOR y) then 1 else 0))))) [0..<sz] 0"

definition cs_pattern :: "u8 list list" where
  "cs_pattern = [[1, 1, 1, 1, 1, 1, 1, 1],
                 [1, 1, 0, 0, 1, 0, 0, 0],
                 [0, 0, 1, 0, 0, 0, 0, 1],
                 [0, 0, 0, 1, 0, 1, 1, 0]]"

definition usf6_pattern :: "u8 list list" where
  "usf6_pattern = [[0, 0, 0, 0, 0, 0], [0, 0, 1, 0, 1, 1], [0, 1, 0, 1, 1, 0], [0, 1, 1, 1, 0, 1],
                   [1, 0, 0, 1, 0, 1], [1, 0, 1, 1, 1, 0], [1, 1, 0, 0, 1, 1], [1, 1, 1, 0, 0, 0]]"

definition usf12_pattern :: "u8 list list" where
  "usf12_pattern = [[0, 0, 0, 0, 0, 0, 0, 0, 0, 0, 0, 0],
                    [0, 0, 0, 0, 1, 1, 0, 1, 1, 1, 0, 1],
                    [0, 0, 1, 1, 0, 1, 1, 1, 0, 1, 1, 0],
                    [0, 0, 1, 1, 1, 0, 1, 0, 1, 0, 1, 1],
                    [1, 1, 0, 1, 0, 0, 0, 0, 1, 0, 1, 1],
                    [1, 1, 0, 1, 1, 1, 0, 1, 0, 1, 1, 0],
                    [1, 1, 1, 0, 0, 1, 1, 1, 1, 1, 0, 1],
                    [1, 1, 1, 0, 1, 0, 1, 0, 0, 0, 0, 0]]"

text \<open>The array of distances to the patterns.\<close>

definition pattern_dists :: "u8 list \<Rightarrow> u8 list list \<Rightarrow> nat \<Rightarrow> nat list res" where
  "pattern_dists data pats sz =
     rfold (\<lambda>p dists. rbind (distance data p sz) (\<lambda>d. Inr (dists @ [d]))) pats []"

definition cs_estimate :: "u8 list \<Rightarrow> nat res" where
  "cs_estimate sflags =
     rbind (pattern_dists sflags cs_pattern 8) (\<lambda>cs_dist.
     let i = (if cs_dist ! 0 < cs_dist ! 1 then 0 else 1);
         i = (if cs_dist ! 2 < cs_dist ! i then 2 else i);
         i = (if cs_dist ! 3 < cs_dist ! i then 3 else i)
     in Inr i)"

definition usf_min :: "nat list \<Rightarrow> nat" where
  "usf_min usf_dist = fold (\<lambda>i m. if usf_dist ! i < usf_dist ! m then i else m) [1..<8] 0"

definition usf6_estimate :: "u8 list \<Rightarrow> nat res" where
  "usf6_estimate data = rbind (pattern_dists data usf6_pattern 6) (\<lambda>usf_dist. Inr (usf_min usf_dist))"

definition usf12_estimate :: "u8 list \<Rightarrow> nat res" where
  "usf12_estimate data = rbind (pattern_dists data usf12_pattern 12) (\<lambda>usf_dist. Inr (usf_min usf_dist))"

definition ccitt_poly :: "u8 list" where
  "ccitt_poly = [1, 0, 0, 0, 1, 0, 0, 0, 0, 0, 0, 1, 0, 0, 0, 0, 1]"

definition ccitt_rem :: "u8 list" where
  "ccitt_rem = [1, 1, 1, 1, 1, 1, 1, 1, 1, 1, 1, 1, 1, 1, 1, 1]"

text \<open>Replacing the coded USF by its three bits, from the cell \<open>k\<close> on.\<close>

definition put_usf :: "nat \<Rightarrow> nat \<Rightarrow> u8 list \<Rightarrow> u8 list res" where
  "put_usf k usf data =
     rbind (wr data k (of_bool (bit usf 2))) (\<lambda>data.
     rbind (wr data (k + 1) (of_bool (bit usf 1))) (\<lambda>data.
     wr data (k + 2) (of_bool (bit usf 0))))"

text \<open>The check of a block from bit \<open>k\<close> on and its packing into bytes.\<close>

definition pdch_finish :: "nat \<Rightarrow> nat \<Rightarrow> nat \<Rightarrow> u8 list \<Rightarrow> u8 list \<Rightarrow> (nat \<times> u8 list) res" where
  "pdch_finish k dsize n data gprs_msg =
     rbind (parity_check (drop k data) dsize ccitt_poly ccitt_rem 16) (\<lambda>ret.
     if \<not> ret then rbind (compress_lsb (drop k data) gprs_msg (n * 8)) (\<lambda>gprs_msg. Inr (n, gprs_msg))
     else Inr (0, gprs_msg))"

definition pdch_punctured ::
  "call_stack \<Rightarrow> nat \<Rightarrow> nat \<Rightarrow> nat \<Rightarrow> nat list \<Rightarrow> u8 list \<Rightarrow> u8 list \<Rightarrow> (nat \<times> u8 list) res" where
  "pdch_punctured st n dsize bytes pattern conv_data gprs_msg =
     rbind (depunct conv_data (replicate 912 0) (n * 2) pattern) (\<lambda>depunct_data.
     rbind (conv_cch_decode (st_history st) depunct_data (replicate 912 0) n) (\<lambda>decoded_data.
     rbind (usf6_estimate decoded_data) (\<lambda>usf.
     rbind (put_usf 3 usf decoded_data) (\<lambda>decoded_data.
     pdch_finish 3 dsize bytes decoded_data gprs_msg))))"

definition pdch_decode ::
  "call_stack \<Rightarrow> nat list \<Rightarrow> nat list \<Rightarrow> nat \<Rightarrow> u8 list \<Rightarrow> u8 list \<Rightarrow> (nat \<times> u8 list) res" where
  "pdch_decode st map_cs2 map_cs3 cs conv_data gprs_msg =
     (if cs = 0 then decode_signalling st conv_data gprs_msg
      else if cs = 1 then pdch_punctured st 294 271 33 map_cs2 conv_data gprs_msg
      else if cs = 2 then pdch_punctured st 338 315 39 map_cs3 conv_data gprs_msg
      else rbind (usf12_estimate conv_data) (\<lambda>usf.
           rbind (put_usf 9 usf conv_data) (\<lambda>conv_data.
           pdch_finish 9 431 53 conv_data gprs_msg)))"

text \<open>
  Storing a burst: 114 bits of payload, the stealing flags and the reception parameters.
\<close>

definition pdch_enqueue :: "l1ctl_burst_ind \<Rightarrow> burst_buf \<Rightarrow> burst_buf res" where
  "pdch_enqueue bi bb =
     (let c = unat (bb_count bb) in
      rbind (expand_msb (bi_bits bi) (drop (c * 114) (bb_data bb)) 114) (\<lambda>d.
      rbind (rd (bi_bits bi) 14) (\<lambda>b14.
      rbind (wr (bb_sbit bb) (c * 2 + 0) (if nz (b14 AND 0x10) then 1 else 0)) (\<lambda>sbit.
      rbind (wr sbit (c * 2 + 1) (if nz (b14 AND 0x20) then 1 else 0)) (\<lambda>sbit.
      rbind (wr (bb_snr bb) c (ucast (bi_snr bi))) (\<lambda>snr.
      rbind (wr (bb_rxl bb) c (ucast (rx_level bi))) (\<lambda>rxl.
      rbind (wr (bb_arfcn bb) c (band_arfcn bi)) (\<lambda>arfcn.
      rbind (wr (bb_fn bb) c (frame_nr bi)) (\<lambda>fn.
      Inr (bb\<lparr>bb_data := take (c * 114) (bb_data bb) @ d, bb_sbit := sbit, bb_snr := snr, bb_rxl := rxl,
             bb_arfcn := arfcn, bb_fn := fn, bb_count := bb_count bb + 1\<rparr>))))))))))"

text \<open>
  \<open>process_pdch\<close>; \<open>m0\<close> is the uninitialised message on the stack that the decoded block is
  copied into.
\<close>

record pdch_state =
  ps_gprs :: "burst_buf list"
  ps_tbfs :: tbf_table

definition process_pdch ::
  "call_stack \<Rightarrow> interleave_maps \<Rightarrow> nat list \<Rightarrow> nat list \<Rightarrow> radio_message \<Rightarrow> l1ctl_burst_ind \<Rightarrow> u8 list \<Rightarrow> pdch_state
   \<Rightarrow> (nat \<times> u8 list \<times> pdch_state \<times> gprs_event list) res" where
  "process_pdch stack maps map_cs2 map_cs3 m0 bi gprs_msg st =
     (let ul = nz (band_arfcn bi AND ARFCN_UPLINK);
          ts = bi_chan_nr bi AND 7;
          qi = (if ul then 2 * unat ts + 0 else 2 * unat ts + 1)
      in rbind (rd (ps_gprs st) qi) (\<lambda>bb.
         if (frame_nr bi mod 13) mod 4 \<noteq> bb_count bb then Inr (0, gprs_msg, st, [])
         else rbind (pdch_enqueue bi bb) (\<lambda>bb.
         if bb_count bb < 4 then Inr (0, gprs_msg, st\<lparr>ps_gprs := (ps_gprs st)[qi := bb]\<rparr>, [])
         else rbind (gsm_deinter_sacch maps (bb_data bb) (replicate 456 0)) (\<lambda>conv_data.
         rbind (cs_estimate (bb_sbit bb)) (\<lambda>cs.
         rbind (pdch_decode stack map_cs2 map_cs3 cs conv_data gprs_msg) (\<lambda>(len, gprs_msg).
         rbind (if len \<noteq> 0
                then rbind (rdn gprs_msg 0 len) (\<lambda>d. rbind (wrn (rm_msg m0) 0 d) (\<lambda>msg.
                     rlc_type_handler (m0\<lparr>rm_bb := bb, rm_rat := RAT_GSM, rm_domain := DOMAIN_PS, rm_chan_nr := ts,
                                          rm_msg_len := of_nat len, rm_msg := msg\<rparr>) (ps_tbfs st)))
                else Inr (ps_tbfs st, [])) (\<lambda>(tbfs, out).
         let bb = bb\<lparr>bb_data := replicate 912 0, bb_count := 0\<rparr> in
         Inr (len, gprs_msg, st\<lparr>ps_gprs := (ps_gprs st)[qi := bb], ps_tbfs := tbfs\<rparr>, out))))))))"

section \<open>Nearest code words\<close>

text \<open>The number of places in which two blocks differ.\<close>

definition ham :: "u8 list \<Rightarrow> u8 list \<Rightarrow> nat" where
  "ham a b = length (filter (\<lambda>(x, y). x \<noteq> y) (zip a b))"

lemma ham_Cons: "ham (x # a) (y # b) = (if x = y then 0 else 1) + ham a b"
  by (simp add: ham_def)

lemma ham_triangle: "length a = length b \<Longrightarrow> length b = length c \<Longrightarrow> ham a c \<le> ham a b + ham b c"
proof (induction a arbitrary: b c)
  case (Cons x a)
  then obtain y b' z c' where "b = y # b'" "c = z # c'" by (metis length_Suc_conv)
  with Cons show ?case by (force simp: ham_Cons)
qed (simp add: ham_def)

lemma ham_commute: "length a = length b \<Longrightarrow> ham a b = ham b a"
  by (induction a b rule: list_induct2) (auto simp: ham_Cons ham_def)

lemma xor_eq_0 [simp]: "(a XOR b = 0) = (a = (b :: 'a::len word))"
  by (metis xor.assoc xor.left_neutral xor.right_neutral xor_self_eq)

lemma distance_ham:
  assumes "sz \<le> length a" "length b = sz"
  shows "distance a b sz = Inr (ham (take sz a) b)"
proof -
  let ?f = "\<lambda>i dist. rbind (rd a i) (\<lambda>x. rbind (rd b i) (\<lambda>y.
              Inr (dist + (if nz (x XOR y) then 1 else 0 :: nat))))"
  have "\<exists>d. rfold ?f [0..<sz] 0 = Inr d \<and> d = ham (take sz a) (take sz b)"
  proof (rule rfold_upt_rule [where P = "\<lambda>i d. d = ham (take i a) (take i b)"])
    fix i d assume i: "i < sz" and d: "d = ham (take i a) (take i b)"
    have "ham (take (Suc i) a) (take (Suc i) b) = ham (take i a) (take i b) + (if a ! i = b ! i then 0 else 1)"
      using i assms by (simp add: ham_def take_Suc_conv_app_nth)
    with i d assms show "\<exists>s'. ?f i d = Inr s' \<and> s' = ham (take (Suc i) a) (take (Suc i) b)" by simp
  qed (simp add: ham_def)
  with assms show ?thesis by (simp add: distance_def)
qed

lemma pattern_dists_ham:
  assumes "sz \<le> length data" "\<And>p. p \<in> set pats \<Longrightarrow> length p = sz"
  shows "pattern_dists data pats sz = Inr (map (ham (take sz data)) pats)"
proof -
  let ?f = "\<lambda>p dists. rbind (distance data p sz) (\<lambda>d. Inr (dists @ [d]))"
  have "rfold ?f ps acc = Inr (acc @ map (ham (take sz data)) ps)" if "set ps \<subseteq> set pats" for ps acc
    using that by (induction ps arbitrary: acc) (auto simp: distance_ham assms)
  from this [of pats "[]"] show ?thesis by (simp add: pattern_dists_def)
qed

lemma usf_min_unique:
  assumes "k < 8" "\<And>j. j < 8 \<Longrightarrow> j \<noteq> k \<Longrightarrow> ds ! k < ds ! j"
  shows "usf_min ds = k"
proof -
  let ?f = "\<lambda>i m. if ds ! i < ds ! m then i else m"
  have "\<exists>m < i. fold ?f [1..<i] 0 = m \<and> (k < i \<longrightarrow> m = k)" if "0 < i" "i \<le> 8" for i
    using that
  proof (induction i)
    case (Suc i)
    show ?case
    proof (cases "i = 0")
      case False
      with Suc obtain m where m: "m < i" "fold ?f [1..<i] 0 = m" "k < i \<longrightarrow> m = k" by force
      have "fold ?f [1..<Suc i] 0 = ?f i m" using False m(2) by simp
      moreover have "k < Suc i \<longrightarrow> ?f i m = k"
        using assms(2) [of i] assms(2) [of m] m Suc.prems by (auto simp: less_Suc_eq)
      ultimately show ?thesis using m(1) by auto
    qed simp
  qed simp
  from this [of 8] assms(1) show ?thesis by (auto simp: usf_min_def)
qed

text \<open>
  A code of words of length \<open>sz\<close> that differ pairwise in more than \<open>2 t\<close> places: around each of them,
  up to \<open>t\<close> places away, every other word of the code is farther.
\<close>

locale block_code =
  fixes pats :: "u8 list list" and sz t :: nat
  assumes length_word: "p \<in> set pats \<Longrightarrow> length p = sz"
    and distinct_words: "distinct pats"
    and separated: "p \<in> set pats \<Longrightarrow> q \<in> set pats \<Longrightarrow> p \<noteq> q \<Longrightarrow> 2 * t < ham p q"
begin

lemma dists: "sz \<le> length data \<Longrightarrow> pattern_dists data pats sz = Inr (map (ham (take sz data)) pats)"
  using length_word by (intro pattern_dists_ham)

lemma nearest:
  assumes "length a = sz" "k < length pats" "ham a (pats ! k) \<le> t" "j < length pats" "j \<noteq> k"
  shows "map (ham a) pats ! k < map (ham a) pats ! j"
proof -
  have neq: "pats ! k \<noteq> pats ! j" using assms distinct_words by (simp add: nth_eq_iff_index_eq)
  have "ham (pats ! k) (pats ! j) \<le> ham (pats ! k) a + ham a (pats ! j)"
    using assms length_word by (intro ham_triangle) simp_all
  moreover have "ham (pats ! k) a = ham a (pats ! k)" using assms length_word by (intro ham_commute) simp
  moreover have "2 * t < ham (pats ! k) (pats ! j)" using assms neq by (intro separated) simp_all
  ultimately show ?thesis using assms by simp
qed

lemma usf_nearest:
  assumes "length pats = 8" "sz \<le> length data" "usf < 8" "ham (take sz data) (pats ! usf) \<le> t"
  shows "rbind (pattern_dists data pats sz) (\<lambda>usf_dist. Inr (usf_min usf_dist)) = Inr usf"
proof -
  have "usf_min (map (ham (take sz data)) pats) = usf"
    using assms nearest [of "take sz data" usf] by (intro usf_min_unique) simp_all
  with assms(2) show ?thesis by (simp add: dists)
qed

end

interpretation cs: block_code cs_pattern 8 2
  by unfold_locales (auto simp: cs_pattern_def ham_def)

interpretation usf6: block_code usf6_pattern 6 1
  by unfold_locales (auto simp: usf6_pattern_def ham_def)

interpretation usf12: block_code usf12_pattern 12 2
  by unfold_locales (auto simp: usf12_pattern_def ham_def)

section \<open>Properties\<close>

text \<open>
  C36. The estimate of the coding scheme corrects two wrong stealing flags: if the eight flags differ
  from the pattern of a scheme in at most two places, that scheme is the result.
\<close>

theorem cs_estimate_corrects:
  assumes "8 \<le> length sflags" and "cs < 4" and "ham (take 8 sflags) (cs_pattern ! cs) \<le> 2"
  shows "cs_estimate sflags = Inr cs"
proof -
  let ?a = "take 8 sflags" and ?ds = "map (ham (take 8 sflags)) cs_pattern"
  have "?ds ! cs < ?ds ! j" if "j < 4" "j \<noteq> cs" for j
    using assms that by (intro cs.nearest) (simp_all add: cs_pattern_def)
  from this [of 0] this [of 1] this [of 2] this [of 3] assms(2)
  have "(let i = (if ?ds ! 0 < ?ds ! 1 then 0 else 1);
         i = (if ?ds ! 2 < ?ds ! i then 2 else i);
         i = (if ?ds ! 3 < ?ds ! i then 3 else i) in i) = cs"
    by (auto simp: Let_def less_Suc_eq numeral_eq_Suc)
  then show ?thesis
    using cs.dists [OF assms(1)] by (simp add: cs_estimate_def Let_def)
qed

theorem cs_estimate_corrects_witness: "cs_estimate [1, 1, 0, 0, 1, 0, 1, 1] = Inr 1"
  by (rule cs_estimate_corrects) (simp_all add: cs_pattern_def ham_def)

text \<open>
  The estimates of the uplink state flag correct one wrong bit of the six that CS-2 and CS-3
  send and two of the twelve that CS-4 sends.
\<close>

theorem usf_estimates_correct:
  assumes "usf < 8"
  shows "(6 \<le> length data \<longrightarrow> ham (take 6 data) (usf6_pattern ! usf) \<le> 1 \<longrightarrow> usf6_estimate data = Inr usf)
    \<and> (12 \<le> length data \<longrightarrow> ham (take 12 data) (usf12_pattern ! usf) \<le> 2 \<longrightarrow> usf12_estimate data = Inr usf)"
  using usf6.usf_nearest [of data usf] usf12.usf_nearest [of data usf] assms
  by (simp add: usf6_estimate_def usf12_estimate_def) (simp add: usf6_pattern_def usf12_pattern_def)

theorem usf_estimates_correct_witness:
  "usf6_estimate [1, 0, 1, 1, 1, 1] = Inr 5 \<and> usf12_estimate [1, 1, 0, 1, 1, 1, 0, 1, 0, 1, 0, 1] = Inr 5"
  using usf_estimates_correct [of 5 "[1, 0, 1, 1, 1, 1]"]
    usf_estimates_correct [of 5 "[1, 1, 0, 1, 1, 1, 0, 1, 0, 1, 0, 1]"]
  by (simp add: usf6_pattern_def usf12_pattern_def ham_def)

end
