(* ===== verification/Rand_Check.thy ===== *)
theory Rand_Check
  imports Bit_Func
begin

text \<open>
  Detection of padding randomisation (\<open>gsm-parser/rand_check.c\<close>): a \<open>rand_state\<close> keeps the last
  padding seen on a channel and counts, once ciphering is on, how many of the compared bytes
  changed.  The counters are 32 bits wide; the theorems show that no comparison leaves the
  20-byte buffer, that the state stays well formed and that the count of changed bytes never
  exceeds the count of compared ones as long as the latter has not wrapped.
\<close>

section \<open>Definitions\<close>

record rand_state =
  rs_valid :: u8
  rs_ciphered :: u8
  rs_data :: "u8 list"
  rs_len :: u8
  byte_count :: u32
  rand_count :: u32

definition zero_rand_state :: rand_state where
  "zero_rand_state = \<lparr>rs_valid = 0, rs_ciphered = 0, rs_data = replicate 20 0, rs_len = 0,
     byte_count = 0, rand_count = 0\<rparr>"

definition rand_init_2b :: "rand_state \<Rightarrow> rand_state" where
  "rand_init_2b r = r\<lparr>rs_valid := 1, rs_ciphered := 0, rs_len := 20, rs_data := replicate 20 0x2b\<rparr>"

text \<open>
  The comparison with the stored bytes and the update of the store: both are aligned at their
  ends.  The result is \<open>diff_bytes\<close>, \<open>real_len\<close> (both \<open>uint8_t\<close>) and the new state.
\<close>

definition rand_compare :: "u8 list \<Rightarrow> u8 \<Rightarrow> rand_state \<Rightarrow> (u8 \<times> u8 \<times> rand_state) res" where
  "rand_compare data len r =
     (if rs_len r \<ge> len
      then let offset = unat (rs_len r - len) in
           rbind (hamming_distance (drop offset (rs_data r)) data (unat len)) (\<lambda>diff_bytes.
           rbind (rdn data 0 (unat len)) (\<lambda>d.
           rbind (wrn (rs_data r) offset d) (\<lambda>store.
           Inr (ucast diff_bytes, len, r\<lparr>rs_data := store\<rparr>))))
      else let offset = unat (len - rs_len r) in
           rbind (hamming_distance (rs_data r) (drop offset data) (unat (rs_len r))) (\<lambda>diff_bytes.
           rbind (rdn data 0 (unat len)) (\<lambda>d.
           rbind (wrn (rs_data r) 0 d) (\<lambda>store.
           Inr (ucast diff_bytes, rs_len r, r\<lparr>rs_data := store, rs_len := len\<rparr>)))))"

definition rand_check :: "u8 list \<Rightarrow> u8 \<Rightarrow> rand_state \<Rightarrow> u8 \<Rightarrow> (bool \<times> rand_state) res" where
  "rand_check data len r ciphered =
     (if len = 0 \<or> len > 20 then Inr (False, r)
      else if rs_valid r = 0
      then let n = (if len < 21 then len else 21) in
           rbind (rdn data 0 (unat n)) (\<lambda>d.
           rbind (wrn (rs_data r) 0 d) (\<lambda>store.
           Inr (False, r\<lparr>rs_valid := 1, rs_ciphered := ciphered, rs_len := n, rs_data := store\<rparr>)))
      else rbind (rand_compare data len r) (\<lambda>(diff_bytes, real_len, r).
           if nz (rs_ciphered r)
           then if nz ciphered
                then if nz diff_bytes
                     then Inr (True, r\<lparr>rand_count := rand_count r + ucast diff_bytes,
                                       byte_count := byte_count r + ucast real_len\<rparr>)
                     else Inr (False, r\<lparr>byte_count := byte_count r + ucast real_len\<rparr>)
                else Inl Aborted
           else if nz ciphered
                then let r = r\<lparr>rs_ciphered := 1\<rparr> in
                     if nz diff_bytes
                     then Inr (True, r\<lparr>rand_count := rand_count r + ucast diff_bytes,
                                       byte_count := byte_count r + ucast real_len\<rparr>)
                     else Inr (False, r\<lparr>byte_count := byte_count r + ucast real_len\<rparr>)
                else Inr (False, r)))"

section \<open>Lemmas\<close>

definition rand_ok :: "rand_state \<Rightarrow> bool" where
  "rand_ok r \<longleftrightarrow> length (rs_data r) = 20 \<and> unat (rs_len r) \<le> 20"

lemma rand_ok_init [simp]:
  "rand_ok zero_rand_state" "rand_ok (rand_init_2b r)"
  by (simp_all add: rand_ok_def zero_rand_state_def rand_init_2b_def)

lemma hamming_distance_le:
  assumes "len \<le> length v1" "len \<le> length v2" "len < 2 ^ 32"
  shows "\<exists>d. hamming_distance v1 v2 len = Inr d \<and> unat d \<le> len"
  unfolding hamming_distance_def
proof (rule rfold_upt_rule [where P = "\<lambda>i d. unat d \<le> i"])
  fix i and d :: u32 assume i: "i < len" and d: "unat d \<le> i"
  have "unat (d + (if nz (v1 ! i XOR v2 ! i) then 1 else 0)) \<le> Suc i"
    using i d assms(3) by (auto simp: unat_word_ariths)
  with i assms(1,2) show "\<exists>s'. rbind (rd v1 i) (\<lambda>a. rbind (rd v2 i) (\<lambda>b.
      Inr (d + (if nz (a XOR b) then 1 else 0)))) = Inr s' \<and> unat s' \<le> Suc i" by auto
qed simp

lemma rand_compare_ok:
  assumes r: "rand_ok r" and len: "unat len \<le> 20" "unat len \<le> length data"
  shows "\<exists>d n r'. rand_compare data len r = Inr (d, n, r') \<and> rand_ok r' \<and> unat d \<le> unat n
    \<and> unat n \<le> 20 \<and> rand_count r' = rand_count r \<and> byte_count r' = byte_count r
    \<and> rs_ciphered r' = rs_ciphered r \<and> rs_valid r' = rs_valid r"
proof -
  have u: "unat (ucast d :: u8) \<le> n" if "unat (d :: u32) \<le> n" for d n
    using that unat_ucast_le [of d, where 'b = 8] by simp
  show ?thesis
  proof (cases "len \<le> rs_len r")
    case True
    then have o: "unat (rs_len r - len) = unat (rs_len r) - unat len" "unat len \<le> unat (rs_len r)"
      by (simp_all add: unat_sub word_le_nat_alt)
    have "unat len \<le> length (drop (unat (rs_len r - len)) (rs_data r))"
      using r o by (simp add: rand_ok_def) linarith
    from hamming_distance_le [OF this, of data]
    obtain d where "hamming_distance (drop (unat (rs_len r - len)) (rs_data r)) data (unat len) = Inr d"
      "unat d \<le> unat len" using r len o by (auto simp: rand_ok_def)
    with True r len o u show ?thesis
      by (auto simp: rand_compare_def Let_def rand_ok_def)
  next
    case False
    then have o: "unat (len - rs_len r) = unat len - unat (rs_len r)" "unat (rs_len r) \<le> unat len"
      by (simp_all add: unat_sub word_le_nat_alt)
    have "unat (rs_len r) \<le> length (rs_data r)" "unat (rs_len r) \<le> length (drop (unat (len - rs_len r)) data)"
      using r o len by (simp_all add: rand_ok_def)
    from hamming_distance_le [OF this]
    obtain d where "hamming_distance (rs_data r) (drop (unat (len - rs_len r)) data) (unat (rs_len r)) = Inr d"
      "unat d \<le> unat (rs_len r)" using r len o by (auto simp: rand_ok_def)
    with False r len o u show ?thesis
      by (auto simp: rand_compare_def Let_def rand_ok_def)
  qed
qed

section \<open>Properties\<close>

text \<open>
  Checking one padding: with a well-formed state and at least \<open>len\<close> bytes of data no access
  leaves the buffers, the state stays well formed, and the only fault is the deliberate abort for
  an unencrypted message after an encrypted one.  As long as the byte counter does not wrap, the
  count of changed bytes stays below the count of compared bytes, and a check reports
  randomisation only for a ciphered message.
\<close>

theorem rand_check_sound:
  assumes "rand_ok r" and "unat len \<le> length data"
    and "unat (rand_count r) \<le> unat (byte_count r)" and "unat (byte_count r) + 20 < 2 ^ 32"
  shows "case rand_check data len r ciphered of
      Inl e \<Rightarrow> e = Aborted \<and> nz (rs_valid r) \<and> nz (rs_ciphered r) \<and> ciphered = 0 \<and> 0 < len \<and> len \<le> 20
    | Inr (rnd, r') \<Rightarrow> rand_ok r' \<and> unat (rand_count r') \<le> unat (byte_count r')
        \<and> unat (byte_count r') \<le> unat (byte_count r) + 20 \<and> (rnd \<longrightarrow> nz ciphered)
        \<and> (ciphered = 0 \<longrightarrow> byte_count r' = byte_count r \<and> rand_count r' = rand_count r)"
proof (cases "len = 0 \<or> len > 20 \<or> rs_valid r = 0")
  case True
  have "unat len \<le> 20" if "\<not> len > 20" using that by (simp add: not_less word_le_nat_alt)
  with True assms show ?thesis
    by (auto simp: rand_check_def Let_def rand_ok_def word_less_nat_alt word_le_nat_alt)
next
  case False
  then have len: "unat len \<le> 20" by (simp add: not_less word_le_nat_alt)
  from rand_compare_ok [OF assms(1) this assms(2)] obtain d n r' where
    c: "rand_compare data len r = Inr (d, n, r')" "rand_ok r'" "unat d \<le> unat n" "unat n \<le> 20"
      "rand_count r' = rand_count r" "byte_count r' = byte_count r" "rs_ciphered r' = rs_ciphered r"
    by blast
  have "unat (rand_count r + ucast d) = unat (rand_count r) + unat d"
    "unat (byte_count r + ucast n) = unat (byte_count r) + unat n"
    using c(3,4) assms(3,4) by (simp_all add: unat_word_ariths)
  with False c assms(3) show ?thesis
    by (auto simp: rand_check_def Let_def rand_ok_def word_gt_0 not_less)
qed

theorem rand_check_sound_witness:
  "unat (rand_count (rand_init_2b zero_rand_state)) \<le> unat (byte_count (rand_init_2b zero_rand_state))
   \<and> (case rand_check [1, 2, 3] 3 (rand_init_2b zero_rand_state) 1 of
       Inl e \<Rightarrow> False
     | Inr (rnd, r') \<Rightarrow> rnd \<and> unat (rand_count r') \<le> unat (byte_count r'))"
proof -
  have c: "unat (rand_count (rand_init_2b zero_rand_state)) = 0"
    "unat (byte_count (rand_init_2b zero_rand_state)) = 0"
    by (simp_all add: rand_init_2b_def zero_rand_state_def)
  have "case rand_check [1, 2, 3] 3 (rand_init_2b zero_rand_state) 1 of
       Inl e \<Rightarrow> False | Inr (rnd, r') \<Rightarrow> rnd" by code_simp
  with rand_check_sound [of "rand_init_2b zero_rand_state" 3 "[1, 2, 3]" 1] c show ?thesis
    by (auto split: sum.splits prod.splits)
qed

end
