(* ===== verification/State.thy ===== *)
theory State
  imports Radio Rand_Check
begin

text \<open>
  The state of the parser: sessions (\<open>gsm-parser/session.h\<close>), the store of messages, the list of
  cells (\<open>gsm-parser/cell_info.c\<close>) and the global variables, with the elementary operations that
  the handlers are built from.

  \<^item> A session has the fields of \<open>struct session_info\<close>, with the prefix \<open>s_\<close>; the record is built
    in four steps.  The links of the session list, the unused \<open>r_time\<close>, \<open>no_key\<close> and
    \<open>output_gsmtap\<close> and the never filled \<open>bcch\<close> are left out; the call-back for SQL
    statements is reduced to whether there is one; the list of short messages is a list.
    The signed byte \<open>cipher_missing\<close> is kept as its bit pattern.
  \<^item> Messages live in a store: an address is an index, a freed message is \<open>None\<close>, so that a use
    after \<open>free\<close> is a fault.
  \<^item> The handlers get a pointer to one of the sessions; in the model it is the index in the array,
    and \<open>s[1]\<close> is the next index.
  \<^item> A buffer of 32 bytes that a function declares without initialising it has unknown contents,
    the field \<open>w_stack\<close>.
  \<^item> What leaves the program is a list of events.
\<close>

section \<open>Data\<close>

definition GSM_MAX_FN :: u32 where "GSM_MAX_FN = 2715648"

record frame_count =
  fc_unenc :: u32
  fc_unenc_rand :: u32
  fc_enc :: u32
  fc_enc_rand :: u32
  fc_enc_null :: u32
  fc_enc_null_rand :: u32
  fc_enc_si :: u32
  fc_enc_si_rand :: u32
  fc_predict :: u32

definition zero_frame_count :: frame_count where
  "zero_frame_count = \<lparr>fc_unenc = 0, fc_unenc_rand = 0, fc_enc = 0, fc_enc_rand = 0, fc_enc_null = 0,
     fc_enc_null_rand = 0, fc_enc_si = 0, fc_enc_si_rand = 0, fc_predict = 0\<rparr>"

text \<open>The state of one LAPDm link; \<open>last_out_of_seq_msg_number\<close> is signed.\<close>

record lapdm_buf =
  lb_len :: u32
  lb_data :: "u8 list"
  lb_nr :: u8
  lb_ns :: u8
  lb_oos :: u16
  lb_last_oos :: int

definition zero_lapdm_buf :: lapdm_buf where
  "zero_lapdm_buf = \<lparr>lb_len = 0, lb_data = replicate 640 0, lb_nr = 0, lb_ns = 0, lb_oos = 0, lb_last_oos = 0\<rparr>"

text \<open>
  A channel assignment.  The two halves of the union are separate fields; the code writes the half
  that \<open>h\<close> selects into a cleared structure.
\<close>

record gsm_assignment =
  ga_chan_nr :: int
  ga_tsc :: int
  ga_h :: int
  ga_band_arfcn :: int
  ga_maio :: int
  ga_hsn :: int
  ga_ma :: "u16 list"
  ga_ma_len :: nat
  ga_chan_mode :: int
  ga_rate_conf :: int
  ga_bcch_arfcn :: u16

definition zero_assignment :: gsm_assignment where
  "zero_assignment = \<lparr>ga_chan_nr = 0, ga_tsc = 0, ga_h = 0, ga_band_arfcn = 0, ga_maio = 0, ga_hsn = 0,
     ga_ma = replicate 64 0, ga_ma_len = 0, ga_chan_mode = 0, ga_rate_conf = 0, ga_bcch_arfcn = 0\<rparr>"

text \<open>A short message (\<open>struct sms_meta\<close> of \<open>sms.h\<close>).  The two addresses and the data are buffers; the texts
  of the counter, the application reference and the summary are kept up to their NUL.\<close>

record sms_meta =
  sm_sequence :: u8
  sm_from_network :: u8
  sm_pid :: u8
  sm_dcs :: u8
  sm_alphabet :: u8
  sm_class :: nat
  sm_udhi :: u8
  sm_concat :: u8
  sm_concat_frag :: u16
  sm_concat_total :: u16
  sm_src_port :: u16
  sm_dst_port :: u16
  sm_ota :: u8
  sm_ota_iei :: u8
  sm_ota_enc :: u8
  sm_ota_enc_algo :: u8
  sm_ota_sign :: u8
  sm_ota_sign_algo :: u8
  sm_ota_counter_type :: u8
  sm_ota_counter :: string
  sm_ota_tar :: string
  sm_ota_por :: u8
  sm_ems :: u8
  sm_smsc :: "u8 list"
  sm_msisdn :: "u8 list"
  sm_length :: u8
  sm_udh_length :: u8
  sm_real_length :: u8
  sm_data :: "u8 list"
  sm_info :: string

definition zero_sms :: sms_meta where
  "zero_sms = \<lparr>sm_sequence = 0, sm_from_network = 0, sm_pid = 0, sm_dcs = 0, sm_alphabet = 0, sm_class = 0,
     sm_udhi = 0, sm_concat = 0, sm_concat_frag = 0, sm_concat_total = 0, sm_src_port = 0, sm_dst_port = 0,
     sm_ota = 0, sm_ota_iei = 0, sm_ota_enc = 0, sm_ota_enc_algo = 0, sm_ota_sign = 0, sm_ota_sign_algo = 0,
     sm_ota_counter_type = 0, sm_ota_counter = [], sm_ota_tar = [], sm_ota_por = 0, sm_ems = 0,
     sm_smsc = replicate 32 0, sm_msisdn = replicate 32 0, sm_length = 0, sm_udh_length = 0,
     sm_real_length = 0, sm_data = replicate 256 0, sm_info = []\<rparr>"

record session_head =
  s_id :: int
  s_appid :: u32
  s_name :: "u8 list"
  s_timestamp :: timeval
  s_rat :: u8
  s_domain :: u8
  s_mcc :: u16
  s_mnc :: u16
  s_lac :: u16
  s_cid :: u32
  s_psc :: u16
  s_arfcn :: u16
  s_neigh_count :: u16
  s_started :: u8
  s_closed :: u8
  s_cracked :: u8
  s_processing :: u8
  s_decoded :: u8
  s_have_key :: u8
  s_key :: "u8 list"
  s_initial_seq :: u8
  s_cipher_seq :: u8
  s_cipher_missing :: u8
  s_cm_cmd_fn :: u32
  s_cm_comp_first_fn :: u32
  s_cm_comp_last_fn :: u32
  s_cm_comp_count :: u16

record session_times = session_head +
  s_cipher_delta :: u32
  s_cipher :: u8
  s_integrity :: u8
  s_first_fn :: u32
  s_last_fn :: u32
  s_duration :: u32
  s_auth_delta :: u32
  s_auth_req_fn :: u32
  s_auth_resp_fn :: u32
  s_uplink :: u8
  s_avg_power :: u32
  s_mo :: u8
  s_mt :: u8
  s_unknown :: u8
  s_detach :: u8
  s_locupd :: u8
  s_lu_type :: u8
  s_lu_acc :: u8
  s_lu_reject :: u8
  s_lu_rej_cause :: u8
  s_lu_mcc :: u16
  s_lu_mnc :: u16
  s_lu_lac :: u16
  s_pag_mi :: u8
  s_serv_req :: u8
  s_call :: u8
  s_sms :: u8
  s_ssa :: u8
  s_abort :: u8
  s_raupd :: u8

record session_ids = session_times +
  s_attach :: u8
  s_att_acc :: u8
  s_pdp_activate :: u8
  s_pdp_ip :: "u8 list"
  s_tmsi_realloc :: u8
  s_release :: u8
  s_rr_cause :: u8
  s_have_gprs :: u8
  s_auth :: u8
  s_iden_imsi_bc :: u8
  s_iden_imei_bc :: u8
  s_iden_imsi_ac :: u8
  s_iden_imei_ac :: u8
  s_cmc_imeisv :: u8
  s_ms_cipher_mask :: u8
  s_ue_cipher_cap :: u32
  s_ue_integrity_cap :: u32
  s_assignment :: u8
  s_assign_complete :: u8
  s_handover :: u8
  s_forced_ho :: u8
  s_use_tmsi :: u8
  s_use_imsi :: u8
  s_use_jump :: u8
  s_sms_presence :: u8
  s_call_presence :: u8
  s_old_tmsi :: "u8 list"
  s_new_tmsi :: "u8 list"
  s_tlli :: "u8 list"
  s_imsi :: "u8 list"
  s_imei :: "u8 list"
  s_msisdn :: "u8 list"

record session_info = session_ids +
  s_ga :: gsm_assignment
  s_fc :: frame_count
  s_sdcch :: burst_buf
  s_sacch :: burst_buf
  s_facch :: "burst_buf list"
  s_chan_sdcch :: "lapdm_buf list"
  s_chan_sacch :: "lapdm_buf list"
  s_chan_facch :: "lapdm_buf list"
  s_saccht :: "burst_buf list"
  s_gprs :: "burst_buf list"
  s_last_dtap :: "u8 list"
  s_last_dtap_len :: u8
  s_last_dtap_rat :: u8
  s_first_msg :: "nat option"
  s_last_msg :: "nat option"
  s_new_msg :: "nat option"
  s_sms_list :: "sms_meta list"
  s_cell_arfcns :: "u8 list"
  s_ci :: "nat option"
  s_null :: rand_state
  s_si5 :: rand_state
  s_si5bis :: rand_state
  s_si5ter :: rand_state
  s_si6 :: rand_state
  s_other_sdcch :: rand_state
  s_other_sacch :: rand_state
  s_sql_callback :: bool

text \<open>A session after \<open>memset(s, 0, sizeof(struct session_info))\<close>.\<close>

definition zero_session :: session_info where
  "zero_session = \<lparr>
     s_id = 0, s_appid = 0, s_name = replicate 1024 0, s_timestamp = zero_timeval, s_rat = 0,
     s_domain = 0, s_mcc = 0, s_mnc = 0, s_lac = 0, s_cid = 0, s_psc = 0, s_arfcn = 0,
     s_neigh_count = 0, s_started = 0, s_closed = 0, s_cracked = 0, s_processing = 0, s_decoded = 0,
     s_have_key = 0, s_key = replicate 8 0, s_initial_seq = 0, s_cipher_seq = 0,
     s_cipher_missing = 0, s_cm_cmd_fn = 0, s_cm_comp_first_fn = 0, s_cm_comp_last_fn = 0,
     s_cm_comp_count = 0, s_cipher_delta = 0, s_cipher = 0, s_integrity = 0, s_first_fn = 0,
     s_last_fn = 0, s_duration = 0, s_auth_delta = 0, s_auth_req_fn = 0, s_auth_resp_fn = 0,
     s_uplink = 0, s_avg_power = 0, s_mo = 0, s_mt = 0, s_unknown = 0, s_detach = 0, s_locupd = 0,
     s_lu_type = 0, s_lu_acc = 0, s_lu_reject = 0, s_lu_rej_cause = 0, s_lu_mcc = 0, s_lu_mnc = 0,
     s_lu_lac = 0, s_pag_mi = 0, s_serv_req = 0, s_call = 0, s_sms = 0, s_ssa = 0, s_abort = 0,
     s_raupd = 0, s_attach = 0, s_att_acc = 0, s_pdp_activate = 0, s_pdp_ip = replicate 16 0,
     s_tmsi_realloc = 0, s_release = 0, s_rr_cause = 0, s_have_gprs = 0, s_auth = 0,
     s_iden_imsi_bc = 0, s_iden_imei_bc = 0, s_iden_imsi_ac = 0, s_iden_imei_ac = 0,
     s_cmc_imeisv = 0, s_ms_cipher_mask = 0, s_ue_cipher_cap = 0, s_ue_integrity_cap = 0,
     s_assignment = 0, s_assign_complete = 0, s_handover = 0, s_forced_ho = 0, s_use_tmsi = 0,
     s_use_imsi = 0, s_use_jump = 0, s_sms_presence = 0, s_call_presence = 0,
     s_old_tmsi = replicate 4 0, s_new_tmsi = replicate 4 0, s_tlli = replicate 4 0,
     s_imsi = replicate 32 0, s_imei = replicate 32 0, s_msisdn = replicate 32 0,
     s_ga = zero_assignment, s_fc = zero_frame_count, s_sdcch = zero_burst_buf,
     s_sacch = zero_burst_buf, s_facch = replicate 2 zero_burst_buf,
     s_chan_sdcch = replicate 4 zero_lapdm_buf, s_chan_sacch = replicate 4 zero_lapdm_buf,
     s_chan_facch = replicate 4 zero_lapdm_buf, s_saccht = replicate 4 zero_burst_buf,
     s_gprs = replicate 16 zero_burst_buf, s_last_dtap = replicate 256 0, s_last_dtap_len = 0,
     s_last_dtap_rat = 0, s_first_msg = None, s_last_msg = None, s_new_msg = None, s_sms_list = [],
     s_cell_arfcns = replicate 1024 0, s_ci = None, s_null = zero_rand_state,
     s_si5 = zero_rand_state, s_si5bis = zero_rand_state, s_si5ter = zero_rand_state,
     s_si6 = zero_rand_state, s_other_sdcch = zero_rand_state, s_other_sacch = zero_rand_state,
     s_sql_callback = False\<rparr>"

text \<open>The cells seen so far (\<open>struct cell_info\<close> of \<open>cell_info.c\<close>).\<close>

record cell_info =
  ci_id :: u32
  ci_stored :: u8
  ci_first_seen :: timeval
  ci_last_seen :: timeval
  ci_mcc :: u16
  ci_mnc :: u16
  ci_lac :: u16
  ci_cid :: u32
  ci_bcch_arfcn :: u16
  ci_msc_ver :: u8
  ci_combined :: u8
  ci_agch_blocks :: u8
  ci_pag_mframes :: u8
  ci_t3212 :: u8
  ci_dtx :: u8
  ci_cro :: u8
  ci_temp_offset :: u8
  ci_pen_time :: u8
  ci_pwr_offset :: u8
  ci_gprs :: u8
  ci_arfcn_list :: "u8 list"
  ci_si_counter :: "u32 list"
  ci_si_data :: "u8 list list"
  ci_a_count :: "u16 list"

definition zero_cell :: cell_info where
  "zero_cell = \<lparr>ci_id = 0, ci_stored = 0, ci_first_seen = zero_timeval, ci_last_seen = zero_timeval, ci_mcc = 0,
     ci_mnc = 0, ci_lac = 0, ci_cid = 0, ci_bcch_arfcn = 0, ci_msc_ver = 0, ci_combined = 0,
     ci_agch_blocks = 0, ci_pag_mframes = 0, ci_t3212 = 0, ci_dtx = 0, ci_cro = 0, ci_temp_offset = 0,
     ci_pen_time = 0, ci_pwr_offset = 0, ci_gprs = 0, ci_arfcn_list = replicate 1024 0,
     ci_si_counter = replicate 12 0, ci_si_data = replicate 12 (replicate 20 0), ci_a_count = replicate 12 0\<rparr>"

datatype event =
    Net_send_msg radio_message
  | Sql_session session_info
  | Sql_sms int sms_meta
  | Sql_appid int u32
  | Session_print session_info
  | Sql_cell cell_info
  | Sql_arfcn_list cell_info nat
  | Sql_paging u32 u32 "u32 list" u32 u32

record world =
  w_sess :: "session_info list"
  w_msgs :: "radio_message option list"
  w_cells :: "cell_info option list"
  w_cell_list :: "nat list"
  w_cell_info_id :: u32
  w_previous_ts :: u32
  w_cell_callback :: bool
  w_paging_count :: "u32 list"
  w_paging_imsi :: u32
  w_paging_tmsi :: u32
  w_paging_null :: u32
  w_s_id :: u32
  w_auto_reset :: bool
  w_auto_timestamp :: bool
  w_now :: u32
  w_tod :: timeval
  w_output_console :: bool
  w_output_gsmtap :: bool
  w_stack :: "u8 list"
  w_out :: "event list"

section \<open>Elementary operations\<close>

text \<open>Reading and updating the session a pointer refers to.\<close>

definition sess :: "nat \<Rightarrow> world \<Rightarrow> session_info res" where
  "sess i w = rd (w_sess w) i"

definition upd :: "nat \<Rightarrow> (session_info \<Rightarrow> session_info) \<Rightarrow> world \<Rightarrow> world res" where
  "upd i f w = rbind (sess i w) (\<lambda>s. Inr (w\<lparr>w_sess := (w_sess w)[i := f s]\<rparr>))"

text \<open>An update that may fault.\<close>

definition updr :: "nat \<Rightarrow> (session_info \<Rightarrow> session_info res) \<Rightarrow> world \<Rightarrow> world res" where
  "updr i f w = rbind (sess i w) (\<lambda>s. rbind (f s) (\<lambda>s. Inr (w\<lparr>w_sess := (w_sess w)[i := s]\<rparr>)))"

text \<open>A step that depends on the session.\<close>

definition by_sess :: "nat \<Rightarrow> (session_info \<Rightarrow> world \<Rightarrow> 'a res) \<Rightarrow> world \<Rightarrow> 'a res" where
  "by_sess i f w = rbind (sess i w) (\<lambda>s. f s w)"

definition on_cond :: "bool \<Rightarrow> ('s \<Rightarrow> 's res) \<Rightarrow> 's \<Rightarrow> 's res" where
  "on_cond b f s = (if b then f s else Inr s)"

text \<open>Dereferencing a pointer to a message and updating the message.\<close>

definition deref :: "nat option \<Rightarrow> world \<Rightarrow> radio_message res" where
  "deref p w = (case p of
      None \<Rightarrow> Inl NullDeref
    | Some a \<Rightarrow> rbind (rd (w_msgs w) a) (\<lambda>c. case c of None \<Rightarrow> Inl UseAfterFree | Some m \<Rightarrow> Inr m))"

definition upd_msg :: "nat option \<Rightarrow> (radio_message \<Rightarrow> radio_message) \<Rightarrow> world \<Rightarrow> world res" where
  "upd_msg p f w = rbind (deref p w) (\<lambda>m.
     case p of None \<Rightarrow> Inl NullDeref | Some a \<Rightarrow> Inr (w\<lparr>w_msgs := (w_msgs w)[a := Some (f m)]\<rparr>))"

definition malloc_msg :: "radio_message \<Rightarrow> world \<Rightarrow> nat \<times> world" where
  "malloc_msg m w = (length (w_msgs w), w\<lparr>w_msgs := w_msgs w @ [Some m]\<rparr>)"

definition free_msg :: "nat \<Rightarrow> world \<Rightarrow> world res" where
  "free_msg a w = rbind (deref (Some a) w) (\<lambda>m. Inr (w\<lparr>w_msgs := (w_msgs w)[a := None]\<rparr>))"

text \<open>
  \<open>SET_MSG_INFO\<close> asserts that there is a message and replaces its text; \<open>APPEND_MSG_INFO\<close> appends
  to it.  Both truncate at 127 characters.
\<close>

definition set_info :: "nat \<Rightarrow> string \<Rightarrow> world \<Rightarrow> world res" where
  "set_info i txt = by_sess i (\<lambda>s w.
     rbind (rassert (s_new_msg s \<noteq> None)) (\<lambda>_. upd_msg (s_new_msg s) (\<lambda>m. m\<lparr>rm_info := take 127 txt\<rparr>) w))"

definition append_info :: "nat \<Rightarrow> string \<Rightarrow> world \<Rightarrow> world res" where
  "append_info i txt = by_sess i (\<lambda>s w.
     upd_msg (s_new_msg s) (\<lambda>m. m\<lparr>rm_info := take 127 (rm_info m @ txt)\<rparr>) w)"

definition emit :: "event \<Rightarrow> world \<Rightarrow> world res" where
  "emit e w = Inr (w\<lparr>w_out := w_out w @ [e]\<rparr>)"

subsection \<open>Formatting\<close>

definition digit_char :: "nat \<Rightarrow> char" where
  "digit_char d = (if d < 10 then char_of (48 + d) else char_of (87 + d))"

fun dec_str :: "nat \<Rightarrow> string" where
  "dec_str n = (if n < 10 then [digit_char n] else dec_str (n div 10) @ [digit_char (n mod 10)])"

declare dec_str.simps [simp del]

text \<open>\<open>%02x\<close> of a byte, the hexadecimal dump of bytes and the characters of a C string.\<close>

definition hex2 :: "u8 \<Rightarrow> string" where
  "hex2 b = [digit_char (unat b div 16), digit_char (unat b mod 16)]"

definition hexdump :: "u8 list \<Rightarrow> string" where
  "hexdump bs = concat (map hex2 bs)"

definition bytes_str :: "u8 list \<Rightarrow> string" where
  "bytes_str bs = map (\<lambda>b. char_of (unat b)) (cstr bs)"

text \<open>
  \<open>osmo_hexdump_nospc\<close> of libosmocore (\<open>src/utils.c\<close>): its buffer holds the text of 2047 bytes, and a
  length that is negative as an \<open>int\<close> gives the empty text.
\<close>

definition osmo_hexdump_nospc :: "u8 list \<Rightarrow> u32 \<Rightarrow> string res" where
  "osmo_hexdump_nospc buf len =
     (if sint len < 0 then Inr [] else rbind (rdn buf 0 (min (unat len) 2047)) (\<lambda>bs. Inr (hexdump bs)))"

section \<open>Lemmas\<close>

lemma sess_Inr [simp]: "i < length (w_sess w) \<Longrightarrow> sess i w = Inr (w_sess w ! i)"
  by (simp add: sess_def)

lemma upd_Inr [simp]:
  "i < length (w_sess w) \<Longrightarrow> upd i f w = Inr (w\<lparr>w_sess := (w_sess w)[i := f (w_sess w ! i)]\<rparr>)"
  by (simp add: upd_def)

lemma deref_eq_Inr: "(deref p w = Inr m) \<longleftrightarrow> (\<exists>a. p = Some a \<and> a < length (w_msgs w) \<and> w_msgs w ! a = Some m)"
  by (auto simp: deref_def rbind_eq_Inr rd_eq_Inr split: option.splits)

lemma deref_Some [simp]: "a < length (w_msgs w) \<Longrightarrow> w_msgs w ! a = Some m \<Longrightarrow> deref (Some a) w = Inr m"
  by (simp add: deref_def)

lemma on_cond_True [simp]: "on_cond True f s = f s"
  by (simp add: on_cond_def)

lemma on_cond_False [simp]: "on_cond False f s = Inr s"
  by (simp add: on_cond_def)

end
