(* ===== verification/Freq_List.thy ===== *)
theory Freq_List
  imports Prelude
begin

text \<open>
  The decoder for lists of frequencies of libosmocore (\<open>src/gsm/gsm48_ie.c\<close>), which the parser
  applies to the system information of a cell and to channel assignments.  A list marks a subset
  of the 1024 frequency numbers (ARFCN) in one of six formats; the result is one bit
  (\<open>frqt\<close>) in an array of 1024 masks.

  The packed structures \<open>gsm48_range_1024\<close> to \<open>gsm48_range_128\<close> cut the octets into fields that
  follow each other from the most significant bit on, a field that crosses an octet being split
  into a high and a low part.  The model reads a field at its bit position.  The guards on the
  length in the code say for every field that its last bit is inside the list.
\<close>

section \<open>Definitions\<close>

definition smod :: "int \<Rightarrow> int \<Rightarrow> int" where
  "smod n m = (let res = c_rem n m in if res \<le> 0 then res + m else res)"

definition mark_arfcn :: "u8 \<Rightarrow> nat \<Rightarrow> u8 list \<Rightarrow> u8 list res" where
  "mark_arfcn frqt i f = rbind (rd f i) (\<lambda>m. wr f i (m OR frqt))"

text \<open>The \<open>n\<close> bits from the bit position \<open>pos\<close> on.\<close>

definition be_bits :: "u8 list \<Rightarrow> nat \<Rightarrow> nat \<Rightarrow> nat res" where
  "be_bits cd pos n =
     rfold (\<lambda>i a. rbind (rd cd (i div 8)) (\<lambda>b. Inr (2 * a + of_bool (bit b (7 - i mod 8))))) [pos..<pos + n] 0"

text \<open>Consecutive fields of the given widths; a field that is not inside the list is 0.\<close>

fun range_fields :: "u8 list \<Rightarrow> nat \<Rightarrow> nat \<Rightarrow> nat list \<Rightarrow> int list res" where
  "range_fields cd len pos [] = Inr []"
| "range_fields cd len pos (n # ns) =
     rbind (if pos + n \<le> 8 * len then be_bits cd pos n else Inr 0) (\<lambda>v.
     rbind (range_fields cd len (pos + n) ns) (\<lambda>vs. Inr (int v # vs)))"

text \<open>
  The widths of the fields.  In the format of range 1024 the fields are numbered from 1; in the
  others the first field is the origin.
\<close>

definition range_1024_widths :: "nat list" where
  "range_1024_widths = [10, 9, 9, 8, 8, 8, 8, 7, 7, 7, 7, 7, 7, 7, 7, 6]"

definition range_512_widths :: "nat list" where
  "range_512_widths = [10, 9, 8, 8, 7, 7, 7, 7, 6, 6, 6, 6, 6, 6, 6, 6, 5, 5]"

definition range_256_widths :: "nat list" where
  "range_256_widths = [10, 8, 7, 7, 6, 6, 6, 6, 5, 5, 5, 5, 5, 5, 5, 5, 4, 4, 4, 4, 4, 4]"

definition range_128_widths :: "nat list" where
  "range_128_widths = [10, 7, 6, 6, 5, 5, 5, 5, 4, 4, 4, 4, 4, 4, 4, 4, 3, 3, 3, 3, 3, 3, 3, 3, 3, 3, 3, 3, 3]"

text \<open>The frequencies of the fields, each with the value that must not be 0.\<close>

definition range_1024_arfcns :: "int list \<Rightarrow> (int \<times> int) list" where
  "range_1024_arfcns w = [
     (w ! 1, w ! 1),
     (w ! 2, smod (w ! 1 - 512 + w ! 2) 1023),
     (w ! 3, smod (w ! 1 + w ! 3) 1023),
     (w ! 4, smod (w ! 1 - 512 + smod (w ! 2 - 256 + w ! 4) 511) 1023),
     (w ! 5, smod (w ! 1 + smod (w ! 3 - 256 + w ! 5) 511) 1023),
     (w ! 6, smod (w ! 1 - 512 + smod (w ! 2 + w ! 6) 511) 1023),
     (w ! 7, smod (w ! 1 + smod (w ! 3 + w ! 7) 511) 1023),
     (w ! 8, smod (w ! 1 - 512 + smod (w ! 2 - 256 + smod (w ! 4 - 128 + w ! 8) 255) 511) 1023),
     (w ! 9, smod (w ! 1 + smod (w ! 3 - 256 + smod (w ! 5 - 128 + w ! 9) 255) 511) 1023),
     (w ! 10, smod (w ! 1 - 512 + smod (w ! 2 + smod (w ! 6 - 128 + w ! 10) 255) 511) 1023),
     (w ! 11, smod (w ! 1 + smod (w ! 3 + smod (w ! 7 - 128 + w ! 11) 255) 511) 1023),
     (w ! 12, smod (w ! 1 - 512 + smod (w ! 2 - 256 + smod (w ! 4 + w ! 12) 255) 511) 1023),
     (w ! 13, smod (w ! 1 + smod (w ! 3 - 256 + smod (w ! 5 + w ! 13) 255) 511) 1023),
     (w ! 14, smod (w ! 1 - 512 + smod (w ! 2 + smod (w ! 6 + w ! 14) 255) 511) 1023),
     (w ! 15, smod (w ! 1 + smod (w ! 3 + smod (w ! 7 + w ! 15) 255) 511) 1023),
     (w ! 16, smod (w ! 1 - 512 + smod (w ! 2 - 256 + smod (w ! 4 - 128 + smod (w ! 8 - 64 + w ! 16) 127) 255) 511) 1023)]"

definition range_512_arfcns :: "int list \<Rightarrow> (int \<times> int) list" where
  "range_512_arfcns w = [
     (1, w ! 0),
     (w ! 1, c_rem (w ! 0 + w ! 1) 1024),
     (w ! 2, c_rem (w ! 0 + smod (w ! 1 - 256 + w ! 2) 511) 1024),
     (w ! 3, c_rem (w ! 0 + smod (w ! 1 + w ! 3) 511) 1024),
     (w ! 4, c_rem (w ! 0 + smod (w ! 1 - 256 + smod (w ! 2 - 128 + w ! 4) 255) 511) 1024),
     (w ! 5, c_rem (w ! 0 + smod (w ! 1 + smod (w ! 3 - 128 + w ! 5) 255) 511) 1024),
     (w ! 6, c_rem (w ! 0 + smod (w ! 1 - 256 + smod (w ! 2 + w ! 6) 255) 511) 1024),
     (w ! 7, c_rem (w ! 0 + smod (w ! 1 + smod (w ! 3 + w ! 7) 255) 511) 1024),
     (w ! 8, c_rem (w ! 0 + smod (w ! 1 - 256 + smod (w ! 2 - 128 + smod (w ! 4 - 64 + w ! 8) 127) 255) 511) 1024),
     (w ! 9, c_rem (w ! 0 + smod (w ! 1 + smod (w ! 3 - 128 + smod (w ! 5 - 64 + w ! 9) 127) 255) 511) 1024),
     (w ! 10, c_rem (w ! 0 + smod (w ! 1 - 256 + smod (w ! 2 + smod (w ! 6 - 64 + w ! 10) 127) 255) 511) 1024),
     (w ! 11, c_rem (w ! 0 + smod (w ! 1 + smod (w ! 3 + smod (w ! 7 - 64 + w ! 11) 127) 255) 511) 1024),
     (w ! 12, c_rem (w ! 0 + smod (w ! 1 - 256 + smod (w ! 2 - 128 + smod (w ! 4 + w ! 12) 127) 255) 511) 1024),
     (w ! 13, c_rem (w ! 0 + smod (w ! 1 + smod (w ! 3 - 128 + smod (w ! 5 + w ! 13) 127) 255) 511) 1024),
     (w ! 14, c_rem (w ! 0 + smod (w ! 1 - 256 + smod (w ! 2 + smod (w ! 6 + w ! 14) 127) 255) 511) 1024),
     (w ! 15, c_rem (w ! 0 + smod (w ! 1 + smod (w ! 3 + smod (w ! 7 + w ! 15) 127) 255) 511) 1024),
     (w ! 16, c_rem (w ! 0 + smod (w ! 1 - 256 + smod (w ! 2 - 128 + smod (w ! 4 - 64 + smod (w ! 8 - 32 + w ! 16) 63) 127) 255) 511) 1024),
     (w ! 17, c_rem (w ! 0 + smod (w ! 1 + smod (w ! 3 - 128 + smod (w ! 5 - 64 + smod (w ! 9 - 32 + w ! 17) 63) 127) 255) 511) 1024)]"

definition range_256_arfcns :: "int list \<Rightarrow> (int \<times> int) list" where
  "range_256_arfcns w = [
     (1, w ! 0),
     (w ! 1, c_rem (w ! 0 + w ! 1) 1024),
     (w ! 2, c_rem (w ! 0 + smod (w ! 1 - 128 + w ! 2) 255) 1024),
     (w ! 3, c_rem (w ! 0 + smod (w ! 1 + w ! 3) 255) 1024),
     (w ! 4, c_rem (w ! 0 + smod (w ! 1 - 128 + smod (w ! 2 - 64 + w ! 4) 127) 255) 1024),
     (w ! 5, c_rem (w ! 0 + smod (w ! 1 + smod (w ! 3 - 64 + w ! 5) 127) 255) 1024),
     (w ! 6, c_rem (w ! 0 + smod (w ! 1 - 128 + smod (w ! 2 + w ! 6) 127) 255) 1024),
     (w ! 7, c_rem (w ! 0 + smod (w ! 1 + smod (w ! 3 + w ! 7) 127) 255) 1024),
     (w ! 8, c_rem (w ! 0 + smod (w ! 1 - 128 + smod (w ! 2 - 64 + smod (w ! 4 - 32 + w ! 8) 63) 127) 255) 1024),
     (w ! 9, c_rem (w ! 0 + smod (w ! 1 + smod (w ! 3 - 64 + smod (w ! 5 - 32 + w ! 9) 63) 127) 255) 1024),
     (w ! 10, c_rem (w ! 0 + smod (w ! 1 - 128 + smod (w ! 2 + smod (w ! 6 - 32 + w ! 10) 63) 127) 255) 1024),
     (w ! 11, c_rem (w ! 0 + smod (w ! 1 + smod (w ! 3 + smod (w ! 7 - 32 + w ! 11) 63) 127) 255) 1024),
     (w ! 12, c_rem (w ! 0 + smod (w ! 1 - 128 + smod (w ! 2 - 64 + smod (w ! 4 + w ! 12) 63) 127) 255) 1024),
     (w ! 13, c_rem (w ! 0 + smod (w ! 1 + smod (w ! 3 - 64 + smod (w ! 5 + w ! 13) 63) 127) 255) 1024),
     (w ! 14, c_rem (w ! 0 + smod (w ! 1 - 128 + smod (w ! 2 + smod (w ! 6 + w ! 14) 63) 127) 255) 1024),
     (w ! 15, c_rem (w ! 0 + smod (w ! 1 + smod (w ! 3 + smod (w ! 7 + w ! 15) 63) 127) 255) 1024),
     (w ! 16, c_rem (w ! 0 + smod (w ! 1 - 128 + smod (w ! 2 - 64 + smod (w ! 4 - 32 + smod (w ! 8 - 16 + w ! 16) 31) 63) 127) 255) 1024),
     (w ! 17, c_rem (w ! 0 + smod (w ! 1 + smod (w ! 3 - 64 + smod (w ! 5 - 32 + smod (w ! 9 - 16 + w ! 17) 31) 63) 127) 255) 1024),
     (w ! 18, c_rem (w ! 0 + smod (w ! 1 - 128 + smod (w ! 2 + smod (w ! 6 - 32 + smod (w ! 10 - 16 + w ! 18) 31) 63) 127) 255) 1024),
     (w ! 19, c_rem (w ! 0 + smod (w ! 1 + smod (w ! 3 + smod (w ! 7 - 32 + smod (w ! 11 - 16 + w ! 19) 31) 63) 127) 255) 1024),
     (w ! 20, c_rem (w ! 0 + smod (w ! 1 - 128 + smod (w ! 2 - 64 + smod (w ! 4 + smod (w ! 12 - 16 + w ! 20) 31) 63) 127) 255) 1024),
     (w ! 21, c_rem (w ! 0 + smod (w ! 1 + smod (w ! 3 - 64 + smod (w ! 5 + smod (w ! 13 - 16 + w ! 21) 31) 63) 127) 255) 1024)]"

definition range_128_arfcns :: "int list \<Rightarrow> (int \<times> int) list" where
  "range_128_arfcns w = [
     (1, w ! 0),
     (w ! 1, c_rem (w ! 0 + w ! 1) 1024),
     (w ! 2, c_rem (w ! 0 + smod (w ! 1 - 64 + w ! 2) 127) 1024),
     (w ! 3, c_rem (w ! 0 + smod (w ! 1 + w ! 3) 127) 1024),
     (w ! 4, c_rem (w ! 0 + smod (w ! 1 - 64 + smod (w ! 2 - 32 + w ! 4) 63) 127) 1024),
     (w ! 5, c_rem (w ! 0 + smod (w ! 1 + smod (w ! 3 - 32 + w ! 5) 63) 127) 1024),
     (w ! 6, c_rem (w ! 0 + smod (w ! 1 - 64 + smod (w ! 2 + w ! 6) 63) 127) 1024),
     (w ! 7, c_rem (w ! 0 + smod (w ! 1 + smod (w ! 3 + w ! 7) 63) 127) 1024),
     (w ! 8, c_rem (w ! 0 + smod (w ! 1 - 64 + smod (w ! 2 - 32 + smod (w ! 4 - 16 + w ! 8) 31) 63) 127) 1024),
     (w ! 9, c_rem (w ! 0 + smod (w ! 1 + smod (w ! 3 - 32 + smod (w ! 5 - 16 + w ! 9) 31) 63) 127) 1024),
     (w ! 10, c_rem (w ! 0 + smod (w ! 1 - 64 + smod (w ! 2 + smod (w ! 6 - 16 + w ! 10) 31) 63) 127) 1024),
     (w ! 11, c_rem (w ! 0 + smod (w ! 1 + smod (w ! 3 + smod (w ! 7 - 16 + w ! 11) 31) 63) 127) 1024),
     (w ! 12, c_rem (w ! 0 + smod (w ! 1 - 64 + smod (w ! 2 - 32 + smod (w ! 4 + w ! 12) 31) 63) 127) 1024),
     (w ! 13, c_rem (w ! 0 + smod (w ! 1 + smod (w ! 3 - 32 + smod (w ! 5 + w ! 13) 31) 63) 127) 1024),
     (w ! 14, c_rem (w ! 0 + smod (w ! 1 - 64 + smod (w ! 2 + smod (w ! 6 + w ! 14) 31) 63) 127) 1024),
     (w ! 15, c_rem (w ! 0 + smod (w ! 1 + smod (w ! 3 + smod (w ! 7 + w ! 15) 31) 63) 127) 1024),
     (w ! 16, c_rem (w ! 0 + smod (w ! 1 - 64 + smod (w ! 2 - 32 + smod (w ! 4 - 16 + smod (w ! 8 - 8 + w ! 16) 15) 31) 63) 127) 1024),
     (w ! 17, c_rem (w ! 0 + smod (w ! 1 + smod (w ! 3 - 32 + smod (w ! 5 - 16 + smod (w ! 9 - 8 + w ! 17) 15) 31) 63) 127) 1024),
     (w ! 18, c_rem (w ! 0 + smod (w ! 1 - 64 + smod (w ! 2 + smod (w ! 6 - 16 + smod (w ! 10 - 8 + w ! 18) 15) 31) 63) 127) 1024),
     (w ! 19, c_rem (w ! 0 + smod (w ! 1 + smod (w ! 3 + smod (w ! 7 - 16 + smod (w ! 11 - 8 + w ! 19) 15) 31) 63) 127) 1024),
     (w ! 20, c_rem (w ! 0 + smod (w ! 1 - 64 + smod (w ! 2 - 32 + smod (w ! 4 + smod (w ! 12 - 8 + w ! 20) 15) 31) 63) 127) 1024),
     (w ! 21, c_rem (w ! 0 + smod (w ! 1 + smod (w ! 3 - 32 + smod (w ! 5 + smod (w ! 13 - 8 + w ! 21) 15) 31) 63) 127) 1024),
     (w ! 22, c_rem (w ! 0 + smod (w ! 1 - 64 + smod (w ! 2 + smod (w ! 6 + smod (w ! 14 - 8 + w ! 22) 15) 31) 63) 127) 1024),
     (w ! 23, c_rem (w ! 0 + smod (w ! 1 + smod (w ! 3 + smod (w ! 7 + smod (w ! 15 - 8 + w ! 23) 15) 31) 63) 127) 1024),
     (w ! 24, c_rem (w ! 0 + smod (w ! 1 - 64 + smod (w ! 2 - 32 + smod (w ! 4 - 16 + smod (w ! 8 + w ! 24) 15) 31) 63) 127) 1024),
     (w ! 25, c_rem (w ! 0 + smod (w ! 1 + smod (w ! 3 - 32 + smod (w ! 5 - 16 + smod (w ! 9 + w ! 25) 15) 31) 63) 127) 1024),
     (w ! 26, c_rem (w ! 0 + smod (w ! 1 - 64 + smod (w ! 2 + smod (w ! 6 - 16 + smod (w ! 10 + w ! 26) 15) 31) 63) 127) 1024),
     (w ! 27, c_rem (w ! 0 + smod (w ! 1 + smod (w ! 3 + smod (w ! 7 - 16 + smod (w ! 11 + w ! 27) 15) 31) 63) 127) 1024),
     (w ! 28, c_rem (w ! 0 + smod (w ! 1 - 64 + smod (w ! 2 - 32 + smod (w ! 4 + smod (w ! 12 + w ! 28) 15) 31) 63) 127) 1024)]"

definition mark_range :: "u8 \<Rightarrow> (int \<times> int) list \<Rightarrow> u8 list \<Rightarrow> u8 list res" where
  "mark_range frqt = rfold (\<lambda>(v, i) f. if v \<noteq> 0 then mark_arfcn frqt (nat i) f else Inr f)"

definition EINVAL :: int where "EINVAL = 22"

definition gsm48_decode_freq_list :: "u8 list \<Rightarrow> u8 list \<Rightarrow> nat \<Rightarrow> u8 \<Rightarrow> u8 \<Rightarrow> (u8 list \<times> int) res" where
  "gsm48_decode_freq_list f cd len msk frqt =
     rbind (rfold (\<lambda>i f. rbind (rd f i) (\<lambda>m. wr f i (m AND NOT frqt))) [0..<1024] f) (\<lambda>f.
     rbind (rd cd 0) (\<lambda>c0.
     if c0 AND 0xc0 AND msk = 0x00 then
       if len < 16 then Inr (f, - EINVAL)
       else rbind (rfold (\<lambda>i f. rbind (rd cd (15 - (i - 1) div 8)) (\<lambda>b.
                     if bit b ((i - 1) mod 8) then mark_arfcn frqt i f else Inr f)) [1..<125] f) (\<lambda>f.
            Inr (f, 0))
     else if c0 AND 0xc8 AND msk = 0x80 then
       if len < 2 then Inr (f, - EINVAL)
       else rbind (range_fields cd len 6 range_1024_widths) (\<lambda>w.
            rbind (if bit c0 2 then mark_arfcn frqt 0 f else Inr f) (\<lambda>f.
            rbind (mark_range frqt (range_1024_arfcns (0 # w)) f) (\<lambda>f. Inr (f, 0))))
     else if c0 AND 0xce AND msk = 0x88 then
       if len < 4 then Inr (f, - EINVAL)
       else rbind (range_fields cd len 7 range_512_widths) (\<lambda>w.
            rbind (mark_range frqt (range_512_arfcns w) f) (\<lambda>f. Inr (f, 0)))
     else if c0 AND 0xce AND msk = 0x8a then
       if len < 4 then Inr (f, - EINVAL)
       else rbind (range_fields cd len 7 range_256_widths) (\<lambda>w.
            rbind (mark_range frqt (range_256_arfcns w) f) (\<lambda>f. Inr (f, 0)))
     else if c0 AND 0xce AND msk = 0x8c then
       if len < 3 then Inr (f, - EINVAL)
       else rbind (range_fields cd len 7 range_128_widths) (\<lambda>w.
            rbind (mark_range frqt (range_128_arfcns w) f) (\<lambda>f. Inr (f, 0)))
     else if c0 AND 0xce AND msk = 0x8e then
       if len < 3 then Inr (f, - EINVAL)
       else rbind (be_bits cd 7 10) (\<lambda>orig.
            rbind (mark_arfcn frqt orig f) (\<lambda>f.
            rbind (rfold (\<lambda>i f. rbind (rd cd (2 + i div 8)) (\<lambda>b.
                     if bit b (7 - i mod 8) then mark_arfcn frqt ((orig + i) mod 1024) f else Inr f))
                   [1..<8 * (len - 2)] f) (\<lambda>f.
            Inr (f, 0))))
     else Inr (f, 0)))"

section \<open>Lemmas\<close>

lemma smod_bounds [simp]:
  assumes "0 < m"
  shows "0 < smod n m" and "smod n m \<le> m"
proof -
  define a where "a = n mod m"
  define b where "b = (- n) mod m"
  have "0 \<le> a" "a < m" "0 \<le> b" "b < m"
    using assms by (simp_all add: a_def b_def)
  moreover have "smod n m = (let res = (if 0 \<le> n then a else - b) in if res \<le> 0 then res + m else res)"
    by (simp add: smod_def c_rem_def a_def b_def)
  ultimately show "0 < smod n m" "smod n m \<le> m"
    by (auto simp: Let_def)
qed

lemma c_rem_bounds:
  assumes "0 \<le> a" and "0 < m"
  shows "0 \<le> c_rem a m" and "c_rem a m < m"
  using assms by (simp_all add: c_rem_def)

text \<open>Two arrays of masks that differ in the bits \<open>frqt\<close> only.\<close>

definition same_but :: "u8 \<Rightarrow> u8 list \<Rightarrow> u8 list \<Rightarrow> bool" where
  "same_but frqt f f' \<longleftrightarrow> length f' = length f \<and> (\<forall>i < length f. f' ! i AND NOT frqt = f ! i AND NOT frqt)"

lemma same_but_refl [simp]: "same_but frqt f f"
  by (simp add: same_but_def)

lemma same_but_trans: "same_but frqt f g \<Longrightarrow> same_but frqt g h \<Longrightarrow> same_but frqt f h"
  by (simp add: same_but_def)

lemma or_and_not: "(m OR b) AND NOT b = m AND NOT (b :: u8)"
  by (auto simp: bit_eq_iff bit_simps)

lemma and_not_twice: "(m AND NOT b) AND NOT b = m AND NOT (b :: u8)"
  by (auto simp: bit_eq_iff bit_simps)

lemma mark_arfcn_ok [simp]: "i < length f \<Longrightarrow> mark_arfcn frqt i f = Inr (f[i := f ! i OR frqt])"
  by (simp add: mark_arfcn_def)

lemma same_but_mark: "same_but frqt f (f[i := f ! i OR frqt])"
  by (cases "i < length f") (simp_all add: same_but_def nth_list_update or_and_not)

lemma mark_range_ok:
  assumes "\<And>v i. (v, i) \<in> set ps \<Longrightarrow> v \<noteq> 0 \<Longrightarrow> nat i < length f"
  shows "\<exists>f'. mark_range frqt ps f = Inr f' \<and> same_but frqt f f'"
  using assms
proof (induction ps arbitrary: f)
  case (Cons p ps)
  obtain v i where p: "p = (v, i)" by force
  let ?g = "if v \<noteq> 0 then f[nat i := f ! nat i OR frqt] else f"
  have step: "(case p of (v, i) \<Rightarrow> \<lambda>f. if v \<noteq> 0 then mark_arfcn frqt (nat i) f else Inr f) f = Inr ?g"
    using Cons.prems [of v i] p by simp
  have "\<exists>f'. mark_range frqt ps ?g = Inr f' \<and> same_but frqt ?g f'"
    using Cons.prems by (intro Cons.IH) auto
  moreover have "same_but frqt f ?g" by (simp add: same_but_mark)
  ultimately show ?case
    using step by (auto simp: mark_range_def intro: same_but_trans)
qed (simp add: mark_range_def)

lemma be_bits_ok:
  assumes "pos + n \<le> 8 * length cd"
  shows "\<exists>v. be_bits cd pos n = Inr v \<and> v < 2 ^ n"
proof -
  let ?P = "\<lambda>i (a :: nat). a < 2 ^ (i - pos)"
  have "\<exists>v. be_bits cd pos n = Inr v \<and> ?P (pos + n) v"
    unfolding be_bits_def
  proof (rule rfold_upt_from_rule [where P = ?P])
    fix i and a :: nat
    assume i: "pos \<le> i" "i < pos + n" and a: "a < 2 ^ (i - pos)"
    then have "i div 8 < length cd" using assms by simp
    moreover have "2 * a + of_bool b < 2 ^ (Suc i - pos)" for b
      using a i by (cases b) (simp_all add: Suc_diff_le)
    ultimately show "\<exists>s'. rbind (rd cd (i div 8)) (\<lambda>b. Inr (2 * a + of_bool (bit b (7 - i mod 8)))) = Inr s' \<and> ?P (Suc i) s'"
      by simp
  qed simp_all
  then show ?thesis by simp
qed

lemma range_fields_ok:
  assumes "len \<le> length cd"
  shows "\<exists>w. range_fields cd len pos ns = Inr w \<and> length w = length ns
          \<and> (\<forall>k < length ns. 0 \<le> w ! k \<and> w ! k < 2 ^ (ns ! k))"
proof (induction ns arbitrary: pos)
  case (Cons n ns)
  have "\<exists>v. (if pos + n \<le> 8 * len then be_bits cd pos n else Inr 0) = Inr v \<and> v < 2 ^ n"
    using be_bits_ok [of pos n cd] assms by auto
  then obtain v where v: "(if pos + n \<le> 8 * len then be_bits cd pos n else Inr 0) = Inr v" "v < 2 ^ n" by blast
  from Cons.IH [of "pos + n"] obtain w where w: "range_fields cd len (pos + n) ns = Inr w" "length w = length ns"
    "\<forall>k < length ns. 0 \<le> w ! k \<and> w ! k < 2 ^ (ns ! k)" by blast
  have "0 \<le> (int v # w) ! k \<and> (int v # w) ! k < 2 ^ ((n # ns) ! k)" if "k < length (n # ns)" for k
    using that w v(2) by (cases k) (auto simp flip: of_nat_power)
  then show ?case using v(1) w by (simp del: nth_Cons_Suc)
qed simp

lemma clear_masks:
  assumes "length f = 1024"
  shows "rfold (\<lambda>i f. rbind (rd f i) (\<lambda>m. wr f i (m AND NOT frqt))) [0..<1024] f = Inr (map (\<lambda>m. m AND NOT frqt) f)"
proof -
  let ?P = "\<lambda>i s. s = map (\<lambda>m. m AND NOT frqt) (take i f) @ drop i f"
  have "\<exists>s. rfold (\<lambda>i f. rbind (rd f i) (\<lambda>m. wr f i (m AND NOT frqt))) [0..<1024] f = Inr s \<and> ?P 1024 s"
  proof (rule rfold_upt_rule [where P = ?P])
    fix i s
    assume i: "i < (1024 :: nat)" and s: "?P i s"
    then have "drop i f = f ! i # drop (Suc i) f" "take (Suc i) f = take i f @ [f ! i]"
      using assms by (simp_all add: Cons_nth_drop_Suc take_Suc_conv_app_nth)
    with s i assms show "\<exists>s'. rbind (rd s i) (\<lambda>m. wr s i (m AND NOT frqt)) = Inr s' \<and> ?P (Suc i) s'"
      by (simp add: nth_append list_update_append)
  qed simp
  then show ?thesis using assms by simp
qed

text \<open>A loop that marks one frequency per round for which the bit is set.\<close>

lemma mark_loop:
  assumes "length f = 1024" and "m \<le> n" and "\<And>i. m \<le> i \<Longrightarrow> i < n \<Longrightarrow> t i < 1024"
    and "\<And>i f. m \<le> i \<Longrightarrow> i < n \<Longrightarrow> body i f = (if P i then mark_arfcn frqt (t i) f else Inr f)"
  shows "rfold body [m..<n] f = Inr (map (\<lambda>a. f ! a OR (if \<exists>i. m \<le> i \<and> i < n \<and> P i \<and> t i = a then frqt else 0)) [0..<1024])"
proof -
  let ?S = "\<lambda>k. map (\<lambda>a. f ! a OR (if \<exists>i. m \<le> i \<and> i < k \<and> P i \<and> t i = a then frqt else 0)) [0..<1024]"
  have "\<exists>s. rfold body [m..<n] f = Inr s \<and> s = ?S n"
  proof (rule rfold_upt_from_rule [where P = "\<lambda>k s. s = ?S k"])
    show "f = ?S m" by (rule nth_equalityI) (use assms(1) in auto)
    fix i s
    assume i: "m \<le> i" "i < n" and s: "s = ?S i"
    have "?S (Suc i) = (if P i then s[t i := s ! t i OR frqt] else s)"
    proof (rule nth_equalityI)
      fix a
      assume "a < length (?S (Suc i))"
      then show "?S (Suc i) ! a = (if P i then s[t i := s ! t i OR frqt] else s) ! a"
        using i assms(3) [OF i] by (auto simp: s nth_list_update less_Suc_eq or.assoc)
    qed (simp add: s)
    moreover have "body i s = Inr (if P i then s[t i := s ! t i OR frqt] else s)"
      using assms(3) [OF i] assms(4) [OF i, of s] by (simp add: s)
    ultimately show "\<exists>s'. body i s = Inr s' \<and> s' = ?S (Suc i)" by simp
  qed (rule assms(2))
  then show ?thesis by simp
qed

text \<open>The frequencies of the range formats are inside the array.\<close>

lemma range_index:
  "0 \<le> (a :: int) \<Longrightarrow> 0 < m \<Longrightarrow> nat (c_rem (a + smod n m) 1024) < 1024"
  using c_rem_bounds [of "a + smod n m" 1024] smod_bounds(1) [of m n] by linarith

lemma range_index_root: "0 \<le> (a :: int) \<Longrightarrow> 0 \<le> b \<Longrightarrow> nat (c_rem (a + b) 1024) < 1024"
  using c_rem_bounds [of "a + b" 1024] by linarith

lemma smod_index: "0 < m \<Longrightarrow> m \<le> 1023 \<Longrightarrow> nat (smod n m) < 1024"
  using smod_bounds(2) [of m n] by linarith

lemma range_1024_inside:
  assumes "0 \<le> w ! 1" and "w ! 1 < 1024" and "(v, i) \<in> set (range_1024_arfcns w)"
  shows "nat i < 1024"
  using assms by (auto simp: range_1024_arfcns_def smod_index)

lemma range_512_inside:
  assumes "0 \<le> w ! 0" and "w ! 0 < 1024" and "0 \<le> w ! 1" and "(v, i) \<in> set (range_512_arfcns w)"
  shows "nat i < 1024"
  using assms by (auto simp: range_512_arfcns_def range_index range_index_root)

lemma range_256_inside:
  assumes "0 \<le> w ! 0" and "w ! 0 < 1024" and "0 \<le> w ! 1" and "(v, i) \<in> set (range_256_arfcns w)"
  shows "nat i < 1024"
  using assms by (auto simp: range_256_arfcns_def range_index range_index_root)

lemma range_128_inside:
  assumes "0 \<le> w ! 0" and "w ! 0 < 1024" and "0 \<le> w ! 1" and "(v, i) \<in> set (range_128_arfcns w)"
  shows "nat i < 1024"
  using assms by (auto simp: range_128_arfcns_def range_index range_index_root)

lemma mark_fields_ok:
  assumes "len \<le> length cd" and "length f = 1024"
    and "\<And>w v i. length w = length ns \<Longrightarrow> \<forall>k < length ns. 0 \<le> w ! k \<and> w ! k < 2 ^ (ns ! k) \<Longrightarrow>
           (v, i) \<in> set (arfcns w) \<Longrightarrow> nat i < 1024"
  shows "\<exists>f'. rbind (range_fields cd len pos ns) (\<lambda>w. rbind (mark_range frqt (arfcns w) f) (\<lambda>f. Inr (f, 0))) = Inr (f', 0 :: int)
           \<and> same_but frqt f f'"
proof -
  from range_fields_ok [OF assms(1)] obtain w where w: "range_fields cd len pos ns = Inr w" "length w = length ns"
    "\<forall>k < length ns. 0 \<le> w ! k \<and> w ! k < 2 ^ (ns ! k)" by blast
  with assms(2,3) have "\<exists>f'. mark_range frqt (arfcns w) f = Inr f' \<and> same_but frqt f f'"
    by (intro mark_range_ok) auto
  with w(1) show ?thesis by auto
qed

lemma range_512_marks:
  assumes "len \<le> length cd" and "length f = 1024"
  shows "\<exists>f'. rbind (range_fields cd len 7 range_512_widths) (\<lambda>w. rbind (mark_range frqt (range_512_arfcns w) f) (\<lambda>f. Inr (f, 0)))
           = Inr (f', 0 :: int) \<and> same_but frqt f f'"
  by (rule mark_fields_ok [OF assms]) (erule range_512_inside [rotated 3], auto simp: range_512_widths_def)

lemma range_256_marks:
  assumes "len \<le> length cd" and "length f = 1024"
  shows "\<exists>f'. rbind (range_fields cd len 7 range_256_widths) (\<lambda>w. rbind (mark_range frqt (range_256_arfcns w) f) (\<lambda>f. Inr (f, 0)))
           = Inr (f', 0 :: int) \<and> same_but frqt f f'"
  by (rule mark_fields_ok [OF assms]) (erule range_256_inside [rotated 3], auto simp: range_256_widths_def)

lemma range_128_marks:
  assumes "len \<le> length cd" and "length f = 1024"
  shows "\<exists>f'. rbind (range_fields cd len 7 range_128_widths) (\<lambda>w. rbind (mark_range frqt (range_128_arfcns w) f) (\<lambda>f. Inr (f, 0)))
           = Inr (f', 0 :: int) \<and> same_but frqt f f'"
  by (rule mark_fields_ok [OF assms]) (erule range_128_inside [rotated 3], auto simp: range_128_widths_def)

text \<open>The result of the bit map formats, from an array of masks with the bit cleared.\<close>

definition marked :: "u8 \<Rightarrow> u8 list \<Rightarrow> (nat \<Rightarrow> bool) \<Rightarrow> u8 list" where
  "marked frqt f P = map (\<lambda>a. (f ! a AND NOT frqt) OR (if P a then frqt else 0)) [0..<1024]"

lemma same_but_marked: "length f = 1024 \<Longrightarrow> same_but frqt f (marked frqt f P)"
  by (auto simp: same_but_def marked_def or_and_not and_not_twice)

lemma same_but_cleared: "same_but frqt f (map (\<lambda>m. m AND NOT frqt) f)"
  by (simp add: same_but_def and_not_twice)

lemma bitmap_0:
  assumes "length f = 1024" and "16 \<le> length cd"
  shows "rfold (\<lambda>i f. rbind (rd cd (15 - (i - 1) div 8)) (\<lambda>b. if bit b ((i - 1) mod 8) then mark_arfcn frqt i f else Inr f))
           [1..<125] (map (\<lambda>m. m AND NOT frqt) f)
         = Inr (marked frqt f (\<lambda>a. 1 \<le> a \<and> a \<le> 124 \<and> bit (cd ! (15 - (a - 1) div 8)) ((a - 1) mod 8)))"
  by (subst mark_loop [where P = "\<lambda>i. bit (cd ! (15 - (i - 1) div 8)) ((i - 1) mod 8)" and t = "\<lambda>i. i" and frqt = frqt])
    (use assms in \<open>auto simp: marked_def intro!: arg_cong2 [where f = "(OR)"]\<close>)

lemma variable_bitmap:
  assumes "length f = 1024" and "len \<le> length cd" and "3 \<le> len" and "orig < 1024"
  shows "rbind (mark_arfcn frqt orig (map (\<lambda>m. m AND NOT frqt) f)) (rfold (\<lambda>i f. rbind (rd cd (2 + i div 8)) (\<lambda>b.
             if bit b (7 - i mod 8) then mark_arfcn frqt ((orig + i) mod 1024) f else Inr f)) [1..<8 * (len - 2)])
         = Inr (marked frqt f (\<lambda>a. a = orig \<or> (\<exists>i. 1 \<le> i \<and> i < 8 * (len - 2) \<and> bit (cd ! (2 + i div 8)) (7 - i mod 8)
                  \<and> (orig + i) mod 1024 = a)))"
proof -
  let ?f = "(map (\<lambda>m. m AND NOT frqt) f)[orig := (f ! orig AND NOT frqt) OR frqt]"
  have "2 + i div 8 < length cd" if "i < 8 * (len - 2)" for i using that assms(2,3) by linarith
  then have "rfold (\<lambda>i f. rbind (rd cd (2 + i div 8)) (\<lambda>b.
       if bit b (7 - i mod 8) then mark_arfcn frqt ((orig + i) mod 1024) f else Inr f)) [1..<8 * (len - 2)] ?f
    = Inr (map (\<lambda>a. ?f ! a OR (if \<exists>i. 1 \<le> i \<and> i < 8 * (len - 2) \<and> bit (cd ! (2 + i div 8)) (7 - i mod 8)
             \<and> (orig + i) mod 1024 = a then frqt else 0)) [0..<1024])"
    by (intro mark_loop) (use assms(1,3) in auto)
  with assms(1,4) show ?thesis
    by (auto simp: marked_def nth_list_update or.assoc)
qed

definition variable_format :: "u8 list \<Rightarrow> u8 \<Rightarrow> bool" where
  "variable_format cd msk \<longleftrightarrow> cd ! 0 AND 0xc0 AND msk \<noteq> 0x00 \<and> cd ! 0 AND 0xc8 AND msk \<noteq> 0x80
     \<and> cd ! 0 AND 0xce AND msk = 0x8e"

lemma decode_bitmap_0:
  assumes "length f = 1024" and "16 \<le> len" and "len \<le> length cd" and "cd ! 0 AND 0xc0 AND msk = 0x00"
  shows "gsm48_decode_freq_list f cd len msk frqt
    = Inr (marked frqt f (\<lambda>a. 1 \<le> a \<and> a \<le> 124 \<and> bit (cd ! (15 - (a - 1) div 8)) ((a - 1) mod 8)), 0)"
proof -
  have "16 \<le> length cd" "0 < length cd" using assms(2,3) by linarith+
  then show ?thesis
    unfolding gsm48_decode_freq_list_def clear_masks [OF assms(1)] rbind_Inr
    using assms(2,4) bitmap_0 [OF assms(1), of cd frqt] by simp
qed

lemma decode_variable:
  assumes "length f = 1024" and "3 \<le> len" and "len \<le> length cd" and "variable_format cd msk"
    and "be_bits cd 7 10 = Inr orig" and "orig < 1024"
  shows "gsm48_decode_freq_list f cd len msk frqt
    = Inr (marked frqt f (\<lambda>a. a = orig \<or> (\<exists>i. 1 \<le> i \<and> i < 8 * (len - 2) \<and> bit (cd ! (2 + i div 8)) (7 - i mod 8)
             \<and> (orig + i) mod 1024 = a)), 0)"
proof -
  have "0 < length cd" using assms(2,3) by (cases cd) auto
  then show ?thesis
    unfolding gsm48_decode_freq_list_def clear_masks [OF assms(1)] rbind_Inr
    using assms(2,4,5) variable_bitmap [OF assms(1,3,2,6), of frqt]
    by (simp add: variable_format_def flip: rbind_assoc)
qed


lemma freq_list_ok:
  assumes "length f = 1024" and "len \<le> length cd" and "cd \<noteq> []"
  shows "\<exists>f' rc. gsm48_decode_freq_list f cd len msk frqt = Inr (f', rc) \<and> same_but frqt f f'"
proof -
  let ?g = "map (\<lambda>m. m AND NOT frqt) f"
  have g: "length ?g = 1024" using assms(1) by simp
  have tr: "same_but frqt f f'" if "same_but frqt ?g f'" for f'
    using that same_but_cleared same_but_trans by blast
  let ?h = "if bit (cd ! 0) 2 then ?g[0 := ?g ! 0 OR frqt] else ?g"
  have h: "length ?h = 1024" "same_but frqt ?g ?h" "0 < length ?g"
    using assms(1) same_but_mark [of frqt ?g 0] by simp_all
  then have h2: "(if bit (cd ! 0) 2 then mark_arfcn frqt 0 ?g else Inr ?g) = Inr ?h" by simp
  have "\<exists>f'. rbind (range_fields cd len 6 range_1024_widths)
     (\<lambda>w. rbind (mark_range frqt (range_1024_arfcns (0 # w)) ?h) (\<lambda>f. Inr (f, 0))) = Inr (f', 0 :: int) \<and> same_but frqt ?h f'"
    by (rule mark_fields_ok [OF assms(2) h(1)]) (erule range_1024_inside [rotated 2], auto simp: range_1024_widths_def)
  then obtain f1 where f1: "rbind (range_fields cd len 6 range_1024_widths)
     (\<lambda>w. rbind (mark_range frqt (range_1024_arfcns (0 # w)) ?h) (\<lambda>f. Inr (f, 0))) = Inr (f1, 0 :: int)" "same_but frqt f f1"
    using h(2) tr same_but_trans by blast
  obtain f2 where f2: "rbind (range_fields cd len 7 range_512_widths)
     (\<lambda>w. rbind (mark_range frqt (range_512_arfcns w) ?g) (\<lambda>f. Inr (f, 0))) = Inr (f2, 0 :: int)" "same_but frqt f f2"
    using range_512_marks [OF assms(2) g] tr by blast
  obtain f3 where f3: "rbind (range_fields cd len 7 range_256_widths)
     (\<lambda>w. rbind (mark_range frqt (range_256_arfcns w) ?g) (\<lambda>f. Inr (f, 0))) = Inr (f3, 0 :: int)" "same_but frqt f f3"
    using range_256_marks [OF assms(2) g] tr by blast
  obtain f4 where f4: "rbind (range_fields cd len 7 range_128_widths)
     (\<lambda>w. rbind (mark_range frqt (range_128_arfcns w) ?g) (\<lambda>f. Inr (f, 0))) = Inr (f4, 0 :: int)" "same_but frqt f f4"
    using range_128_marks [OF assms(2) g] tr by blast
  consider (bitmap) "cd ! 0 AND 0xc0 AND msk = 0x00" "16 \<le> len" | (var) "variable_format cd msk" "3 \<le> len"
    | (other) "cd ! 0 AND 0xc0 AND msk = 0x00 \<Longrightarrow> len < 16" "variable_format cd msk \<Longrightarrow> len < 3" by fastforce
  then show ?thesis
  proof cases
    case bitmap
    then show ?thesis using assms by (simp add: decode_bitmap_0 same_but_marked)
  next
    case var
    with assms obtain orig where "be_bits cd 7 10 = Inr orig" "orig < 1024"
      using be_bits_ok [of 7 10 cd] by auto
    with var assms show ?thesis by (simp add: decode_variable same_but_marked)
  next
    case other
    show ?thesis
    proof (cases "variable_format cd msk")
      case True
      with other(2) assms(3) same_but_cleared [of frqt f] show ?thesis
        unfolding gsm48_decode_freq_list_def clear_masks [OF assms(1)] by (simp add: variable_format_def)
    next
      case False
      with other(1) assms(3) f1 f2 f3 f4 same_but_cleared [of frqt f] h2 show ?thesis
        unfolding gsm48_decode_freq_list_def clear_masks [OF assms(1)] by (simp add: variable_format_def) blast
    qed
  qed
qed


section \<open>Properties\<close>

text \<open>
  C38. Decoding a frequency list never leaves the array of 1024 masks or the list itself, whatever
  the octets are: for every format and every length that the buffer has, it returns, and it
  changes no bit of the masks except \<open>frqt\<close>.
\<close>

theorem freq_list_safe:
  assumes "length f = 1024" and "len \<le> length cd" and "cd \<noteq> []"
  shows "\<exists>f' rc. gsm48_decode_freq_list f cd len msk frqt = Inr (f', rc) \<and> same_but frqt f f'"
  by (rule freq_list_ok [OF assms])

theorem freq_list_safe_witness:
  "\<exists>f' rc. gsm48_decode_freq_list (replicate 1024 0) [0x8e, 0x01, 0x40] 3 0xff 2 = Inr (f', rc)
     \<and> same_but 2 (replicate 1024 0) f'"
  by (rule freq_list_safe) simp_all

text \<open>
  The bit map formats are decoded exactly.  In the bit map 0 format a frequency is marked if and
  only if it is one of 1 to 124 and its bit is set; in the variable bit map format if and only if
  it is the origin or the origin plus the offset of a set bit, modulo 1024.  Nothing stays marked
  from before.
\<close>

theorem freq_list_bitmaps:
  assumes "length f = 1024" and "len \<le> length cd"
  shows "(16 \<le> len \<and> cd ! 0 AND 0xc0 AND msk = 0x00 \<longrightarrow>
      gsm48_decode_freq_list f cd len msk frqt
      = Inr (marked frqt f (\<lambda>a. 1 \<le> a \<and> a \<le> 124 \<and> bit (cd ! (15 - (a - 1) div 8)) ((a - 1) mod 8)), 0))
    \<and> (3 \<le> len \<and> variable_format cd msk \<longrightarrow>
      (\<exists>orig < 1024. be_bits cd 7 10 = Inr orig \<and> gsm48_decode_freq_list f cd len msk frqt
      = Inr (marked frqt f (\<lambda>a. a = orig \<or> (\<exists>i. 1 \<le> i \<and> i < 8 * (len - 2) \<and> bit (cd ! (2 + i div 8)) (7 - i mod 8)
             \<and> (orig + i) mod 1024 = a)), 0)))" (is "?bitmap0 \<and> ?variable")
proof
  show ?bitmap0
    using decode_bitmap_0 [OF assms(1) _ assms(2)] by simp
  show ?variable
  proof
    assume 3: "3 \<le> len \<and> variable_format cd msk"
    with assms obtain orig where "be_bits cd 7 10 = Inr orig" "orig < 1024"
      using be_bits_ok [of 7 10 cd] by auto
    with decode_variable [OF assms(1) _ assms(2)] 3 show "\<exists>orig < 1024. be_bits cd 7 10 = Inr orig
        \<and> gsm48_decode_freq_list f cd len msk frqt
        = Inr (marked frqt f (\<lambda>a. a = orig \<or> (\<exists>i. 1 \<le> i \<and> i < 8 * (len - 2) \<and> bit (cd ! (2 + i div 8)) (7 - i mod 8)
               \<and> (orig + i) mod 1024 = a)), 0)" by blast
  qed
qed

theorem freq_list_bitmaps_witness:
  "gsm48_decode_freq_list (replicate 1024 7) (replicate 15 0 @ [0x05]) 16 0xff 2
     = Inr (marked 2 (replicate 1024 7) (\<lambda>a. 1 \<le> a \<and> a \<le> 124
              \<and> bit ((replicate 15 0 @ [0x05 :: u8]) ! (15 - (a - 1) div 8)) ((a - 1) mod 8)), 0)
   \<and> (\<exists>orig < 1024. be_bits [0x8e, 0x01, 0x40] 7 10 = Inr orig
        \<and> gsm48_decode_freq_list (replicate 1024 7) [0x8e, 0x01, 0x40] 3 0xff 2
          = Inr (marked 2 (replicate 1024 7) (\<lambda>a. a = orig \<or> (\<exists>i. 1 \<le> i \<and> i < 8 * (3 - 2)
              \<and> bit ([0x8e, 0x01, 0x40 :: u8] ! (2 + i div 8)) (7 - i mod 8) \<and> (orig + i) mod 1024 = a)), 0))"
  using freq_list_bitmaps [where f = "replicate 1024 7" and len = 16 and cd = "replicate 15 0 @ [0x05]" and msk = "0xff" and frqt = 2]
    freq_list_bitmaps [where f = "replicate 1024 7" and len = 3 and cd = "[0x8e, 0x01, 0x40]" and msk = "0xff" and frqt = 2]
  by (simp add: variable_format_def nth_append)

text \<open>
  The definition of the range formats in TS 04.08 (annex on the encoding of the frequency list):
  the fields form a binary tree, field 1 being the root.  Field \<open>k\<close> on level \<open>m\<close> has a parent on the
  level above; in the left half of its level its value counts from the parent minus half of the
  range of that level, in the right half from the parent, modulo the range.  The climb to the root
  gives the frequency.
\<close>

function range_climb :: "int list \<Rightarrow> int \<Rightarrow> nat \<Rightarrow> nat \<Rightarrow> int \<Rightarrow> int" where
  "range_climb w rng m k x =
     (if m = 0 then x
      else let h = 2 ^ (m - 1); r = rng div 2 ^ (m - 1);
               (p, d) = (if k < 2 ^ m + h then (k - h, r div 2) else (k - 2 ^ m, 0))
           in range_climb w rng (m - 1) p (smod (w ! p - d + x) (r - 1)))"
  by pat_completeness auto
termination
  by (relation "measure (\<lambda>(w, rng, m, k, x). m)") auto

fun level :: "nat \<Rightarrow> nat" where
  "level k = (if k \<le> 1 then 0 else Suc (level (k div 2)))"

definition range_arfcn :: "int list \<Rightarrow> int \<Rightarrow> nat \<Rightarrow> int" where
  "range_arfcn w rng k = range_climb w rng (level k) k (w ! k)"

declare range_climb.simps [simp del] level.simps [simp del]

text \<open>
  C39. The formulas that the code writes out for every field of the range formats are the
  frequencies of the tree: for range 1024 the frequency itself, for the other ranges the offset
  from the origin modulo 1024.
\<close>

theorem range_formulas:
  "range_1024_arfcns w = map (\<lambda>k. (w ! k, range_arfcn w 1024 k)) [1..<17]
   \<and> range_512_arfcns w = (1, w ! 0) # map (\<lambda>k. (w ! k, c_rem (w ! 0 + range_arfcn w 512 k) 1024)) [1..<18]
   \<and> range_256_arfcns w = (1, w ! 0) # map (\<lambda>k. (w ! k, c_rem (w ! 0 + range_arfcn w 256 k) 1024)) [1..<22]
   \<and> range_128_arfcns w = (1, w ! 0) # map (\<lambda>k. (w ! k, c_rem (w ! 0 + range_arfcn w 128 k) 1024)) [1..<29]"
  by (intro conjI) (simp_all add: range_1024_arfcns_def range_512_arfcns_def range_256_arfcns_def range_128_arfcns_def
      range_arfcn_def level.simps range_climb.simps upt_eval)

end
