(* ===== verification/Assignment.thy ===== *)
theory Assignment
  imports State Osmo Freq_List
begin

text \<open>
  Channel assignment and handover commands (\<open>gsm-parser/assignment.c\<close>).  \<open>parse_assignment\<close> gets
  the message as a pointer into its buffer (the suffix \<open>dtap\<close>), fills a \<open>gsm_assignment\<close> and updates
  the frequencies of the cell.
\<close>

section \<open>Definitions\<close>

text \<open>
  Access relative to a pointer \<open>v\<close> into \<open>buf\<close>, with an index that may be negative: the cell is
  still in the message as long as it is not in front of it.
\<close>

definition rd_rel :: "u8 list \<Rightarrow> u8 list \<Rightarrow> int \<Rightarrow> u8 res" where
  "rd_rel buf v k = (let p = int (length buf) - int (length v) + k
     in if p < 0 then Inl OutOfBounds else rd buf (nat p))"

text \<open>\<open>ga->h1.ma[ga->h1.ma_len++] = arfcn\<close>\<close>

definition push_ma :: "u16 \<Rightarrow> gsm_assignment \<Rightarrow> gsm_assignment res" where
  "push_ma arfcn ga = rbind (wr (ga_ma ga) (ga_ma_len ga) arfcn) (\<lambda>ma.
     Inr (ga\<lparr>ga_ma := ma, ga_ma_len := ga_ma_len ga + 1\<rparr>))"

text \<open>The hopping sequence from a mobile allocation, a bit map over the frequencies of the cell.\<close>

definition ma_from_bitmap :: "u8 list \<Rightarrow> u8 list \<Rightarrow> u8 list \<Rightarrow> nat \<Rightarrow> u8 \<Rightarrow> gsm_assignment \<Rightarrow> gsm_assignment res" where
  "ma_from_bitmap dtap cell_arfcns ma ma_len msk ga =
     rbind (rfold (\<lambda>i (ga, j).
        rbind (rd cell_arfcns (i mod 1024)) (\<lambda>m.
        if nz (m AND msk)
        then rbind (rd_rel dtap ma (int ma_len - int (j div 8) - 1)) (\<lambda>b.
             rbind (if bit b (j mod 8) then push_ma (of_nat (i mod 1024)) ga else Inr ga) (\<lambda>ga.
             Inr (ga, j + 1)))
        else Inr (ga, j))) [1..<1025] (ga, 0 :: nat)) (\<lambda>(ga, j).
     if ga_ma_len ga = 0
     then rfold (\<lambda>i ga. rbind (rd ma (i div 8)) (\<lambda>b.
            Inr (if bit b (i mod 8) then ga\<lparr>ga_ma_len := ga_ma_len ga + 1\<rparr> else ga))) [0..<ma_len * 8] ga
     else Inr ga)"

text \<open>The hopping sequence of all marked frequencies.\<close>

definition ma_from_list :: "u8 list \<Rightarrow> u8 \<Rightarrow> gsm_assignment \<Rightarrow> gsm_assignment res" where
  "ma_from_list cell_arfcns msk =
     rfold (\<lambda>i ga. rbind (rd cell_arfcns (i mod 1024)) (\<lambda>m.
       if nz (m AND msk) then push_ma (of_nat (i mod 1024)) ga else Inr ga)) [1..<1025]"

text \<open>
  The frequencies that the message selects: the array, the mobile allocation with its length (if
  there is one) and the mask.
\<close>

definition assignment_freqs ::
  "tlv_parsed \<Rightarrow> u8 list \<Rightarrow> (u8 list \<times> (u8 list \<times> nat) option \<times> u8) res" where
  "assignment_freqs tp cell_arfcns =
     (case tp GSM48_IE_CELL_CH_DESC of
        Some (l, v) \<Rightarrow> rbind (gsm48_decode_freq_list cell_arfcns v (l mod 256) 0xff 0x02) (\<lambda>(f, rc). Inr (f, None, 0x02))
      | None \<Rightarrow> (case tp GSM48_IE_MA_AFTER of
        Some (l, v) \<Rightarrow> Inr (cell_arfcns, Some (v, l mod 256), 0x01)
      | None \<Rightarrow> (case tp GSM48_IE_FREQ_L_AFTER of
        Some (l, v) \<Rightarrow> rbind (gsm48_decode_freq_list cell_arfcns v (l mod 256) 0xff 0x04) (\<lambda>(f, rc). Inr (f, None, 0x04))
      | None \<Rightarrow> rbind (rfold (\<lambda>i (f, msk). rbind (rd f i) (\<lambda>m.
                  let m = m AND NOT 0x02 in
                  if nz (m AND 0x01) then rbind (wr f i (m OR 0x02)) (\<lambda>f. Inr (f, 0x02))
                  else rbind (wr f i m) (\<lambda>f. Inr (f, msk)))) [0..<1024] (cell_arfcns, 0)) (\<lambda>(f, msk).
                Inr (f, None, msk)))))"

text \<open>The channel description \<open>cd\<close> of three octets.\<close>

definition assignment_channel ::
  "u8 list \<Rightarrow> u8 list \<Rightarrow> u8 list \<Rightarrow> (u8 list \<times> nat) option \<Rightarrow> u8 \<Rightarrow> gsm_assignment \<Rightarrow> gsm_assignment res" where
  "assignment_channel dtap cd cell_arfcns ma msk ga =
     rbind (rd cd 0) (\<lambda>c0. rbind (rd cd 1) (\<lambda>c1. rbind (rd cd 2) (\<lambda>c2.
     let ga = ga\<lparr>ga_h := of_bool (bit c1 4), ga_chan_nr := int (unat c0)\<rparr> in
     if \<not> bit c1 4
     then Inr (ga\<lparr>ga_tsc := int (unat (drop_bit 5 c1)), ga_band_arfcn := int (unat c2 + 256 * unat (c1 AND 3))\<rparr>)
     else let ga = ga\<lparr>ga_tsc := int (unat (drop_bit 5 c1)), ga_maio := int (unat (drop_bit 6 c2) + 4 * unat (c1 AND 0xf)),
                      ga_hsn := int (unat (c2 AND 0x3f))\<rparr>
          in case ma of
               Some (v, l) \<Rightarrow> if l = 0 then Inr ga else ma_from_bitmap dtap cell_arfcns v l msk ga
             | None \<Rightarrow> ma_from_list cell_arfcns msk ga)))"

text \<open>
  The body after the header: \<open>off\<close> is the offset of the channel description, \<open>pay\<close> that of the
  optional elements.
\<close>

definition assignment_body ::
  "u8 list \<Rightarrow> nat \<Rightarrow> nat \<Rightarrow> nat \<Rightarrow> u8 list \<Rightarrow> gsm_assignment \<Rightarrow> (gsm_assignment \<times> u8 list) res" where
  "assignment_body dtap len off pay cell_arfcns ga =
     (if len = pay then Inr (ga, cell_arfcns)
      else rbind (tlv_parse gsm48_rr_att_tlvdef (drop pay dtap) (int len - int pay)) (\<lambda>(n, tp).
           rbind (assignment_freqs tp cell_arfcns) (\<lambda>(cell_arfcns, ma, msk).
           rbind (case tp GSM48_IE_CHANMODE_1 of Some (l, v) \<Rightarrow> rbind (rd v 0) (\<lambda>b. Inr (ga\<lparr>ga_chan_mode := int (unat b)\<rparr>))
                  | None \<Rightarrow> Inr ga) (\<lambda>ga.
           rbind (case tp GSM48_IE_MUL_RATE_CFG of Some (l, v) \<Rightarrow> rbind (rd v 1) (\<lambda>b. Inr (ga\<lparr>ga_rate_conf := int (unat b)\<rparr>))
                  | None \<Rightarrow> Inr ga) (\<lambda>ga.
           rbind (assignment_channel dtap (drop off dtap) cell_arfcns ma msk ga) (\<lambda>ga.
           Inr (ga, cell_arfcns)))))))"

definition parse_assignment :: "u8 list \<Rightarrow> nat \<Rightarrow> u8 list \<Rightarrow> (gsm_assignment \<times> u8 list) res" where
  "parse_assignment dtap len cell_arfcns =
     rbind (rd dtap 1) (\<lambda>msg_type.
     if msg_type = 0x2b then
       if len < 9 then Inr (zero_assignment, cell_arfcns)
       else rbind (rd dtap 2) (\<lambda>d0. rbind (rd dtap 3) (\<lambda>d1.
            assignment_body dtap len 4 9 cell_arfcns
              (zero_assignment\<lparr>ga_bcch_arfcn := ucast d1 OR push_bit 8 (ucast (drop_bit 6 d0))\<rparr>)))
     else if msg_type = 0x2e then
       if len < 6 then Inr (zero_assignment, cell_arfcns)
       else assignment_body dtap len 2 6 cell_arfcns zero_assignment
     else Inr (zero_assignment, cell_arfcns))"

section \<open>Lemmas\<close>

text \<open>A hopping sequence with more entries.\<close>

definition pushed :: "u16 list \<Rightarrow> gsm_assignment \<Rightarrow> gsm_assignment" where
  "pushed xs ga = ga\<lparr>ga_ma := take (ga_ma_len ga) (ga_ma ga) @ xs @ drop (ga_ma_len ga + length xs) (ga_ma ga),
     ga_ma_len := ga_ma_len ga + length xs\<rparr>"

definition room :: "gsm_assignment \<Rightarrow> nat" where
  "room ga = length (ga_ma ga) - ga_ma_len ga"

lemma pushed_Nil [simp]: "pushed [] ga = ga"
  by (simp add: pushed_def)

lemma push_ma_room: "push_ma x ga = (if 0 < room ga then Inr (pushed [x] ga) else Inl OutOfBounds)"
  by (simp add: push_ma_def pushed_def room_def wr_def upd_conv_take_nth_drop)

lemma room_pushed: "length xs \<le> room ga \<Longrightarrow> room (pushed xs ga) = room ga - length xs"
  by (auto simp: room_def pushed_def)

lemma pushed_pushed:
  assumes "length xs + length ys \<le> room ga"
  shows "pushed ys (pushed xs ga) = pushed (xs @ ys) ga"
proof (cases "ga_ma_len ga \<le> length (ga_ma ga)")
  case True
  with assms show ?thesis
    by (simp add: pushed_def room_def ac_simps min_def)
qed (use assms in \<open>simp add: room_def\<close>)

lemma push_all:
  assumes "\<And>i ga. i \<in> set ns \<Longrightarrow> body i ga = (if P i then push_ma (t i) ga else Inr ga)"
  shows "rfold body ns ga = (if length (filter P ns) \<le> room ga then Inr (pushed (map t (filter P ns)) ga) else Inl OutOfBounds)"
  using assms
proof (induction ns arbitrary: ga)
  case (Cons i ns)
  then have IH: "rfold body ns g = (if length (filter P ns) \<le> room g then Inr (pushed (map t (filter P ns)) g) else Inl OutOfBounds)" for g
    by simp
  show ?case
  proof (cases "P i \<and> 0 < room ga")
    case True
    then have "room (pushed [t i] ga) = room ga - 1" by (simp add: room_pushed)
    with True Cons.prems [of i ga] show ?thesis
      by (auto simp: push_ma_room IH pushed_pushed)
  next
    case False
    with Cons.prems [of i ga] show ?thesis by (auto simp: push_ma_room IH)
  qed
qed simp

text \<open>The order in which the frequencies are visited, 0 coming last.\<close>

definition arfcn_order :: "nat list" where
  "arfcn_order = [1..<1024] @ [0]"

lemma arfcn_order_loop: "map (\<lambda>i. i mod 1024) [1..<1025] = arfcn_order"
proof -
  have "[1..<1025] = [1..<1024] @ [1024 :: nat]" using upt_Suc_append [of 1 1024] by simp
  moreover have "map (\<lambda>i. i mod 1024) [1..<1024] = [1..<1024 :: nat]" by (rule map_idI) auto
  ultimately show ?thesis by (simp add: arfcn_order_def)
qed

lemma arfcn_order_less: "a \<in> set arfcn_order \<Longrightarrow> a < 1024"
  by (auto simp: arfcn_order_def)

lemma ma_from_list_eq:
  assumes "length f = 1024"
  shows "ma_from_list f msk ga =
    (let xs = filter (\<lambda>a. nz (f ! a AND msk)) arfcn_order
     in if length xs \<le> room ga then Inr (pushed (map of_nat xs) ga) else Inl OutOfBounds)"
proof -
  have "ma_from_list f msk ga = rfold (\<lambda>a ga. rbind (rd f a) (\<lambda>m. if nz (m AND msk) then push_ma (of_nat a) ga else Inr ga)) arfcn_order ga"
    unfolding ma_from_list_def arfcn_order_loop [symmetric] rfold_map ..
  also have "\<dots> = (let xs = filter (\<lambda>a. nz (f ! a AND msk)) arfcn_order
     in if length xs \<le> room ga then Inr (pushed (map of_nat xs) ga) else Inl OutOfBounds)"
    unfolding Let_def by (rule push_all) (use assms arfcn_order_less in auto)
  finally show ?thesis .
qed

text \<open>The entries whose position satisfies a predicate.\<close>

fun selected :: "(nat \<Rightarrow> bool) \<Rightarrow> nat \<Rightarrow> 'a list \<Rightarrow> 'a list" where
  "selected B j [] = []"
| "selected B j (c # cs) = (if B j then c # selected B (Suc j) cs else selected B (Suc j) cs)"

lemma selected_conv: "selected B j cs = map (\<lambda>k. cs ! (k - j)) (filter B [j..<j + length cs])"
proof (induction cs arbitrary: j)
  case (Cons c cs)
  have "[j..<j + length (c # cs)] = j # [Suc j..<Suc j + length cs]"
    using upt_conv_Cons [of j "j + length (c # cs)"] by (simp del: upt_Suc)
  moreover have "map (\<lambda>k. (c # cs) ! (k - j)) (filter B [Suc j..<Suc j + length cs])
      = map (\<lambda>k. cs ! (k - Suc j)) (filter B [Suc j..<Suc j + length cs])"
    by (rule map_cong) (auto simp: nth_Cons')
  ultimately show ?case using Cons.IH [of "Suc j"] by simp
qed simp

lemma bitmap_loop:
  assumes "\<And>a. a \<in> set ns \<Longrightarrow> a < length f"
    and "\<And>j. j < n + length (filter (\<lambda>a. nz (f ! a AND msk)) ns) \<Longrightarrow> get j = Inr (b j)"
  shows "rfold (\<lambda>a (ga, j). rbind (rd f a) (\<lambda>m.
        if nz (m AND msk)
        then rbind (get j) (\<lambda>c. rbind (if bit c (j mod 8) then push_ma (of_nat a) ga else Inr ga) (\<lambda>ga. Inr (ga, j + 1)))
        else Inr (ga, j))) ns (ga, n)
    = (let cs = filter (\<lambda>a. nz (f ! a AND msk)) ns; xs = selected (\<lambda>j. bit (b j) (j mod 8)) n cs
       in if length xs \<le> room ga then Inr (pushed (map of_nat xs) ga, n + length cs) else Inl OutOfBounds)"
  using assms
proof (induction ns arbitrary: ga n)
  case (Cons a ns)
  note IH = Cons.IH [unfolded Let_def]
  show ?case
  proof (cases "nz (f ! a AND msk)")
    case True
    then have get: "get n = Inr (b n)" "a < length f" using Cons.prems by auto
    have IH': "rfold (\<lambda>a (ga, j). rbind (rd f a) (\<lambda>m.
        if nz (m AND msk)
        then rbind (get j) (\<lambda>c. rbind (if bit c (j mod 8) then push_ma (of_nat a) ga else Inr ga) (\<lambda>ga. Inr (ga, j + 1)))
        else Inr (ga, j))) ns (g, Suc n)
      = (let cs = filter (\<lambda>a. nz (f ! a AND msk)) ns; xs = selected (\<lambda>j. bit (b j) (j mod 8)) (Suc n) cs
         in if length xs \<le> room g then Inr (pushed (map of_nat xs) g, Suc n + length cs) else Inl OutOfBounds)" for g
      unfolding Let_def by (rule IH) (use Cons.prems True in auto)
    show ?thesis
    proof (cases "bit (b n) (n mod 8) \<and> 0 < room ga")
      case push: True
      then have "room (pushed [of_nat a] ga) = room ga - 1" by (simp add: room_pushed)
      with push True get IH' [of "pushed [of_nat a] ga"] show ?thesis
        by (auto simp: push_ma_room pushed_pushed Let_def)
    next
      case False
      with True get IH' [of ga] show ?thesis by (auto simp: push_ma_room Let_def)
    qed
  next
    case False
    with Cons.prems IH [of n ga] show ?thesis by (simp add: Let_def)
  qed
qed (simp add: Let_def)

lemma rd_rel_value:
  assumes "length v \<le> length dtap" and "drop (length dtap - length v) dtap = v" and "k < length v"
  shows "rd_rel dtap v (int k) = Inr (v ! k)"
proof -
  have "nat (int (length dtap) - int (length v) + int k) = length dtap - length v + k" using assms(1) by linarith
  moreover have "dtap ! (length dtap - length v + k) = v ! k"
    using assms by (metis add_leD1 diff_le_self nth_drop)
  ultimately show ?thesis using assms(1,3) by (simp add: rd_rel_def Let_def rd_def)
qed

lemma ma_from_bitmap_eq:
  assumes "length f = 1024" and "length v \<le> length dtap" and "drop (length dtap - length v) dtap = v" and "l \<le> length v"
    and "cs = filter (\<lambda>a. nz (f ! a AND msk)) arfcn_order" and "length cs \<le> 8 * l"
    and "xs = selected (\<lambda>j. bit (v ! (l - 1 - j div 8)) (j mod 8)) 0 cs" and "xs \<noteq> []" and "ga_ma_len ga = 0"
  shows "ma_from_bitmap dtap f v l msk ga = (if length xs \<le> room ga then Inr (pushed (map of_nat xs) ga) else Inl OutOfBounds)"
proof -
  have get: "rd_rel dtap v (int l - int (j div 8) - 1) = Inr (v ! (l - 1 - j div 8))"
    if "j < 0 + length (filter (\<lambda>a. nz (f ! a AND msk)) arfcn_order)" for j
  proof -
    have "j < length cs" using that assms(5) by simp
    then have "j div 8 < l" using assms(6) by linarith
    then have "int l - int (j div 8) - 1 = int (l - 1 - j div 8)" "l - 1 - j div 8 < length v"
      using assms(4) by linarith+
    then show ?thesis using rd_rel_value [OF assms(2,3), of "l - 1 - j div 8"] by simp
  qed
  have "rfold (\<lambda>i (ga, j). rbind (rd f (i mod 1024)) (\<lambda>m.
        if nz (m AND msk)
        then rbind (rd_rel dtap v (int l - int (j div 8) - 1)) (\<lambda>b.
             rbind (if bit b (j mod 8) then push_ma (of_nat (i mod 1024)) ga else Inr ga) (\<lambda>ga. Inr (ga, j + 1)))
        else Inr (ga, j))) [1..<1025] (ga, 0 :: nat)
    = rfold (\<lambda>a (ga, j). rbind (rd f a) (\<lambda>m.
        if nz (m AND msk)
        then rbind (rd_rel dtap v (int l - int (j div 8) - 1)) (\<lambda>b.
             rbind (if bit b (j mod 8) then push_ma (of_nat a) ga else Inr ga) (\<lambda>ga. Inr (ga, j + 1)))
        else Inr (ga, j))) arfcn_order (ga, 0 :: nat)"
    unfolding arfcn_order_loop [symmetric] rfold_map ..
  also have "\<dots> = (if length xs \<le> room ga then Inr (pushed (map of_nat xs) ga, length cs) else Inl OutOfBounds)"
    using bitmap_loop [where ns = arfcn_order and f = f and n = 0 and msk = msk and ga = ga
        and get = "\<lambda>j. rd_rel dtap v (int l - int (j div 8) - 1)" and b = "\<lambda>j. v ! (l - 1 - j div 8)"] get
      arfcn_order_less assms(1,5,7) by (simp add: Let_def)
  finally have "rfold (\<lambda>i (ga, j). rbind (rd f (i mod 1024)) (\<lambda>m.
        if nz (m AND msk)
        then rbind (rd_rel dtap v (int l - int (j div 8) - 1)) (\<lambda>b.
             rbind (if bit b (j mod 8) then push_ma (of_nat (i mod 1024)) ga else Inr ga) (\<lambda>ga. Inr (ga, j + 1)))
        else Inr (ga, j))) [1..<1025] (ga, 0 :: nat)
    = (if length xs \<le> room ga then Inr (pushed (map of_nat xs) ga, length cs) else Inl OutOfBounds)" .
  moreover have "ga_ma_len (pushed (map of_nat xs) ga) \<noteq> 0" using assms(8,9) by (simp add: pushed_def)
  ultimately show ?thesis unfolding ma_from_bitmap_def by simp
qed

section \<open>Properties\<close>

text \<open>
  An assignment command for a hopping channel, with the optional elements \<open>tp\<close>: the channel mode
  and the multi-rate configuration have the octets that the code reads.
\<close>

definition hopping_command :: "u8 list \<Rightarrow> nat \<Rightarrow> tlv_parsed \<Rightarrow> bool" where
  "hopping_command dtap len tp \<longleftrightarrow>
     dtap ! 1 = 0x2e \<and> 6 < len \<and> len \<le> length dtap \<and> bit (dtap ! 3) 4
     \<and> (case tlv_parse gsm48_rr_att_tlvdef (drop 6 dtap) (int len - 6) of Inr (n, tp') \<Rightarrow> tp' = tp | Inl e \<Rightarrow> False)
     \<and> (case tp GSM48_IE_CHANMODE_1 of Some (l, v) \<Rightarrow> v \<noteq> [] | None \<Rightarrow> True)
     \<and> (case tp GSM48_IE_MUL_RATE_CFG of Some (l, v) \<Rightarrow> 1 < length v | None \<Rightarrow> True)"

text \<open>What the assignment says of a hopping channel with the sequence \<open>xs\<close>.\<close>

definition hops :: "u8 list \<Rightarrow> nat list \<Rightarrow> gsm_assignment \<Rightarrow> bool" where
  "hops dtap xs ga \<longleftrightarrow> ga_h ga = 1 \<and> ga_chan_nr ga = int (unat (dtap ! 2)) \<and> ga_hsn ga = int (unat (dtap ! 4 AND 0x3f))
     \<and> ga_ma_len ga = length xs \<and> take (length xs) (ga_ma ga) = map of_nat xs"

lemma hopping_channel:
  assumes "hopping_command dtap len tp" and "assignment_freqs tp cell = Inr (f, ma, msk)"
    and "\<And>ga. ga_ma_len ga = 0 \<Longrightarrow> length (ga_ma ga) = 64 \<Longrightarrow>
      (case ma of Some (v, l) \<Rightarrow> if l = 0 then Inr ga else ma_from_bitmap dtap f v l msk ga | None \<Rightarrow> ma_from_list f msk ga)
      = (if length xs \<le> 64 then Inr (pushed (map of_nat xs) ga) else Inl OutOfBounds)"
  shows "case parse_assignment dtap len cell of
      Inr (ga, f') \<Rightarrow> length xs \<le> 64 \<and> f' = f \<and> hops dtap xs ga
    | Inl e \<Rightarrow> 64 < length xs \<and> e = OutOfBounds"
proof -
  from assms(1) obtain n where d: "dtap ! 1 = 0x2e" "6 < len" "len \<le> length dtap" "bit (dtap ! 3) 4"
    and tp: "tlv_parse gsm48_rr_att_tlvdef (drop 6 dtap) (int len - 6) = Inr (n, tp)"
    and cm: "case tp GSM48_IE_CHANMODE_1 of Some (l, v) \<Rightarrow> v \<noteq> [] | None \<Rightarrow> True"
    and mr: "case tp GSM48_IE_MUL_RATE_CFG of Some (l, v) \<Rightarrow> 1 < length v | None \<Rightarrow> True"
    by (auto simp: hopping_command_def split: sum.splits prod.splits)
  from cm mr obtain x y where
    1: "(case tp GSM48_IE_CHANMODE_1 of Some (l, v) \<Rightarrow> rbind (rd v 0) (\<lambda>b. Inr (zero_assignment\<lparr>ga_chan_mode := int (unat b)\<rparr>))
          | None \<Rightarrow> Inr zero_assignment) = Inr (zero_assignment\<lparr>ga_chan_mode := x\<rparr>)"
    and 2: "(case tp GSM48_IE_MUL_RATE_CFG of Some (l, v) \<Rightarrow>
          rbind (rd v 1) (\<lambda>b. Inr (zero_assignment\<lparr>ga_chan_mode := x, ga_rate_conf := int (unat b)\<rparr>))
          | None \<Rightarrow> Inr (zero_assignment\<lparr>ga_chan_mode := x\<rparr>)) = Inr (zero_assignment\<lparr>ga_chan_mode := x, ga_rate_conf := y\<rparr>)"
    by (auto simp: zero_assignment_def split: option.splits prod.splits)
  have z: "ga_ma_len zero_assignment = 0" "length (ga_ma zero_assignment) = 64" by (simp_all add: zero_assignment_def)
  show ?thesis
    using d tp 1 2 assms(2)
    by (simp add: parse_assignment_def assignment_body_def assignment_channel_def Let_def assms(3) z pushed_def hops_def)
qed

text \<open>
  C40. An assignment command with a frequency list gives the hopping sequence of exactly the listed
  frequencies, in ascending order with 0 at the end.  The sequence has room for 64 frequencies,
  and the code does not check: a longer list writes past the end of the array.
\<close>

theorem hopping_from_frequency_list:
  assumes "hopping_command dtap len tp" and "length cell = 1024"
    and "tp GSM48_IE_CELL_CH_DESC = None" and "tp GSM48_IE_MA_AFTER = None"
    and "tp GSM48_IE_FREQ_L_AFTER = Some (l, v)" and "l mod 256 \<le> length v" and "v \<noteq> []"
  shows "\<exists>f rc. gsm48_decode_freq_list cell v (l mod 256) 0xff 0x04 = Inr (f, rc)
    \<and> (let xs = filter (\<lambda>a. nz (f ! a AND 0x04)) arfcn_order
       in case parse_assignment dtap len cell of
            Inr (ga, f') \<Rightarrow> length xs \<le> 64 \<and> f' = f \<and> hops dtap xs ga
          | Inl e \<Rightarrow> 64 < length xs \<and> e = OutOfBounds)"
proof -
  from freq_list_ok [OF assms(2,6,7), of "0xff" "0x04"] obtain f rc where
    f: "gsm48_decode_freq_list cell v (l mod 256) 0xff 0x04 = Inr (f, rc)" "length f = 1024"
    using assms(2) by (auto simp: same_but_def)
  then have "assignment_freqs tp cell = Inr (f, None, 0x04)"
    using assms(3-5) by (simp add: assignment_freqs_def)
  then have "let xs = filter (\<lambda>a. nz (f ! a AND 0x04)) arfcn_order
       in case parse_assignment dtap len cell of
            Inr (ga, f') \<Rightarrow> length xs \<le> 64 \<and> f' = f \<and> hops dtap xs ga
          | Inl e \<Rightarrow> 64 < length xs \<and> e = OutOfBounds"
    unfolding Let_def by (rule hopping_channel [OF assms(1)]) (simp add: ma_from_list_eq f(2) room_def Let_def)
  with f(1) show ?thesis by blast
qed

definition list_command :: "u8 list" where
  "list_command = [0x06, 0x2e, 0x41, 0x10, 0x05, 0x00, 0x05, 0x03, 0x8e, 0x01, 0x40]"

theorem hopping_from_frequency_list_witness:
  "\<exists>f rc. gsm48_decode_freq_list (replicate 1024 0) [0x8e, 0x01, 0x40] 3 0xff 0x04 = Inr (f, rc)
    \<and> (let xs = filter (\<lambda>a. nz (f ! a AND 0x04)) arfcn_order
       in case parse_assignment list_command 11 (replicate 1024 0) of
            Inr (ga, f') \<Rightarrow> length xs \<le> 64 \<and> f' = f \<and> hops list_command xs ga
          | Inl e \<Rightarrow> 64 < length xs \<and> e = OutOfBounds)"
proof -
  have "tlv_parse gsm48_rr_att_tlvdef (drop 6 list_command) (int 11 - 6)
      = Inr (1, (\<lambda>_. None)(0x05 := Some (3, [0x8e, 0x01, 0x40])))"
    by (simp add: list_command_def tlv_parse_def tlv_parse_from.simps tlv_parse_one_def tlv_like_TLV_def gsm48_rr_att_tlvdef_def)
  then have "hopping_command list_command 11 ((\<lambda>_. None)(0x05 := Some (3, [0x8e, 0x01, 0x40])))"
    by (simp add: hopping_command_def GSM48_IE_CHANMODE_1_def GSM48_IE_MUL_RATE_CFG_def) (simp add: list_command_def)
  from hopping_from_frequency_list [OF this, of "replicate 1024 0" 3 "[0x8e, 0x01, 0x40]"] show ?thesis
    by (simp add: GSM48_IE_CELL_CH_DESC_def GSM48_IE_MA_AFTER_def GSM48_IE_FREQ_L_AFTER_def)
qed

text \<open>
  An assignment command with a mobile allocation gives the hopping sequence of the frequencies
  of the cell whose bit is set in the allocation, the lowest bit of the last octet belonging to
  the first frequency.  This needs an allocation with a bit for every frequency of the cell.
\<close>

theorem hopping_from_mobile_allocation:
  assumes "hopping_command dtap len tp" and "length cell = 1024"
    and "tp GSM48_IE_CELL_CH_DESC = None" and "tp GSM48_IE_MA_AFTER = Some (l, v)" and "0 < l" and "l < 256"
    and "l \<le> length v" and "length v \<le> length dtap" and "drop (length dtap - length v) dtap = v"
    and "cs = filter (\<lambda>a. nz (cell ! a AND 0x01)) arfcn_order" and "length cs \<le> 8 * l"
    and "xs = map (\<lambda>j. cs ! j) (filter (\<lambda>j. bit (v ! (l - 1 - j div 8)) (j mod 8)) [0..<length cs])" and "xs \<noteq> []"
  shows "case parse_assignment dtap len cell of
      Inr (ga, f') \<Rightarrow> length xs \<le> 64 \<and> f' = cell \<and> hops dtap xs ga
    | Inl e \<Rightarrow> 64 < length xs \<and> e = OutOfBounds"
proof (rule hopping_channel [OF assms(1)])
  show "assignment_freqs tp cell = Inr (cell, Some (v, l), 0x01)"
    using assms(3,4,6) by (simp add: assignment_freqs_def)
  have xs: "xs = selected (\<lambda>j. bit (v ! (l - 1 - j div 8)) (j mod 8)) 0 cs"
    using assms(12) by (simp add: selected_conv)
  fix ga :: gsm_assignment
  assume "ga_ma_len ga = 0" and "length (ga_ma ga) = 64"
  with ma_from_bitmap_eq [OF assms(2,8,9,7,10,11) xs assms(13), of ga] assms(5)
  show "(case Some (v, l) of Some (v, l) \<Rightarrow> if l = 0 then Inr ga else ma_from_bitmap dtap cell v l 0x01 ga
      | None \<Rightarrow> ma_from_list cell 0x01 ga) = (if length xs \<le> 64 then Inr (pushed (map of_nat xs) ga) else Inl OutOfBounds)"
    by (simp add: room_def)
qed

definition ma_command :: "u8 list" where
  "ma_command = [0x06, 0x2e, 0x41, 0x10, 0x05, 0x00, 0x72, 0x01, 0x01]"

theorem hopping_from_mobile_allocation_witness:
  "case parse_assignment ma_command 9 ((replicate 1024 0)[0 := 1]) of
      Inr (ga, f') \<Rightarrow> f' = (replicate 1024 0)[0 := 1] \<and> hops ma_command [0] ga
    | Inl e \<Rightarrow> False"
proof -
  let ?tp = "(\<lambda>_. None)(0x72 := Some (1 :: nat, [0x01 :: u8]))"
  let ?cell = "(replicate 1024 0)[0 := 1 :: u8]"
  have "tlv_parse gsm48_rr_att_tlvdef (drop 6 ma_command) (int 9 - 6) = Inr (1, ?tp)"
    by (simp add: ma_command_def tlv_parse_def tlv_parse_from.simps tlv_parse_one_def tlv_like_TLV_def gsm48_rr_att_tlvdef_def)
  then have h: "hopping_command ma_command 9 ?tp"
    by (simp add: hopping_command_def GSM48_IE_CHANMODE_1_def GSM48_IE_MUL_RATE_CFG_def) (simp add: ma_command_def)
  have "filter (\<lambda>a. nz (?cell ! a AND 0x01)) [1..<1024] = []"
    by (auto simp: filter_empty_conv nth_list_update)
  then have cs: "[0] = filter (\<lambda>a. nz (?cell ! a AND 0x01)) arfcn_order"
    by (simp add: arfcn_order_def)
  have "case parse_assignment ma_command 9 ?cell of
      Inr (ga, f') \<Rightarrow> length [0 :: nat] \<le> 64 \<and> f' = ?cell \<and> hops ma_command [0] ga
    | Inl e \<Rightarrow> 64 < length [0 :: nat] \<and> e = OutOfBounds"
    by (rule hopping_from_mobile_allocation [OF h _ _ _ _ _ _ _ _ cs, where v = "[0x01]" and l = 1])
      (simp_all add: GSM48_IE_CELL_CH_DESC_def GSM48_IE_MA_AFTER_def ma_command_def)
  then show ?thesis by (auto split: sum.splits)
qed

end
