(* ===== verification/Session.thy ===== *)
theory Session
  imports State Bit_Func
begin

text \<open>
  The life of a session (\<open>gsm-parser/session.c\<close>): initialisation, the list of its messages, closing
  with the output of what was learnt, and the reset between two transactions.

  The output of \<open>session_print\<close> and the statements of \<open>session_make_sql\<close> are events that carry the
  session; \<open>printf\<close> is left out.  The store of messages is the interesting part of the state: the
  lists of the sessions are linked lists in it, and the reset frees them.
\<close>

section \<open>Definitions\<close>

subsection \<open>Lists of messages\<close>

text \<open>\<open>link_to_msg_list(s, m)\<close>\<close>

definition link_to_msg_list :: "nat \<Rightarrow> nat option \<Rightarrow> world \<Rightarrow> world res" where
  "link_to_msg_list i m = seqs [
     by_sess i (\<lambda>s. on_cond (s_first_msg s = None) (upd i (\<lambda>s. s\<lparr>s_first_msg := m\<rparr>))),
     by_sess i (\<lambda>s. on_cond (s_last_msg s \<noteq> None) (\<lambda>w.
       rbind (deref (s_last_msg s) w) (\<lambda>l.
       rbind (rassert (rm_next l = None)) (\<lambda>_.
       upd_msg (s_last_msg s) (\<lambda>l. l\<lparr>rm_next := m\<rparr>) w)))),
     by_sess i (\<lambda>s. upd_msg m (\<lambda>x. x\<lparr>rm_next := None, rm_prev := s_last_msg s\<rparr>)),
     upd i (\<lambda>s. s\<lparr>s_last_msg := m\<rparr>)]"

text \<open>Freeing a list: every round frees a live message, so the loop ends.\<close>

definition live_count :: "world \<Rightarrow> nat" where
  "live_count w = length (filter (\<lambda>c. c \<noteq> None) (w_msgs w))"

lemma live_count_free:
  assumes "deref (Some a) w = Inr m"
  shows "live_count (w\<lparr>w_msgs := (w_msgs w)[a := None]\<rparr>) < live_count w"
proof -
  from assms have a: "a < length (w_msgs w)" "w_msgs w ! a = Some m" by (auto simp: deref_eq_Inr)
  then have "w_msgs w = take a (w_msgs w) @ Some m # drop (Suc a) (w_msgs w)"
    by (metis id_take_nth_drop)
  then have "live_count w = length (filter (\<lambda>c. c \<noteq> None) (take a (w_msgs w) @ Some m # drop (Suc a) (w_msgs w)))"
    by (simp add: live_count_def)
  with a show ?thesis by (simp add: live_count_def upd_conv_take_nth_drop)
qed

function free_msgs :: "nat option \<Rightarrow> world \<Rightarrow> world res" where
  "free_msgs p w =
     (case p of
        None \<Rightarrow> Inr w
      | Some a \<Rightarrow> rbind (deref (Some a) w) (\<lambda>m.
                  free_msgs (rm_next m) (w\<lparr>w_msgs := (w_msgs w)[a := None]\<rparr>)))"
  by pat_completeness auto
termination
  by (relation "measure (\<lambda>(p, w). live_count w)") (auto dest: live_count_free)

declare free_msgs.simps [simp del]

definition session_free_msg_list :: "nat \<Rightarrow> world \<Rightarrow> world res" where
  "session_free_msg_list i = seqs [
     by_sess i (\<lambda>s. free_msgs (s_first_msg s)),
     upd i (\<lambda>s. s\<lparr>s_first_msg := None\<rparr>)]"

definition session_free_sms_list :: "nat \<Rightarrow> world \<Rightarrow> world res" where
  "session_free_sms_list i = upd i (\<lambda>s. s\<lparr>s_sms_list := []\<rparr>)"

text \<open>
  The addresses of a list.  A cyclic list would be walked for ever; more steps than there are
  messages mean a cycle.
\<close>

fun msg_chain :: "nat \<Rightarrow> nat option \<Rightarrow> world \<Rightarrow> nat list res" where
  "msg_chain fuel None w = Inr []"
| "msg_chain 0 (Some a) w = Inl Diverges"
| "msg_chain (Suc fuel) (Some a) w =
     rbind (deref (Some a) w) (\<lambda>m. rbind (msg_chain fuel (rm_next m) w) (\<lambda>xs. Inr (a # xs)))"

definition msg_list :: "nat option \<Rightarrow> world \<Rightarrow> nat list res" where
  "msg_list p w = msg_chain (length (w_msgs w)) p w"

definition session_stream :: "nat \<Rightarrow> world \<Rightarrow> world res" where
  "session_stream i = by_sess i (\<lambda>s w.
     rbind (msg_list (s_first_msg s) w) (\<lambda>xs.
     rfold (\<lambda>a w. rbind (deref (Some a) w) (\<lambda>m.
              on_cond (nz (rm_flags m AND MSG_DECODED)) (emit (Net_send_msg m)) w)) xs w))"

subsection \<open>Time\<close>

text \<open>
  Rounding to the 24 bits of a \<open>float\<close>, to the nearest and ties to even, and multiplication of an
  \<open>unsigned\<close> by \<open>4.615f\<close>, which is 9678356 / 2^21: the operand is rounded, the product is rounded,
  and the result is truncated.
\<close>

fun bit_length :: "nat \<Rightarrow> nat" where
  "bit_length n = (if n = 0 then 0 else Suc (bit_length (n div 2)))"

declare bit_length.simps [simp del]

definition fl24 :: "nat \<Rightarrow> nat" where
  "fl24 n = (if n < 2 ^ 24 then n
     else let k = bit_length n - 24; q = n div 2 ^ k; r = n mod 2 ^ k
          in (if r > 2 ^ (k - 1) \<or> (r = 2 ^ (k - 1) \<and> odd q) then q + 1 else q) * 2 ^ k)"

definition mul_4615 :: "u32 \<Rightarrow> u32" where
  "mul_4615 d = of_nat (fl24 (fl24 (unat d) * 9678356) div 2 ^ 21)"

definition fn_delta :: "u32 \<Rightarrow> u32 \<Rightarrow> u32" where
  "fn_delta a b = (if a \<le> b then b - a else ((b + GSM_MAX_FN) - a) mod GSM_MAX_FN)"

subsection \<open>Closing a session\<close>

definition session_deltas :: "session_info \<Rightarrow> session_info" where
  "session_deltas s =
     (let s = s\<lparr>s_duration := mul_4615 (fn_delta (s_first_fn s) (s_last_fn s))\<rparr>;
          s = (if nz (s_auth s) \<and> nz (s_auth_req_fn s) \<and> nz (s_auth_resp_fn s)
               then s\<lparr>s_auth_delta := fn_delta (s_auth_req_fn s) (s_auth_resp_fn s)\<rparr> else s);
          s = s\<lparr>s_auth_delta := mul_4615 (s_auth_delta s)\<rparr>;
          s = (if nz (s_cipher s) \<and> nz (s_cm_cmd_fn s) \<and> nz (s_cm_comp_last_fn s)
               then s\<lparr>s_cipher_delta := fn_delta (s_cm_cmd_fn s) (s_cm_comp_last_fn s)\<rparr> else s)
      in s\<lparr>s_cipher_delta := mul_4615 (s_cipher_delta s)\<rparr>)"

text \<open>
  \<open>session_make_sql\<close> leaves the buffer uninitialised for a session that is not started or already
  closed; the call-back then reads it.
\<close>

definition session_make_sql :: "nat \<Rightarrow> world \<Rightarrow> world res" where
  "session_make_sql i = by_sess i (\<lambda>s w.
     if s_started s = 0 \<or> nz (s_closed s) then Inl Uninitialised else emit (Sql_session s) w)"

definition session_close :: "nat \<Rightarrow> world \<Rightarrow> world res" where
  "session_close i = seqs [
     upd i (\<lambda>s. s\<lparr>s_processing := 0\<rparr>),
     (\<lambda>w. if w_auto_timestamp w then upd i (\<lambda>s. s\<lparr>s_timestamp := w_tod w\<rparr>) w
          else on_cond (nz (w_now w))
                 (upd i (\<lambda>s. s\<lparr>s_timestamp := \<lparr>tv_sec = ucast (w_now w), tv_usec = 0\<rparr>\<rparr>)) w),
     upd i session_deltas,
     (\<lambda>w. on_cond (w_output_gsmtap w \<and> \<not> w_auto_reset w) (session_stream i) w),
     (\<lambda>w. on_cond (w_output_console w)
            (by_sess i (\<lambda>s. on_cond (nz (s_started s)) (emit (Session_print s)))) w),
     by_sess i (\<lambda>s. on_cond (s_sql_callback s) (seqs [
       session_make_sql i,
       rfold (\<lambda>sm. emit (Sql_sms (s_id s) sm)) (s_sms_list s),
       on_cond (nz (s_appid s)) (emit (Sql_appid (s_id s) (s_appid s)))])),
     upd i (\<lambda>s. s\<lparr>s_closed := 1\<rparr>)]"

subsection \<open>Reset\<close>

text \<open>\<open>strncpy\<close> into a cleared buffer of the same size.\<close>

definition strncpy_buf :: "nat \<Rightarrow> u8 list \<Rightarrow> u8 list" where
  "strncpy_buf n src = take n (cstr src @ replicate n 0)"

text \<open>What the new session takes over from the old one.\<close>

definition session_renew :: "bool \<Rightarrow> bool \<Rightarrow> int \<Rightarrow> session_info \<Rightarrow> session_info" where
  "session_renew forced_release auto_timestamp new_id old_s =
     (let s = zero_session\<lparr>s_id := new_id, s_appid := s_appid old_s, s_name := strncpy_buf 1024 (s_name old_s),
                s_domain := s_domain old_s\<rparr>;
          s = (if \<not> auto_timestamp then s\<lparr>s_timestamp := s_timestamp old_s\<rparr> else s);
          s = s\<lparr>s_mcc := s_mcc old_s, s_mnc := s_mnc old_s, s_lac := s_lac old_s\<rparr>;
          s = (if s_rat old_s \<noteq> RAT_GSM then s\<lparr>s_cid := s_cid old_s\<rparr> else s);
          s = (if cstr (s_imsi old_s) \<noteq> [] then s\<lparr>s_imsi := strncpy_buf 32 (s_imsi old_s)\<rparr> else s);
          s = s\<lparr>s_sql_callback := s_sql_callback old_s\<rparr>;
          s = (if forced_release then s\<lparr>s_new_msg := s_new_msg old_s\<rparr> else s);
          s = (if nz (s_last_dtap_len old_s)
               then s\<lparr>s_last_dtap_len := s_last_dtap_len old_s,
                      s_last_dtap := take (unat (s_last_dtap_len old_s)) (s_last_dtap old_s)
                                     @ drop (unat (s_last_dtap_len old_s)) (s_last_dtap s),
                      s_last_dtap_rat := s_last_dtap_rat old_s\<rparr>
               else s)
      in s\<lparr>s_chan_sdcch := s_chan_sdcch old_s, s_chan_sacch := s_chan_sacch old_s,
           s_chan_facch := s_chan_facch old_s\<rparr>)"

definition session_reset :: "nat \<Rightarrow> bool \<Rightarrow> world \<Rightarrow> world res" where
  "session_reset i forced_release w =
     (if \<not> w_auto_reset w then Inr w
      else rbind (seqs [
        on_cond (\<not> forced_release) (by_sess i (\<lambda>s. seqs [
          on_cond (s_new_msg s \<noteq> None) (link_to_msg_list i (s_new_msg s)),
          upd i (\<lambda>s. s\<lparr>s_new_msg := None\<rparr>)])),
        by_sess i (\<lambda>s. on_cond (nz (s_started s) \<and> s_closed s = 0) (seqs [
          upd i (\<lambda>s. s\<lparr>s_cracked := 1\<rparr>),
          session_close i]))] w) (by_sess i (\<lambda>old_s w.
        let bump = nz (s_started old_s) \<and> nz (s_closed old_s);
            w = (if bump then w\<lparr>w_s_id := w_s_id w + 1\<rparr> else w);
            new_id = (if bump then sint (w_s_id w) else s_id old_s)
        in rbind (upd i (\<lambda>_. session_renew forced_release (w_auto_timestamp w) new_id old_s) w) (\<lambda>w.
           rbind (msg_list (s_first_msg old_s) w) (\<lambda>xs.
           rbind (rassert (\<forall>a \<in> set xs. \<not> forced_release \<or> s_new_msg old_s \<noteq> Some a)) (\<lambda>_.
           free_msgs (s_first_msg old_s) w))))))"

subsection \<open>Start and end\<close>

definition session_init :: "u32 \<Rightarrow> bool \<Rightarrow> bool \<Rightarrow> bool \<Rightarrow> world \<Rightarrow> world" where
  "session_init start_sid console gsmtap callback w =
     w\<lparr>w_output_console := console, w_output_gsmtap := gsmtap,
       w_sess := [zero_session\<lparr>s_sql_callback := callback, s_id := sint start_sid\<rparr>,
                  zero_session\<lparr>s_sql_callback := callback, s_id := sint (start_sid + 1), s_domain := DOMAIN_PS\<rparr>],
       w_s_id := start_sid + 2\<rparr>"

definition session_create ::
  "int \<Rightarrow> u8 list option \<Rightarrow> u8 list option \<Rightarrow> u16 \<Rightarrow> u16 \<Rightarrow> u16 \<Rightarrow> u32 \<Rightarrow> u8 list option \<Rightarrow> world
   \<Rightarrow> (session_info \<times> world) res" where
  "session_create ident name key mcc mnc lac cid ca w =
     (let (new_id, w) = (if ident < 0 then (sint (w_s_id w), w\<lparr>w_s_id := w_s_id w + 1\<rparr>) else (ident, w));
          s = zero_session\<lparr>s_id := new_id\<rparr>
      in rbind (case name of None \<Rightarrow> Inr s
                | Some n \<Rightarrow> rbind (wrn (s_name s) 0 (cstr n @ [0])) (\<lambda>n. Inr (s\<lparr>s_name := n\<rparr>))) (\<lambda>s.
         let s = s\<lparr>s_timestamp := (if w_auto_timestamp w then w_tod w else \<lparr>tv_sec = ucast (w_now w), tv_usec = 0\<rparr>)\<rparr>
         in rbind (case key of None \<Rightarrow> Inr s
                   | Some k \<Rightarrow> rbind (rdn k 0 8) (\<lambda>k. Inr (s\<lparr>s_have_key := 1, s_key := k\<rparr>))) (\<lambda>s.
            let s = s\<lparr>s_mcc := mcc, s_mnc := mnc, s_lac := lac, s_cid := cid\<rparr>
            in rbind (case ca of None \<Rightarrow> Inr s
                      | Some c \<Rightarrow> rbind (rdn c 0 1024) (\<lambda>c. Inr (s\<lparr>s_cell_arfcns := c\<rparr>))) (\<lambda>s.
               Inr (s\<lparr>s_decoded := 1, s_null := rand_init_2b (s_null s),
                      s_other_sdcch := rand_init_2b (s_other_sdcch s),
                      s_other_sacch := rand_init_2b (s_other_sacch s)\<rparr>, w)))))"

end
