(* ===== verification/Sms.thy ===== *)
theory Sms
  imports Session Address
begin

text \<open>
  Short messages (\<open>gsm-parser/sms.c\<close>): the CP, RP and TP layers, the user data header and the
  security header of messages to the SIM.  A message gives a \<open>sms_meta\<close> that is put in front of the
  list of its session.  \<open>sms_make_sql\<close> only formats it; the event of \<open>session_close\<close> carries it.

  Offsets into a message are \<open>uint8_t\<close> in the code and \<open>u8\<close> here, so that they wrap.
\<close>

section \<open>Definitions\<close>

subsection \<open>Data coding scheme\<close>

definition CLASS_NONE :: nat where "CLASS_NONE = 4"

definition DCS_NONE :: u8 where "DCS_NONE = 0"
definition DCS_7BIT_DEFAULT :: u8 where "DCS_7BIT_DEFAULT = 1"
definition DCS_UCS2 :: u8 where "DCS_UCS2 = 2"
definition DCS_8BIT_DATA :: u8 where "DCS_8BIT_DATA = 3"
definition DCS_COMPRESSED :: u8 where "DCS_COMPRESSED = 0x80"

lemmas dcs_consts = DCS_NONE_def DCS_7BIT_DEFAULT_def DCS_UCS2_def DCS_8BIT_DATA_def DCS_COMPRESSED_def

definition get_sms_class :: "u8 \<Rightarrow> nat" where
  "get_sms_class dcs =
     (let coding_group = drop_bit 4 dcs in
      if coding_group AND 0xc = 0 then if nz (dcs AND 0x10) then unat (dcs AND 0x03) else CLASS_NONE
      else if coding_group = 0xf then unat (dcs AND 0x03)
      else CLASS_NONE)"

definition get_sms_alphabet :: "u8 \<Rightarrow> u8" where
  "get_sms_alphabet dcs =
     (let coding_group = drop_bit 4 dcs in
      if dcs = 0x00 then DCS_7BIT_DEFAULT
      else if coding_group AND 0xc = 0
      then let alpha = (case unat (drop_bit 2 dcs AND 0x03) of
                          0 \<Rightarrow> DCS_7BIT_DEFAULT | Suc 0 \<Rightarrow> DCS_8BIT_DATA | Suc (Suc 0) \<Rightarrow> DCS_UCS2 | _ \<Rightarrow> DCS_NONE)
           in if nz (dcs AND 0x20) then alpha OR DCS_COMPRESSED else alpha
      else if coding_group = 0xc \<or> coding_group = 0xd then DCS_7BIT_DEFAULT
      else if coding_group = 0xe then DCS_UCS2
      else if coding_group = 0xf then if nz (dcs AND 0x04) then DCS_8BIT_DATA else DCS_7BIT_DEFAULT
      else DCS_NONE)"

subsection \<open>Text\<close>

text \<open>\<open>APPEND_INFO\<close>: the summary is cut at 255 characters.\<close>

definition sm_append :: "string \<Rightarrow> sms_meta \<Rightarrow> sms_meta" where
  "sm_append txt sm = sm\<lparr>sm_info := take 255 (sm_info sm @ txt)\<rparr>"

definition handle_text :: "sms_meta \<Rightarrow> u8 list \<Rightarrow> nat \<Rightarrow> sms_meta res" where
  "handle_text sm msg len =
     (if len = 0 then Inr (sm_append ''<NO DATA>'' sm)
      else if nz (sm_alphabet sm AND DCS_COMPRESSED) then Inr (sm_append ''<COMPRESSED DATA>'' sm)
      else if sm_alphabet sm = DCS_7BIT_DEFAULT
      then rbind (gsm_7bit_decode_n (replicate 256 0) 256 msg (of_nat len)) (\<lambda>(text, n).
           Inr (if cstr text \<noteq> [] then sm_append ''TEXT_7BIT'' sm else sm_append ''<FAILED TO DECODE TEXT>'' sm))
      else if sm_alphabet sm = DCS_UCS2 then Inr (sm_append ''TEXT_16BIT'' sm)
      else if sm_alphabet sm = DCS_NONE \<or> sm_alphabet sm = DCS_8BIT_DATA
      then let sm = (if sm_pid sm = 124 \<or> sm_pid sm = 127 \<or> sm_dcs sm = 246 \<or> sm_dcs sm = 22
                     then (sm_append ''OTA '' sm)\<lparr>sm_ota := 1\<rparr> else sm)
           in Inr (sm_append ''DATA_8BIT'' sm)
      else Inr (sm_append ''<UNKNOWN ALPHABET>'' sm))"

subsection \<open>Security header\<close>

definition OTA_ALGO_NONE :: u8 where "OTA_ALGO_NONE = 0"
definition OTA_ALGO_IMPLICIT :: u8 where "OTA_ALGO_IMPLICIT = 1"
definition OTA_ALGO_PROPRIETARY :: u8 where "OTA_ALGO_PROPRIETARY = 2"
definition OTA_ALGO_RESERVED :: u8 where "OTA_ALGO_RESERVED = 3"
definition OTA_ALGO_1DES_CBC :: u8 where "OTA_ALGO_1DES_CBC = 4"
definition OTA_ALGO_3DES_2K :: u8 where "OTA_ALGO_3DES_2K = 5"
definition OTA_ALGO_3DES_3K :: u8 where "OTA_ALGO_3DES_3K = 6"
definition OTA_ALGO_1DES_ECB :: u8 where "OTA_ALGO_1DES_ECB = 7"
definition OTA_ALGO_AES_CBC :: u8 where "OTA_ALGO_AES_CBC = 8"

lemmas ota_algos = OTA_ALGO_NONE_def OTA_ALGO_IMPLICIT_def OTA_ALGO_PROPRIETARY_def OTA_ALGO_RESERVED_def
  OTA_ALGO_1DES_CBC_def OTA_ALGO_3DES_2K_def OTA_ALGO_3DES_3K_def OTA_ALGO_1DES_ECB_def OTA_ALGO_AES_CBC_def

text \<open>The algorithm that a key identifier names, with its text.\<close>

definition kic_algo :: "u8 \<Rightarrow> string \<times> u8" where
  "kic_algo kic =
     (if kic AND 0x03 = 0 then (''IMPLICIT '', OTA_ALGO_IMPLICIT)
      else if kic AND 0x03 = 1
      then if drop_bit 2 kic AND 0x03 = 0 then (''1DES-CBC '', OTA_ALGO_1DES_CBC)
           else if drop_bit 2 kic AND 0x03 = 1 then (''3DES-2K '', OTA_ALGO_3DES_2K)
           else if drop_bit 2 kic AND 0x03 = 2 then (''3DES-3K '', OTA_ALGO_3DES_3K)
           else (''1DES-EBC '', OTA_ALGO_1DES_ECB)
      else if kic AND 0x03 = 2
      then if drop_bit 2 kic AND 0x03 = 0 then (''AES-CBC '', OTA_ALGO_AES_CBC) else (''RESERVED '', OTA_ALGO_RESERVED)
      else (''PROPRIET '', OTA_ALGO_PROPRIETARY))"

definition kid_algo :: "u8 \<Rightarrow> string \<times> u8" where
  "kid_algo kid =
     (if kid AND 0x03 = 0 then (''IMPLICIT '', OTA_ALGO_IMPLICIT)
      else if kid AND 0x03 = 1
      then if drop_bit 2 kid AND 0x03 = 0 then (''1DES-CBC '', OTA_ALGO_1DES_CBC)
           else if drop_bit 2 kid AND 0x03 = 1 then (''3DES-2K '', OTA_ALGO_3DES_2K)
           else if drop_bit 2 kid AND 0x03 = 2 then (''3DES-3K '', OTA_ALGO_3DES_3K)
           else (''RESERVED '', OTA_ALGO_RESERVED)
      else if kid AND 0x03 = 2 then (''RESERVED '', OTA_ALGO_RESERVED)
      else (''PROPRIET '', OTA_ALGO_PROPRIETARY))"

definition sec_counter :: "u8 \<Rightarrow> sms_meta \<Rightarrow> sms_meta" where
  "sec_counter spi1 sm =
     (let t = drop_bit 3 spi1 AND 0x03 in
      (sm_append (if t = 0 then ''NO_CNTR '' else if t = 1 then ''CNTR_AV '' else if t = 2 then ''CNTR_HI '' else ''CNTR_+1 '') sm)
        \<lparr>sm_ota_counter_type := t\<rparr>)"

definition sec_encryption :: "u8 \<Rightarrow> u8 \<Rightarrow> sms_meta \<Rightarrow> sms_meta" where
  "sec_encryption spi1 kic sm =
     (if nz (spi1 AND 0x04)
      then case kic_algo kic of (txt, algo) \<Rightarrow> (sm_append txt (sm_append ''ENC '' sm))\<lparr>sm_ota_enc := 1, sm_ota_enc_algo := algo\<rparr>
      else (sm_append ''NOENC '' sm)\<lparr>sm_ota_enc := 0, sm_ota_enc_algo := OTA_ALGO_NONE\<rparr>)"

definition sec_signature :: "u8 \<Rightarrow> u8 \<Rightarrow> sms_meta \<Rightarrow> sms_meta" where
  "sec_signature spi1 kid sm =
     (let t = spi1 AND 0x03;
          sm = (sm_append (if t = 0 then ''NOCC '' else if t = 1 then ''RC '' else if t = 2 then ''CC '' else ''DS '') sm)
                 \<lparr>sm_ota_sign := t\<rparr>
      in if nz t then case kid_algo kid of (txt, algo) \<Rightarrow> (sm_append txt sm)\<lparr>sm_ota_sign_algo := algo\<rparr>
         else sm\<lparr>sm_ota_sign_algo := OTA_ALGO_NONE\<rparr>)"

definition handle_sec_cp :: "sms_meta \<Rightarrow> u8 list \<Rightarrow> sms_meta res" where
  "handle_sec_cp sm msg =
     rbind (rd msg 3) (\<lambda>spi1. rbind (rd msg 5) (\<lambda>kic. rbind (rd msg 6) (\<lambda>kid. rbind (rdn msg 7 3) (\<lambda>tar.
     let sm = sec_signature spi1 kid (sec_encryption spi1 kic (sec_counter spi1 sm));
         sm = sm\<lparr>sm_ota_tar := hexdump tar\<rparr>;
         sm = sm_append (''TAR '' @ sm_ota_tar sm @ '' '') sm
     in if spi1 AND 0x04 = 0
        then rbind (rdn msg 10 5) (\<lambda>cntr.
             let sm = sm\<lparr>sm_ota_counter := hexdump cntr\<rparr>
             in Inr (sm_append (''CNTR '' @ sm_ota_counter sm @ '' '') sm))
        else Inr sm))))"

text \<open>\<open>%02X\<close>\<close>

definition hex2_upper :: "u8 \<Rightarrow> string" where
  "hex2_upper b = map (\<lambda>c. if c \<in> set ''abcdef'' then char_of (of_char c - (32 :: nat)) else c) (hex2 b)"

definition handle_sec_rp :: "sms_meta \<Rightarrow> u8 list \<Rightarrow> nat \<Rightarrow> sms_meta res" where
  "handle_sec_rp sm msg len =
     rbind (rdn msg 3 3) (\<lambda>tar. rbind (rd msg 12) (\<lambda>status.
     let sm = sm\<lparr>sm_ota_tar := hexdump tar\<rparr>;
         sm = (sm_append (''TAR '' @ sm_ota_tar sm @ '' '') sm)\<lparr>sm_ota_por := status\<rparr>;
         sm = sm_append (''POR '' @ hex2_upper status @ '' '') sm
     in if len > 13
        then rbind (rdn msg 13 (min (len - 13) 16)) (\<lambda>sign. Inr (sm_append (''CC '' @ hexdump sign @ '' '') sm))
        else Inr (sm_append ''CC -- '' sm)))"

subsection \<open>User data header\<close>

text \<open>
  One element of the header: type, length and the offset of its value.  The result is the message,
  the command flag, and whether the walk goes on.
\<close>

type_synonym udh_state = "sms_meta \<times> bool \<times> bool"

definition udh_fail :: "string \<Rightarrow> bool \<Rightarrow> sms_meta \<Rightarrow> udh_state" where
  "udh_fail txt cmd sm = (sm_append (''SANITY CHECK FAILED ('' @ txt @ '')'') sm, cmd, False)"

definition udh_concat :: "u8 list \<Rightarrow> nat \<Rightarrow> string \<Rightarrow> bool \<Rightarrow> sms_meta \<Rightarrow> udh_state res" where
  "udh_concat msg k txt cmd sm =
     rbind (rd msg k) (\<lambda>total_frags. rbind (rd msg (k + 1)) (\<lambda>this_frag.
     Inr (if this_frag > total_frags then udh_fail txt cmd sm
          else ((sm_append (''['' @ dec_str (unat this_frag) @ ''/'' @ dec_str (unat total_frags) @ ''] '') sm)
                  \<lparr>sm_concat := 1, sm_concat_frag := ucast this_frag, sm_concat_total := ucast total_frags\<rparr>, cmd, True))))"

definition udh_ports :: "string \<Rightarrow> u16 \<Rightarrow> u16 \<Rightarrow> bool \<Rightarrow> sms_meta \<Rightarrow> udh_state" where
  "udh_ports txt src dst cmd sm =
     ((sm_append (txt @ dec_str (unat src) @ ''->'' @ dec_str (unat dst) @ '' '') sm)\<lparr>sm_src_port := src, sm_dst_port := dst\<rparr>,
      cmd, True)"

definition udh_reply :: "u8 list \<Rightarrow> u8 list \<Rightarrow> nat \<Rightarrow> u8 \<Rightarrow> bool \<Rightarrow> sms_meta \<Rightarrow> udh_state res" where
  "udh_reply junk msg off vlen cmd sm =
     rbind (rd msg off) (\<lambda>l.
     if unat vlen < unat l div 2 + 1 then Inr (udh_fail ''SMS_REPLY_ADDR'' cmd sm)
     else rbind (handle_address (drop (off + 1) msg) (ucast l) junk True) (\<lambda>alt_dest.
          Inr (sm_append (''REPLY_ADDR='' @ bytes_str alt_dest @ '' '') sm, cmd, True)))"

definition udh_element ::
  "u8 list \<Rightarrow> u8 list \<Rightarrow> u8 \<Rightarrow> u8 \<Rightarrow> u8 \<Rightarrow> u8 \<Rightarrow> bool \<Rightarrow> sms_meta \<Rightarrow> udh_state res" where
  "udh_element junk msg header_len type vlen offset cmd sm =
     (let off = unat offset in
      if type = 0x00 then
        if vlen \<noteq> 3 then Inr (udh_fail ''SMS_FRAG_HDR'' cmd sm) else udh_concat msg (off + 1) ''SMS_FRAG_8'' cmd sm
      else if type = 0x01 then
        Inr (if vlen \<noteq> 2 then udh_fail ''SMS_SPECIAL_UDH'' cmd sm else (sm, cmd, True))
      else if type = 0x04 then
        if vlen \<noteq> 2 then Inr (udh_fail ''SMS_PORT8_HDR'' cmd sm)
        else rbind (rd msg (off + 1)) (\<lambda>src. rbind (rd msg off) (\<lambda>dst. Inr (udh_ports ''PORT8 '' (ucast src) (ucast dst) cmd sm)))
      else if type = 0x05 then
        if vlen \<noteq> 4 then Inr (udh_fail ''SMS_PORT8_HDR'' cmd sm)
        else rbind (rd msg (off + 2)) (\<lambda>s1. rbind (rd msg (off + 3)) (\<lambda>s0. rbind (rd msg off) (\<lambda>d1. rbind (rd msg (off + 1)) (\<lambda>d0.
             Inr (udh_ports ''PORT16 '' (push_bit 8 (ucast s1) OR ucast s0) (push_bit 8 (ucast d1) OR ucast d0) cmd sm)))))
      else if type = 0x06 then
        Inr (if vlen \<noteq> 1 then udh_fail ''SMS_SC_PARAM'' cmd sm else (sm, cmd, True))
      else if type = 0x07 then
        Inr (if vlen \<noteq> 1 then udh_fail ''SMS_SOURCE_IND'' cmd sm else (sm, cmd, True))
      else if type = 0x08 then
        if vlen \<noteq> 4 then Inr (udh_fail ''SMS_FRAG16_HDR'' cmd sm) else udh_concat msg (off + 2) ''SMS_FRAG_16'' cmd sm
      else if type = 0x22 then udh_reply junk msg off vlen cmd sm
      else if type = 0x24 then
        if vlen \<noteq> 1 then Inr (udh_fail ''SMS_LANG_SHIFT'' cmd sm)
        else rbind (rd msg off) (\<lambda>b. Inr (sm_append (''LANG_SHIFT='' @ dec_str (unat b) @ '' '') sm, cmd, True))
      else if type = 0x25 then
        if vlen \<noteq> 1 then Inr (udh_fail ''SMS_LANG_LOCK_SHIFT'' cmd sm)
        else rbind (rd msg off) (\<lambda>b. Inr (sm_append (''LANG_SHIFT='' @ dec_str (unat b) @ '' '') sm, cmd, True))
      else if type = 0x70 then Inr (sm\<lparr>sm_ota := 1, sm_ota_iei := 0x70\<rparr>, True, True)
      else if type = 0x71 then Inr (sm\<lparr>sm_ota := 1, sm_ota_iei := 0x71\<rparr>, False, True)
      else if type = 0x7f then Inr (sm\<lparr>sm_ota := 1, sm_ota_iei := 0x7f\<rparr>, True, True)
      else if type = 0xda then
        if vlen > header_len then Inr (udh_fail ''SMS_SMSC_SPECIFIC'' cmd sm)
        else rbind (rdn msg off (unat vlen)) (\<lambda>_. Inr (sm, cmd, True))
      else Inr (sm, cmd, True))"

text \<open>
  The walk over the elements.  The offset of the next element depends on the message and the offset
  only, and it has 256 values: a walk of more than 256 elements never ends.
\<close>

fun udh_walk :: "nat \<Rightarrow> u8 list \<Rightarrow> u8 list \<Rightarrow> nat \<Rightarrow> u8 \<Rightarrow> u8 \<Rightarrow> bool \<Rightarrow> sms_meta \<Rightarrow> udh_state res" where
  "udh_walk fuel junk msg len header_len offset cmd sm =
     (if offset \<le> header_len
      then case fuel of
             0 \<Rightarrow> Inl Diverges
           | Suc fuel \<Rightarrow>
               rbind (rd msg (unat offset)) (\<lambda>type. rbind (rd msg (unat (offset + 1))) (\<lambda>vlen.
               let offset = offset + 2 in
               if unat offset + unat vlen > len then Inr (udh_fail ''UDH_IEI_LEN'' cmd sm)
               else rbind (udh_element junk msg header_len type vlen offset cmd sm) (\<lambda>(sm, cmd, go).
                    if go then udh_walk fuel junk msg len header_len (offset + vlen) cmd sm else Inr (sm, cmd, False))))
      else Inr (sm, cmd, True))"

declare udh_walk.simps [simp del]

definition handle_udh :: "u8 list \<Rightarrow> sms_meta \<Rightarrow> u8 list \<Rightarrow> nat \<Rightarrow> sms_meta res" where
  "handle_udh junk sm msg len =
     (if len = 0 then Inr ((sm_append ''NO DATA'' sm)\<lparr>sm_real_length := 0\<rparr>)
      else rbind (rd msg 0) (\<lambda>header_len.
           if unat header_len > len - 1 then Inr (sm_append ''SANITY CHECK FAILED (SMS_UDH_LEN)'' sm)
           else let user_data = drop (unat header_len + 1) msg; user_data_len = len - unat header_len - 1;
                    sm = sm\<lparr>sm_udh_length := header_len, sm_real_length := of_nat user_data_len\<rparr>
                in rbind (udh_walk 256 junk msg len header_len 1 False sm) (\<lambda>(sm, ota_cmd, go).
                   if \<not> go then Inr sm
                   else if nz (sm_ota sm)
                   then if ota_cmd then handle_sec_cp (sm_append ''OTA '' sm) user_data
                        else handle_sec_rp (sm_append ''OTA '' sm) user_data user_data_len
                   else handle_text sm user_data user_data_len)))"

subsection \<open>TP layer\<close>

text \<open>The end of \<open>handle_tpdu\<close>, from the user data length on.\<close>

definition tpdu_user_data :: "u8 list \<Rightarrow> u8 list \<Rightarrow> nat \<Rightarrow> u8 \<Rightarrow> sms_meta \<Rightarrow> sms_meta option res" where
  "tpdu_user_data junk msg len off sm =
     rbind (rd msg (unat off)) (\<lambda>l.
     let sm = sm\<lparr>sm_length := l\<rparr>; off = off + 1; rest = len - unat off;
         sm = (if sm_dcs sm AND 0xe0 \<noteq> 0x20 \<and> unat l * 7 div 8 > rest
               then (sm_append ''<TRUNCATED> '' sm)\<lparr>sm_length := of_nat (rest * 8 div 7)\<rparr> else sm)
     in if len \<le> unat off then Inr None
        else rbind (rdn msg (unat off) rest) (\<lambda>d. rbind (wrn (sm_data sm) 0 d) (\<lambda>d.
             let sm = sm\<lparr>sm_data := d\<rparr> in
             rbind (if nz (sm_udhi sm) then handle_udh junk sm (drop (unat off) msg) (unat (sm_length sm))
                    else rbind (handle_text sm (drop (unat off) msg) (unat (sm_length sm))) (\<lambda>sm.
                         Inr (sm\<lparr>sm_real_length := of_nat rest\<rparr>))) (\<lambda>sm.
             Inr (Some sm)))))"

text \<open>
  The fields after the address: protocol identifier, coding scheme, and the offset of the user data
  length.  \<open>None\<close> is a truncated message.
\<close>

definition tpdu_fields :: "u8 list \<Rightarrow> u8 list \<Rightarrow> nat \<Rightarrow> bool \<Rightarrow> u8 \<Rightarrow> u8 \<Rightarrow> sms_meta \<Rightarrow> sms_meta option res" where
  "tpdu_fields junk msg len from_network vp off sm =
     (if len \<le> unat off then Inr None
      else rbind (rd msg (unat off)) (\<lambda>pid. rbind (rd msg (unat (off + 1))) (\<lambda>dcs.
           let off = off + 2;
               sm = sm\<lparr>sm_pid := pid, sm_dcs := dcs, sm_alphabet := get_sms_alphabet dcs, sm_class := get_sms_class dcs\<rparr>
           in if len \<le> unat off then Inr None
              else let off = (if from_network then off + 7
                              else if vp = 0 then off else if vp = 2 then off + 1 else off + 7)
                   in if len \<le> unat off then Inr None else tpdu_user_data junk msg len off sm)))"

definition sms_link :: "sms_meta \<Rightarrow> session_info \<Rightarrow> session_info" where
  "sms_link sm s = (let seq = (case s_sms_list s of [] \<Rightarrow> 0 | sm' # _ \<Rightarrow> sm_sequence sm' + 1)
     in s\<lparr>s_sms_list := sm\<lparr>sm_sequence := seq\<rparr> # s_sms_list s\<rparr>)"

definition handle_tpdu :: "nat \<Rightarrow> u8 list \<Rightarrow> nat \<Rightarrow> bool \<Rightarrow> u8 list option \<Rightarrow> world \<Rightarrow> world res" where
  "handle_tpdu i msg len from_network smsc w =
     (if len < 2 \<or> len > 255 then Inr w
      else rbind (case smsc of None \<Rightarrow> Inl Uninitialised | Some b \<Rightarrow> Inr b) (\<lambda>smsc.
           rbind (rd smsc 0) (\<lambda>c.
           rbind (rd msg 0) (\<lambda>m0.
           let sm = zero_sms\<lparr>sm_smsc := (if nz c then strncpy_buf 32 smsc else strncpy_buf 32 (str_bytes ''<NO ADDRESS>'')),
                             sm_udhi := of_bool (bit m0 6)\<rparr>;
               vp = drop_bit 3 m0 AND 0x03;
               off = (if from_network then 1 else 2 :: u8)
           in rbind (rd msg (unat off)) (\<lambda>l.
              let f_len = l + 1; off = off + 1
              in rbind (handle_address (drop (unat off) msg) (ucast f_len) (sm_msisdn sm) True) (\<lambda>msisdn.
                 let sm = sm\<lparr>sm_msisdn := msisdn, sm_from_network := of_bool from_network\<rparr>
                 in rbind (append_info i ((if from_network then '', FROM '' else '', TO '') @ bytes_str msisdn) w) (\<lambda>w.
                    rbind (tpdu_fields (w_stack w) msg len from_network vp (off + (f_len div 2 + 1)) sm) (\<lambda>r.
                    case r of
                      None \<Rightarrow> append_info i '' <TRUNCATED>'' w
                    | Some sm \<Rightarrow> upd i (sms_link sm) w))))))))"

subsection \<open>RP and CP layers\<close>

definition rpdata_type :: "nat \<Rightarrow> u8 list \<Rightarrow> u8 \<Rightarrow> u8 \<Rightarrow> bool \<Rightarrow> u8 list option \<Rightarrow> world \<Rightarrow> world res" where
  "rpdata_type i data off f_len from_network smsc w =
     rbind (rd data (unat off)) (\<lambda>b.
     let type = b AND 0x03 in
     if from_network then
       if type = 0 then seqs [append_info i ''-DELIVER'', handle_tpdu i (drop (unat off) data) (unat f_len) True smsc] w
       else if type = 1 then append_info i ''-SUBMIT-REPORT'' w
       else if type = 2 then append_info i ''-STATUS-REPORT'' w
       else append_info i ''-RESERVED'' w
     else
       if type = 0 then append_info i ''-DELIVER-REPORT'' w
       else if type = 1 then seqs [append_info i ''-SUBMIT'', handle_tpdu i (drop (unat off) data) (unat f_len) False smsc] w
       else if type = 2 then append_info i ''-COMMAND'' w
       else append_info i ''-RESERVED'' w)"

text \<open>
  One of the two addresses of the service centre: \<open>allowed\<close> is whether the direction permits it.
  The result is the buffer, if it was written, and the next offset; \<open>None\<close> is the sanity check.
\<close>

definition rpdata_address ::
  "u8 list \<Rightarrow> u8 list \<Rightarrow> u8 \<Rightarrow> bool \<Rightarrow> u8 list option \<Rightarrow> (u8 list option \<times> u8) option res" where
  "rpdata_address junk data off allowed smsc =
     rbind (rd data (unat off)) (\<lambda>f_len.
     let off = off + 1 in
     if f_len = 0 then Inr (Some (smsc, off))
     else if \<not> allowed then Inr None
     else rbind (handle_address (drop (unat off) data) (ucast f_len) (case smsc of Some b \<Rightarrow> b | None \<Rightarrow> junk) False) (\<lambda>smsc.
          Inr (Some (Some smsc, off + f_len))))"

definition handle_rpdata :: "nat \<Rightarrow> u8 list \<Rightarrow> u32 \<Rightarrow> bool \<Rightarrow> world \<Rightarrow> world res" where
  "handle_rpdata i data len from_network w =
     (if len = 0 then Inr w
      else rbind (rpdata_address (w_stack w) data 0 from_network None) (\<lambda>r. case r of
        None \<Rightarrow> set_info i ''SANITY CHECK FAILED (SMS_SMSC_MO)'' w
      | Some (smsc, off) \<Rightarrow>
        rbind (rpdata_address (w_stack w) data off (\<not> from_network) smsc) (\<lambda>r. case r of
          None \<Rightarrow> set_info i ''SANITY CHECK FAILED (SMS_SMSC_MT)'' w
        | Some (smsc, off) \<Rightarrow>
          rbind (rd data (unat off)) (\<lambda>f_len.
          let off = off + 1;
              f_len = (if ucast f_len > len - ucast off then ucast (len - ucast off - 1) else f_len)
          in if ucast off \<ge> len then set_info i ''SANITY CHECK FAILED (SMS_OFFSET)'' w
             else rpdata_type i data off f_len from_network smsc w))))"

definition handle_cpdata :: "nat \<Rightarrow> u8 list \<Rightarrow> u32 \<Rightarrow> world \<Rightarrow> world res" where
  "handle_cpdata i data len w =
     (if len < 3 then set_info i ''SANITY CHECK FAILED (RP_DATA_LEN)'' w
      else rbind (rd data 1) (\<lambda>mt.
           let t = mt AND 0x0f in
           if t = 0x00 then seqs [set_info i ''SMS RP-DATA'', handle_rpdata i (drop 3 data) (len - 3) False, upd i (\<lambda>s. s\<lparr>s_mo := 1\<rparr>)] w
           else if t = 0x01 then seqs [set_info i ''SMS RP-DATA'', handle_rpdata i (drop 3 data) (len - 3) True, upd i (\<lambda>s. s\<lparr>s_mt := 1\<rparr>)] w
           else if t = 0x02 then seqs [set_info i ''SMS RP-ACK'', upd i (\<lambda>s. s\<lparr>s_mt := 1\<rparr>)] w
           else if t = 0x03 then seqs [set_info i ''SMS RP-ACK'', upd i (\<lambda>s. s\<lparr>s_mo := 1\<rparr>)] w
           else if t = 0x04 then seqs [set_info i ''SMS RP-ERROR'', upd i (\<lambda>s. s\<lparr>s_mt := 1\<rparr>)] w
           else if t = 0x05 then seqs [set_info i ''SMS RP-ACK'', upd i (\<lambda>s. s\<lparr>s_mo := 1\<rparr>)] w
           else if t = 0x06 then seqs [set_info i ''SMS RP-SMMA'', upd i (\<lambda>s. s\<lparr>s_mo := 1\<rparr>)] w
           else upd i (\<lambda>s. s\<lparr>s_unknown := 1\<rparr>) w))"

definition handle_sms :: "nat \<Rightarrow> u8 list \<Rightarrow> u32 \<Rightarrow> world \<Rightarrow> world res" where
  "handle_sms i dtap len = seqs [
     upd i (\<lambda>s. s\<lparr>s_sms := 1, s_sms_presence := 1\<rparr>),
     (\<lambda>w. rbind (rd dtap 1) (\<lambda>mt.
        let t = mt AND 0x1f in
        if t = 0x01 then handle_cpdata i (drop 2 dtap) (len - 2) w
        else if t = 0x04 then set_info i ''SMS CP-ACK'' w
        else if t = 0x10 then set_info i ''SMS CP-ERROR'' w
        else upd i (\<lambda>s. s\<lparr>s_unknown := 1\<rparr>) w))]"

end
