(* ===== verification/Cell_Info.thy ===== *)
theory Cell_Info
  imports Session Osmo Freq_List
begin

text \<open>
  The cells that were seen (\<open>gsm-parser/cell_info.c\<close>): system information fills a record per cell,
  paging requests are counted, and both are written out from time to time.

  Cells live in a store of their own, \<open>w_cells\<close>, a freed cell being \<open>None\<close>; \<open>cell_list\<close> is the list
  of their addresses, the newest first.  The texts of the SQL statements are left out: an event
  carries the data of a statement.  \<open>get_from_cid\<close> has no caller and is not modelled.
  The number of the message System Information 2quater is not in the header of libosmocore beside the
  parser; it is 7 (TS 04.18, table 9.1.1).
\<close>

section \<open>Definitions\<close>

subsection \<open>Numbers\<close>

definition SI1 :: nat where "SI1 = 0"
definition SI2 :: nat where "SI2 = 1"
definition SI2b :: nat where "SI2b = 2"
definition SI2t :: nat where "SI2t = 3"
definition SI2q :: nat where "SI2q = 4"
definition SI3 :: nat where "SI3 = 5"
definition SI4 :: nat where "SI4 = 6"
definition SI5 :: nat where "SI5 = 7"
definition SI5b :: nat where "SI5b = 8"
definition SI5t :: nat where "SI5t = 9"
definition SI6 :: nat where "SI6 = 10"
definition SI13 :: nat where "SI13 = 11"
definition SI_MAX :: nat where "SI_MAX = 12"

lemmas si_consts = SI1_def SI2_def SI2b_def SI2t_def SI2q_def SI3_def SI4_def SI5_def SI5b_def SI5t_def SI6_def SI13_def
  SI_MAX_def

definition GSM_MI_TYPE_MASK :: u8 where "GSM_MI_TYPE_MASK = 0x07"
definition GSM_MI_TYPE_NONE :: u8 where "GSM_MI_TYPE_NONE = 0x00"
definition GSM_MI_TYPE_IMSI :: u8 where "GSM_MI_TYPE_IMSI = 0x01"
definition GSM_MI_TYPE_IMEI :: u8 where "GSM_MI_TYPE_IMEI = 0x02"
definition GSM_MI_TYPE_IMEISV :: u8 where "GSM_MI_TYPE_IMEISV = 0x03"
definition GSM_MI_TYPE_TMSI :: u8 where "GSM_MI_TYPE_TMSI = 0x04"

lemmas mi_consts = GSM_MI_TYPE_MASK_def GSM_MI_TYPE_NONE_def GSM_MI_TYPE_IMSI_def GSM_MI_TYPE_IMEI_def
  GSM_MI_TYPE_IMEISV_def GSM_MI_TYPE_TMSI_def

definition get_mcc :: "u8 list \<Rightarrow> u16 res" where
  "get_mcc digits = rbind (rd digits 0) (\<lambda>d0. rbind (rd digits 1) (\<lambda>d1.
     Inr (ucast (d0 AND 0xf) * 100 + ucast (drop_bit 4 d0) * 10 + ucast (d1 AND 0xf) * 1)))"

definition get_mnc :: "u8 list \<Rightarrow> u16 res" where
  "get_mnc digits = rbind (rd digits 1) (\<lambda>d1. rbind (rd digits 2) (\<lambda>d2.
     if drop_bit 4 d1 = 0xf
     then Inr (ucast (d2 AND 0xf) * 10 + ucast (drop_bit 4 d2) * 1)
     else Inr (ucast (d2 AND 0xf) * 100 + ucast (drop_bit 4 d2) * 10 + ucast (drop_bit 4 d1) * 1)))"

text \<open>\<open>htons\<close> of a number in the message: two octets, the high one first.\<close>

definition be16 :: "u8 list \<Rightarrow> nat \<Rightarrow> u16 res" where
  "be16 xs i = rbind (rd xs i) (\<lambda>h. rbind (rd xs (i + 1)) (\<lambda>l. Inr (push_bit 8 (ucast h) OR ucast l)))"

definition si_index :: "u8 \<Rightarrow> nat option" where
  "si_index msg_type =
     (if msg_type = 0x19 then Some SI1
      else if msg_type = 0x1a then Some SI2
      else if msg_type = 0x02 then Some SI2b
      else if msg_type = 0x03 then Some SI2t
      else if msg_type = 0x07 then Some SI2q
      else if msg_type = 0x1b then Some SI3
      else if msg_type = 0x1c then Some SI4
      else if msg_type = 0x1d then Some SI5
      else if msg_type = 0x05 then Some SI5b
      else if msg_type = 0x06 then Some SI5t
      else if msg_type = 0x1e then Some SI6
      else if msg_type = 0x00 then Some SI13
      else None)"

definition si_mask :: "nat \<Rightarrow> u8" where
  "si_mask index =
     (if index = SI1 then 0x01
      else if index = SI2 then 0x02
      else if index = SI2b then 0x04
      else if index = SI2t then 0x08
      else if index = SI5 then 0x10
      else if index = SI5b then 0x20
      else if index = SI5t then 0x40
      else 0)"

subsection \<open>The store of cells\<close>

definition cell_at :: "nat \<Rightarrow> world \<Rightarrow> cell_info res" where
  "cell_at a w = rbind (rd (w_cells w) a) (\<lambda>c. case c of None \<Rightarrow> Inl UseAfterFree | Some ci \<Rightarrow> Inr ci)"

definition upd_cell :: "nat \<Rightarrow> (cell_info \<Rightarrow> cell_info res) \<Rightarrow> world \<Rightarrow> world res" where
  "upd_cell a f w = rbind (cell_at a w) (\<lambda>ci. rbind (f ci) (\<lambda>ci. Inr (w\<lparr>w_cells := (w_cells w)[a := Some ci]\<rparr>)))"

definition free_cell :: "nat \<Rightarrow> world \<Rightarrow> world res" where
  "free_cell a w = rbind (cell_at a w) (\<lambda>ci. Inr (w\<lparr>w_cells := (w_cells w)[a := None]\<rparr>))"

definition malloc_cell :: "world \<Rightarrow> nat \<times> world" where
  "malloc_cell w = (length (w_cells w), w\<lparr>w_cells := w_cells w @ [Some zero_cell]\<rparr>)"

text \<open>The search in the list: the first cell that has the same data for this message.\<close>

fun find_cell :: "nat \<Rightarrow> u8 list \<Rightarrow> nat list \<Rightarrow> world \<Rightarrow> nat option res" where
  "find_cell index data [] w = Inr None"
| "find_cell index data (a # as) w =
     rbind (cell_at a w) (\<lambda>ci. rbind (rd (ci_si_data ci) index) (\<lambda>d. rbind (rdn d 0 (length data)) (\<lambda>d.
     if d = data then Inr (Some a) else find_cell index data as w)))"

definition get_from_si :: "u8 \<Rightarrow> u8 list \<Rightarrow> nat \<Rightarrow> world \<Rightarrow> nat option res" where
  "get_from_si msg_type data len w =
     rbind (rassert (len < 21)) (\<lambda>_.
     case si_index msg_type of
       None \<Rightarrow> Inr None
     | Some index \<Rightarrow> if w_cell_list w = [] then Inr None
                     else rbind (rdn data 0 len) (\<lambda>data. find_cell index data (w_cell_list w) w))"

definition arfcn_count :: "cell_info \<Rightarrow> nat \<Rightarrow> u16 res" where
  "arfcn_count ci index =
     rbind (rassert (index < SI_MAX)) (\<lambda>_.
     if si_mask index = 0 then Inr 0
     else rbind (rd (ci_si_counter ci) index) (\<lambda>n.
          if n = 0 then Inr 0
          else rfold (\<lambda>i count. rbind (rd (ci_arfcn_list ci) i) (\<lambda>m.
                 Inr (if nz (m AND si_mask index) then count + 1 else count))) [0..<1024] 0))"

subsection \<open>Rest octets\<close>

text \<open>
  \<open>Optional Selection Parameters\<close> and \<open>Optional Power Offset\<close>, which both messages have.
\<close>

definition si_rest_common :: "cell_info \<Rightarrow> bitvec \<Rightarrow> (cell_info \<times> bitvec) res" where
  "si_rest_common ci bv =
     rbind (bitvec_get_bit_high bv) (\<lambda>(b, bv).
     rbind (if b = BV_H
            then rbind (bitvec_get_uint bv 1) (\<lambda>(x, bv).
                 rbind (bitvec_get_uint bv 6) (\<lambda>(cro, bv).
                 rbind (bitvec_get_uint bv 3) (\<lambda>(tof, bv).
                 rbind (bitvec_get_uint bv 5) (\<lambda>(pen, bv).
                 Inr (ci\<lparr>ci_cro := of_int cro, ci_temp_offset := of_int tof, ci_pen_time := of_int pen\<rparr>, bv)))))
            else Inr (ci, bv)) (\<lambda>(ci, bv).
     rbind (bitvec_get_bit_high bv) (\<lambda>(b, bv).
     if b = BV_H
     then rbind (bitvec_get_uint bv 3) (\<lambda>(off, bv). Inr (ci\<lparr>ci_pwr_offset := of_int off\<rparr>, bv))
     else Inr (ci, bv))))"

definition handle_si3_rest :: "cell_info \<Rightarrow> u8 list \<Rightarrow> u8 \<Rightarrow> cell_info res" where
  "handle_si3_rest ci si len =
     rbind (si_rest_common ci \<lparr>bv_cur = 0, bv_data = si, bv_len = unat len\<rparr>) (\<lambda>(ci, bv).
     rbind (bitvec_get_bit_high bv) (\<lambda>(b, bv).
     rbind (bitvec_get_bit_high bv) (\<lambda>(b, bv).
     rbind (bitvec_get_bit_high bv) (\<lambda>(b, bv).
     rbind (if b = BV_H then rbind (bitvec_get_uint bv 3) (\<lambda>(x, bv). Inr bv) else Inr bv) (\<lambda>bv.
     rbind (bitvec_get_bit_high bv) (\<lambda>(b, bv).
     Inr (if b = BV_H then ci\<lparr>ci_gprs := 1\<rparr> else ci)))))))"

definition handle_si4_rest :: "cell_info \<Rightarrow> u8 list \<Rightarrow> u8 \<Rightarrow> cell_info res" where
  "handle_si4_rest ci si len =
     rbind (si_rest_common ci \<lparr>bv_cur = 0, bv_data = si, bv_len = unat len\<rparr>) (\<lambda>(ci, bv).
     rbind (bitvec_get_bit_high bv) (\<lambda>(b, bv).
     Inr (if b = BV_H then ci\<lparr>ci_gprs := 1\<rparr> else ci)))"

definition GSM48_IE_CBCH_CHAN_DESC :: u8 where "GSM48_IE_CBCH_CHAN_DESC = 0x64"
definition GSM48_IE_CBCH_MOB_AL :: u8 where "GSM48_IE_CBCH_MOB_AL = 0x72"

definition si4_padding :: "cell_info \<Rightarrow> u8 list \<Rightarrow> u32 \<Rightarrow> u8 \<Rightarrow> cell_info res" where
  "si4_padding ci data len offset =
     rbind (rd data (unat offset)) (\<lambda>b.
     if b = 0x2b then Inr ci
     else if ucast offset < len then handle_si4_rest ci data (ucast (len - ucast offset)) else Inr ci)"

definition handle_si4_data :: "cell_info \<Rightarrow> u8 list \<Rightarrow> u32 \<Rightarrow> cell_info res" where
  "handle_si4_data ci data len =
     (if len = 0 then Inr ci
      else rbind (rd data 0) (\<lambda>d0.
           if d0 \<noteq> GSM48_IE_CBCH_CHAN_DESC then si4_padding ci data len 1
           else if 4 \<ge> len then Inr ci
           else rbind (rd data 2) (\<lambda>h.
                if bit h 4
                then rbind (rd data 4) (\<lambda>t.
                     if t = GSM48_IE_CBCH_MOB_AL
                     then rbind (rd data 5) (\<lambda>l. si4_padding ci data len (5 + (l + 1)))
                     else si4_padding ci data len 5)
                else si4_padding ci data len 4)))"

subsection \<open>System information\<close>

text \<open>
  What the message itself says of the cell.  The structures of the messages on the BCCH start one
  octet before \<open>dtap\<close>; the offsets here count from \<open>dtap\<close>.
\<close>

definition si_location :: "u8 list \<Rightarrow> nat \<Rightarrow> cell_info \<Rightarrow> cell_info res" where
  "si_location dtap off ci =
     rbind (get_mcc (drop off dtap)) (\<lambda>mcc. rbind (get_mnc (drop off dtap)) (\<lambda>mnc. rbind (be16 dtap (off + 3)) (\<lambda>lac.
     Inr (ci\<lparr>ci_mcc := mcc, ci_mnc := mnc, ci_lac := lac\<rparr>))))"

definition si_frequencies :: "u8 list \<Rightarrow> u8 \<Rightarrow> cell_info \<Rightarrow> cell_info res" where
  "si_frequencies dtap msk ci =
     rbind (gsm48_decode_freq_list (ci_arfcn_list ci) (drop 2 dtap) 16 0xff msk) (\<lambda>(f, rc). Inr (ci\<lparr>ci_arfcn_list := f\<rparr>))"

definition si3_fields :: "u8 list \<Rightarrow> u32 \<Rightarrow> cell_info \<Rightarrow> cell_info res" where
  "si3_fields dtap len ci =
     rbind (si_location dtap 4 ci) (\<lambda>ci. rbind (be16 dtap 2) (\<lambda>cid.
     rbind (rd dtap 9) (\<lambda>c0. rbind (rd dtap 10) (\<lambda>c1. rbind (rd dtap 11) (\<lambda>c2.
     let ci = ci\<lparr>ci_cid := ucast cid, ci_combined := (if c0 AND 7 = 1 then 1 else 0), ci_msc_ver := drop_bit 7 c0,
                 ci_t3212 := c2, ci_agch_blocks := drop_bit 3 c0 AND 7, ci_pag_mframes := 2 + (c1 AND 7)\<rparr>
     in rbind (rd dtap 18) (\<lambda>r.
        if r \<noteq> 0x2b then handle_si3_rest ci (drop 18 dtap) (ucast (len - 19)) else Inr ci))))))"

definition si6_fields :: "u8 list \<Rightarrow> cell_info \<Rightarrow> cell_info res" where
  "si6_fields dtap ci = rbind (si_location dtap 4 ci) (\<lambda>ci. rbind (be16 dtap 2) (\<lambda>cid. Inr (ci\<lparr>ci_cid := ucast cid\<rparr>)))"

definition si_fields :: "nat \<Rightarrow> u8 list \<Rightarrow> u32 \<Rightarrow> cell_info \<Rightarrow> cell_info res" where
  "si_fields index dtap len ci =
     (if si_mask index \<noteq> 0 then si_frequencies dtap (si_mask index) ci
      else if index = SI3 then si3_fields dtap len ci
      else if index = SI4
      then rbind (si_location dtap 2 ci) (\<lambda>ci. handle_si4_data ci (drop 12 dtap) (len - 13))
      else if index = SI6 then si6_fields dtap ci
      else Inr ci)"

text \<open>
  The messages of the SACCH belong to the cell of the session: the first one sets it, the later ones
  go there, a new cell being given back.
\<close>

definition session_cell :: "nat \<Rightarrow> nat \<Rightarrow> bool \<Rightarrow> world \<Rightarrow> (nat \<times> bool \<times> world) res" where
  "session_cell i a fresh w =
     rbind (sess i w) (\<lambda>s. case s_ci s of
       Some c \<Rightarrow> rbind (if fresh then free_cell a w else Inr w) (\<lambda>w. Inr (c, False, w))
     | None \<Rightarrow> rbind (upd i (\<lambda>s. s\<lparr>s_ci := Some a\<rparr>) w) (\<lambda>w. Inr (a, fresh, w)))"

text \<open>The end of \<open>handle_sysinfo\<close>: the fields common to all messages, and the list.\<close>

definition si_store :: "nat \<Rightarrow> u8 list \<Rightarrow> radio_message \<Rightarrow> cell_info \<Rightarrow> cell_info res" where
  "si_store index data m ci =
     rbind (rd (bb_arfcn (rm_bb m)) 0) (\<lambda>arfcn.
     rbind (rd (ci_si_counter ci) index) (\<lambda>n.
     rbind (wr (ci_si_counter ci) index (n + 1)) (\<lambda>counter.
     let ci = ci\<lparr>ci_last_seen := rm_timestamp m, ci_bcch_arfcn := arfcn, ci_si_counter := counter\<rparr> in
     rbind (arfcn_count ci index) (\<lambda>count.
     rbind (wr (ci_a_count ci) index count) (\<lambda>a_count.
     rbind (rd (ci_si_data ci) index) (\<lambda>old.
     rbind (wrn old 0 data) (\<lambda>new.
     rbind (wr (ci_si_data ci) index new) (\<lambda>si_data.
     Inr (ci\<lparr>ci_a_count := a_count, ci_si_data := si_data\<rparr>)))))))))"

definition si_append :: "nat \<Rightarrow> radio_message \<Rightarrow> world \<Rightarrow> world res" where
  "si_append a m w =
     rbind (upd_cell a (\<lambda>ci. Inr (ci\<lparr>ci_first_seen := rm_timestamp m, ci_id := w_cell_info_id w\<rparr>)) w) (\<lambda>w.
     Inr (w\<lparr>w_cell_info_id := w_cell_info_id w + 1, w_cell_list := a # w_cell_list w\<rparr>))"

text \<open>
  From the switch over the message on: a message on the BCCH fills the fields of a new cell only, one on
  the SACCH those of the cell of the session.
\<close>

definition sysinfo_update :: "nat \<Rightarrow> u8 list \<Rightarrow> u32 \<Rightarrow> nat \<Rightarrow> nat \<times> bool \<times> world \<Rightarrow> world res" where
  "sysinfo_update i dtap len index =
     (\<lambda>(a, fresh, w).
      rbind (if index \<in> {SI5, SI5b, SI5t, SI6} \<or> fresh then upd_cell a (si_fields index dtap len) w else Inr w) (\<lambda>w.
      rbind (sess i w) (\<lambda>s. rbind (deref (s_new_msg s) w) (\<lambda>m.
      rbind (rdn dtap 2 (min (unat (len - 2)) 20)) (\<lambda>data.
      rbind (upd_cell a (si_store index data m) w) (\<lambda>w.
      if fresh then si_append a m w else Inr w))))))"

definition sysinfo_index :: "nat \<Rightarrow> u8 list \<Rightarrow> u32 \<Rightarrow> u8 \<Rightarrow> nat \<Rightarrow> world \<Rightarrow> world res" where
  "sysinfo_index i dtap len msg_type index w =
     rbind (get_from_si msg_type (drop 2 dtap) (min (unat (len - 2)) 20) w) (\<lambda>found.
     let (a, fresh, w) = (case found of Some a \<Rightarrow> (a, False, w)
                           | None \<Rightarrow> (case malloc_cell w of (a, w) \<Rightarrow> (a, True, w)))
     in rbind (if index \<in> {SI5, SI5b, SI5t, SI6} then session_cell i a fresh w else Inr (a, fresh, w))
          (sysinfo_update i dtap len index))"

definition handle_sysinfo :: "nat \<Rightarrow> u8 list \<Rightarrow> u32 \<Rightarrow> world \<Rightarrow> world res" where
  "handle_sysinfo i dtap len w =
     (if len < 4 then Inr w
      else rbind (sess i w) (\<lambda>s. rbind (deref (s_new_msg s) w) (\<lambda>m.
      if nz (rm_flags m AND MSG_SDCCH) then Inr w
      else rbind (on_cond (nz (s_started s) \<and> (nz (s_mt s) \<or> nz (s_mo s))
                    \<and> (nz (s_sms_presence s) \<or> nz (s_call_presence s) \<or> nz (s_lu_acc s) \<or> nz (s_lu_reject s))
                    \<and> s_closed s = 0 \<and> nz (rm_flags m AND MSG_BCCH))
                  (session_reset i True) w) (\<lambda>w.
           rbind (rd dtap 1) (\<lambda>msg_type.
           case si_index msg_type of
             None \<Rightarrow> Inr w
           | Some index \<Rightarrow> sysinfo_index i dtap len msg_type index w)))))"

subsection \<open>Paging\<close>

definition paging_inc :: "nat \<Rightarrow> u8 \<Rightarrow> world \<Rightarrow> world res" where
  "paging_inc pag_type mi_type w =
     rbind (rassert (pag_type < 4)) (\<lambda>_.
     rbind (if 0 < pag_type \<and> mi_type \<noteq> GSM_MI_TYPE_NONE
            then rbind (rd (w_paging_count w) (pag_type - 1)) (\<lambda>n.
                 rbind (wr (w_paging_count w) (pag_type - 1) (n + 1)) (\<lambda>c. Inr (w\<lparr>w_paging_count := c\<rparr>)))
            else Inr w) (\<lambda>w.
     Inr (if mi_type = GSM_MI_TYPE_NONE then w\<lparr>w_paging_null := w_paging_null w + 1\<rparr>
          else if mi_type = GSM_MI_TYPE_IMSI then w\<lparr>w_paging_imsi := w_paging_imsi w + 1\<rparr>
          else if mi_type = GSM_MI_TYPE_TMSI then w\<lparr>w_paging_tmsi := w_paging_tmsi w + 1\<rparr>
          else w)))"

definition handle_paging1 :: "u8 list \<Rightarrow> u32 \<Rightarrow> world \<Rightarrow> world res" where
  "handle_paging1 data len w =
     (if len < 4 then Inr w
      else rbind (rd data 3) (\<lambda>len1.
           rbind (if len1 > 1 then rbind (rd data 4) (\<lambda>b. Inr (b AND GSM_MI_TYPE_MASK)) else Inr 0) (\<lambda>mi_type.
           rbind (paging_inc 1 mi_type w) (\<lambda>w.
           if unat len < 4 + 2 + unat len1 + 3 then Inr w
           else rbind (rd data (5 + unat len1)) (\<lambda>tag.
                rbind (rd data (7 + unat len1)) (\<lambda>b.
                if tag \<noteq> GSM48_IE_MOBILE_ID then Inr w else paging_inc 0 (b AND GSM_MI_TYPE_MASK) w))))))"

definition handle_paging2 :: "u8 list \<Rightarrow> u32 \<Rightarrow> world \<Rightarrow> world res" where
  "handle_paging2 data len w =
     (if len < 12 then Inr w
      else rbind (paging_inc 2 GSM_MI_TYPE_TMSI w) (\<lambda>w.
           rbind (paging_inc 0 GSM_MI_TYPE_TMSI w) (\<lambda>w.
           if len < 12 + 3 then Inr w
           else rbind (rd data 11) (\<lambda>tag. rbind (rd data 13) (\<lambda>b.
                if tag \<noteq> GSM48_IE_MOBILE_ID then Inr w else paging_inc 0 (b AND GSM_MI_TYPE_MASK) w)))))"

definition handle_paging3 :: "world \<Rightarrow> world res" where
  "handle_paging3 = seqs [paging_inc 3 GSM_MI_TYPE_TMSI, paging_inc 0 GSM_MI_TYPE_TMSI,
     paging_inc 0 GSM_MI_TYPE_TMSI, paging_inc 0 GSM_MI_TYPE_TMSI]"

subsection \<open>Output\<close>

definition paging_reset :: "world \<Rightarrow> world" where
  "paging_reset w = w\<lparr>w_paging_count := [0, 0, 0], w_paging_imsi := 0, w_paging_tmsi := 0\<rparr>"

text \<open>An empty query is not passed to the call-back.\<close>

definition arfcn_list_make_sql :: "cell_info \<Rightarrow> nat \<Rightarrow> event list res" where
  "arfcn_list_make_sql ci index =
     (if si_mask index = 0 then Inr []
      else rbind (rd (ci_si_counter ci) index) (\<lambda>n. rbind (rd (ci_a_count ci) index) (\<lambda>c.
           Inr (if n = 0 \<or> c = 0 then [] else [Sql_arfcn_list ci index]))))"

definition paging_make_sql :: "u32 \<Rightarrow> world \<Rightarrow> event list" where
  "paging_make_sql epoch_now w =
     (if epoch_now - w_previous_ts w \<noteq> 0
      then [Sql_paging epoch_now (epoch_now - w_previous_ts w) (w_paging_count w) (w_paging_imsi w) (w_paging_tmsi w)]
      else [])"

definition call_back :: "event list \<Rightarrow> world \<Rightarrow> world" where
  "call_back es w = (if w_cell_callback w then w\<lparr>w_out := w_out w @ es\<rparr> else w)"

definition dump_cell :: "nat \<Rightarrow> world \<Rightarrow> world res" where
  "dump_cell a w =
     rbind (cell_at a w) (\<lambda>ci.
     rbind (rfold (\<lambda>i es. rbind (arfcn_list_make_sql ci i) (\<lambda>e. Inr (es @ e))) [0..<SI_MAX] [Sql_cell ci]) (\<lambda>es.
     upd_cell a (\<lambda>ci. Inr (ci\<lparr>ci_stored := 1\<rparr>)) (call_back es w)))"

definition cell_and_paging_dump :: "u32 \<Rightarrow> bool \<Rightarrow> bool \<Rightarrow> world \<Rightarrow> world res" where
  "cell_and_paging_dump timestamp forced on_destroy w =
     (let time_delta = timestamp - w_previous_ts w in
      if time_delta > 86400 then Inr (w\<lparr>w_previous_ts := timestamp\<rparr>)
      else if \<not> forced \<and> time_delta < 60 then Inr w
      else rbind (rfold dump_cell (w_cell_list w) w) (\<lambda>w.
           let w = call_back (paging_make_sql (if nz timestamp then timestamp else w_previous_ts w) w) w in
           rbind (if on_destroy
                  then rbind (rfold free_cell (w_cell_list w) w) (\<lambda>w. Inr (w\<lparr>w_cell_list := []\<rparr>))
                  else Inr w) (\<lambda>w.
           Inr (paging_reset w\<lparr>w_previous_ts := timestamp\<rparr>))))"

definition cell_init :: "u32 \<Rightarrow> u32 \<Rightarrow> bool \<Rightarrow> world \<Rightarrow> world" where
  "cell_init start_id unix_time callback w =
     paging_reset w\<lparr>w_cell_list := [], w_previous_ts := (if nz unix_time then unix_time else ucast (tv_sec (w_tod w))),
       w_cell_info_id := start_id, w_cell_callback := callback\<rparr>"

definition cell_destroy :: "world \<Rightarrow> (u32 \<times> world) res" where
  "cell_destroy w = rbind (cell_and_paging_dump 0 True True w) (\<lambda>w. Inr (w_cell_info_id w, w))"

text \<open>
  The end of the program (\<open>session_destroy\<close> of \<open>session.c\<close>): both sessions are reset, then the cells
  are written out.  The result has the last session number and the last cell number.
\<close>

definition session_destroy :: "world \<Rightarrow> (u32 \<times> u32 \<times> world) res" where
  "session_destroy w =
     rbind (seqs [session_reset 0 False, upd 1 (\<lambda>s. s\<lparr>s_new_msg := None\<rparr>), session_reset 1 False] w) (\<lambda>w.
     rbind (cell_destroy w) (\<lambda>(last_cid, w). Inr (w_s_id w, last_cid, w)))"

end
