(* ===== verification/Identity.thy ===== *)
theory Identity
  imports Cell_Info Address
begin

text \<open>
  The pieces of messages that identify a mobile and its place (first part of
  \<open>gsm-parser/l3_handler.c\<close>): classmark, location area, mobile identity, and the requests that are
  made of them.  A handler gets the index \<open>i\<close> of its session and a pointer into the message, the
  suffix \<open>data\<close>; offsets follow the packed structures of libosmocore.
\<close>

section \<open>Definitions\<close>

text \<open>\<open>assert(s->new_msg != NULL)\<close>\<close>

definition assert_msg :: "nat \<Rightarrow> world \<Rightarrow> world res" where
  "assert_msg i = by_sess i (\<lambda>s w. rbind (rassert (s_new_msg s \<noteq> None)) (\<lambda>_. Inr w))"

text \<open>In a classmark, \<open>a5_1\<close> is bit 3 of the first octet, \<open>a5_2\<close> and \<open>a5_3\<close> are bits 0 and 1 of the third.\<close>

definition handle_classmark :: "nat \<Rightarrow> u8 list \<Rightarrow> nat \<Rightarrow> world \<Rightarrow> world res" where
  "handle_classmark i data type = updr i (\<lambda>s.
     rbind (rd data 0) (\<lambda>b0.
     let s = s\<lparr>s_ms_cipher_mask := s_ms_cipher_mask s OR of_bool (\<not> bit b0 3)\<rparr> in
     if type = 2
     then rbind (rd data 2) (\<lambda>b2. Inr (s\<lparr>s_ms_cipher_mask := s_ms_cipher_mask s OR push_bit 1 (b2 AND 1)
                                           OR push_bit 2 (drop_bit 1 b2 AND 1)\<rparr>))
     else Inr s))"

definition handle_lai :: "nat \<Rightarrow> u8 list \<Rightarrow> int \<Rightarrow> world \<Rightarrow> world res" where
  "handle_lai i data cid = updr i (\<lambda>s.
     rbind (get_mcc data) (\<lambda>mcc. rbind (get_mnc data) (\<lambda>mnc. rbind (be16 data 3) (\<lambda>lac.
     let s = s\<lparr>s_mcc := mcc, s_mnc := mnc, s_lac := lac\<rparr>
     in Inr (if 0 \<le> cid then s\<lparr>s_cid := of_int cid\<rparr> else s)))))"

text \<open>The branch of a temporary identity: it is only stored where there is none yet.\<close>

definition store_tmsi :: "u8 list \<Rightarrow> bool \<Rightarrow> session_info \<Rightarrow> session_info res" where
  "store_tmsi data new_tmsi s =
     (if new_tmsi
      then rbind (not_zero (s_new_tmsi s) 4) (\<lambda>set. if set then Inr s
           else rbind (rdn data 1 4) (\<lambda>t. rbind (wrn (s_new_tmsi s) 0 t) (\<lambda>t. Inr (s\<lparr>s_new_tmsi := t\<rparr>))))
      else rbind (not_zero (s_old_tmsi s) 4) (\<lambda>set. if set then Inr s
           else rbind (rdn data 1 4) (\<lambda>t. rbind (wrn (s_old_tmsi s) 0 t) (\<lambda>t. Inr (s\<lparr>s_old_tmsi := t, s_use_tmsi := 1\<rparr>)))))"

definition handle_mi :: "nat \<Rightarrow> u8 list \<Rightarrow> u8 \<Rightarrow> bool \<Rightarrow> world \<Rightarrow> world res" where
  "handle_mi i data len new_tmsi w =
     (if unat len > GSM48_MI_SIZE then set_info i ''FAILED SANITY CHECKS (MI_LEN)'' w
      else rbind (rd data 0) (\<lambda>d0.
        let mi_type = d0 AND GSM_MI_TYPE_MASK in
        if mi_type = GSM_MI_TYPE_NONE then Inr w
        else if mi_type = GSM_MI_TYPE_IMSI then seqs [
          updr i (\<lambda>s. rbind (bcd2str data (s_imsi s) (unat len * 2) 1) (\<lambda>(t, n). Inr (s\<lparr>s_imsi := t\<rparr>))),
          by_sess i (\<lambda>s. append_info i ('', IMSI '' @ bytes_str (s_imsi s))),
          upd i (\<lambda>s. s\<lparr>s_use_imsi := 1\<rparr>)] w
        else if mi_type = GSM_MI_TYPE_IMEI \<or> mi_type = GSM_MI_TYPE_IMEISV then seqs [
          updr i (\<lambda>s. rbind (bcd2str data (s_imei s) 15 1) (\<lambda>(t, n). Inr (s\<lparr>s_imei := t\<rparr>))),
          by_sess i (\<lambda>s. append_info i ('', IMEI '' @ bytes_str (s_imei s)))] w
        else if mi_type = GSM_MI_TYPE_TMSI then
          rbind (hex_bin2str (drop 1 data) (replicate 9 0) 4) (\<lambda>(tmsi_str, n). seqs [
            assert_msg i,
            append_info i ('', TMSI '' @ bytes_str tmsi_str),
            updr i (store_tmsi data new_tmsi)] w)
        else set_info i ''FAILED SANITY CHECKS (MI_TYPE)'' w))"

text \<open>\<open>s->started = 1; s->closed = 0;\<close>\<close>

definition start_session :: "session_info \<Rightarrow> session_info" where
  "start_session s = s\<lparr>s_started := 1, s_closed := 0\<rparr>"

definition mi_at :: "nat \<Rightarrow> u8 list \<Rightarrow> nat \<Rightarrow> bool \<Rightarrow> world \<Rightarrow> world res" where
  "mi_at i data k new_tmsi w = rbind (rd data k) (\<lambda>len. handle_mi i (drop (k + 1) data) len new_tmsi w)"

definition cm_service :: "u8 \<Rightarrow> session_info \<Rightarrow> session_info res" where
  "cm_service t s =
     (if t = 2 then rbind (strncpy_lit (s_msisdn s) ''<emergency>'' GSM48_MI_SIZE) (\<lambda>n.
                    Inr (s\<lparr>s_call_presence := 1, s_msisdn := n, s_call := 1\<rparr>))
      else if t = 1 then Inr (s\<lparr>s_call := 1\<rparr>)
      else if t = 4 then Inr (s\<lparr>s_sms := 1\<rparr>)
      else if t = 8 then Inr (s\<lparr>s_ssa := 1\<rparr>)
      else Inr (s\<lparr>s_unknown := 1\<rparr>))"

definition handle_cmreq :: "nat \<Rightarrow> u8 list \<Rightarrow> world \<Rightarrow> world res" where
  "handle_cmreq i data = seqs [
     updr i (\<lambda>s. rbind (rd data 0) (\<lambda>d0. cm_service (d0 AND 0xf) s)),
     upd i start_session,
     updr i (\<lambda>s. rbind (rd data 0) (\<lambda>d0. Inr (s\<lparr>s_initial_seq := drop_bit 4 d0 AND 7\<rparr>))),
     handle_classmark i (drop 2 data) 2,
     mi_at i data 5 False]"

definition handle_serv_req :: "nat \<Rightarrow> u8 list \<Rightarrow> world \<Rightarrow> world res" where
  "handle_serv_req i data = seqs [
     upd i start_session,
     updr i (\<lambda>s. rbind (rd data 0) (\<lambda>d0. Inr (s\<lparr>s_initial_seq := d0 AND 7\<rparr>))),
     mi_at i data 1 False]"

definition handle_pag_resp :: "nat \<Rightarrow> u8 list \<Rightarrow> world \<Rightarrow> world res" where
  "handle_pag_resp i data = seqs [
     updr i (\<lambda>s. rbind (rd data 0) (\<lambda>d0. Inr (s\<lparr>s_initial_seq := drop_bit 4 d0\<rparr>))),
     upd i (\<lambda>s. s\<lparr>s_mt := 1\<rparr>),
     upd i start_session,
     handle_classmark i (drop 2 data) 2,
     updr i (\<lambda>s. rbind (rd data 6) (\<lambda>d6. Inr (s\<lparr>s_pag_mi := d6 AND GSM_MI_TYPE_MASK\<rparr>))),
     mi_at i data 5 False]"

definition handle_loc_upd_acc :: "nat \<Rightarrow> u8 list \<Rightarrow> u32 \<Rightarrow> world \<Rightarrow> world res" where
  "handle_loc_upd_acc i data len = seqs [
     upd i (\<lambda>s. s\<lparr>s_locupd := 1, s_mo := 1, s_lu_acc := 1\<rparr>),
     handle_lai i data (- 1),
     on_cond (len > 11) (\<lambda>w. rbind (rd data 5) (\<lambda>d5.
       on_cond (d5 = 0x17) (seqs [upd i (\<lambda>s. s\<lparr>s_tmsi_realloc := 1\<rparr>), mi_at i data 6 True]) w))]"

definition handle_loc_upd_req :: "nat \<Rightarrow> u8 list \<Rightarrow> world \<Rightarrow> world res" where
  "handle_loc_upd_req i data = seqs [
     upd i (\<lambda>s. s\<lparr>s_mo := 1, s_locupd := 1\<rparr>),
     upd i start_session,
     updr i (\<lambda>s. rbind (rd data 0) (\<lambda>d0. Inr (s\<lparr>s_lu_type := d0 AND 3, s_initial_seq := drop_bit 4 d0\<rparr>))),
     updr i (\<lambda>s. rbind (get_mcc (drop 1 data)) (\<lambda>mcc. rbind (get_mnc (drop 1 data)) (\<lambda>mnc. rbind (be16 data 4) (\<lambda>lac.
       Inr (s\<lparr>s_lu_mcc := mcc, s_lu_mnc := mnc, s_lu_lac := lac\<rparr>))))),
     handle_classmark i (drop 6 data) 1,
     mi_at i data 7 False]"

definition handle_detach :: "nat \<Rightarrow> u8 list \<Rightarrow> world \<Rightarrow> world res" where
  "handle_detach i data = seqs [
     upd i start_session,
     handle_classmark i data 1,
     mi_at i data 1 False]"

definition handle_attach_acc :: "nat \<Rightarrow> u8 list \<Rightarrow> world \<Rightarrow> world res" where
  "handle_attach_acc i data = seqs [
     upd i (\<lambda>s. s\<lparr>s_attach := 1, s_att_acc := 1\<rparr>),
     (\<lambda>w. rbind (rd data 8) (\<lambda>c. handle_lai i (drop 3 data) (int (unat c)) w)),
     (\<lambda>w. rbind (rd data 13) (\<lambda>t. on_cond (t = 0x18) (mi_at i data 14 True) w))]"

definition handle_ra_upd_acc :: "nat \<Rightarrow> u8 list \<Rightarrow> world \<Rightarrow> world res" where
  "handle_ra_upd_acc i data = seqs [
     upd i (\<lambda>s. s\<lparr>s_raupd := 1, s_lu_acc := 1\<rparr>),
     (\<lambda>w. rbind (rd data 7) (\<lambda>c. handle_lai i (drop 2 data) (int (unat c)) w)),
     (\<lambda>w. rbind (rd data 8) (\<lambda>t. on_cond (t = 0x18) (mi_at i data 9 True) w))]"

end
