(* ===== verification/Faults.thy ===== *)
theory Faults
  imports Assignment Sms Identity
begin

text \<open>
  Which faults a function can run into.  A function that only computes on buffers can leave them
  (\<open>OutOfBounds\<close>), can use a cell that was never written, or can loop for ever; it never
  dereferences a null pointer or a freed object, fails an assertion or aborts.  The predicate
  \<open>res_ok Q r\<close> says that the result \<open>r\<close> satisfies \<open>Q\<close> or is one of those three faults.  Its
  equations form a calculus of weakest preconditions; the lemmas here give, for every function that
  the message handlers call on buffers, that the buffers it writes keep their lengths.
\<close>

section \<open>The calculus\<close>

definition soft :: "c_error \<Rightarrow> bool" where
  "soft e \<longleftrightarrow> e \<in> {OutOfBounds, Uninitialised, Diverges}"

definition res_ok :: "('a \<Rightarrow> bool) \<Rightarrow> 'a res \<Rightarrow> bool" where
  "res_ok Q r = (case r of Inl e \<Rightarrow> soft e | Inr x \<Rightarrow> Q x)"

lemma soft_simps [simp]:
  "soft OutOfBounds" "soft Uninitialised" "soft Diverges"
  "\<not> soft NullDeref" "\<not> soft AssertFailed" "\<not> soft Aborted" "\<not> soft UseAfterFree"
  by (simp_all add: soft_def)

lemma res_ok_Inr [simp]: "res_ok Q (Inr x) \<longleftrightarrow> Q x"
  by (simp add: res_ok_def)

lemma res_ok_Inl [simp]: "res_ok Q (Inl e) \<longleftrightarrow> soft e"
  by (simp add: res_ok_def)

lemma res_ok_rbind [simp]: "res_ok Q (rbind m f) \<longleftrightarrow> res_ok (\<lambda>x. res_ok Q (f x)) m"
  by (cases m) simp_all

lemma res_ok_rd [simp]: "res_ok Q (rd xs i) \<longleftrightarrow> (i < length xs \<longrightarrow> Q (xs ! i))"
  by (simp add: rd_def)

lemma res_ok_wr [simp]: "res_ok Q (wr xs i v) \<longleftrightarrow> (i < length xs \<longrightarrow> Q (xs[i := v]))"
  by (simp add: wr_def)

lemma res_ok_rdn [simp]: "res_ok Q (rdn xs off n) \<longleftrightarrow> (off + n \<le> length xs \<longrightarrow> Q (take n (drop off xs)))"
  by (simp add: rdn_def)

lemma res_ok_wrn [simp]:
  "res_ok Q (wrn xs off ys) \<longleftrightarrow>
     (off + length ys \<le> length xs \<longrightarrow> Q (take off xs @ ys @ drop (off + length ys) xs))"
  by (simp add: wrn_def)

lemma res_ok_rassert [simp]: "res_ok Q (rassert b) \<longleftrightarrow> b \<and> Q ()"
  by (cases b) simp_all

lemma res_ok_mono: "res_ok R m \<Longrightarrow> (\<And>x. R x \<Longrightarrow> Q x) \<Longrightarrow> res_ok Q m"
  by (cases m) simp_all

lemma res_ok_if: "res_ok Q (if b then x else y) \<longleftrightarrow> (b \<longrightarrow> res_ok Q x) \<and> (\<not> b \<longrightarrow> res_ok Q y)"
  by simp

lemma res_ok_rfold:
  assumes "R s" and "\<And>x s. x \<in> set xs \<Longrightarrow> R s \<Longrightarrow> res_ok R (f x s)" and "\<And>s. R s \<Longrightarrow> Q s"
  shows "res_ok Q (rfold f xs s)"
  using assms(1,2)
proof (induction xs arbitrary: s)
  case (Cons x xs)
  from Cons.prems(2) [of x s] Cons.prems(1) have "res_ok R (f x s)" by simp
  then show ?case by (simp, elim res_ok_mono) (use Cons in auto)
qed (simp add: assms(3))

lemma res_ok_soft: "res_ok Q r \<Longrightarrow> r = Inl e \<Longrightarrow> soft e"
  by simp

section \<open>Buffers\<close>

lemma not_zero_from_safe: "res_ok (\<lambda>_. True) (not_zero_from t sz i)"
  by (induction t sz i rule: not_zero_from.induct) (simp add: not_zero_from.simps)

lemma not_zero_safe: "(\<And>b. Q b) \<Longrightarrow> res_ok Q (not_zero t sz)"
  by (simp add: not_zero_def) (rule res_ok_mono [OF not_zero_from_safe], simp)

lemma bcd2str_from_safe:
  "length s = n \<Longrightarrow> res_ok (\<lambda>(t, _). length t = n) (bcd2str_from bcd len i s k)"
proof (induction "len - i" arbitrary: i s k)
  case (Suc d)
  then have "res_ok (\<lambda>(t, _). length t = n) (bcd2str_from bcd len (Suc i) s' (Suc k))" if "length s' = n" for s'
    using that by simp
  with Suc.prems show ?case by (subst bcd2str_from.simps) (simp add: Let_def)
qed (subst bcd2str_from.simps, simp)

lemma bcd2str_safe: "(\<And>t n. length t = length s \<Longrightarrow> Q (t, n)) \<Longrightarrow> res_ok Q (bcd2str bcd s len off)"
  unfolding bcd2str_def by (rule res_ok_mono [OF bcd2str_from_safe [OF refl]]) auto

lemma hex_bin2str_safe: "(\<And>t n. length t = length s \<Longrightarrow> Q (t, n)) \<Longrightarrow> res_ok Q (hex_bin2str vec s n)"
  unfolding hex_bin2str_def by simp (rule res_ok_rfold [where R = "\<lambda>t. length t = length s"]; simp)

lemma strncpy_lit_safe: "(\<And>t. length t = length s \<Longrightarrow> Q t) \<Longrightarrow> res_ok Q (strncpy_lit s txt n)"
  by (simp add: strncpy_lit_def)

lemma put_str_safe: "(\<And>t. length t = length s \<Longrightarrow> Q t) \<Longrightarrow> res_ok Q (put_str s txt)"
  by (simp add: put_str_def)

lemma is_printable_from_safe: "res_ok (\<lambda>_. True) (is_printable_from s n i)"
  by (induction s n i rule: is_printable_from.induct) (simp add: is_printable_from.simps)

lemma is_printable_safe: "(\<And>b. Q b) \<Longrightarrow> res_ok Q (is_printable s n)"
  by (simp add: is_printable_def) (rule res_ok_mono [OF is_printable_from_safe], simp)

lemma gsm_septet_safe: "(\<And>c. Q c) \<Longrightarrow> res_ok Q (gsm_septet ud i)"
  by (simp add: gsm_septet_def)

lemma gsm_7bit_from_safe:
  "length buf = m \<Longrightarrow> res_ok (\<lambda>(t, _). length t = m) (gsm_7bit_from n ud l sh i ext k buf)"
proof (induction "l - i" arbitrary: i ext k buf)
  case (Suc d)
  then have "res_ok (\<lambda>(t, _). length t = m) (gsm_7bit_from n ud l sh (Suc i) ext k' buf')" if "length buf' = m" for ext k' buf'
    using that by simp
  with Suc.prems show ?case by (subst gsm_7bit_from.simps) (auto intro!: gsm_septet_safe)
qed (subst gsm_7bit_from.simps, simp)

lemma gsm_7bit_decode_n_safe:
  "0 < n \<Longrightarrow> (\<And>t k. length t = length buf \<Longrightarrow> Q (t, k)) \<Longrightarrow> res_ok Q (gsm_7bit_decode_n buf n ud l)"
  unfolding gsm_7bit_decode_n_def gsm_7bit_decode_n_hdr_def
  by simp (rule res_ok_mono [OF gsm_7bit_from_safe [OF refl]], auto)

lemma bcd2str_at_safe:
  "(\<And>t k. length t = length buf \<Longrightarrow> Q (t, k)) \<Longrightarrow> res_ok Q (bcd2str_at k data buf n)"
  by (auto simp: bcd2str_at_def intro!: bcd2str_safe)

lemma address_digits_safe:
  "(\<And>t k. length t = length buf \<Longrightarrow> Q (t, k)) \<Longrightarrow> res_ok Q (address_digits ton npi data n buf)"
  by (auto simp: address_digits_def handle_addr_national_def handle_addr_e164_def GSM48_MI_SIZE_def
      intro!: bcd2str_at_safe gsm_7bit_decode_n_safe)

lemma address_tail_safe: "(\<And>t. length t = length buf \<Longrightarrow> Q t) \<Longrightarrow> res_ok Q (address_tail ton npi data n buf)"
  by (auto simp: address_tail_def Let_def intro!: address_digits_safe put_str_safe is_printable_safe)

lemma handle_address_safe: "(\<And>t. length t = length buf \<Longrightarrow> Q t) \<Longrightarrow> res_ok Q (handle_address data n buf d)"
  unfolding handle_address_def Let_def
  by (auto intro!: address_tail_safe put_str_safe strncpy_lit_safe)

lemma hamming_distance_safe: "(\<And>d. Q d) \<Longrightarrow> res_ok Q (hamming_distance v1 v2 n)"
  unfolding hamming_distance_def by (rule res_ok_rfold [where R = "\<lambda>_. True"]) auto

lemma osmo_hexdump_safe: "(\<And>t. Q t) \<Longrightarrow> res_ok Q (osmo_hexdump_nospc buf n)"
  by (simp add: osmo_hexdump_nospc_def)

section \<open>Information elements and frequency lists\<close>

lemma tlv_parse_one_safe: "res_ok (\<lambda>_. True) (tlv_parse_one def buf n)"
  by (auto simp: tlv_parse_one_def tlv_like_TLV_def tlv_like_TL16V_def Let_def split: tlv_type.splits)

lemma tlv_parse_from_safe: "res_ok (\<lambda>_. True) (tlv_parse_from def buf n dec k)"
proof (induction "nat n" arbitrary: buf n dec k rule: less_induct)
  case less
  have "res_ok (\<lambda>_. True) (tlv_parse_from def buf' (n - int c) dec' k')"
    if "tlv_parse_one def buf n = Inr (Inr (tag, l, v, c))" "0 < n" for buf' tag l v c dec' k'
    using tlv_parse_one_consumes [OF that(1)] that(2) by (intro less) simp
  then show ?case
    using tlv_parse_one_safe [of def buf n]
    by (subst tlv_parse_from.simps, cases "tlv_parse_one def buf n") (auto split: sum.splits)
qed

lemma tlv_parse_safe: "(\<And>k tp. Q (k, tp)) \<Longrightarrow> res_ok Q (tlv_parse def buf n)"
  unfolding tlv_parse_def by (rule res_ok_mono [OF tlv_parse_from_safe]) auto

lemma mark_arfcn_safe: "(\<And>g. length g = length f \<Longrightarrow> Q g) \<Longrightarrow> res_ok Q (mark_arfcn b i f)"
  by (simp add: mark_arfcn_def)

lemma be_bits_safe: "(\<And>v. Q v) \<Longrightarrow> res_ok Q (be_bits cd pos n)"
  unfolding be_bits_def by (rule res_ok_rfold [where R = "\<lambda>_. True"]) auto

lemma range_fields_safe: "res_ok (\<lambda>_. True) (range_fields cd l pos ws)"
  by (induction ws arbitrary: pos) (auto intro!: be_bits_safe elim!: res_ok_mono)

text \<open>A loop whose rounds keep the length of an array.\<close>

lemma rfold_length_safe:
  assumes "\<And>x g. length g = length f \<Longrightarrow> res_ok (\<lambda>h. length h = length f) (body x g)"
    and "\<And>g. length g = length f \<Longrightarrow> Q g"
  shows "res_ok Q (rfold body xs f)"
  by (rule res_ok_rfold [where R = "\<lambda>g. length g = length f"]) (use assms in auto)

lemma mark_range_safe: "(\<And>g. length g = length f \<Longrightarrow> Q g) \<Longrightarrow> res_ok Q (mark_range b ws f)"
  unfolding mark_range_def by (rule rfold_length_safe) (auto intro!: mark_arfcn_safe)

lemma freq_list_keeps_length:
  assumes "\<And>g rc. length g = length f \<Longrightarrow> Q (g, rc)"
  shows "res_ok Q (gsm48_decode_freq_list f cd l msk b)"
proof -
  note fields = res_ok_mono [OF range_fields_safe]
  show ?thesis
    unfolding gsm48_decode_freq_list_def
    by (simp only: res_ok_rbind res_ok_if res_ok_Inr, rule rfold_length_safe)
      (auto intro!: assms rfold_length_safe mark_range_safe mark_arfcn_safe be_bits_safe fields)
qed

text \<open>The hopping sequence keeps its 64 cells.\<close>

lemma push_ma_safe: "(\<And>h. length (ga_ma h) = length (ga_ma g) \<Longrightarrow> Q h) \<Longrightarrow> res_ok Q (push_ma a g)"
  by (simp add: push_ma_def)

lemma ma_from_list_safe: "(\<And>h. length (ga_ma h) = length (ga_ma g) \<Longrightarrow> Q h) \<Longrightarrow> res_ok Q (ma_from_list cell msk g)"
  unfolding ma_from_list_def
  by (rule res_ok_rfold [where R = "\<lambda>h. length (ga_ma h) = length (ga_ma g)"]) (auto intro!: push_ma_safe)

lemma rd_rel_safe: "(\<And>b. Q b) \<Longrightarrow> res_ok Q (rd_rel buf v k)"
  by (simp add: rd_rel_def Let_def)

lemma ma_from_bitmap_safe:
  assumes "\<And>h. length (ga_ma h) = length (ga_ma g) \<Longrightarrow> Q h"
  shows "res_ok Q (ma_from_bitmap dtap cell ma n msk g)"
proof -
  let ?R = "\<lambda>h. length (ga_ma h) = length (ga_ma g)"
  show ?thesis
    unfolding ma_from_bitmap_def res_ok_rbind
    by (rule res_ok_rfold [where R = "\<lambda>(h, j). ?R h"])
      (auto intro!: rd_rel_safe push_ma_safe assms res_ok_rfold [where R = ?R])
qed

lemma assignment_freqs_safe:
  assumes "\<And>g ma msk. length g = length f \<Longrightarrow> Q (g, ma, msk)"
  shows "res_ok Q (assignment_freqs tp f)"
  unfolding assignment_freqs_def
  by (auto split: option.splits simp: assms Let_def
      intro!: freq_list_keeps_length assms res_ok_rfold [where R = "\<lambda>(g, m). length g = length f"])

lemma assignment_channel_safe:
  "(\<And>h. length (ga_ma h) = length (ga_ma g) \<Longrightarrow> Q h) \<Longrightarrow> res_ok Q (assignment_channel dtap cd cell ma msk g)"
  unfolding assignment_channel_def Let_def
  by (auto split: option.splits intro!: ma_from_bitmap_safe ma_from_list_safe)

lemma assignment_body_safe:
  assumes "\<And>h f. length (ga_ma h) = length (ga_ma g) \<Longrightarrow> length f = length cell \<Longrightarrow> Q (h, f)"
  shows "res_ok Q (assignment_body dtap l off pay cell g)"
  unfolding assignment_body_def
  by (auto split: option.splits intro!: assms tlv_parse_safe assignment_freqs_safe assignment_channel_safe)

lemma parse_assignment_safe:
  assumes "\<And>h f. length (ga_ma h) = 64 \<Longrightarrow> length f = length cell \<Longrightarrow> Q (h, f)"
  shows "res_ok Q (parse_assignment dtap l cell)"
proof -
  have 64: "length (ga_ma zero_assignment) = 64" by (simp add: zero_assignment_def)
  show ?thesis
    unfolding parse_assignment_def by (auto simp: 64 intro!: assms assignment_body_safe)
qed

section \<open>Padding check\<close>

text \<open>The abort of \<open>rand_check\<close> needs a state that was ciphered before and a message that is not.\<close>

lemma rand_compare_safe:
  assumes "rs_ciphered r = 0 \<or> nz c"
    and "\<And>d n r'. rs_ciphered r' = rs_ciphered r \<Longrightarrow> (rand_ok r \<and> unat l \<le> 20 \<longrightarrow> rand_ok r') \<Longrightarrow> Q (d, n, r')"
  shows "res_ok Q (rand_compare data l r)"
  unfolding rand_compare_def Let_def
  by (auto intro!: assms(2) hamming_distance_safe simp: rand_ok_def)

lemma rand_ok_upd [simp]:
  "rand_ok (r\<lparr>rand_count := a\<rparr>) = rand_ok r" "rand_ok (r\<lparr>byte_count := b\<rparr>) = rand_ok r"
  "rand_ok (r\<lparr>rs_ciphered := c\<rparr>) = rand_ok r" "rand_ok (r\<lparr>rs_valid := d\<rparr>) = rand_ok r"
  by (simp_all add: rand_ok_def)

lemma rand_ok_store: "rand_ok (r\<lparr>rs_len := n, rs_data := d\<rparr>)" if "length d = 20" "unat n \<le> 20"
  using that by (simp add: rand_ok_def)

lemma rand_check_safe:
  assumes "rs_ciphered r = 0 \<or> nz c"
    and "\<And>b r'. rs_ciphered r' = 0 \<or> nz c \<Longrightarrow> (rand_ok r \<longrightarrow> rand_ok r') \<Longrightarrow> Q (b, r')"
  shows "res_ok Q (rand_check data l r c)"
proof -
  have l: "unat l \<le> 20" if "\<not> 20 < l" using that by (simp add: not_less word_le_nat_alt)
  have n: "length (rs_data r) = 20" if "rand_ok r" using that by (simp add: rand_ok_def)
  show ?thesis
  proof (cases "l = 0 \<or> 20 < l \<or> rs_valid r = 0")
    case True
    then show ?thesis
      using assms(1) l n by (auto simp: rand_check_def Let_def word_less_nat_alt intro!: assms(2) rand_ok_store)
  next
    case False
    then have c: "res_ok (\<lambda>(d, n, r'). rs_ciphered r' = rs_ciphered r \<and> (rand_ok r \<longrightarrow> rand_ok r')) (rand_compare data l r)"
      using l by (intro rand_compare_safe [OF assms(1)]) auto
    show ?thesis
    proof (cases "rand_compare data l r")
      case (Inr x)
      then obtain d n r' where "rand_compare data l r = Inr (d, n, r')" by (cases x) auto
      with c False assms(1) show ?thesis
        by (cases "nz c") (simp_all add: rand_check_def Let_def assms(2))
    qed (use c False in \<open>simp add: rand_check_def\<close>)
  qed
qed

section \<open>System information\<close>

definition cell_ok :: "cell_info \<Rightarrow> bool" where
  "cell_ok ci \<longleftrightarrow> length (ci_arfcn_list ci) = 1024 \<and> length (ci_si_counter ci) = 12
     \<and> length (ci_si_data ci) = 12 \<and> (\<forall>d \<in> set (ci_si_data ci). length d = 20) \<and> length (ci_a_count ci) = 12"

lemma cell_ok_zero [simp]: "cell_ok zero_cell"
  by (simp add: cell_ok_def zero_cell_def)

lemma cell_ok_upd [simp]:
  "cell_ok (ci\<lparr>ci_cro := a\<rparr>) = cell_ok ci" "cell_ok (ci\<lparr>ci_temp_offset := a\<rparr>) = cell_ok ci"
  "cell_ok (ci\<lparr>ci_pen_time := a\<rparr>) = cell_ok ci" "cell_ok (ci\<lparr>ci_pwr_offset := a\<rparr>) = cell_ok ci"
  "cell_ok (ci\<lparr>ci_gprs := a\<rparr>) = cell_ok ci" "cell_ok (ci\<lparr>ci_mcc := b\<rparr>) = cell_ok ci"
  "cell_ok (ci\<lparr>ci_mnc := b\<rparr>) = cell_ok ci" "cell_ok (ci\<lparr>ci_lac := b\<rparr>) = cell_ok ci"
  "cell_ok (ci\<lparr>ci_cid := c\<rparr>) = cell_ok ci" "cell_ok (ci\<lparr>ci_combined := a\<rparr>) = cell_ok ci"
  "cell_ok (ci\<lparr>ci_msc_ver := a\<rparr>) = cell_ok ci" "cell_ok (ci\<lparr>ci_t3212 := a\<rparr>) = cell_ok ci"
  "cell_ok (ci\<lparr>ci_agch_blocks := a\<rparr>) = cell_ok ci" "cell_ok (ci\<lparr>ci_pag_mframes := a\<rparr>) = cell_ok ci"
  "cell_ok (ci\<lparr>ci_last_seen := t\<rparr>) = cell_ok ci" "cell_ok (ci\<lparr>ci_first_seen := t\<rparr>) = cell_ok ci"
  "cell_ok (ci\<lparr>ci_bcch_arfcn := b\<rparr>) = cell_ok ci" "cell_ok (ci\<lparr>ci_id := c\<rparr>) = cell_ok ci"
  "cell_ok (ci\<lparr>ci_stored := a\<rparr>) = cell_ok ci"
  "length f = length (ci_arfcn_list ci) \<Longrightarrow> cell_ok (ci\<lparr>ci_arfcn_list := f\<rparr>) = cell_ok ci"
  by (simp_all add: cell_ok_def)

lemma get_mcc_safe: "(\<And>v. Q v) \<Longrightarrow> res_ok Q (get_mcc d)"
  by (simp add: get_mcc_def)

lemma get_mnc_safe: "(\<And>v. Q v) \<Longrightarrow> res_ok Q (get_mnc d)"
  by (simp add: get_mnc_def)

lemma be16_safe: "(\<And>v. Q v) \<Longrightarrow> res_ok Q (be16 d k)"
  by (simp add: be16_def)

lemmas octet_safe = get_mcc_safe get_mnc_safe be16_safe

lemma bit_high_safe: "(\<And>b bv'. Q (b, bv')) \<Longrightarrow> res_ok Q (bitvec_get_bit_high bv)"
  by (simp add: bitvec_get_bit_high_def bitvec_get_bit_pos_high_def)

lemma uint_from_safe: "res_ok (\<lambda>_. True) (bitvec_uint_from n ui bv)"
  by (induction n arbitrary: ui bv) (simp_all add: bitvec_get_bit_pos_def)

lemma get_uint_safe: "(\<And>b bv'. Q (b, bv')) \<Longrightarrow> res_ok Q (bitvec_get_uint bv n)"
  unfolding bitvec_get_uint_def by (rule res_ok_mono [OF uint_from_safe]) auto

lemma si_rest_common_safe:
  "(\<And>ci' bv'. cell_ok ci' = cell_ok ci \<Longrightarrow> Q (ci', bv')) \<Longrightarrow> res_ok Q (si_rest_common ci bv)"
  unfolding si_rest_common_def by (auto intro!: bit_high_safe get_uint_safe)

lemma si3_rest_safe: "(\<And>ci'. cell_ok ci' = cell_ok ci \<Longrightarrow> Q ci') \<Longrightarrow> res_ok Q (handle_si3_rest ci si n)"
  unfolding handle_si3_rest_def by (auto intro!: si_rest_common_safe bit_high_safe get_uint_safe)

lemma si4_rest_safe: "(\<And>ci'. cell_ok ci' = cell_ok ci \<Longrightarrow> Q ci') \<Longrightarrow> res_ok Q (handle_si4_rest ci si n)"
  unfolding handle_si4_rest_def by (auto intro!: si_rest_common_safe bit_high_safe)

lemma si4_padding_safe: "(\<And>ci'. cell_ok ci' = cell_ok ci \<Longrightarrow> Q ci') \<Longrightarrow> res_ok Q (si4_padding ci d n off)"
  unfolding si4_padding_def by (auto intro!: si4_rest_safe)

lemma si4_data_safe: "(\<And>ci'. cell_ok ci' = cell_ok ci \<Longrightarrow> Q ci') \<Longrightarrow> res_ok Q (handle_si4_data ci d n)"
  unfolding handle_si4_data_def by (auto intro!: si4_padding_safe)

lemma si_location_safe: "(\<And>ci'. cell_ok ci' = cell_ok ci \<Longrightarrow> Q ci') \<Longrightarrow> res_ok Q (si_location dtap off ci)"
  unfolding si_location_def by (auto intro!: octet_safe)

lemma si3_fields_safe: "(\<And>ci'. cell_ok ci' = cell_ok ci \<Longrightarrow> Q ci') \<Longrightarrow> res_ok Q (si3_fields dtap n ci)"
  unfolding si3_fields_def Let_def res_ok_rbind
  by (rule si_location_safe, rule be16_safe) (simp add: si3_rest_safe)

lemma si_fields_safe: "(\<And>ci'. cell_ok ci' = cell_ok ci \<Longrightarrow> Q ci') \<Longrightarrow> res_ok Q (si_fields k dtap n ci)"
  unfolding si_fields_def si_frequencies_def si6_fields_def
  by (auto intro!: freq_list_keeps_length si_location_safe be16_safe si3_fields_safe si4_data_safe)

lemma arfcn_count_safe: "k < 12 \<Longrightarrow> (\<And>n. Q n) \<Longrightarrow> res_ok Q (arfcn_count ci k)"
  unfolding arfcn_count_def SI_MAX_def by (auto intro!: res_ok_rfold [where R = "\<lambda>_. True"])

lemma si_store_safe:
  assumes "k < 12" and "\<And>ci'. (cell_ok ci \<longrightarrow> cell_ok ci') \<Longrightarrow> Q ci'"
  shows "res_ok Q (si_store k data m ci)"
proof -
  have "cell_ok (ci\<lparr>ci_last_seen := t, ci_bcch_arfcn := a, ci_si_counter := (ci_si_counter ci)[k := x],
      ci_a_count := (ci_a_count ci)[k := c], ci_si_data := (ci_si_data ci)[k := data @ drop (length data) (ci_si_data ci ! k)]\<rparr>)"
    if "cell_ok ci" "length data \<le> length (ci_si_data ci ! k)" for t a x c
    using that assms(1) by (auto simp: cell_ok_def dest!: set_update_subset_insert [THEN subsetD])
  then show ?thesis
    unfolding si_store_def Let_def res_ok_rbind by (auto intro!: arfcn_count_safe assms)
qed

lemma si_index_less: "si_index t = Some k \<Longrightarrow> k < 12"
  by (auto simp: si_index_def si_consts split: if_splits)

section \<open>Short messages\<close>

lemma handle_text_safe: "(\<And>sm'. Q sm') \<Longrightarrow> res_ok Q (handle_text sm msg n)"
  unfolding handle_text_def Let_def by (auto intro!: gsm_7bit_decode_n_safe)

lemma handle_sec_cp_safe: "(\<And>sm'. Q sm') \<Longrightarrow> res_ok Q (handle_sec_cp sm msg)"
  unfolding handle_sec_cp_def Let_def by auto

lemma handle_sec_rp_safe: "(\<And>sm'. Q sm') \<Longrightarrow> res_ok Q (handle_sec_rp sm msg n)"
  unfolding handle_sec_rp_def Let_def by auto

lemma udh_element_safe: "(\<And>st. Q st) \<Longrightarrow> res_ok Q (udh_element junk msg hl t vl off cmd sm)"
  unfolding udh_element_def udh_concat_def udh_reply_def Let_def by (auto intro!: handle_address_safe)

lemma udh_walk_safe: "res_ok (\<lambda>_. True) (udh_walk fuel junk msg n hl off cmd sm)"
proof (induction fuel arbitrary: off cmd sm)
  case 0
  show ?case by (subst udh_walk.simps) simp
next
  case (Suc fuel)
  show ?case by (subst udh_walk.simps) (auto simp: Let_def Suc intro!: udh_element_safe)
qed

lemma handle_udh_safe: "(\<And>sm'. Q sm') \<Longrightarrow> res_ok Q (handle_udh junk sm msg n)"
  unfolding handle_udh_def Let_def
  by (auto intro!: res_ok_mono [OF udh_walk_safe] handle_text_safe handle_sec_cp_safe handle_sec_rp_safe)

lemma tpdu_user_data_safe: "(\<And>r. Q r) \<Longrightarrow> res_ok Q (tpdu_user_data junk msg n off sm)"
  unfolding tpdu_user_data_def Let_def by (auto intro!: handle_udh_safe handle_text_safe)

lemma tpdu_fields_safe: "(\<And>r. Q r) \<Longrightarrow> res_ok Q (tpdu_fields junk msg n net vp off sm)"
  unfolding tpdu_fields_def Let_def by (auto intro!: tpdu_user_data_safe)

lemma rpdata_address_safe: "(\<And>r. Q r) \<Longrightarrow> res_ok Q (rpdata_address junk data off b smsc)"
  unfolding rpdata_address_def Let_def by (auto intro!: handle_address_safe)

end
