(* ===== verification/L3_Handler.thy ===== *)
theory L3_Handler
  imports Identity Assignment Sms
begin

text \<open>
  The handlers of layer 3 messages (\<open>gsm-parser/l3_handler.c\<close>): call control, mobility and radio
  resource management, supplementary services, their packet counterparts, and the dispatcher
  \<open>handle_dtap\<close>.  A handler is a state transformer on the world that may fault; it gets the index
  of its session, the message \<open>dtap\<close> as a pointer into its buffer, and the length as the code passes
  it, an unsigned number whose arithmetic wraps.
\<close>

section \<open>Definitions\<close>

definition data_octet :: "u8 list \<Rightarrow> nat \<Rightarrow> (u8 \<Rightarrow> 's \<Rightarrow> 'a res) \<Rightarrow> 's \<Rightarrow> 'a res" where
  "data_octet dtap k f w = rbind (rd dtap (k + 2)) (\<lambda>b. f b w)"

text \<open>\<open>if (fn) x = fn; else x = GSM_MAX_FN;\<close>\<close>

definition fn_or_max :: "u32 \<Rightarrow> u32" where
  "fn_or_max fn = (if nz fn then fn else GSM_MAX_FN)"

definition predict_inc :: "session_info \<Rightarrow> session_info" where
  "predict_inc s = s\<lparr>s_fc := (s_fc s)\<lparr>fc_predict := fc_predict (s_fc s) + 1\<rparr>\<rparr>"

subsection \<open>Call control\<close>

definition cc_number :: "nat \<Rightarrow> u8 \<Rightarrow> tlv_parsed \<Rightarrow> world \<Rightarrow> world res" where
  "cc_number i ie tp = (case tp ie of
      None \<Rightarrow> Inr
    | Some (l, v) \<Rightarrow> updr i (\<lambda>s. rbind (handle_address v (of_nat (l mod 256)) (s_msisdn s) False) (\<lambda>n. Inr (s\<lparr>s_msisdn := n\<rparr>))))"

definition cc_setup :: "nat \<Rightarrow> u8 list \<Rightarrow> u32 \<Rightarrow> bool \<Rightarrow> world \<Rightarrow> world res" where
  "cc_setup i dtap len ul = seqs [
     set_info i ''CALL SETUP'',
     upd i (\<lambda>s. if \<not> ul then s\<lparr>s_mt := 1\<rparr> else s\<lparr>s_mo := 1\<rparr>),
     (\<lambda>w. rbind (tlv_parse gsm48_att_tlvdef (drop 2 dtap) (sint (len - 2))) (\<lambda>(n, tp).
        seqs [cc_number i GSM48_IE_CALLING_BCD tp, cc_number i GSM48_IE_CALLED_BCD tp] w))]"

definition cc_message :: "nat \<Rightarrow> u8 list \<Rightarrow> u32 \<Rightarrow> bool \<Rightarrow> u8 \<Rightarrow> world \<Rightarrow> world res" where
  "cc_message i dtap len ul t =
     (if t = 0x01 then set_info i ''CALL ALERTING''
      else if t = 0x02 then seqs [
        set_info i ''CALL PROCEEDING'',
        by_sess i (\<lambda>s. on_cond (nz (s_cipher s) \<and> fc_enc_rand (s_fc s) = 0 \<and> \<not> ul) (upd i predict_inc)),
        on_cond (\<not> ul) (upd i (\<lambda>s. s\<lparr>s_mo := 1\<rparr>))]
      else if t = 0x03 then set_info i ''CALL PROGRESS''
      else if t = 0x05 then cc_setup i dtap len ul
      else if t = 0x07 then set_info i ''CALL CONNECT''
      else if t = 0x08 then seqs [
        set_info i ''CALL CONFIRMED'',
        upd i (\<lambda>s. if ul then s\<lparr>s_mt := 1\<rparr> else s\<lparr>s_mo := 1\<rparr>)]
      else if t = 0x0f then set_info i ''CALL CONNECT ACK''
      else if t = 0x25 then set_info i ''CALL DISCONNECT''
      else if t = 0x2a then set_info i ''CALL RELEASE COMPLETE''
      else if t = 0x2d then set_info i ''CALL RELEASE''
      else if t = 0x3a then set_info i ''CALL FACILITY''
      else if t = 0x3d then set_info i ''CALL STATUS''
      else seqs [set_info i (''UNKNOWN CC ('' @ hex2 t @ '')''), upd i (\<lambda>s. s\<lparr>s_unknown := 1\<rparr>)])"

definition handle_cc :: "nat \<Rightarrow> u8 list \<Rightarrow> u32 \<Rightarrow> bool \<Rightarrow> world \<Rightarrow> world res" where
  "handle_cc i dtap len ul = seqs [
     upd i (\<lambda>s. s\<lparr>s_call := 1, s_call_presence := 1\<rparr>),
     (\<lambda>w. rbind (rd dtap 1) (\<lambda>mt. cc_message i dtap len ul (mt AND 0x3f) w))]"

subsection \<open>Mobility management\<close>

text \<open>Octets \<open>k\<close> and \<open>k + 1\<close> of the data, compared one after the other.\<close>

definition octets_are :: "u8 list \<Rightarrow> nat \<Rightarrow> u8 \<Rightarrow> u8 \<Rightarrow> bool res" where
  "octets_are dtap k a b = rbind (rd dtap (k + 2)) (\<lambda>x. if x \<noteq> a then Inr False
     else rbind (rd dtap (k + 3)) (\<lambda>y. Inr (y = b)))"

definition mm_auth_request :: "nat \<Rightarrow> u8 list \<Rightarrow> u32 \<Rightarrow> u32 \<Rightarrow> world \<Rightarrow> world res" where
  "mm_auth_request i dtap dtap_len fn = seqs [
     (\<lambda>w. rbind (if dtap_len > 19 then octets_are dtap 17 0x20 0x10 else Inr False) (\<lambda>umts.
        if umts then seqs [set_info i ''AUTH REQUEST (UMTS)'', upd i (\<lambda>s. s\<lparr>s_auth := 2\<rparr>)] w
        else seqs [set_info i ''AUTH REQUEST (GSM)'', upd i (\<lambda>s. s\<lparr>s_auth := 1\<rparr>)] w)),
     upd i (\<lambda>s. if s_auth_req_fn s = 0 then s\<lparr>s_auth_req_fn := fn_or_max fn\<rparr> else s)]"

definition mm_auth_response :: "nat \<Rightarrow> u8 list \<Rightarrow> u32 \<Rightarrow> u32 \<Rightarrow> world \<Rightarrow> world res" where
  "mm_auth_response i dtap dtap_len fn = seqs [
     (\<lambda>w. rbind (if dtap_len > 6 then octets_are dtap 4 0x21 0x04 else Inr False) (\<lambda>umts.
        if umts then seqs [set_info i ''AUTH RESPONSE (UMTS)'', upd i (\<lambda>s. if s_auth s = 0 then s\<lparr>s_auth := 2\<rparr> else s)] w
        else seqs [set_info i ''AUTH RESPONSE (GSM)'', upd i (\<lambda>s. if s_auth s = 0 then s\<lparr>s_auth := 1\<rparr> else s)] w)),
     upd i (\<lambda>s. if s_auth_resp_fn s = 0 then s\<lparr>s_auth_resp_fn := fn_or_max fn\<rparr> else s)]"

definition iden_imsi :: "session_info \<Rightarrow> session_info" where
  "iden_imsi s = (if nz (s_cipher s) then s\<lparr>s_iden_imsi_ac := 1\<rparr> else s\<lparr>s_iden_imsi_bc := 1\<rparr>)"

definition iden_imei :: "session_info \<Rightarrow> session_info" where
  "iden_imei s = (if nz (s_cipher s) then s\<lparr>s_iden_imei_ac := 1\<rparr> else s\<lparr>s_iden_imei_bc := 1\<rparr>)"

definition mm_identity_request :: "nat \<Rightarrow> u8 list \<Rightarrow> world \<Rightarrow> world res" where
  "mm_identity_request i dtap = data_octet dtap 0 (\<lambda>d0.
     let t = d0 AND GSM_MI_TYPE_MASK in
     if t = GSM_MI_TYPE_IMSI then seqs [set_info i ''IDENTITY REQUEST, IMSI'', upd i iden_imsi]
     else if t = GSM_MI_TYPE_IMEI \<or> t = GSM_MI_TYPE_IMEISV then seqs [set_info i ''IDENTITY REQUEST, IMEI'', upd i iden_imei]
     else Inr)"

definition mm_identity_response :: "nat \<Rightarrow> u8 list \<Rightarrow> world \<Rightarrow> world res" where
  "mm_identity_response i dtap = seqs [
     mi_at i (drop 2 dtap) 0 False,
     data_octet dtap 1 (\<lambda>d1.
       let t = d1 AND GSM_MI_TYPE_MASK in
       if t = GSM_MI_TYPE_IMSI then seqs [
         by_sess i (\<lambda>s. set_info i (''IDENTITY RESPONSE, IMSI '' @ bytes_str (s_imsi s))), upd i iden_imsi]
       else if t = GSM_MI_TYPE_IMEI \<or> t = GSM_MI_TYPE_IMEISV then seqs [
         by_sess i (\<lambda>s. set_info i (''IDENTITY RESPONSE, IMEI '' @ bytes_str (s_imei s))), upd i iden_imei]
       else Inr)]"

definition mm_message :: "nat \<Rightarrow> u8 list \<Rightarrow> u32 \<Rightarrow> u32 \<Rightarrow> u8 \<Rightarrow> world \<Rightarrow> world res" where
  "mm_message i dtap dtap_len fn t =
     (if t = 0x01 then seqs [
        session_reset i True,
        upd i (\<lambda>s. s\<lparr>s_started := 1\<rparr>),
        set_info i ''IMSI DETACH'',
        upd i (\<lambda>s. s\<lparr>s_detach := 1, s_mo := 1\<rparr>),
        handle_detach i (drop 2 dtap)]
      else if t = 0x02 then seqs [set_info i ''LOC UPD ACCEPT'', handle_loc_upd_acc i (drop 2 dtap) (dtap_len - 2)]
      else if t = 0x04 then data_octet dtap 0 (\<lambda>d0. seqs [
        set_info i (''LOC UPD REJECT cause='' @ dec_str (unat d0)),
        upd i (\<lambda>s. s\<lparr>s_locupd := 1, s_lu_reject := 1, s_lu_rej_cause := d0, s_mo := 1\<rparr>)])
      else if t = 0x08 then seqs [
        session_reset i True,
        (if dtap_len < 8 then set_info i ''FAILED SANITY CHECKS (LUR_DTAP_SIZE)''
         else seqs [set_info i ''LOC UPD REQUEST'', handle_loc_upd_req i (drop 2 dtap)])]
      else if t = 0x12 then mm_auth_request i dtap dtap_len fn
      else if t = 0x14 then mm_auth_response i dtap dtap_len fn
      else if t = 0x18 then mm_identity_request i dtap
      else if t = 0x19 then mm_identity_response i dtap
      else if t = 0x1a then seqs [
        set_info i ''TMSI REALLOC COMMAND'',
        upd i (\<lambda>s. s\<lparr>s_tmsi_realloc := 1\<rparr>),
        handle_lai i (drop 2 dtap) (- 1),
        mi_at i (drop 2 dtap) 5 True]
      else if t = 0x1b then seqs [set_info i ''TMSI REALLOC COMPLETE'', upd i (\<lambda>s. s\<lparr>s_tmsi_realloc := 1\<rparr>)]
      else if t = 0x21 then seqs [set_info i ''CM SERVICE ACCEPT'', upd i (\<lambda>s. s\<lparr>s_mo := 1\<rparr>)]
      else if t = 0x23 then seqs [set_info i ''CM SERVICE ABORT'', upd i (\<lambda>s. s\<lparr>s_mo := 1\<rparr>)]
      else if t = 0x24 then seqs [
        set_info i ''CM SERVICE REQUEST'',
        session_reset i True,
        upd i start_session,
        upd i (\<lambda>s. s\<lparr>s_serv_req := 1, s_mo := 1\<rparr>),
        handle_cmreq i (drop 2 dtap)]
      else if t = 0x29 then seqs [set_info i ''ABORT'', upd i (\<lambda>s. s\<lparr>s_abort := 1\<rparr>)]
      else if t = 0x32 then set_info i ''MM INFORMATION''
      else seqs [set_info i (''UNKNOWN MM ('' @ hex2 t @ '')''), upd i (\<lambda>s. s\<lparr>s_unknown := 1\<rparr>)])"

definition handle_mm :: "nat \<Rightarrow> u8 list \<Rightarrow> u32 \<Rightarrow> u32 \<Rightarrow> world \<Rightarrow> world res" where
  "handle_mm i dtap dtap_len fn w =
     (if dtap_len < 2 then set_info i ''FAILED SANITY CHECKS (MM_LEN)'' w
      else rbind (rd dtap 1) (\<lambda>mt. mm_message i dtap dtap_len fn (mt AND 0x3f) w))"

subsection \<open>Radio resource management\<close>

definition rr_sysinfo :: "nat \<Rightarrow> string \<Rightarrow> u8 list \<Rightarrow> u32 \<Rightarrow> world \<Rightarrow> world res" where
  "rr_sysinfo i name dtap len = seqs [set_info i (''SYSTEM INFO '' @ name), handle_sysinfo i dtap len]"

text \<open>\<open>rand_check((uint8_t *)dtap, 18, &s->..., s->cipher)\<close>; the result is not used.\<close>

definition si_rand :: "(session_info \<Rightarrow> rand_state) \<Rightarrow> (rand_state \<Rightarrow> session_info \<Rightarrow> session_info)
    \<Rightarrow> nat \<Rightarrow> u8 list \<Rightarrow> world \<Rightarrow> world res" where
  "si_rand get put i dtap = updr i (\<lambda>s. rbind (rand_check dtap 18 (get s) (s_cipher s)) (\<lambda>(r, st). Inr (put st s)))"

definition rr_chan_rel :: "nat \<Rightarrow> u8 list \<Rightarrow> u32 \<Rightarrow> world \<Rightarrow> world res" where
  "rr_chan_rel i dtap len = seqs [
     set_info i ''CHANNEL RELEASE'',
     by_sess i (\<lambda>s. on_cond (nz (s_cipher s) \<and> fc_enc_rand (s_fc s) = 0) (upd i predict_inc)),
     data_octet dtap 0 (\<lambda>d0. upd i (\<lambda>s. s\<lparr>s_release := 1, s_rr_cause := d0\<rparr>)),
     on_cond (len > 3) (data_octet dtap 1 (\<lambda>d1. on_cond (d1 AND 0xf0 = 0xc0) (upd i (\<lambda>s. s\<lparr>s_have_gprs := 1\<rparr>)))),
     session_reset i False,
     (\<lambda>w. on_cond (w_auto_reset w) (upd (i + 1) (\<lambda>s. s\<lparr>s_new_msg := None\<rparr>)) w)]"

definition rr_assignment :: "nat \<Rightarrow> u8 list \<Rightarrow> u32 \<Rightarrow> world \<Rightarrow> world res" where
  "rr_assignment i dtap len = updr i (\<lambda>s.
     rbind (parse_assignment dtap (unat len) (s_cell_arfcns s)) (\<lambda>(ga, f). Inr (s\<lparr>s_ga := ga, s_cell_arfcns := f\<rparr>)))"

definition rr_ciph_compl :: "nat \<Rightarrow> u8 list \<Rightarrow> u32 \<Rightarrow> u32 \<Rightarrow> world \<Rightarrow> world res" where
  "rr_ciph_compl i dtap len fn = seqs [
     set_info i ''CIPHER MODE COMPLETE'',
     upd i (\<lambda>s. s\<lparr>s_cipher_missing := (if sint (s_cipher_missing s) < 0 then 0 else 1)\<rparr>),
     upd i (\<lambda>s. if s_cm_comp_first_fn s = 0 then s\<lparr>s_cm_comp_first_fn := fn_or_max fn\<rparr> else s),
     upd i (\<lambda>s. s\<lparr>s_cm_comp_last_fn := fn_or_max fn, s_cm_comp_count := s_cm_comp_count s + 1\<rparr>),
     data_octet dtap 0 (\<lambda>d0. on_cond (d0 \<noteq> 0x2b) (\<lambda>w.
       rbind (tlv_parse gsm48_rr_att_tlvdef (drop 2 dtap) (sint (len - 2))) (\<lambda>(n, tp).
       case tp GSM48_IE_MOBILE_ID of
         None \<Rightarrow> Inr w
       | Some (l, v) \<Rightarrow> seqs [mi_at i v 0 False, upd i (\<lambda>s. s\<lparr>s_cmc_imeisv := 1\<rparr>)] w)))]"

definition rr_ciph_cmd :: "nat \<Rightarrow> u8 list \<Rightarrow> u32 \<Rightarrow> world \<Rightarrow> world res" where
  "rr_ciph_cmd i dtap fn = seqs [
     upd i (\<lambda>s. if s_cm_cmd_fn s = 0 then s\<lparr>s_cm_cmd_fn := fn_or_max fn\<rparr> else s),
     data_octet dtap 0 (\<lambda>d0. seqs [
       on_cond (nz (d0 AND 1)) (updr i (\<lambda>s.
         let s = s\<lparr>s_cipher := 1 + (drop_bit 1 d0 AND 7)\<rparr>
         in rbind (not_zero (s_key s) 8) (\<lambda>known. Inr (if \<not> known then s\<lparr>s_decoded := 0\<rparr> else s)))),
       by_sess i (\<lambda>s. set_info i (''CIPHER MODE COMMAND, A5/'' @ dec_str (unat (s_cipher s)))),
       on_cond (nz (d0 AND 0x10)) (upd i (\<lambda>s.
         let s = s\<lparr>s_cmc_imeisv := 1\<rparr> in if nz (s_cipher s) \<and> fc_enc_rand (s_fc s) = 0 then predict_inc s else s))]),
     upd i (\<lambda>s. s\<lparr>s_cipher_missing := - 1\<rparr>)]"

definition rr_si6 :: "nat \<Rightarrow> u8 list \<Rightarrow> u32 \<Rightarrow> world \<Rightarrow> world res" where
  "rr_si6 i dtap len = seqs [
     set_info i ''SYSTEM INFO 6'',
     si_rand s_si6 (\<lambda>r s. s\<lparr>s_si6 := r\<rparr>) i dtap,
     (\<lambda>w. rbind (be16 dtap 2) (\<lambda>cid. handle_lai i (drop 4 dtap) (int (unat cid)) w)),
     handle_sysinfo i dtap len]"

text \<open>The messages of the switch up to the channel release and from the paging on.\<close>

definition rr_message1 :: "nat \<Rightarrow> u8 list \<Rightarrow> u32 \<Rightarrow> u8 \<Rightarrow> (world \<Rightarrow> world res) \<Rightarrow> world \<Rightarrow> world res" where
  "rr_message1 i dtap len t otherwise =
     (if t = 0x19 then rr_sysinfo i ''1'' dtap len
      else if t = 0x1a then rr_sysinfo i ''2'' dtap len
      else if t = 0x02 then rr_sysinfo i ''2bis'' dtap len
      else if t = 0x03 then rr_sysinfo i ''2ter'' dtap len
      else if t = 0x07 then rr_sysinfo i ''2quater'' dtap len
      else if t = 0x1b then rr_sysinfo i ''3'' dtap len
      else if t = 0x1c then rr_sysinfo i ''4'' dtap len
      else if t = 0x1d then seqs [set_info i ''SYSTEM INFO 5'', si_rand s_si5 (\<lambda>r s. s\<lparr>s_si5 := r\<rparr>) i dtap, handle_sysinfo i dtap len]
      else if t = 0x05 then seqs [set_info i ''SYSTEM INFO 5bis'', si_rand s_si5bis (\<lambda>r s. s\<lparr>s_si5bis := r\<rparr>) i dtap, handle_sysinfo i dtap len]
      else if t = 0x06 then seqs [set_info i ''SYSTEM INFO 5ter'', si_rand s_si5ter (\<lambda>r s. s\<lparr>s_si5ter := r\<rparr>) i dtap, handle_sysinfo i dtap len]
      else if t = 0x1e then rr_si6 i dtap len
      else if t = 0x00 then rr_sysinfo i ''13'' dtap len
      else if t = 0x0d then rr_chan_rel i dtap len
      else if t = 0x13 then set_info i ''CLASSMARK ENQUIRY''
      else if t = 0x15 then set_info i ''MEASUREMENT REPORT''
      else if t = 0x16 then seqs [set_info i ''CLASSMARK CHANGE'', handle_classmark i (drop 3 dtap) 2]
      else otherwise)"

definition rr_message2 :: "nat \<Rightarrow> u8 list \<Rightarrow> u32 \<Rightarrow> u32 \<Rightarrow> u8 \<Rightarrow> world \<Rightarrow> world res" where
  "rr_message2 i dtap len fn t =
     (if t = 0x21 then seqs [set_info i ''PAGING REQ 1'', handle_paging1 dtap len]
      else if t = 0x22 then seqs [set_info i ''PAGING REQ 2'', handle_paging2 dtap len]
      else if t = 0x24 then seqs [set_info i ''PAGING REQ 3'', handle_paging3]
      else if t = 0x3f then set_info i ''IMM ASSIGNMENT''
      else if t = 0x39 then set_info i ''IMM ASSIGNMENT EXT''
      else if t = 0x3a then set_info i ''IMM ASSIGNMENT REJECT''
      else if t = 0x27 then seqs [session_reset i True, set_info i ''PAGING RESPONSE'', handle_pag_resp i (drop 2 dtap)]
      else if t = 0x2b then seqs [set_info i ''HANDOVER COMMAND'', rr_assignment i dtap len,
        upd i (\<lambda>s. s\<lparr>s_handover := 1, s_use_jump := 2\<rparr>)]
      else if t = 0x2c then set_info i ''HANDOVER COMPLETE''
      else if t = 0x2e then seqs [set_info i ''ASSIGNMENT COMMAND'',
        upd i (\<lambda>s. if fc_enc (s_fc s) - fc_enc_null (s_fc s) - fc_enc_si (s_fc s) = 1 then s\<lparr>s_forced_ho := 1\<rparr> else s),
        rr_assignment i dtap len,
        upd i (\<lambda>s. s\<lparr>s_assignment := 1, s_use_jump := 1\<rparr>)]
      else if t = 0x29 then seqs [set_info i ''ASSIGNMENT COMPLETE'', upd i (\<lambda>s. s\<lparr>s_assign_complete := 1\<rparr>)]
      else if t = 0x32 then rr_ciph_compl i dtap len fn
      else if t = 0x34 then seqs [set_info i ''GPRS SUSPEND'', upd i (\<lambda>s. s\<lparr>s_have_gprs := 1\<rparr>)]
      else if t = 0x35 then rr_ciph_cmd i dtap fn
      else if t = 0x60 then set_info i ''UTRAN CLASSMARK''
      else seqs [set_info i (''UNKNOWN RR ('' @ hex2 t @ '')''), upd i (\<lambda>s. s\<lparr>s_unknown := 1\<rparr>)])"

definition handle_rr :: "nat \<Rightarrow> u8 list \<Rightarrow> u32 \<Rightarrow> u32 \<Rightarrow> world \<Rightarrow> world res" where
  "handle_rr i dtap len fn = seqs [
     upd i (\<lambda>s. s\<lparr>s_rat := RAT_GSM\<rparr>),
     assert_msg i,
     on_cond (nz len) (\<lambda>w. rbind (rd dtap 1) (\<lambda>t. rr_message1 i dtap len t (rr_message2 i dtap len fn t) w))]"

subsection \<open>Supplementary services and the packet domain\<close>

definition handle_ss :: "nat \<Rightarrow> u8 list \<Rightarrow> u32 \<Rightarrow> world \<Rightarrow> world res" where
  "handle_ss i dtap len = on_cond (nz len) (seqs [
     upd i (\<lambda>s. s\<lparr>s_ssa := 1\<rparr>),
     (\<lambda>w. rbind (rd dtap 1) (\<lambda>mt.
        let t = mt AND 0x3f in
        if t = 0x2a then set_info i ''SS RELEASE COMPLETE'' w
        else if t = 0x3a then set_info i ''SS FACILITY'' w
        else if t = 0x3b then set_info i ''SS REGISTER'' w
        else seqs [set_info i (''UNKNOWN SS ('' @ hex2 t @ '')''), upd i (\<lambda>s. s\<lparr>s_unknown := 1\<rparr>)] w))])"

text \<open>Both packet handlers refuse a session that is not of the packet domain and mark the message.\<close>

definition in_ps :: "nat \<Rightarrow> string \<Rightarrow> u32 \<Rightarrow> (world \<Rightarrow> world res) \<Rightarrow> world \<Rightarrow> world res" where
  "in_ps i name len f = on_cond (nz len) (by_sess i (\<lambda>s.
     if s_domain s \<noteq> DOMAIN_PS then set_info i (''FAILED SANITY CHECKS ('' @ name @ '')'')
     else seqs [upd_msg (s_new_msg s) (\<lambda>m. m\<lparr>rm_domain := DOMAIN_PS\<rparr>), f]))"

definition gmm_message :: "nat \<Rightarrow> u8 list \<Rightarrow> u8 \<Rightarrow> world \<Rightarrow> world res" where
  "gmm_message i dtap t =
     (if t = 0x01 then seqs [set_info i ''ATTACH REQUEST'', upd i (\<lambda>s. s\<lparr>s_attach := 1\<rparr>), upd i start_session]
      else if t = 0x02 then seqs [set_info i ''ATTACH ACCEPT'', handle_attach_acc i (drop 2 dtap)]
      else if t = 0x03 then seqs [set_info i ''ATTACH COMPLETE'', upd i (\<lambda>s. s\<lparr>s_att_acc := 1\<rparr>)]
      else if t = 0x04 then set_info i ''ATTACH REJECT''
      else if t = 0x05 then seqs [set_info i ''DETACH REQUEST'', upd i (\<lambda>s. s\<lparr>s_started := 1\<rparr>)]
      else if t = 0x06 then set_info i ''DETACH ACCEPT''
      else if t = 0x08 then seqs [
        set_info i ''RA UPDATE REQUEST'',
        session_reset i True,
        upd i (\<lambda>s. s\<lparr>s_raupd := 1, s_mo := 1\<rparr>),
        upd i start_session,
        data_octet dtap 0 (\<lambda>d0. upd i (\<lambda>s. s\<lparr>s_initial_seq := drop_bit 4 d0 AND 7\<rparr>))]
      else if t = 0x09 then seqs [set_info i ''RA UPDATE ACCEPT'', handle_ra_upd_acc i (drop 2 dtap)]
      else if t = 0x0a then seqs [set_info i ''RA UPDATE COMPLETE'', upd i (\<lambda>s. s\<lparr>s_raupd := 1\<rparr>)]
      else if t = 0x0b then set_info i ''RA UPDATE REJECT''
      else if t = 0x0c then seqs [
        set_info i ''SERVICE REQUEST'',
        session_reset i True,
        upd i start_session,
        upd i (\<lambda>s. s\<lparr>s_serv_req := 1\<rparr>),
        handle_serv_req i (drop 2 dtap)]
      else if t = 0x0d then set_info i ''SERVICE ACCEPT''
      else if t = 0x0e then set_info i ''SERVICE REJECT''
      else if t = 0x10 then set_info i ''PTMSI REALLOC COMMAND''
      else if t = 0x11 then set_info i ''PTMSI REALLOC COMPLETE''
      else if t = 0x12 then seqs [set_info i ''AUTH AND CIPHER REQUEST'', upd i (\<lambda>s. s\<lparr>s_auth := 1\<rparr>)]
      else if t = 0x13 then seqs [set_info i ''AUTH AND CIPHER RESPONSE'', upd i (\<lambda>s. s\<lparr>s_auth := 1\<rparr>)]
      else if t = 0x14 then seqs [upd i (\<lambda>s. s\<lparr>s_auth := 1\<rparr>), set_info i ''AUTH AND CIPHER REJECT'']
      else if t = 0x15 then set_info i ''IDENTITY REQUEST''
      else if t = 0x16 then set_info i ''IDENTITY RESPONSE''
      else if t = 0x20 then set_info i ''GMM STATUS''
      else if t = 0x21 then set_info i ''GMM INFORMATION''
      else set_info i (''UNKNOWN GMM ('' @ hex2 t @ '')''))"

definition handle_gmm :: "nat \<Rightarrow> u8 list \<Rightarrow> u32 \<Rightarrow> world \<Rightarrow> world res" where
  "handle_gmm i dtap len = in_ps i ''GMM_IN_CS'' len (\<lambda>w. rbind (rd dtap 1) (\<lambda>mt. gmm_message i dtap (mt AND 0x3f) w))"

definition sm_message :: "nat \<Rightarrow> u8 \<Rightarrow> world \<Rightarrow> world res" where
  "sm_message i t =
     (if t = 0x01 then seqs [set_info i ''ACTIVATE PDP REQUEST'', upd i (\<lambda>s. s\<lparr>s_pdp_activate := 1\<rparr>)]
      else if t = 0x02 then set_info i ''ACTIVATE PDP ACCEPT''
      else if t = 0x06 then set_info i ''DEACTIVATE PDP REQUEST''
      else if t = 0x07 then set_info i ''DEACTIVATE PDP ACCEPT''
      else if t = 0x08 then set_info i ''MODIFY PDP REQUEST''
      else if t = 0x09 then set_info i ''MODIFY PDP ACCEPT''
      else if t = 0x0a then set_info i ''DEACTIVATE PDP ACCEPT''
      else if t = 0x15 then set_info i ''SM STATUS''
      else set_info i (''UNKNOWN SM ('' @ hex2 t @ '')''))"

definition handle_sm :: "nat \<Rightarrow> u8 list \<Rightarrow> u32 \<Rightarrow> world \<Rightarrow> world res" where
  "handle_sm i dtap len = in_ps i ''SM_IN_CS'' len (\<lambda>w. rbind (rd dtap 1) (\<lambda>mt. sm_message i (mt AND 0x3f) w))"

subsection \<open>Repeated messages\<close>

text \<open>
  \<open>is_double\<close>: a message that was also seen on the other radio access is dropped; every other one
  is stored for the next comparison.  Its length is stored in a \<open>uint8_t\<close>.
\<close>

definition double_match :: "session_info \<Rightarrow> u8 list \<Rightarrow> nat \<Rightarrow> bool res" where
  "double_match s msg len =
     (let min_len = min len (unat (s_last_dtap_len s)) in
      if min_len = 0 then Inr False
      else rbind (rdn msg 0 min_len) (\<lambda>a. rbind (rdn (s_last_dtap s) 0 min_len) (\<lambda>b. Inr (a = b))))"

definition double_store :: "nat \<Rightarrow> u8 list \<Rightarrow> nat \<Rightarrow> world \<Rightarrow> world res" where
  "double_store i msg len = by_sess i (\<lambda>s w.
     rbind (rdn msg 0 len) (\<lambda>d. rbind (wrn (s_last_dtap s) 0 d) (\<lambda>d.
     rbind (deref (s_new_msg s) w) (\<lambda>m.
     upd i (\<lambda>s. s\<lparr>s_last_dtap := d, s_last_dtap_len := of_nat len, s_last_dtap_rat := rm_rat m\<rparr>) w))))"

definition drop_decoded :: "nat \<Rightarrow> world \<Rightarrow> world res" where
  "drop_decoded i = by_sess i (\<lambda>s. upd_msg (s_new_msg s) (\<lambda>m. m\<lparr>rm_flags := rm_flags m AND NOT MSG_DECODED\<rparr>))"

definition is_double :: "nat \<Rightarrow> u8 list \<Rightarrow> u32 \<Rightarrow> world \<Rightarrow> (bool \<times> world) res" where
  "is_double i msg len w =
     (let len = min (unat len) 256 in
      rbind (sess i w) (\<lambda>s.
      rbind (double_match s msg len) (\<lambda>eq.
      rbind (if eq
             then rbind (deref (s_new_msg s) w) (\<lambda>m. rbind (msg_uplink m) (\<lambda>ul.
                  if ul then if s_last_dtap_rat s = RAT_GSM \<and> rm_rat m \<noteq> RAT_GSM
                             then rbind (seqs [upd i (\<lambda>s. s\<lparr>s_rat := rm_rat m\<rparr>), drop_decoded i] w) (\<lambda>w. Inr (True, w))
                             else Inr (False, w)
                  else if s_last_dtap_rat s \<noteq> RAT_GSM \<and> rm_rat m = RAT_GSM
                       then rbind (drop_decoded i w) (\<lambda>w. Inr (True, w))
                       else Inr (False, w)))
             else Inr (False, w)) (\<lambda>(double, w).
      if double then Inr (True, w) else rbind (double_store i msg len w) (\<lambda>w. Inr (False, w))))))"

subsection \<open>Dispatch\<close>

definition dtap_message :: "nat \<Rightarrow> u8 list \<Rightarrow> u32 \<Rightarrow> u32 \<Rightarrow> bool \<Rightarrow> u8 \<Rightarrow> world \<Rightarrow> world res" where
  "dtap_message i msg len fn ul p =
     (if p = 0x03 then handle_cc i msg len ul
      else if p = 0x05 then handle_mm i msg len fn
      else if p = 0x06 then handle_rr i msg len fn
      else if p = 0x08 then (\<lambda>w. handle_gmm (if w_auto_reset w then i + 1 else i) msg len w)
      else if p = 0x09 then handle_sms i msg len
      else if p = 0x0a then (\<lambda>w. handle_sm (if w_auto_reset w then i + 1 else i) msg len w)
      else if p = 0x0b then handle_ss i msg len
      else if p = 0x00 then set_info i ''GCC''
      else if p = 0x01 then set_info i ''BCC''
      else if p = 0x02 then set_info i ''PDSS1''
      else if p = 0x04 then set_info i ''PDSS2''
      else if p = 0x0c then set_info i ''LCS''
      else (\<lambda>w. rbind (osmo_hexdump_nospc msg len) (\<lambda>d.
             set_info i (''Unknown proto_discr '' @ (if ul then ''UL'' else ''DL'') @ '': '' @ d) w)))"

definition handle_dtap :: "nat \<Rightarrow> u8 list \<Rightarrow> u32 \<Rightarrow> u32 \<Rightarrow> bool \<Rightarrow> world \<Rightarrow> world res" where
  "handle_dtap i msg len fn ul = seqs [
     assert_msg i,
     by_sess i (\<lambda>s. upd_msg (s_new_msg s) (\<lambda>m. m\<lparr>rm_info := []\<rparr>)),
     (if len = 0 then set_info i ''<ZERO LENGTH>''
      else (\<lambda>w. rbind (is_double i msg len w) (\<lambda>(double, w).
             if double then set_info i ''<DOUBLE MSG>'' w
             else rbind (rd msg 0) (\<lambda>p. dtap_message i msg len fn ul (p AND 0x0f) w))))]"

end
