(* ===== verification/Lte_Eps.thy ===== *)
theory Lte_Eps
  imports State
begin

text \<open>
  Messages of the evolved packet system (\<open>gsm-parser/lte_eps.c\<close>).  Only the security header is
  looked at; a protected message is marked as not decoded.
\<close>

definition eps_protected :: "nat \<Rightarrow> string \<Rightarrow> u8 list \<Rightarrow> u32 \<Rightarrow> world \<Rightarrow> world res" where
  "eps_protected i name data len = seqs [
     (\<lambda>w. rbind (osmo_hexdump_nospc data len) (\<lambda>d. set_info i (name @ d) w)),
     by_sess i (\<lambda>s. upd_msg (s_new_msg s) (\<lambda>m. m\<lparr>rm_flags := rm_flags m AND NOT MSG_DECODED\<rparr>))]"

definition eps_info :: "nat \<Rightarrow> string \<Rightarrow> u8 list \<Rightarrow> u32 \<Rightarrow> world \<Rightarrow> world res" where
  "eps_info i name data len w = rbind (osmo_hexdump_nospc data len) (\<lambda>d. set_info i (name @ d) w)"

definition handle_eps :: "nat \<Rightarrow> u8 list \<Rightarrow> u32 \<Rightarrow> world \<Rightarrow> world res" where
  "handle_eps i data len w =
     rbind (rd data 0) (\<lambda>d0.
     let sec_header = drop_bit 4 d0 in
     seqs [
       upd i (\<lambda>s. s\<lparr>s_rat := RAT_LTE\<rparr>),
       upd (i + 1) (\<lambda>s. s\<lparr>s_rat := RAT_LTE\<rparr>),
       (if sec_header = 0 then (\<lambda>w. rbind (rd data 1) (\<lambda>msg_type.
          if drop_bit 6 msg_type = 1 then eps_info i ''EMM plain: '' data len w
          else if drop_bit 6 msg_type = 3 then eps_info i ''ESM plain: '' data len w
          else Inr w))
        else if sec_header = 1 then eps_protected i ''EPS integrity: '' data len
        else if sec_header = 2 then eps_protected i ''EPS ciphered: '' data len
        else if sec_header = 3 then eps_protected i ''EPS integrity_new: '' data len
        else if sec_header = 4 then eps_protected i ''EPS ciphered_new: '' data len
        else eps_info i ''EPS service_req: '' data len)] w)"

end
