(* ===== verification/Umts_Rrc.thy ===== *)
theory Umts_Rrc
  imports L3_Handler
begin

text \<open>
  Radio resource control of UMTS (\<open>gsm-parser/umts_rrc.c\<close>).  The messages are decoded by a generated
  ASN.1 library (\<open>osmocom/rrc\<close>), which is not part of the repository: it is the parameter \<open>lib\<close>, a record with the numbers of the
  message types and with the decoders of the two dedicated channels.  Of a decoded message the model
  has what the handlers read: the alternative that is present, the domain, and the octets of the
  embedded layer 3 message, \<open>None\<close> being a null pointer.
\<close>

section \<open>Definitions\<close>

text \<open>
  For an uplink transfer the code takes the domain from the member of the union that belongs to the
  initial transfer; the number in \<open>UL_uplink_transfer\<close> is the one found there.
\<close>

datatype ul_dcch =
    UL_initial_transfer int "u8 list option"
  | UL_uplink_transfer int "u8 list option"
  | UL_other

text \<open>
  A security mode command of release 3 has, if present, the ciphering mode (whether it is a start, and
  the algorithm) and the integrity mode with its algorithm, which may be missing; one of release 7
  has the algorithm of the ciphering mode.
\<close>

datatype security_mode_command =
    Security_r3 int "(bool \<times> int) option" "int option option"
  | Security_r7 int "int option" "int option option"
  | Security_other

datatype downlink_transfer =
    DDT_r3 int "u8 list option"
  | DDT_later_than_r3
  | DDT_other

datatype dl_dcch =
    DL_security security_mode_command
  | DL_transfer downlink_transfer
  | DL_other

record rrc_lib =
  pr_ul_setup_complete :: u8
  pr_ul_release_complete :: u8
  pr_ul_security_complete :: u8
  pr_ul_initial_transfer :: u8
  pr_ul_uplink_transfer :: u8
  pr_dl_signalling_release :: u8
  pr_dl_connection_release :: u8
  pr_dl_security_command :: u8
  pr_dl_direct_transfer :: u8
  pr_dl_connection_setup :: u8
  pr_dl_ccch_release :: u8
  pr_dl_connection_reject :: u8
  ul_dcch_decode :: "u8 list \<Rightarrow> u32 \<Rightarrow> ul_dcch option"
  dl_dcch_decode :: "u8 list \<Rightarrow> u32 \<Rightarrow> dl_dcch option"

text \<open>\<open>s[0].rat = RAT_UMTS; s[1].rat = RAT_UMTS;\<close>\<close>

definition umts_rat :: "nat \<Rightarrow> world \<Rightarrow> world res" where
  "umts_rat i = seqs [upd i (\<lambda>s. s\<lparr>s_rat := RAT_UMTS\<rparr>), upd (i + 1) (\<lambda>s. s\<lparr>s_rat := RAT_UMTS\<rparr>)]"

text \<open>The type of a message; \<open>None\<close> is one that is too short for its integrity information.\<close>

definition dcch_type :: "u8 list \<Rightarrow> u32 \<Rightarrow> u8 option res" where
  "dcch_type msg len = rbind (rd msg 0) (\<lambda>m0.
     if nz (m0 AND 0x80)
     then if len < 6 then Inr None
          else rbind (rd msg 4) (\<lambda>m4. rbind (rd msg 5) (\<lambda>m5. Inr (Some (push_bit 2 (m4 AND 0x07) OR drop_bit 6 m5))))
     else Inr (Some (drop_bit 2 (m0 AND 0x7c))))"

definition ccch_type :: "u8 list \<Rightarrow> u32 \<Rightarrow> u8 option res" where
  "ccch_type msg len = rbind (rd msg 0) (\<lambda>m0.
     if nz (m0 AND 0x80)
     then if len < 5 then Inr None else rbind (rd msg 4) (\<lambda>m4. Inr (Some (m4 AND 0x07)))
     else Inr (Some (drop_bit 4 (m0 AND 0x70))))"

definition with_type :: "u8 option res \<Rightarrow> nat \<Rightarrow> (u8 \<Rightarrow> world \<Rightarrow> world res) \<Rightarrow> world \<Rightarrow> world res" where
  "with_type r i f w = rbind r (\<lambda>t. case t of
      None \<Rightarrow> set_info i ''SANITY CHECK FAILED (HMAC_LEN)'' w
    | Some t \<Rightarrow> f t w)"

definition rrc_setup :: "nat \<Rightarrow> world \<Rightarrow> world res" where
  "rrc_setup i = seqs [
     session_reset i True,
     upd (i + 1) (\<lambda>s. s\<lparr>s_new_msg := None\<rparr>),
     session_reset (i + 1) True]"

definition rrc_release :: "nat \<Rightarrow> world \<Rightarrow> world res" where
  "rrc_release i = seqs [
     upd i (\<lambda>s. s\<lparr>s_release := 1\<rparr>),
     session_reset i False,
     upd (i + 1) (\<lambda>s. s\<lparr>s_new_msg := None, s_release := 1\<rparr>),
     session_reset (i + 1) False]"

subsection \<open>Dedicated channel, uplink\<close>

definition ul_transfer :: "nat \<Rightarrow> ul_dcch option \<Rightarrow> world \<Rightarrow> world res" where
  "ul_transfer i decoded =
     (let deliver = (\<lambda>cn nas. seqs [
        on_cond (0 \<le> cn) (by_sess i (\<lambda>s. upd_msg (s_new_msg s) (\<lambda>m. m\<lparr>rm_domain := of_int cn\<rparr>))),
        (case nas of None \<Rightarrow> Inr | Some d \<Rightarrow> handle_dtap i d (of_nat (length d)) 0 True)])
      in case decoded of
           None \<Rightarrow> set_info i ''ASN.1 PARSING ERROR''
         | Some (UL_initial_transfer cn nas) \<Rightarrow> deliver cn nas
         | Some (UL_uplink_transfer cn nas) \<Rightarrow> deliver cn nas
         | Some UL_other \<Rightarrow> (\<lambda>w. Inl AssertFailed))"

definition ul_message :: "rrc_lib \<Rightarrow> nat \<Rightarrow> u8 list \<Rightarrow> u32 \<Rightarrow> u8 \<Rightarrow> world \<Rightarrow> world res" where
  "ul_message lib i msg len t =
     (if t = pr_ul_setup_complete lib - 1 then seqs [set_info i ''RRC Setup Complete'', rrc_setup i]
      else if t = pr_ul_release_complete lib - 1 then seqs [set_info i ''RRC Release Complete'', rrc_release i]
      else if t = pr_ul_security_complete lib - 1 then seqs [
        set_info i ''RRC Security Mode Complete'',
        upd i (\<lambda>s. s\<lparr>s_cipher_missing := (if sint (s_cipher_missing s) < 0 then 0 else 1)\<rparr>)]
      else if t = pr_ul_initial_transfer lib - 1 then seqs [
        set_info i ''RRC InitialDirectTransfer'', ul_transfer i (ul_dcch_decode lib msg len)]
      else if t = pr_ul_uplink_transfer lib - 1 then seqs [
        set_info i ''RRC UplinkDirectTransfer'', ul_transfer i (ul_dcch_decode lib msg len)]
      else seqs [set_info i (''UL-DCCH type='' @ dec_str (unat t)), drop_decoded i])"

definition handle_dcch_ul :: "rrc_lib \<Rightarrow> nat \<Rightarrow> u8 list \<Rightarrow> u32 \<Rightarrow> world \<Rightarrow> world res" where
  "handle_dcch_ul lib i msg len = on_cond (nz len) (seqs [
     umts_rat i, with_type (dcch_type msg len) i (ul_message lib i msg len)])"

subsection \<open>Dedicated channel, downlink\<close>

definition signalling_release :: "nat \<Rightarrow> u8 list \<Rightarrow> world \<Rightarrow> world res" where
  "signalling_release i msg w =
     rbind (rd msg 0) (\<lambda>m0.
     rbind (if nz (m0 AND 0x80) then rbind (rd msg 5) (\<lambda>m5. Inr (drop_bit 4 (m5 AND 0x3f), drop_bit 1 m5 AND 1))
            else rbind (rd msg 1) (\<lambda>m1. Inr (m0 AND 0x3, drop_bit 5 m1 AND 1))) (\<lambda>(msg_rel, cn).
     on_cond (msg_rel = 0) (upd (i + unat cn) (\<lambda>s. s\<lparr>s_release := 1\<rparr>)) w))"

text \<open>Domain, ciphering and integrity algorithm of a security mode command; \<open>None\<close> is not supported.\<close>

fun security_algorithms :: "security_mode_command \<Rightarrow> (int \<times> int \<times> int) option" where
  "security_algorithms (Security_r3 cn cipher integrity) =
     Some (cn, (case cipher of Some (True, c) \<Rightarrow> c | _ \<Rightarrow> 0), (case integrity of Some (Some a) \<Rightarrow> 1 + a | _ \<Rightarrow> 0))"
| "security_algorithms (Security_r7 cn cipher integrity) =
     Some (cn, (case cipher of Some c \<Rightarrow> c | None \<Rightarrow> 0), (case integrity of Some (Some a) \<Rightarrow> 1 + a | _ \<Rightarrow> 0))"
| "security_algorithms Security_other = None"

definition int_str :: "int \<Rightarrow> string" where
  "int_str k = (if k < 0 then ''-'' @ dec_str (nat (- k)) else dec_str (nat k))"

definition security_command :: "nat \<Rightarrow> security_mode_command \<Rightarrow> world \<Rightarrow> world res" where
  "security_command i cmd =
     (case security_algorithms cmd of
        None \<Rightarrow> set_info i ''RRC Security Mode Command / Not supported''
      | Some (cn, c_algo, i_algo) \<Rightarrow>
          if cn < 0 then (\<lambda>w. Inl OutOfBounds)
          else let k = i + nat cn in by_sess k (\<lambda>s.
            if nz (s_cipher s) then Inr
            else seqs [
              set_info k (''RRC Security Mode Command ('' @ (if cn \<noteq> 0 then ''PS'' else ''CS'') @ ''), UEA/''
                @ int_str c_algo @ '' UIA/'' @ int_str i_algo),
              upd k (\<lambda>s. s\<lparr>s_cipher := of_int c_algo, s_integrity := of_int i_algo, s_cipher_missing := - 1\<rparr>)]))"

definition dl_transfer :: "nat \<Rightarrow> downlink_transfer \<Rightarrow> world \<Rightarrow> world res" where
  "dl_transfer i t =
     (case t of
        DDT_r3 cn nas \<Rightarrow> (case nas of None \<Rightarrow> Inr | Some d \<Rightarrow> handle_dtap i d (of_nat (length d)) 0 False)
      | DDT_later_than_r3 \<Rightarrow> set_info i ''DDT > r3 is not supported!''
      | DDT_other \<Rightarrow> set_info i ''DDT / Not supported'')"

definition dl_decoded :: "nat \<Rightarrow> dl_dcch option \<Rightarrow> world \<Rightarrow> world res" where
  "dl_decoded i decoded =
     (case decoded of
        None \<Rightarrow> set_info i ''ASN.1 PARSING ERROR''
      | Some (DL_security cmd) \<Rightarrow> security_command i cmd
      | Some (DL_transfer t) \<Rightarrow> dl_transfer i t
      | Some DL_other \<Rightarrow> (\<lambda>w. Inl AssertFailed))"

definition dl_message :: "rrc_lib \<Rightarrow> nat \<Rightarrow> u8 list \<Rightarrow> u32 \<Rightarrow> u8 \<Rightarrow> world \<Rightarrow> world res" where
  "dl_message lib i msg len t =
     (if t = pr_dl_signalling_release lib - 1 then seqs [set_info i ''RRC Signalling Connection Release'', signalling_release i msg]
      else if t = pr_dl_connection_release lib - 1 then seqs [set_info i ''RRC Connection Release'', rrc_release i]
      else if t = pr_dl_security_command lib - 1 then dl_decoded i (dl_dcch_decode lib msg len)
      else if t = pr_dl_direct_transfer lib - 1 then seqs [
        set_info i ''RRC DownlinkDirectTransfer'', dl_decoded i (dl_dcch_decode lib msg len)]
      else seqs [set_info i (''DL-DCCH type='' @ dec_str (unat t)), drop_decoded i])"

definition handle_dcch_dl :: "rrc_lib \<Rightarrow> nat \<Rightarrow> u8 list \<Rightarrow> u32 \<Rightarrow> world \<Rightarrow> world res" where
  "handle_dcch_dl lib i msg len = on_cond (nz len) (seqs [
     umts_rat i, with_type (dcch_type msg len) i (dl_message lib i msg len)])"

subsection \<open>Common channel\<close>

definition handle_ccch_ul :: "nat \<Rightarrow> u8 list \<Rightarrow> u32 \<Rightarrow> world \<Rightarrow> world res" where
  "handle_ccch_ul i msg len = on_cond (nz len) (seqs [
     umts_rat i,
     with_type (ccch_type msg len) i (\<lambda>t.
       if t = 3 then set_info i ''RRC Connection Request''
       else seqs [set_info i (''UL-CCCH type='' @ dec_str (unat t)), drop_decoded i])])"

definition handle_ccch_dl :: "rrc_lib \<Rightarrow> nat \<Rightarrow> u8 list \<Rightarrow> u32 \<Rightarrow> world \<Rightarrow> world res" where
  "handle_ccch_dl lib i msg len = on_cond (nz len) (seqs [
     umts_rat i,
     with_type (ccch_type msg len) i (\<lambda>t.
       if t = pr_dl_connection_setup lib - 1 then set_info i ''RRC Connection Setup''
       else if t = pr_dl_ccch_release lib - 1 then set_info i ''RRC Connection Release''
       else if t = pr_dl_connection_reject lib - 1 then set_info i ''RRC Connection Reject''
       else seqs [set_info i (''DL-CCCH type='' @ dec_str (unat t)), drop_decoded i])])"

end
