(* ===== verification/Lapdm.thy ===== *)
theory Lapdm
  imports L3_Handler Lte_Eps Umts_Rrc
begin

text \<open>
  Layer 2 and the entry point of the parser (last part of \<open>gsm-parser/l3_handler.c\<close>): reassembly of
  LAPDm frames, the statistics on padding, the life of a message, and the construction of
  messages from layer 3 data.

  The ASN.1 library behind the UMTS handlers is a parameter (\<open>Umts_Rrc\<close>).
\<close>

section \<open>Definitions\<close>

subsection \<open>Statistics\<close>

definition bump_enc :: "bool \<Rightarrow> nat \<Rightarrow> nat \<Rightarrow> frame_count \<Rightarrow> frame_count" where
  "bump_enc is_random len data_len f =
     (let f = f\<lparr>fc_enc := fc_enc f + 1\<rparr>;
          f = (if is_random then f\<lparr>fc_enc_rand := fc_enc_rand f + 1\<rparr> else f)
      in if data_len = 0
         then let f = f\<lparr>fc_enc_null := fc_enc_null f + 1\<rparr>
              in if is_random then f\<lparr>fc_enc_null_rand := fc_enc_null_rand f + 1\<rparr>
                 else f\<lparr>fc_predict := fc_predict f + 1\<rparr>
         else if len = 18
         then let f = f\<lparr>fc_enc_si := fc_enc_si f + 1\<rparr>
              in if is_random then f\<lparr>fc_enc_si_rand := fc_enc_si_rand f + 1\<rparr>
                 else f\<lparr>fc_predict := fc_predict f + 1\<rparr>
         else f)"

definition bump_unenc :: "bool \<Rightarrow> frame_count \<Rightarrow> frame_count" where
  "bump_unenc is_random f =
     (let f = f\<lparr>fc_unenc := fc_unenc f + 1\<rparr> in if is_random then f\<lparr>fc_unenc_rand := fc_unenc_rand f + 1\<rparr> else f)"

text \<open>The check of the padding of a downlink frame: which state it uses depends on the frame.\<close>

definition pad_check :: "u8 list \<Rightarrow> nat \<Rightarrow> nat \<Rightarrow> nat \<Rightarrow> session_info \<Rightarrow> (bool \<times> session_info) res" where
  "pad_check data len data_len pad_len s =
     (let pad = drop (data_len + 1) data; n = of_nat (pad_len - 1) :: u8 in
      if pad_len = 0 then Inr (False, s)
      else if len = 20
      then if data_len = 0 then rbind (rand_check pad n (s_null s) (s_cipher s)) (\<lambda>(r, st). Inr (r, s\<lparr>s_null := st\<rparr>))
           else rbind (rand_check pad n (s_other_sdcch s) (s_cipher s)) (\<lambda>(r, st). Inr (r, s\<lparr>s_other_sdcch := st\<rparr>))
      else if len = 18 then rbind (rand_check pad n (s_other_sacch s) (s_cipher s)) (\<lambda>(r, st). Inr (r, s\<lparr>s_other_sacch := st\<rparr>))
      else Inr (False, s))"

definition update_counters :: "nat \<Rightarrow> u8 list \<Rightarrow> u32 \<Rightarrow> u8 \<Rightarrow> bool \<Rightarrow> world \<Rightarrow> world res" where
  "update_counters i data len data_len ul = updr i (\<lambda>s.
     let s = (if ul then s\<lparr>s_uplink := s_uplink s + 1\<rparr> else s);
         pad_len = len - ucast data_len
     in if pad_len > 20 then Inr s
        else if ul then Inr s
        else rbind (pad_check data (unat len) (unat data_len) (unat pad_len) s) (\<lambda>(is_random, s).
             Inr (s\<lparr>s_fc := (if nz (s_cipher s) then bump_enc is_random (unat len) (unat data_len) (s_fc s)
                             else bump_unenc is_random (s_fc s))\<rparr>)))"

subsection \<open>LAPDm\<close>

text \<open>
  The buffers of the three channels.  A channel has four: the code indexes them with the direction
  plus 1 for SAPI 3.
\<close>

datatype lapdm_chan = Sdcch | Sacch | Facch

fun get_bufs :: "lapdm_chan \<Rightarrow> session_info \<Rightarrow> lapdm_buf list" where
  "get_bufs Sdcch s = s_chan_sdcch s"
| "get_bufs Sacch s = s_chan_sacch s"
| "get_bufs Facch s = s_chan_facch s"

fun put_bufs :: "lapdm_chan \<Rightarrow> lapdm_buf list \<Rightarrow> session_info \<Rightarrow> session_info" where
  "put_bufs Sdcch bs s = s\<lparr>s_chan_sdcch := bs\<rparr>"
| "put_bufs Sacch bs s = s\<lparr>s_chan_sacch := bs\<rparr>"
| "put_bufs Facch bs s = s\<lparr>s_chan_facch := bs\<rparr>"

definition get_mb :: "lapdm_chan \<Rightarrow> nat \<Rightarrow> session_info \<Rightarrow> lapdm_buf res" where
  "get_mb ch k s = rd (get_bufs ch s) k"

definition upd_mb :: "nat \<Rightarrow> lapdm_chan \<Rightarrow> nat \<Rightarrow> (lapdm_buf \<Rightarrow> lapdm_buf res) \<Rightarrow> world \<Rightarrow> world res" where
  "upd_mb i ch k f = updr i (\<lambda>s. rbind (get_mb ch k s) (\<lambda>mb. rbind (f mb) (\<lambda>mb.
     rbind (wr (get_bufs ch s) k mb) (\<lambda>bs. Inr (put_bufs ch bs s)))))"

definition by_mb :: "nat \<Rightarrow> lapdm_chan \<Rightarrow> nat \<Rightarrow> (lapdm_buf \<Rightarrow> world \<Rightarrow> 'a res) \<Rightarrow> world \<Rightarrow> 'a res" where
  "by_mb i ch k f w = rbind (sess i w) (\<lambda>s. rbind (get_mb ch k s) (\<lambda>mb. f mb w))"

text \<open>The check of the sequence number: only in the middle of a message.\<close>

definition out_of_sequence :: "u8 \<Rightarrow> lapdm_buf \<Rightarrow> bool" where
  "out_of_sequence ns mb \<longleftrightarrow> nz (lb_len mb) \<and> (ns \<noteq> (lb_ns mb + 1) mod 8 \<or> lb_oos mb \<ge> 3)"

definition count_out_of_seq :: "u8 \<Rightarrow> lapdm_buf \<Rightarrow> lapdm_buf" where
  "count_out_of_seq ns mb =
     (let mb = (if lb_last_oos mb \<noteq> int (unat ns) \<and> c_rem (int (unat (lb_ns mb)) - int (unat ns)) 8 < 2
                then mb\<lparr>lb_oos := lb_oos mb + 1\<rparr> else mb)
      in mb\<lparr>lb_last_oos := int (unat ns)\<rparr>)"

definition handle_out_of_seq ::
  "nat \<Rightarrow> lapdm_chan \<Rightarrow> nat \<Rightarrow> u8 list \<Rightarrow> u32 \<Rightarrow> u8 \<Rightarrow> u8 \<Rightarrow> bool \<Rightarrow> bool \<Rightarrow> world \<Rightarrow> world res" where
  "handle_out_of_seq i ch k msg len data_len ns more_frag ul = seqs [
     upd_mb i ch k (\<lambda>mb. Inr (count_out_of_seq ns mb)),
     by_mb i ch k (\<lambda>mb. set_info i (''<OUT OF SEQUENCE> recv '' @ dec_str (unat ns) @ '' want ''
       @ dec_str (unat ((lb_ns mb + 1) mod 8)) @ '' no out-of-seq '' @ dec_str (unat (lb_oos mb)))),
     update_counters i (drop 3 msg) (len - 3) data_len ul,
     by_mb i ch k (\<lambda>mb. on_cond (\<not> more_frag \<and> lb_oos mb \<ge> 3) (seqs [
       set_info i (''<OUT OF SEQUENCE END> no out-of-seq '' @ dec_str (unat (lb_oos mb)) @ '', reset seq to '' @ dec_str (unat ns)),
       upd_mb i ch k (\<lambda>mb. Inr (mb\<lparr>lb_oos := 0, lb_len := 0, lb_ns := ns\<rparr>))]))]"

text \<open>Appending the payload of a frame; a new message also presets the padding behind it.\<close>

definition append_payload :: "u8 list \<Rightarrow> lapdm_buf \<Rightarrow> lapdm_buf res" where
  "append_payload payload mb =
     (if lb_len mb = 0
      then rbind (wrn (lb_data mb) 0 payload) (\<lambda>d.
           Inr (mb\<lparr>lb_data := take (length payload) d @ replicate (length d - length payload) 0x2b,
                   lb_len := of_nat (length payload)\<rparr>))
      else rbind (wrn (lb_data mb) (unat (lb_len mb)) payload) (\<lambda>d.
           Inr (mb\<lparr>lb_data := d, lb_len := lb_len mb + of_nat (length payload)\<rparr>)))"

text \<open>The time stamps that are inferred from the next long frame, when the uplink is not available.\<close>

definition infer_times :: "bool \<Rightarrow> bool \<Rightarrow> u8 \<Rightarrow> u32 \<Rightarrow> u8 \<Rightarrow> u32 \<Rightarrow> session_info \<Rightarrow> session_info" where
  "infer_times old_auth old_cipher sapi len d0 fn s =
     (let s = (if nz (s_auth s) \<and> old_auth \<and> s_auth_resp_fn s = 0 \<and> len > 21 \<and> (sapi \<noteq> 0 \<or> d0 \<noteq> 5)
               then s\<lparr>s_auth_resp_fn := fn_or_max fn\<rparr> else s)
      in if nz (s_cipher s) \<and> old_cipher \<and> s_cm_comp_last_fn s = 0 \<and> len > 21 \<and> (sapi \<noteq> 0 \<or> d0 \<noteq> 6)
         then s\<lparr>s_cm_comp_first_fn := (if s_cm_comp_first_fn s = 0 then fn_or_max fn else s_cm_comp_first_fn s),
                s_cm_comp_last_fn := fn_or_max fn\<rparr>
         else s)"

text \<open>The part of \<open>handle_lapdm\<close> behind the switch over the frame type.\<close>

definition lapdm_deliver ::
  "nat \<Rightarrow> lapdm_chan \<Rightarrow> nat \<Rightarrow> u8 \<Rightarrow> u8 list \<Rightarrow> u32 \<Rightarrow> u8 \<Rightarrow> u8 \<Rightarrow> bool \<Rightarrow> u32 \<Rightarrow> bool \<Rightarrow> world \<Rightarrow> world res" where
  "lapdm_deliver i ch k sapi msg len data_len ns more_frag fn ul = seqs [
     update_counters i (drop 3 msg) (len - 3) data_len ul,
     (if data_len = 0 then set_info i ''<NULL>''
      else seqs [
        (\<lambda>w. rbind (rdn msg 3 (unat data_len)) (\<lambda>payload. upd_mb i ch k (append_payload payload) w)),
        by_sess i (\<lambda>old. seqs [
          (if more_frag then set_info i (''<FRAGMENT '' @ dec_str (unat ns) @ ''>'')
           else seqs [
             by_mb i ch k (\<lambda>mb. handle_dtap i (lb_data mb) (lb_len mb) fn ul),
             upd_mb i ch k (\<lambda>mb. Inr (mb\<lparr>lb_len := 0\<rparr>))]),
          by_mb i ch k (\<lambda>mb w. rbind (rd (lb_data mb) 0) (\<lambda>d0.
            upd i (infer_times (nz (s_auth old)) (nz (s_cipher old)) sapi len d0 fn) w))])])]"

definition lapdm_frame ::
  "nat \<Rightarrow> lapdm_chan \<Rightarrow> nat \<Rightarrow> u8 \<Rightarrow> u8 list \<Rightarrow> u32 \<Rightarrow> u8 \<Rightarrow> u8 \<Rightarrow> bool \<Rightarrow> u32 \<Rightarrow> bool \<Rightarrow> world \<Rightarrow> world res" where
  "lapdm_frame i ch k sapi msg len m1 data_len more_frag fn ul =
     (let frame_type = m1 AND 0x03 in
      if frame_type = 0 \<or> frame_type = 2
      then let nr = drop_bit 5 m1; ns = drop_bit 1 m1 AND 0x07
           in by_mb i ch k (\<lambda>mb.
              if out_of_sequence ns mb then handle_out_of_seq i ch k msg len data_len ns more_frag ul
              else seqs [
                upd_mb i ch k (\<lambda>mb. Inr (mb\<lparr>lb_oos := 0, lb_last_oos := 100, lb_nr := nr, lb_ns := ns\<rparr>)),
                lapdm_deliver i ch k sapi msg len data_len ns more_frag fn ul])
      else if frame_type = 1 then lapdm_deliver i ch k sapi msg len 0 0 more_frag fn ul
      else seqs [
        on_cond (m1 AND 0xec = 0x2c) (upd_mb i ch k (\<lambda>mb. Inr (mb\<lparr>lb_oos := 0, lb_len := 0, lb_ns := 0\<rparr>))),
        lapdm_deliver i ch k sapi msg len data_len 0 more_frag fn ul])"

definition handle_lapdm :: "nat \<Rightarrow> lapdm_chan \<Rightarrow> u8 list \<Rightarrow> u32 \<Rightarrow> u32 \<Rightarrow> bool \<Rightarrow> world \<Rightarrow> world res" where
  "handle_lapdm i ch msg len fn ul w =
     rbind (rd msg 0) (\<lambda>m0. rbind (rd msg 1) (\<lambda>m1. rbind (rd msg 2) (\<lambda>m2.
     let lpd_type = drop_bit 5 m0 AND 0x03; sapi = drop_bit 2 m0 AND 0x07;
         data_len = drop_bit 2 m2 AND 0x3f; more_frag = bit m2 1
     in seqs [
        by_sess i (\<lambda>s. upd_msg (s_new_msg s) (\<lambda>m. m\<lparr>rm_info := []\<rparr>)),
        (if nz lpd_type then set_info i ''non-GSM''
         else if \<not> bit m0 0 \<or> \<not> bit m2 0 \<or> ucast data_len + 3 > len then set_info i ''FAILED SANITY CHECKS (LAPDm)''
         else if sapi \<noteq> 0 \<and> sapi \<noteq> 3 then set_info i (''Unknown SAPI: '' @ dec_str (unat sapi))
         else lapdm_frame i ch (of_bool ul + of_bool (sapi \<noteq> 0)) sapi msg len m1 data_len more_frag fn ul)] w)))"

subsection \<open>The life of a message\<close>

definition update_timestamps :: "nat \<Rightarrow> world \<Rightarrow> world res" where
  "update_timestamps i = by_sess i (\<lambda>s w.
     if s_new_msg s = None \<or> s_started s = 0 then Inr w
     else rbind (deref (s_new_msg s) w) (\<lambda>m. rbind (msg_fn m) (\<lambda>fn.
          upd i (\<lambda>s. s\<lparr>s_first_fn := (if s_first_fn s = 0 then fn_or_max fn else s_first_fn s), s_last_fn := fn\<rparr>) w)))"

text \<open>\<open>s[k].new_msg = m\<close> for the sessions in use, each of which must have its own domain.\<close>

definition attach_msg :: "nat \<Rightarrow> nat \<Rightarrow> world \<Rightarrow> world res" where
  "attach_msg i a w = rfold (\<lambda>k. by_sess (i + k) (\<lambda>s w.
     rbind (rassert (s_domain s = of_nat k)) (\<lambda>_. upd (i + k) (\<lambda>s. s\<lparr>s_new_msg := Some a\<rparr>) w)))
     (if w_auto_reset w then [0, 1] else [0]) w"

definition handle_gsm :: "nat \<Rightarrow> radio_message \<Rightarrow> bool \<Rightarrow> u32 \<Rightarrow> world \<Rightarrow> world res" where
  "handle_gsm i m ul fn = by_sess i (\<lambda>s.
     let t = rm_flags m AND 0x0f in
     if t = MSG_SACCH then on_cond (s_rat s = RAT_GSM) (handle_lapdm i Sacch (drop 2 (rm_msg m)) (rm_msg_len m - 2) fn ul)
     else if t = MSG_SDCCH then on_cond (s_rat s = RAT_GSM) (handle_lapdm i Sdcch (rm_msg m) (rm_msg_len m) fn ul)
     else if t = MSG_FACCH then handle_lapdm i Facch (rm_msg m) (rm_msg_len m) fn ul
     else if t = MSG_BCCH then handle_dtap i (drop 1 (rm_msg m)) (rm_msg_len m - 1) fn ul
     else (\<lambda>w. Inl Aborted))"

definition handle_umts :: "rrc_lib \<Rightarrow> nat \<Rightarrow> radio_message \<Rightarrow> bool \<Rightarrow> world \<Rightarrow> world res" where
  "handle_umts lib i m ul =
     (let data = bb_data (rm_bb m); len = rm_msg_len m in
      if nz (rm_flags m AND MSG_SDCCH)
      then if ul then handle_dcch_ul lib i data len else handle_dcch_dl lib i data len
      else if nz (rm_flags m AND MSG_FACCH)
      then if ul then handle_ccch_ul i data len else handle_ccch_dl lib i data len
      else (\<lambda>w. Inl AssertFailed))"

text \<open>The end: the message goes to the list of its session and out, or it is freed.\<close>

definition finish_msg :: "nat \<Rightarrow> nat \<Rightarrow> world \<Rightarrow> world res" where
  "finish_msg i a = by_sess i (\<lambda>s w.
     if s_new_msg s = None then Inr w
     else rbind (deref (Some a) w) (\<lambda>m.
          rbind (rassert (rm_domain m < 2)) (\<lambda>_.
          rbind (update_timestamps (i + unat (rm_domain m)) w) (\<lambda>w.
          rbind (deref (s_new_msg s) w) (\<lambda>n.
          if nz (rm_flags n AND MSG_DECODED)
          then rbind (rassert (s_new_msg s = Some a)) (\<lambda>_. seqs [
                 link_to_msg_list (i + unat (rm_domain m)) (Some a),
                 upd i (\<lambda>s. s\<lparr>s_new_msg := None\<rparr>),
                 (\<lambda>w. rbind (deref (Some a) w) (\<lambda>m. on_cond (w_output_gsmtap w) (emit (Net_send_msg m)) w))] w)
          else seqs [free_msg a, upd i (\<lambda>s. s\<lparr>s_new_msg := None\<rparr>)] w)))))"

definition handle_radio_msg :: "rrc_lib \<Rightarrow> nat \<Rightarrow> nat \<Rightarrow> world \<Rightarrow> world res" where
  "handle_radio_msg lib i a w =
     rbind (upd_msg (Some a) (\<lambda>m. m\<lparr>rm_info := [], rm_flags := rm_flags m OR MSG_DECODED\<rparr>) w) (\<lambda>w.
     rbind (deref (Some a) w) (\<lambda>m.
     rbind (msg_uplink m) (\<lambda>ul. rbind (msg_fn m) (\<lambda>fn.
     rbind (attach_msg i a w) (\<lambda>w.
     if rm_rat m = RAT_GSM then rbind (handle_gsm i m ul fn w) (finish_msg i a)
     else if rm_rat m = RAT_UMTS then rbind (handle_umts lib i m ul w) (finish_msg i a)
     else if rm_rat m = RAT_LTE then rbind (handle_eps i (bb_data (rm_bb m)) (rm_msg_len m) w) (finish_msg i a)
     else Inr w)))))"

subsection \<open>Messages from layer 3 data\<close>

text \<open>The result is empty where the C function returns the length 0.\<close>

definition encapsulate_lapdm :: "u8 list \<Rightarrow> nat \<Rightarrow> bool \<Rightarrow> bool \<Rightarrow> u8 list res" where
  "encapsulate_lapdm data len ul sacch =
     (if len = 0 then Inr []
      else let len = min len 63;
               alloc_len = (if sacch then 5 + max len 18 else 3 + max len 20);
               header = (if sacch then [0x00, 0x00] else []) @ [if ul then 0x01 else 0x03, 0x03, push_bit 2 (of_nat len) OR 0x01]
           in rbind (rdn data 0 len) (\<lambda>d.
              Inr (header @ d @ replicate (alloc_len - (length header + len)) 0x2b)))"

definition new_l2 :: "u8 list \<Rightarrow> u8 \<Rightarrow> u8 \<Rightarrow> u8 \<Rightarrow> u32 \<Rightarrow> bool \<Rightarrow> u8 \<Rightarrow> radio_message res" where
  "new_l2 data len tech cs_ps fn ul flags =
     (let m = zero_radio_message\<lparr>rm_rat := tech, rm_domain := cs_ps\<rparr>;
          t = flags AND 0x0f;
          m = (if t = MSG_SDCCH \<or> t = MSG_SACCH then m\<lparr>rm_chan_nr := 0x41\<rparr>
               else if t = MSG_FACCH then m\<lparr>rm_chan_nr := 0x08\<rparr>
               else if t = MSG_BCCH then m\<lparr>rm_chan_nr := 0x80\<rparr> else m);
          bb = (rm_bb m)\<lparr>bb_fn := (bb_fn (rm_bb m))[0 := fn], bb_arfcn := (bb_arfcn (rm_bb m))[0 := if ul then ARFCN_UPLINK else 0]\<rparr>;
          m = m\<lparr>rm_flags := flags OR MSG_DECODED, rm_msg_len := ucast len, rm_bb := bb\<rparr>
      in rbind (rdn data 0 (unat len)) (\<lambda>d. rbind (wrn (rm_msg m) 0 d) (\<lambda>d. Inr (m\<lparr>rm_msg := d\<rparr>))))"

definition new_l3 :: "u8 list \<Rightarrow> u8 \<Rightarrow> u8 \<Rightarrow> u8 \<Rightarrow> u32 \<Rightarrow> bool \<Rightarrow> u8 \<Rightarrow> radio_message option res" where
  "new_l3 data len tech cs_ps fn ul flags =
     (if len = 0 then Inr None
      else rbind (encapsulate_lapdm data (unat len) ul (nz (flags AND MSG_SACCH))) (\<lambda>lapdm.
           if lapdm = [] then Inr None
           else rbind (new_l2 lapdm (of_nat (length lapdm)) tech cs_ps fn ul flags) (\<lambda>m. Inr (Some m))))"

end
