(* ===== verification/Msg_Store.thy ===== *)
theory Msg_Store
  imports Session
begin

text \<open>
  The store of messages as lists.  The sessions link their messages through the store
  (\<open>first_msg\<close>, \<open>last_msg\<close> and the field \<open>next\<close>); \<open>msg_seq\<close> relates such a linked list to the list of
  the addresses, and the operations of \<open>session.c\<close> on linked lists are related to operations on
  lists: linking appends, freeing gives every message of the list back and touches no other.
\<close>

section \<open>Chains\<close>

fun chain :: "radio_message option list \<Rightarrow> nat option \<Rightarrow> nat list \<Rightarrow> bool" where
  "chain ms p [] \<longleftrightarrow> p = None"
| "chain ms p (a # as) \<longleftrightarrow> p = Some a \<and> a < length ms \<and> (\<exists>m. ms ! a = Some m \<and> chain ms (rm_next m) as)"

definition msg_seq :: "radio_message option list \<Rightarrow> session_info \<Rightarrow> nat list \<Rightarrow> bool" where
  "msg_seq ms s xs \<longleftrightarrow> chain ms (s_first_msg s) xs \<and> distinct xs
     \<and> s_last_msg s = (if xs = [] then None else Some (last xs))"

text \<open>The store after the messages of a list are freed.\<close>

definition clear :: "nat list \<Rightarrow> radio_message option list \<Rightarrow> radio_message option list" where
  "clear xs ms = fold (\<lambda>a ms. ms[a := None]) xs ms"

lemma length_clear [simp]: "length (clear xs ms) = length ms"
  unfolding clear_def by (induction xs arbitrary: ms) simp_all

lemma nth_clear: "i < length ms \<Longrightarrow> clear xs ms ! i = (if i \<in> set xs then None else ms ! i)"
  unfolding clear_def by (induction xs arbitrary: ms) (auto simp: nth_list_update)

lemma clear_Nil [simp]: "clear [] ms = ms"
  by (simp add: clear_def)

lemma clear_Cons: "clear (a # as) ms = clear as (ms[a := None])"
  by (simp add: clear_def)

lemma not_in_upd: "a \<in> A \<Longrightarrow> b \<notin> A \<Longrightarrow> xs[b := v] ! a = xs ! a"
  by (metis nth_list_update_neq)

lemma chain_cong:
  "(\<And>a. a \<in> set xs \<Longrightarrow> ms' ! a = ms ! a) \<Longrightarrow> length ms \<le> length ms' \<Longrightarrow> chain ms p xs \<Longrightarrow> chain ms' p xs"
  by (induction xs arbitrary: p) (auto intro: less_le_trans)

lemma chain_live: "chain ms p xs \<Longrightarrow> a \<in> set xs \<Longrightarrow> a < length ms \<and> ms ! a \<noteq> None"
  by (induction xs arbitrary: p) auto

lemma chain_unique: "chain ms p xs \<Longrightarrow> chain ms p ys \<Longrightarrow> xs = ys"
proof (induction xs arbitrary: p ys)
  case (Cons x xs)
  then show ?case by (cases ys) auto
next
  case Nil
  then show ?case by (cases ys) auto
qed

text \<open>An update of a message that keeps its link keeps every chain.\<close>

lemma chain_upd_msg:
  assumes "chain ms p xs" and "a < length ms" and "ms ! a = Some m" and "rm_next m' = rm_next m"
  shows "chain (ms[a := Some m']) p xs"
  using assms by (induction xs arbitrary: p) (auto simp: nth_list_update)

text \<open>Setting the link of the last message of a chain to a message that is not in it appends.\<close>

lemma chain_snoc:
  assumes "chain ms p xs" "distinct xs" "xs \<noteq> []" "ms ! last xs = Some l" "b \<notin> set xs" "b < length ms"
    "ms ! b = Some m" "rm_next m' = None" "rm_next l' = Some b"
  shows "chain (ms[last xs := Some l', b := Some m']) p (xs @ [b])"
  using assms
proof (induction xs arbitrary: p)
  case (Cons x xs)
  show ?case
  proof (cases "xs = []")
    case False
    with Cons.prems(2) have "x \<noteq> last xs" by auto
    with Cons False show ?thesis by (auto simp: nth_list_update_neq)
  qed (use Cons.prems in \<open>auto simp: nth_list_update\<close>)
qed simp

text \<open>The links of the messages of a chain in front of the last one are inside of it.\<close>

lemma chain_last_next: "chain ms p xs \<Longrightarrow> xs \<noteq> [] \<Longrightarrow> ms ! last xs = Some l \<Longrightarrow> rm_next l = None"
proof (induction xs arbitrary: p)
  case (Cons x xs)
  then show ?case by (cases "xs = []") auto
qed simp

section \<open>Operations on linked lists\<close>

lemma free_msgs_chain:
  "chain (w_msgs w) p xs \<Longrightarrow> distinct xs \<Longrightarrow> free_msgs p w = Inr (w\<lparr>w_msgs := clear xs (w_msgs w)\<rparr>)"
proof (induction xs arbitrary: p w)
  case Nil
  then show ?case by (simp add: free_msgs.simps)
next
  case (Cons a as)
  then obtain m where a: "p = Some a" "a < length (w_msgs w)" "w_msgs w ! a = Some m"
    and as: "chain (w_msgs w) (rm_next m) as" "distinct as" "a \<notin> set as" by auto
  let ?w = "w\<lparr>w_msgs := (w_msgs w)[a := None]\<rparr>"
  have "chain (w_msgs ?w) (rm_next m) as"
    by (rule chain_cong [OF _ _ as(1)]) (use as(3) in \<open>auto simp: not_in_upd\<close>)
  from Cons.IH [OF this as(2)] a show ?case
    by (simp add: free_msgs.simps [of "Some a"] clear_Cons)
qed

lemma msg_chain_chain:
  "chain (w_msgs w) p xs \<Longrightarrow> length xs \<le> fuel \<Longrightarrow> msg_chain fuel p w = Inr xs"
proof (induction xs arbitrary: p fuel)
  case (Cons a as)
  then show ?case by (cases fuel) auto
qed simp

lemma distinct_bounded_length:
  "distinct xs \<Longrightarrow> (\<And>a. a \<in> set xs \<Longrightarrow> a < n) \<Longrightarrow> length xs \<le> n"
  using card_mono [of "{..<n}" "set xs"] by (auto simp: distinct_card subset_eq)

lemma msg_list_chain: "chain (w_msgs w) p xs \<Longrightarrow> distinct xs \<Longrightarrow> msg_list p w = Inr xs"
  unfolding msg_list_def by (rule msg_chain_chain) (auto intro: distinct_bounded_length dest: chain_live)

text \<open>\<open>link_to_msg_list\<close> appends.\<close>

definition linked :: "nat \<Rightarrow> nat \<Rightarrow> world \<Rightarrow> world" where
  "linked i b w =
     (let s = w_sess w ! i;
          ms = (case s_last_msg s of None \<Rightarrow> w_msgs w
                | Some l \<Rightarrow> (w_msgs w)[l := map_option (\<lambda>m. m\<lparr>rm_next := Some b\<rparr>) (w_msgs w ! l)])
      in w\<lparr>w_msgs := ms[b := map_option (\<lambda>m. m\<lparr>rm_next := None, rm_prev := s_last_msg s\<rparr>) (ms ! b)],
           w_sess := (w_sess w)[i := if s_first_msg s = None then s\<lparr>s_first_msg := Some b, s_last_msg := Some b\<rparr>
                                     else s\<lparr>s_last_msg := Some b\<rparr>]\<rparr>)"

lemma link_to_msg_list_linked:
  assumes "i < length (w_sess w)" and "msg_seq (w_msgs w) (w_sess w ! i) xs"
    and "b < length (w_msgs w)" and "w_msgs w ! b = Some m" and "b \<notin> set xs"
  shows "link_to_msg_list i (Some b) w = Inr (linked i b w)"
proof (cases "xs = []")
  case True
  with assms show ?thesis
    by (simp add: link_to_msg_list_def linked_def by_sess_def msg_seq_def upd_msg_def Let_def)
next
  case False
  with assms(2) have l: "s_last_msg (w_sess w ! i) = Some (last xs)" "s_first_msg (w_sess w ! i) = Some (hd xs)"
    and c: "chain (w_msgs w) (s_first_msg (w_sess w ! i)) xs"
    by (cases xs; auto simp: msg_seq_def)+
  from chain_live [OF c, of "last xs"] False obtain lm where
    lm: "last xs < length (w_msgs w)" "w_msgs w ! last xs = Some lm" by auto
  moreover have "rm_next lm = None" by (rule chain_last_next [OF c False lm(2)])
  moreover have "last xs \<noteq> b" using False assms(5) by auto
  ultimately show ?thesis
    using l assms(1,3,4)
    by (simp add: link_to_msg_list_def linked_def by_sess_def upd_msg_def Let_def nth_list_update)
qed

lemma linked_msg_seq:
  assumes "i < length (w_sess w)" and "msg_seq (w_msgs w) (w_sess w ! i) xs"
    and "b < length (w_msgs w)" and "w_msgs w ! b = Some m" and "b \<notin> set xs"
  shows "msg_seq (w_msgs (linked i b w)) (w_sess (linked i b w) ! i) (xs @ [b])"
proof (cases "xs = []")
  case True
  with assms show ?thesis by (simp add: linked_def msg_seq_def Let_def)
next
  case False
  with assms(2) have l: "s_last_msg (w_sess w ! i) = Some (last xs)" "s_first_msg (w_sess w ! i) = Some (hd xs)"
    and c: "chain (w_msgs w) (s_first_msg (w_sess w ! i)) xs" "distinct xs"
    by (cases xs; auto simp: msg_seq_def)+
  from chain_live [OF c(1), of "last xs"] False obtain lm where
    lm: "w_msgs w ! last xs = Some lm" by auto
  moreover have "last xs \<noteq> b" using False assms(5) by auto
  ultimately show ?thesis
    using l c assms False chain_snoc [OF c False lm assms(5,3,4)]
    by (simp add: linked_def msg_seq_def Let_def nth_list_update)
qed

lemma linked_other:
  assumes "chain (w_msgs w) p ys" and "b \<notin> set ys" and "\<forall>l. s_last_msg (w_sess w ! i) = Some l \<longrightarrow> l \<notin> set ys"
  shows "chain (w_msgs (linked i b w)) p ys"
  by (rule chain_cong [OF _ _ assms(1)])
    (use assms(2,3) in \<open>auto simp: linked_def Let_def not_in_upd split: option.splits\<close>)

section \<open>Closing and resetting a session\<close>

text \<open>The session after \<open>session_close\<close>.\<close>

definition stamped :: "world \<Rightarrow> session_info \<Rightarrow> session_info" where
  "stamped w s =
     (if w_auto_timestamp w then s\<lparr>s_timestamp := w_tod w\<rparr>
      else if nz (w_now w) then s\<lparr>s_timestamp := \<lparr>tv_sec = ucast (w_now w), tv_usec = 0\<rparr>\<rparr> else s)"

definition closed_session :: "world \<Rightarrow> session_info \<Rightarrow> session_info" where
  "closed_session w s = (session_deltas (stamped w (s\<lparr>s_processing := 0\<rparr>)))\<lparr>s_closed := 1\<rparr>"

lemma stamped_simps [simp]:
  "s_started (stamped w s) = s_started s" "s_closed (stamped w s) = s_closed s"
  "s_first_msg (stamped w s) = s_first_msg s" "s_last_msg (stamped w s) = s_last_msg s"
  "s_new_msg (stamped w s) = s_new_msg s" "s_domain (stamped w s) = s_domain s" "s_id (stamped w s) = s_id s"
  by (simp_all add: stamped_def)

lemma session_deltas_simps [simp]:
  "s_started (session_deltas s) = s_started s" "s_closed (session_deltas s) = s_closed s"
  "s_first_msg (session_deltas s) = s_first_msg s" "s_last_msg (session_deltas s) = s_last_msg s"
  "s_new_msg (session_deltas s) = s_new_msg s" "s_domain (session_deltas s) = s_domain s" "s_id (session_deltas s) = s_id s"
  by (simp_all add: session_deltas_def Let_def)

lemma closed_session_simps [simp]:
  "s_started (closed_session w s) = s_started s" "s_closed (closed_session w s) = 1"
  "s_first_msg (closed_session w s) = s_first_msg s" "s_last_msg (closed_session w s) = s_last_msg s"
  "s_new_msg (closed_session w s) = s_new_msg s" "s_domain (closed_session w s) = s_domain s" "s_id (closed_session w s) = s_id s"
  by (simp_all add: closed_session_def)

lemma rfold_emit: "rfold (\<lambda>x. emit (h x)) xs w = Inr (w\<lparr>w_out := w_out w @ map h xs\<rparr>)"
  by (induction xs arbitrary: w) (simp_all add: emit_def)

text \<open>
  What a session that is closed puts out: the console summary, then its row, its short messages and its
  application.
\<close>

definition close_events :: "world \<Rightarrow> session_info \<Rightarrow> event list" where
  "close_events w s =
     (let s = session_deltas (stamped w (s\<lparr>s_processing := 0\<rparr>))
      in (if w_output_console w then [Session_print s] else [])
         @ (if s_sql_callback s
            then Sql_session s # map (Sql_sms (s_id s)) (s_sms_list s)
                 @ (if nz (s_appid s) then [Sql_appid (s_id s) (s_appid s)] else [])
            else []))"

text \<open>The events of a session, as opposed to those of the cells and of the network.\<close>

fun session_event :: "event \<Rightarrow> bool" where
  "session_event (Sql_session s) = True"
| "session_event (Sql_sms n sm) = True"
| "session_event (Sql_appid n a) = True"
| "session_event (Session_print s) = True"
| "session_event _ = False"

lemma close_events_session: "e \<in> set (close_events w s) \<Longrightarrow> session_event e"
  by (auto simp: close_events_def Let_def split: if_splits)

text \<open>A started session that is not closed is closed without a fault; only its own record and the output change.\<close>

lemma session_close_ok:
  assumes "i < length (w_sess w)" and "s = w_sess w ! i" and "nz (s_started s)" "s_closed s = 0" and "w_auto_reset w"
  shows "session_close i w
    = Inr (w\<lparr>w_sess := (w_sess w)[i := closed_session w s], w_out := w_out w @ close_events w s\<rparr>)"
  using assms
  by (simp add: session_close_def stamped_def closed_session_def close_events_def Let_def by_sess_def on_cond_def
      session_make_sql_def rfold_emit emit_def)

text \<open>The message that a reset which is not forced gives up with the others.\<close>

definition pending :: "bool \<Rightarrow> session_info \<Rightarrow> nat list" where
  "pending forced s = (if forced then [] else case s_new_msg s of None \<Rightarrow> [] | Some b \<Rightarrow> [b])"

definition open_session :: "session_info \<Rightarrow> bool" where
  "open_session s \<longleftrightarrow> nz (s_started s) \<and> s_closed s = 0"

text \<open>The session after the first two steps of the reset: the pending message is linked, the session is closed.\<close>

definition reset_step1 :: "nat \<Rightarrow> bool \<Rightarrow> world \<Rightarrow> world" where
  "reset_step1 i forced w =
     (if forced then w
      else let w = (case s_new_msg (w_sess w ! i) of None \<Rightarrow> w | Some b \<Rightarrow> linked i b w)
           in w\<lparr>w_sess := (w_sess w)[i := (w_sess w ! i)\<lparr>s_new_msg := None\<rparr>]\<rparr>)"

lemma linked_simps [simp]:
  "length (w_sess (linked i b w)) = length (w_sess w)" "length (w_msgs (linked i b w)) = length (w_msgs w)"
  "w_auto_reset (linked i b w) = w_auto_reset w"
  by (simp_all add: linked_def Let_def split: option.splits)

lemma reset_step1_ok:
  assumes "i < length (w_sess w)" and "msg_seq (w_msgs w) (w_sess w ! i) xs"
    and "\<forall>b. s_new_msg (w_sess w ! i) = Some b \<longrightarrow> b < length (w_msgs w) \<and> w_msgs w ! b \<noteq> None \<and> b \<notin> set xs"
  shows "on_cond (\<not> forced) (by_sess i (\<lambda>s. seqs [
          on_cond (s_new_msg s \<noteq> None) (link_to_msg_list i (s_new_msg s)),
          upd i (\<lambda>s. s\<lparr>s_new_msg := None\<rparr>)])) w = Inr (reset_step1 i forced w)"
    and "msg_seq (w_msgs (reset_step1 i forced w)) (w_sess (reset_step1 i forced w) ! i) (xs @ pending forced (w_sess w ! i))"
proof -
  show "on_cond (\<not> forced) (by_sess i (\<lambda>s. seqs [
          on_cond (s_new_msg s \<noteq> None) (link_to_msg_list i (s_new_msg s)),
          upd i (\<lambda>s. s\<lparr>s_new_msg := None\<rparr>)])) w = Inr (reset_step1 i forced w)"
    using assms link_to_msg_list_linked [OF assms(1,2)]
    by (cases "s_new_msg (w_sess w ! i)") (auto simp: on_cond_def by_sess_def reset_step1_def Let_def)
  show "msg_seq (w_msgs (reset_step1 i forced w)) (w_sess (reset_step1 i forced w) ! i) (xs @ pending forced (w_sess w ! i))"
    using assms linked_msg_seq [OF assms(1,2)]
    by (cases "s_new_msg (w_sess w ! i)") (auto simp: reset_step1_def pending_def msg_seq_def Let_def)
qed

text \<open>The new session depends only on what is carried over.\<close>

lemma session_renew_cong:
  assumes "s_appid s = s_appid t" "s_name s = s_name t" "s_domain s = s_domain t" "s_timestamp s = s_timestamp t"
    "s_mcc s = s_mcc t" "s_mnc s = s_mnc t" "s_lac s = s_lac t" "s_rat s = s_rat t" "s_cid s = s_cid t"
    "s_imsi s = s_imsi t" "s_sql_callback s = s_sql_callback t" "forced \<Longrightarrow> s_new_msg s = s_new_msg t"
    "s_last_dtap_len s = s_last_dtap_len t" "s_last_dtap s = s_last_dtap t" "s_last_dtap_rat s = s_last_dtap_rat t"
    "s_chan_sdcch s = s_chan_sdcch t" "s_chan_sacch s = s_chan_sacch t" "s_chan_facch s = s_chan_facch t"
  shows "session_renew forced ts n s = session_renew forced ts n t"
  unfolding session_renew_def using assms(12)
  by (cases forced) (simp_all only: assms(1-11,13-) if_True if_False True_implies_equals)

lemma session_renew_links [simp]:
  "s_first_msg (session_renew forced ts n s) = None" "s_last_msg (session_renew forced ts n s) = None"
  "s_new_msg (session_renew forced ts n s) = (if forced then s_new_msg s else None)"
  "s_domain (session_renew forced ts n s) = s_domain s" "s_ci (session_renew forced ts n s) = None"
  by (simp_all add: session_renew_def zero_session_def Let_def)

lemma renew_closed: "session_renew forced ts n (closed_session w s) = session_renew forced ts n (stamped w s)"
  by (rule session_renew_cong) (simp_all add: closed_session_def session_deltas_def stamped_def Let_def)

text \<open>The reset as a whole.\<close>

definition reset_ident :: "world \<Rightarrow> session_info \<Rightarrow> int" where
  "reset_ident w s = (if nz (s_started s) then sint (w_s_id w + 1) else s_id s)"

definition reset_result :: "nat \<Rightarrow> bool \<Rightarrow> nat list \<Rightarrow> world \<Rightarrow> world" where
  "reset_result i forced xs w =
     (let s = w_sess w ! i
      in w\<lparr>w_msgs := clear (xs @ pending forced s) (w_msgs w),
           w_sess := (w_sess w)[i := session_renew forced (w_auto_timestamp w) (reset_ident w s)
                                       (if open_session s then stamped w s else s)],
           w_s_id := (if nz (s_started s) then w_s_id w + 1 else w_s_id w),
           w_out := w_out w @ (if open_session s
             then close_events w ((w_sess (reset_step1 i forced w) ! i)\<lparr>s_cracked := 1\<rparr>) else [])\<rparr>)"

lemma clear_linked:
  assumes "b < length (w_msgs w)" and "\<forall>l. s_last_msg (w_sess w ! i) = Some l \<longrightarrow> l \<in> set xs"
  shows "clear (xs @ [b]) (w_msgs (linked i b w)) = clear (xs @ [b]) (w_msgs w)"
  using assms by (auto intro!: nth_equalityI simp: nth_clear linked_def Let_def nth_list_update split: option.splits)
    (metis nth_list_update_neq)

lemma clear_step1:
  assumes "msg_seq (w_msgs w) (w_sess w ! i) xs"
    and "\<forall>b. s_new_msg (w_sess w ! i) = Some b \<longrightarrow> b < length (w_msgs w)"
  shows "clear (xs @ pending forced (w_sess w ! i)) (w_msgs (reset_step1 i forced w))
       = clear (xs @ pending forced (w_sess w ! i)) (w_msgs w)"
proof (cases "s_new_msg (w_sess w ! i)")
  case (Some b)
  moreover have "\<forall>l. s_last_msg (w_sess w ! i) = Some l \<longrightarrow> l \<in> set xs"
    using assms(1) by (auto simp: msg_seq_def)
  ultimately show ?thesis
    using assms(2) clear_linked [of b w i xs] by (simp add: reset_step1_def pending_def Let_def)
qed (simp add: reset_step1_def pending_def Let_def)

lemma reset_step1_shape:
  assumes "i < length (w_sess w)"
  shows "\<exists>ms f l n. reset_step1 i forced w = w\<lparr>w_msgs := ms,
      w_sess := (w_sess w)[i := (w_sess w ! i)\<lparr>s_first_msg := f, s_last_msg := l, s_new_msg := n\<rparr>]\<rparr>
    \<and> (forced \<longrightarrow> n = s_new_msg (w_sess w ! i))"
proof (cases forced)
  case True
  show ?thesis
    by (rule exI [of _ "w_msgs w"], rule exI [of _ "s_first_msg (w_sess w ! i)"],
        rule exI [of _ "s_last_msg (w_sess w ! i)"], rule exI [of _ "s_new_msg (w_sess w ! i)"])
      (use True in \<open>simp add: reset_step1_def\<close>)
next
  case False
  let ?s = "w_sess w ! i"
  define f where "f = (case s_new_msg ?s of None \<Rightarrow> s_first_msg ?s
    | Some b \<Rightarrow> if s_first_msg ?s = None then Some b else s_first_msg ?s)"
  define l where "l = (case s_new_msg ?s of None \<Rightarrow> s_last_msg ?s | Some b \<Rightarrow> Some b)"
  have "reset_step1 i forced w = w\<lparr>w_msgs := w_msgs (reset_step1 i forced w),
      w_sess := (w_sess w)[i := ?s\<lparr>s_first_msg := f, s_last_msg := l, s_new_msg := None\<rparr>]\<rparr>"
    using assms False by (cases "s_new_msg ?s") (auto simp: reset_step1_def linked_def Let_def f_def l_def)
  with False show ?thesis by (intro exI conjI) auto
qed

lemma session_reset_ok:
  assumes i: "i < length (w_sess w)" and r: "w_auto_reset w" and seq: "msg_seq (w_msgs w) (w_sess w ! i) xs"
    and new: "\<forall>b. s_new_msg (w_sess w ! i) = Some b \<longrightarrow> b < length (w_msgs w) \<and> w_msgs w ! b \<noteq> None \<and> b \<notin> set xs"
  shows "session_reset i forced w = Inr (reset_result i forced xs w)"
proof -
  let ?s = "w_sess w ! i" and ?w = "reset_step1 i forced w"
  let ?xs = "xs @ pending forced ?s"
  from reset_step1_shape [OF i, of forced] obtain ms f l n where
    w: "?w = w\<lparr>w_msgs := ms, w_sess := (w_sess w)[i := ?s\<lparr>s_first_msg := f, s_last_msg := l, s_new_msg := n\<rparr>]\<rparr>"
    and n: "forced \<longrightarrow> n = s_new_msg ?s" by blast
  let ?t = "?s\<lparr>s_first_msg := f, s_last_msg := l, s_new_msg := n\<rparr>"
  note 1 = reset_step1_ok [OF i seq new, where forced = forced]
  have t: "w_sess ?w ! i = ?t" "w_msgs ?w = ms" using w i by simp_all
  have c: "chain ms f ?xs" "distinct ?xs" using 1(2) t by (simp_all add: msg_seq_def)
  have cl: "clear ?xs ms = clear ?xs (w_msgs w)"
    using clear_step1 [OF seq, of forced] new t by simp
  have ass: "forced \<longrightarrow> (\<forall>a \<in> set ?xs. n \<noteq> Some a)" using n new by (auto simp: pending_def)
  have free: "free_msgs f w' = Inr (w'\<lparr>w_msgs := clear ?xs (w_msgs w)\<rparr>)" "msg_list f w' = Inr ?xs" if "w_msgs w' = ms" for w'
    using free_msgs_chain [of w' f ?xs] msg_list_chain [of w' f ?xs] c cl that by simp_all
  show ?thesis
  proof (cases "open_session ?s")
    case True
    let ?t1 = "?t\<lparr>s_cracked := 1\<rparr>"
    let ?w1 = "w\<lparr>w_msgs := ms, w_sess := (w_sess w)[i := ?t1]\<rparr>"
    have close: "session_close i ?w1 = Inr (?w1\<lparr>w_sess := (w_sess w)[i := closed_session w ?t1], w_out := w_out w @ close_events w ?t1\<rparr>)"
      using session_close_ok [of i ?w1 ?t1] True i r
      by (simp add: open_session_def closed_session_def close_events_def stamped_def)
    have "session_renew forced ts k (stamped w ?t1) = session_renew forced ts k (stamped w ?s)" for ts k
      by (rule session_renew_cong) (use n in \<open>auto simp: stamped_def\<close>)
    then have ren: "session_renew forced ts k (closed_session w ?t1) = session_renew forced ts k (stamped w ?s)" for ts k
      by (simp add: renew_closed)
    show ?thesis
      using True 1(1) t i r ass close
      by (simp add: session_reset_def w by_sess_def reset_result_def open_session_def free reset_ident_def ren Let_def)
  next
    case False
    have "session_renew forced ts k ?t = session_renew forced ts k ?s" for ts k
      by (rule session_renew_cong) (use n in auto)
    then show ?thesis
      using False 1(1) t i r ass
      by (cases "s_started ?s = 0") (simp_all add: session_reset_def w by_sess_def reset_result_def open_session_def free reset_ident_def Let_def)
  qed
qed

end
