(* ===== verification/Contract.thy ===== *)
theory Contract
  imports Faults Lapdm Msg_Store
begin

text \<open>
  The contract between the message handlers and the life of a message.  While a message is handled,
  the handlers rely on an invariant \<open>P\<close> of the world: every session points to the message, which is
  alive, and has buffers of the declared sizes; the cells that are referred to are alive.  They keep
  \<open>P\<close>, or, when the message releases the connection, establish the weaker \<open>R\<close>.  The locale
  \<open>handler_contract\<close> has what the handlers need to know of \<open>P\<close> and \<open>R\<close>; inside it, every handler of
  \<open>l3_handler.c\<close>, \<open>sms.c\<close>, \<open>cell_info.c\<close>, \<open>umts_rrc.c\<close> and \<open>lte_eps.c\<close> is shown to respect the contract and
  to run into none of the faults null dereference, use after free, failed assertion and abort.
\<close>

section \<open>Well-formed sessions\<close>

definition lapdm_bufs_ok :: "lapdm_buf list \<Rightarrow> bool" where
  "lapdm_bufs_ok bs \<longleftrightarrow> length bs = 4 \<and> (\<forall>b \<in> set bs. length (lb_data b) = 640)"

definition rands :: "session_info \<Rightarrow> rand_state list" where
  "rands s = [s_null s, s_si5 s, s_si5bis s, s_si5ter s, s_si6 s, s_other_sdcch s, s_other_sacch s]"

text \<open>
  Every buffer has its declared size, and no padding state remembers a ciphered message of a session
  that is not ciphered.
\<close>

definition session_ok :: "session_info \<Rightarrow> bool" where
  "session_ok s \<longleftrightarrow>
     length (s_name s) = 1024 \<and> length (s_key s) = 8 \<and> length (s_old_tmsi s) = 4 \<and> length (s_new_tmsi s) = 4
     \<and> length (s_imsi s) = 32 \<and> length (s_imei s) = 32 \<and> length (s_msisdn s) = 32
     \<and> length (ga_ma (s_ga s)) = 64 \<and> length (s_last_dtap s) = 256 \<and> length (s_cell_arfcns s) = 1024
     \<and> lapdm_bufs_ok (s_chan_sdcch s) \<and> lapdm_bufs_ok (s_chan_sacch s) \<and> lapdm_bufs_ok (s_chan_facch s)
     \<and> (\<forall>r \<in> set (rands s). rand_ok r \<and> (rs_ciphered r = 0 \<or> nz (s_cipher s)))"

definition links :: "session_info \<Rightarrow> nat option \<times> nat option \<times> nat option \<times> u8 \<times> nat option" where
  "links s = (s_first_msg s, s_last_msg s, s_new_msg s, s_domain s, s_ci s)"

definition fits :: "session_info \<Rightarrow> session_info \<Rightarrow> bool" where
  "fits s s' \<longleftrightarrow> links s' = links s \<and> session_ok s'"

lemma session_ok_zero [simp]: "session_ok zero_session"
  by (simp add: session_ok_def zero_session_def zero_assignment_def lapdm_bufs_ok_def zero_lapdm_buf_def rands_def
      zero_rand_state_def rand_ok_def)

text \<open>Most updates of a session touch neither its links nor a buffer.\<close>

lemma session_ok_plain [simp]:
  "session_ok (s\<lparr>s_mcc := x1\<rparr>) = session_ok s" "session_ok (s\<lparr>s_mnc := x1\<rparr>) = session_ok s"
  "session_ok (s\<lparr>s_lac := x1\<rparr>) = session_ok s" "session_ok (s\<lparr>s_cid := x2\<rparr>) = session_ok s"
  "session_ok (s\<lparr>s_rat := x3\<rparr>) = session_ok s" "session_ok (s\<lparr>s_started := x3\<rparr>) = session_ok s"
  "session_ok (s\<lparr>s_closed := x3\<rparr>) = session_ok s" "session_ok (s\<lparr>s_decoded := x3\<rparr>) = session_ok s"
  "session_ok (s\<lparr>s_initial_seq := x3\<rparr>) = session_ok s" "session_ok (s\<lparr>s_cipher_missing := x3\<rparr>) = session_ok s"
  "session_ok (s\<lparr>s_cm_cmd_fn := x2\<rparr>) = session_ok s" "session_ok (s\<lparr>s_cm_comp_first_fn := x2\<rparr>) = session_ok s"
  "session_ok (s\<lparr>s_cm_comp_last_fn := x2\<rparr>) = session_ok s" "session_ok (s\<lparr>s_cm_comp_count := x1\<rparr>) = session_ok s"
  "session_ok (s\<lparr>s_integrity := x3\<rparr>) = session_ok s" "session_ok (s\<lparr>s_first_fn := x2\<rparr>) = session_ok s"
  "session_ok (s\<lparr>s_last_fn := x2\<rparr>) = session_ok s" "session_ok (s\<lparr>s_auth_req_fn := x2\<rparr>) = session_ok s"
  "session_ok (s\<lparr>s_auth_resp_fn := x2\<rparr>) = session_ok s" "session_ok (s\<lparr>s_uplink := x3\<rparr>) = session_ok s"
  "session_ok (s\<lparr>s_mo := x3\<rparr>) = session_ok s" "session_ok (s\<lparr>s_mt := x3\<rparr>) = session_ok s"
  "session_ok (s\<lparr>s_unknown := x3\<rparr>) = session_ok s" "session_ok (s\<lparr>s_detach := x3\<rparr>) = session_ok s"
  "session_ok (s\<lparr>s_locupd := x3\<rparr>) = session_ok s" "session_ok (s\<lparr>s_lu_type := x3\<rparr>) = session_ok s"
  "session_ok (s\<lparr>s_lu_acc := x3\<rparr>) = session_ok s" "session_ok (s\<lparr>s_lu_reject := x3\<rparr>) = session_ok s"
  "session_ok (s\<lparr>s_lu_rej_cause := x3\<rparr>) = session_ok s" "session_ok (s\<lparr>s_lu_mcc := x1\<rparr>) = session_ok s"
  "session_ok (s\<lparr>s_lu_mnc := x1\<rparr>) = session_ok s" "session_ok (s\<lparr>s_lu_lac := x1\<rparr>) = session_ok s"
  "session_ok (s\<lparr>s_pag_mi := x3\<rparr>) = session_ok s" "session_ok (s\<lparr>s_serv_req := x3\<rparr>) = session_ok s"
  "session_ok (s\<lparr>s_call := x3\<rparr>) = session_ok s" "session_ok (s\<lparr>s_sms := x3\<rparr>) = session_ok s"
  "session_ok (s\<lparr>s_ssa := x3\<rparr>) = session_ok s" "session_ok (s\<lparr>s_abort := x3\<rparr>) = session_ok s"
  "session_ok (s\<lparr>s_raupd := x3\<rparr>) = session_ok s" "session_ok (s\<lparr>s_attach := x3\<rparr>) = session_ok s"
  "session_ok (s\<lparr>s_att_acc := x3\<rparr>) = session_ok s" "session_ok (s\<lparr>s_pdp_activate := x3\<rparr>) = session_ok s"
  "session_ok (s\<lparr>s_tmsi_realloc := x3\<rparr>) = session_ok s" "session_ok (s\<lparr>s_release := x3\<rparr>) = session_ok s"
  "session_ok (s\<lparr>s_rr_cause := x3\<rparr>) = session_ok s" "session_ok (s\<lparr>s_have_gprs := x3\<rparr>) = session_ok s"
  "session_ok (s\<lparr>s_auth := x3\<rparr>) = session_ok s" "session_ok (s\<lparr>s_iden_imsi_bc := x3\<rparr>) = session_ok s"
  "session_ok (s\<lparr>s_iden_imei_bc := x3\<rparr>) = session_ok s" "session_ok (s\<lparr>s_iden_imsi_ac := x3\<rparr>) = session_ok s"
  "session_ok (s\<lparr>s_iden_imei_ac := x3\<rparr>) = session_ok s" "session_ok (s\<lparr>s_cmc_imeisv := x3\<rparr>) = session_ok s"
  "session_ok (s\<lparr>s_ms_cipher_mask := x3\<rparr>) = session_ok s" "session_ok (s\<lparr>s_assignment := x3\<rparr>) = session_ok s"
  "session_ok (s\<lparr>s_assign_complete := x3\<rparr>) = session_ok s" "session_ok (s\<lparr>s_handover := x3\<rparr>) = session_ok s"
  "session_ok (s\<lparr>s_forced_ho := x3\<rparr>) = session_ok s" "session_ok (s\<lparr>s_use_tmsi := x3\<rparr>) = session_ok s"
  "session_ok (s\<lparr>s_use_imsi := x3\<rparr>) = session_ok s" "session_ok (s\<lparr>s_use_jump := x3\<rparr>) = session_ok s"
  "session_ok (s\<lparr>s_sms_presence := x3\<rparr>) = session_ok s" "session_ok (s\<lparr>s_call_presence := x3\<rparr>) = session_ok s"
  "session_ok (s\<lparr>s_fc := x4\<rparr>) = session_ok s" "session_ok (s\<lparr>s_last_dtap_len := x3\<rparr>) = session_ok s"
  "session_ok (s\<lparr>s_last_dtap_rat := x3\<rparr>) = session_ok s" "session_ok (s\<lparr>s_sms_list := x5\<rparr>) = session_ok s"
  by (simp_all add: session_ok_def rands_def)

lemma session_ok_buffer [simp]:
  "length t = length (s_old_tmsi s) \<Longrightarrow> session_ok (s\<lparr>s_old_tmsi := t\<rparr>) = session_ok s"
  "length t = length (s_new_tmsi s) \<Longrightarrow> session_ok (s\<lparr>s_new_tmsi := t\<rparr>) = session_ok s"
  "length t = length (s_imsi s) \<Longrightarrow> session_ok (s\<lparr>s_imsi := t\<rparr>) = session_ok s"
  "length t = length (s_imei s) \<Longrightarrow> session_ok (s\<lparr>s_imei := t\<rparr>) = session_ok s"
  "length t = length (s_msisdn s) \<Longrightarrow> session_ok (s\<lparr>s_msisdn := t\<rparr>) = session_ok s"
  "length t = length (s_last_dtap s) \<Longrightarrow> session_ok (s\<lparr>s_last_dtap := t\<rparr>) = session_ok s"
  "length t = length (s_cell_arfcns s) \<Longrightarrow> session_ok (s\<lparr>s_cell_arfcns := t\<rparr>) = session_ok s"
  "length (ga_ma g) = length (ga_ma (s_ga s)) \<Longrightarrow> session_ok (s\<lparr>s_ga := g\<rparr>) = session_ok s"
  "lapdm_bufs_ok bs = lapdm_bufs_ok (s_chan_sdcch s) \<Longrightarrow> session_ok (s\<lparr>s_chan_sdcch := bs\<rparr>) = session_ok s"
  "lapdm_bufs_ok bs = lapdm_bufs_ok (s_chan_sacch s) \<Longrightarrow> session_ok (s\<lparr>s_chan_sacch := bs\<rparr>) = session_ok s"
  "lapdm_bufs_ok bs = lapdm_bufs_ok (s_chan_facch s) \<Longrightarrow> session_ok (s\<lparr>s_chan_facch := bs\<rparr>) = session_ok s"
  by (simp_all add: session_ok_def rands_def)

lemma links_plain [simp]:
  "links (s\<lparr>s_mcc := x1\<rparr>) = links s" "links (s\<lparr>s_mnc := x1\<rparr>) = links s"
  "links (s\<lparr>s_lac := x1\<rparr>) = links s" "links (s\<lparr>s_cid := x2\<rparr>) = links s"
  "links (s\<lparr>s_rat := x3\<rparr>) = links s" "links (s\<lparr>s_started := x3\<rparr>) = links s"
  "links (s\<lparr>s_closed := x3\<rparr>) = links s" "links (s\<lparr>s_decoded := x3\<rparr>) = links s"
  "links (s\<lparr>s_initial_seq := x3\<rparr>) = links s" "links (s\<lparr>s_cipher_missing := x3\<rparr>) = links s"
  "links (s\<lparr>s_cm_cmd_fn := x2\<rparr>) = links s" "links (s\<lparr>s_cm_comp_first_fn := x2\<rparr>) = links s"
  "links (s\<lparr>s_cm_comp_last_fn := x2\<rparr>) = links s" "links (s\<lparr>s_cm_comp_count := x1\<rparr>) = links s"
  "links (s\<lparr>s_integrity := x3\<rparr>) = links s" "links (s\<lparr>s_first_fn := x2\<rparr>) = links s"
  "links (s\<lparr>s_last_fn := x2\<rparr>) = links s" "links (s\<lparr>s_auth_req_fn := x2\<rparr>) = links s"
  "links (s\<lparr>s_auth_resp_fn := x2\<rparr>) = links s" "links (s\<lparr>s_uplink := x3\<rparr>) = links s"
  "links (s\<lparr>s_mo := x3\<rparr>) = links s" "links (s\<lparr>s_mt := x3\<rparr>) = links s"
  "links (s\<lparr>s_unknown := x3\<rparr>) = links s" "links (s\<lparr>s_detach := x3\<rparr>) = links s"
  "links (s\<lparr>s_locupd := x3\<rparr>) = links s" "links (s\<lparr>s_lu_type := x3\<rparr>) = links s"
  "links (s\<lparr>s_lu_acc := x3\<rparr>) = links s" "links (s\<lparr>s_lu_reject := x3\<rparr>) = links s"
  "links (s\<lparr>s_lu_rej_cause := x3\<rparr>) = links s" "links (s\<lparr>s_lu_mcc := x1\<rparr>) = links s"
  "links (s\<lparr>s_lu_mnc := x1\<rparr>) = links s" "links (s\<lparr>s_lu_lac := x1\<rparr>) = links s"
  "links (s\<lparr>s_pag_mi := x3\<rparr>) = links s" "links (s\<lparr>s_serv_req := x3\<rparr>) = links s"
  "links (s\<lparr>s_call := x3\<rparr>) = links s" "links (s\<lparr>s_sms := x3\<rparr>) = links s"
  "links (s\<lparr>s_ssa := x3\<rparr>) = links s" "links (s\<lparr>s_abort := x3\<rparr>) = links s"
  "links (s\<lparr>s_raupd := x3\<rparr>) = links s" "links (s\<lparr>s_attach := x3\<rparr>) = links s"
  "links (s\<lparr>s_att_acc := x3\<rparr>) = links s" "links (s\<lparr>s_pdp_activate := x3\<rparr>) = links s"
  "links (s\<lparr>s_tmsi_realloc := x3\<rparr>) = links s" "links (s\<lparr>s_release := x3\<rparr>) = links s"
  "links (s\<lparr>s_rr_cause := x3\<rparr>) = links s" "links (s\<lparr>s_have_gprs := x3\<rparr>) = links s"
  "links (s\<lparr>s_auth := x3\<rparr>) = links s" "links (s\<lparr>s_iden_imsi_bc := x3\<rparr>) = links s"
  "links (s\<lparr>s_iden_imei_bc := x3\<rparr>) = links s" "links (s\<lparr>s_iden_imsi_ac := x3\<rparr>) = links s"
  "links (s\<lparr>s_iden_imei_ac := x3\<rparr>) = links s" "links (s\<lparr>s_cmc_imeisv := x3\<rparr>) = links s"
  "links (s\<lparr>s_ms_cipher_mask := x3\<rparr>) = links s" "links (s\<lparr>s_assignment := x3\<rparr>) = links s"
  "links (s\<lparr>s_assign_complete := x3\<rparr>) = links s" "links (s\<lparr>s_handover := x3\<rparr>) = links s"
  "links (s\<lparr>s_forced_ho := x3\<rparr>) = links s" "links (s\<lparr>s_use_tmsi := x3\<rparr>) = links s"
  "links (s\<lparr>s_use_imsi := x3\<rparr>) = links s" "links (s\<lparr>s_use_jump := x3\<rparr>) = links s"
  "links (s\<lparr>s_sms_presence := x3\<rparr>) = links s" "links (s\<lparr>s_call_presence := x3\<rparr>) = links s"
  "links (s\<lparr>s_fc := x4\<rparr>) = links s" "links (s\<lparr>s_last_dtap_len := x3\<rparr>) = links s"
  "links (s\<lparr>s_last_dtap_rat := x3\<rparr>) = links s" "links (s\<lparr>s_sms_list := x5\<rparr>) = links s"
  "links (s\<lparr>s_old_tmsi := x6\<rparr>) = links s" "links (s\<lparr>s_new_tmsi := x6\<rparr>) = links s"
  "links (s\<lparr>s_imsi := x6\<rparr>) = links s" "links (s\<lparr>s_imei := x6\<rparr>) = links s"
  "links (s\<lparr>s_msisdn := x6\<rparr>) = links s" "links (s\<lparr>s_last_dtap := x6\<rparr>) = links s"
  "links (s\<lparr>s_cell_arfcns := x6\<rparr>) = links s" "links (s\<lparr>s_ga := x7\<rparr>) = links s"
  "links (s\<lparr>s_cipher := x3\<rparr>) = links s" "links (s\<lparr>s_null := x8\<rparr>) = links s"
  "links (s\<lparr>s_si5 := x8\<rparr>) = links s" "links (s\<lparr>s_si5bis := x8\<rparr>) = links s"
  "links (s\<lparr>s_si5ter := x8\<rparr>) = links s" "links (s\<lparr>s_si6 := x8\<rparr>) = links s"
  "links (s\<lparr>s_other_sdcch := x8\<rparr>) = links s" "links (s\<lparr>s_other_sacch := x8\<rparr>) = links s"
  "links (s\<lparr>s_chan_sdcch := x9\<rparr>) = links s" "links (s\<lparr>s_chan_sacch := x9\<rparr>) = links s"
  "links (s\<lparr>s_chan_facch := x9\<rparr>) = links s"
  by (simp_all add: links_def)

lemma session_ok_dtap: "session_ok s \<Longrightarrow> length (s_last_dtap s) = 256"
  by (simp add: session_ok_def)

lemma session_ok_rand:
  assumes "session_ok s" and "rand_ok r" and "rs_ciphered r = 0 \<or> nz (s_cipher s)"
  shows "session_ok (s\<lparr>s_null := r\<rparr>)" "session_ok (s\<lparr>s_si5 := r\<rparr>)" "session_ok (s\<lparr>s_si5bis := r\<rparr>)"
    "session_ok (s\<lparr>s_si5ter := r\<rparr>)" "session_ok (s\<lparr>s_si6 := r\<rparr>)" "session_ok (s\<lparr>s_other_sdcch := r\<rparr>)"
    "session_ok (s\<lparr>s_other_sacch := r\<rparr>)"
  using assms by (simp_all add: session_ok_def rands_def)

lemma session_ok_cipher: "session_ok s \<Longrightarrow> nz c \<Longrightarrow> session_ok (s\<lparr>s_cipher := c\<rparr>)"
  by (simp add: session_ok_def rands_def)

lemma session_ok_states:
  assumes "session_ok s" and "r \<in> set (rands s)"
  shows "rand_ok r" "rs_ciphered r = 0 \<or> nz (s_cipher s)"
  using assms by (auto simp: session_ok_def)

lemma rands_in [simp]:
  "s_null s \<in> set (rands s)" "s_si5 s \<in> set (rands s)" "s_si5bis s \<in> set (rands s)" "s_si5ter s \<in> set (rands s)"
  "s_si6 s \<in> set (rands s)" "s_other_sdcch s \<in> set (rands s)" "s_other_sacch s \<in> set (rands s)"
  by (simp_all add: rands_def)

text \<open>Checking a padding with one of the states of a session.\<close>

lemma session_rand_check:
  assumes "session_ok s" and "get s \<in> set (rands s)"
    and "\<And>b r. rand_ok r \<Longrightarrow> rs_ciphered r = 0 \<or> nz (s_cipher s) \<Longrightarrow> Q (b, r)"
  shows "res_ok Q (rand_check d n (get s) (s_cipher s))"
  by (rule rand_check_safe) (use assms session_ok_states [OF assms(1,2)] in auto)

lemma session_ok_derived [simp]:
  "session_ok (start_session s) = session_ok s" "links (start_session s) = links s"
  "session_ok (predict_inc s) = session_ok s" "links (predict_inc s) = links s"
  "session_ok (iden_imsi s) = session_ok s" "links (iden_imsi s) = links s"
  "session_ok (iden_imei s) = session_ok s" "links (iden_imei s) = links s"
  "session_ok (sms_link sm s) = session_ok s" "links (sms_link sm s) = links s"
  "session_ok (infer_times b1 b2 sapi n d0 fn s) = session_ok s" "links (infer_times b1 b2 sapi n d0 fn s) = links s"
  by (simp_all add: start_session_def predict_inc_def iden_imsi_def iden_imei_def sms_link_def infer_times_def Let_def)

text \<open>The cells that are referred to are alive, none is twice in the list, and the arrays of every cell have their sizes.\<close>

definition cell_live :: "world \<Rightarrow> nat \<Rightarrow> bool" where
  "cell_live w c \<longleftrightarrow> c < length (w_cells w) \<and> w_cells w ! c \<noteq> None"

definition cells_ok :: "world \<Rightarrow> bool" where
  "cells_ok w \<longleftrightarrow> distinct (w_cell_list w) \<and> (\<forall>c \<in> set (w_cell_list w). cell_live w c)
     \<and> (\<forall>s \<in> set (w_sess w). \<forall>c. s_ci s = Some c \<longrightarrow> cell_live w c)
     \<and> (\<forall>c. Some c \<in> set (w_cells w) \<longrightarrow> cell_ok c)"

text \<open>
  What the code relies on of the ASN.1 library: a message whose type is one of the direct transfers
  decodes to a direct transfer (and likewise downlink), and a domain is one of the two numbers of the enumeration.
\<close>

definition rrc_lib_ok :: "rrc_lib \<Rightarrow> bool" where
  "rrc_lib_ok lib \<longleftrightarrow>
     (\<forall>msg len t d. dcch_type msg len = Inr (Some t) \<and> t \<in> {pr_ul_initial_transfer lib - 1, pr_ul_uplink_transfer lib - 1}
        \<and> ul_dcch_decode lib msg len = Some d \<longrightarrow>
        (\<exists>cn nas. cn \<in> {0, 1} \<and> (d = UL_initial_transfer cn nas \<or> d = UL_uplink_transfer cn nas)))
     \<and> (\<forall>msg len t d. dcch_type msg len = Inr (Some t) \<and> t \<in> {pr_dl_security_command lib - 1, pr_dl_direct_transfer lib - 1}
        \<and> dl_dcch_decode lib msg len = Some d \<longrightarrow> d \<noteq> DL_other)"

section \<open>The contract\<close>

locale handler_contract =
  fixes P R :: "world \<Rightarrow> bool"
  assumes session: "P w \<Longrightarrow> s \<in> set (w_sess w) \<Longrightarrow> session_ok s"
    and message: "P w \<Longrightarrow> s \<in> set (w_sess w) \<Longrightarrow>
      \<exists>a m. s_new_msg s = Some a \<and> a < length (w_msgs w) \<and> w_msgs w ! a = Some m \<and> rm_domain m < 2"
    and set_message: "P w \<Longrightarrow> s \<in> set (w_sess w) \<Longrightarrow> s_new_msg s = Some a \<Longrightarrow> w_msgs w ! a = Some m \<Longrightarrow>
      rm_domain m' < 2 \<Longrightarrow> P (w\<lparr>w_msgs := (w_msgs w)[a := Some m']\<rparr>)"
    and set_session: "P w \<Longrightarrow> i < length (w_sess w) \<Longrightarrow> fits (w_sess w ! i) s \<Longrightarrow> P (w\<lparr>w_sess := (w_sess w)[i := s]\<rparr>)"
    and set_cell: "P w \<Longrightarrow> i < length (w_sess w) \<Longrightarrow> cell_live w c \<Longrightarrow>
      P (w\<lparr>w_sess := (w_sess w)[i := (w_sess w ! i)\<lparr>s_ci := Some c\<rparr>]\<rparr>)"
    and cells: "P w \<Longrightarrow> cells_ok w"
    and set_cells: "P w \<Longrightarrow> cells_ok (w\<lparr>w_cells := cs, w_cell_list := l\<rparr>) \<Longrightarrow>
      P (w\<lparr>w_cells := cs, w_cell_list := l, w_cell_info_id := n\<rparr>)"
    and set_paging: "P w \<Longrightarrow> P (w\<lparr>w_paging_count := pc, w_paging_null := pn, w_paging_imsi := pi, w_paging_tmsi := pt\<rparr>)"
    and reset: "P w \<Longrightarrow> res_ok P (session_reset i True w)"
    and release: "P w \<Longrightarrow> res_ok R (seqs [session_reset i False,
      (\<lambda>w. on_cond (w_auto_reset w) (upd (i + 1) (\<lambda>s. s\<lparr>s_new_msg := None\<rparr>)) w)] w)"
    and rrc_start: "P w \<Longrightarrow> res_ok R (rrc_setup i w)"
    and rrc_rel: "P w \<Longrightarrow> res_ok R (rrc_release i w)"
    and weaken: "P w \<Longrightarrow> R w"
    and set_session_R: "R w \<Longrightarrow> i < length (w_sess w) \<Longrightarrow> fits (w_sess w ! i) s \<Longrightarrow> R (w\<lparr>w_sess := (w_sess w)[i := s]\<rparr>)"
    and session_R: "R w \<Longrightarrow> s \<in> set (w_sess w) \<Longrightarrow> session_ok s"
begin

lemma sess_safe:
  "P w \<Longrightarrow> (\<And>s. i < length (w_sess w) \<Longrightarrow> s \<in> set (w_sess w) \<Longrightarrow> s = w_sess w ! i \<Longrightarrow> session_ok s \<Longrightarrow> Q s)
   \<Longrightarrow> res_ok Q (sess i w)"
  by (auto simp: sess_def session)

lemma by_sess_safe:
  "P w \<Longrightarrow> (\<And>s. s \<in> set (w_sess w) \<Longrightarrow> session_ok s \<Longrightarrow> res_ok Q (f s w)) \<Longrightarrow> res_ok Q (by_sess i f w)"
  unfolding by_sess_def by (simp, rule sess_safe) auto

lemma upd_safe:
  assumes "P w" and "\<And>s. session_ok s \<Longrightarrow> fits s (f s)" and "\<And>w'. P w' \<Longrightarrow> Q w'"
  shows "res_ok Q (upd i f w)"
  unfolding upd_def by (simp, rule sess_safe [OF assms(1)]) (use assms set_session in auto)

lemma updr_safe:
  assumes "P w" and "\<And>s. session_ok s \<Longrightarrow> res_ok (fits s) (f s)" and "\<And>w'. P w' \<Longrightarrow> Q w'"
  shows "res_ok Q (updr i f w)"
  unfolding updr_def
  by (simp, rule sess_safe [OF assms(1)], simp, rule res_ok_mono [OF assms(2)]) (use assms set_session in auto)

lemma deref_safe:
  assumes "P w" and "s \<in> set (w_sess w)" and "\<And>a m. s_new_msg s = Some a \<Longrightarrow> w_msgs w ! a = Some m \<Longrightarrow> rm_domain m < 2 \<Longrightarrow> Q m"
  shows "res_ok Q (deref (s_new_msg s) w)"
  using message [OF assms(1,2)] assms(3) by (auto simp: deref_def)

lemma upd_msg_safe:
  assumes "P w" and "s \<in> set (w_sess w)" and "\<And>m. rm_domain m < 2 \<Longrightarrow> rm_domain (g m) < 2" and "\<And>w'. P w' \<Longrightarrow> Q w'"
  shows "res_ok Q (upd_msg (s_new_msg s) g w)"
  unfolding upd_msg_def using message [OF assms(1,2)] assms(3)
  by (auto simp: deref_def intro!: assms(4) set_message [OF assms(1,2)])

lemma new_msg_Some: "P w \<Longrightarrow> s \<in> set (w_sess w) \<Longrightarrow> \<exists>a. s_new_msg s = Some a"
  using message by blast

lemma set_info_safe: "P w \<Longrightarrow> (\<And>w'. P w' \<Longrightarrow> Q w') \<Longrightarrow> res_ok Q (set_info i t w)"
  unfolding set_info_def
  by (rule by_sess_safe, assumption) (auto intro!: upd_msg_safe new_msg_Some)

lemma append_info_safe: "P w \<Longrightarrow> (\<And>w'. P w' \<Longrightarrow> Q w') \<Longrightarrow> res_ok Q (append_info i t w)"
  unfolding append_info_def by (rule by_sess_safe, assumption) (auto intro!: upd_msg_safe)

lemma reset_safe: "P w \<Longrightarrow> (\<And>w'. P w' \<Longrightarrow> Q w') \<Longrightarrow> res_ok Q (session_reset i True w)"
  by (rule res_ok_mono [OF reset])


lemma on_cond_safe:
  "P w \<Longrightarrow> (b \<Longrightarrow> res_ok Q (f w)) \<Longrightarrow> (\<And>w'. P w' \<Longrightarrow> Q w') \<Longrightarrow> res_ok Q (on_cond b f w)"
  by (simp add: on_cond_def)

lemma assert_msg_safe: "P w \<Longrightarrow> (\<And>w'. P w' \<Longrightarrow> Q w') \<Longrightarrow> res_ok Q (assert_msg i w)"
  unfolding assert_msg_def by (rule by_sess_safe, assumption) (auto intro!: new_msg_Some)

lemmas step_safe = assert_msg_safe by_sess_safe upd_safe updr_safe set_info_safe append_info_safe reset_safe

subsection \<open>Identities\<close>

lemma handle_classmark_safe: "P w \<Longrightarrow> (\<And>w'. P w' \<Longrightarrow> Q w') \<Longrightarrow> res_ok Q (handle_classmark i d t w)"
  unfolding handle_classmark_def by (rule updr_safe) (auto simp: Let_def fits_def)


lemma handle_lai_safe: "P w \<Longrightarrow> (\<And>w'. P w' \<Longrightarrow> Q w') \<Longrightarrow> res_ok Q (handle_lai i d c w)"
  unfolding handle_lai_def by (rule updr_safe) (auto simp: Let_def fits_def intro!: octet_safe)

lemma store_tmsi_safe: "session_ok s \<Longrightarrow> res_ok (fits s) (store_tmsi d n s)"
  unfolding store_tmsi_def by (auto intro!: not_zero_safe simp: fits_def)

lemma handle_mi_safe: "P w \<Longrightarrow> (\<And>w'. P w' \<Longrightarrow> Q w') \<Longrightarrow> res_ok Q (handle_mi i d n t w)"
  unfolding handle_mi_def Let_def
  by (auto intro!: step_safe bcd2str_safe hex_bin2str_safe store_tmsi_safe simp: fits_def)

lemma mi_at_safe: "P w \<Longrightarrow> (\<And>w'. P w' \<Longrightarrow> Q w') \<Longrightarrow> res_ok Q (mi_at i d k t w)"
  unfolding mi_at_def by (auto intro!: handle_mi_safe)

lemma cm_service_safe: "session_ok s \<Longrightarrow> res_ok (fits s) (cm_service t s)"
  unfolding cm_service_def by (auto simp: fits_def intro!: strncpy_lit_safe)

lemmas identity_safe = step_safe handle_classmark_safe handle_lai_safe mi_at_safe cm_service_safe on_cond_safe

lemma handle_cmreq_safe: "P w \<Longrightarrow> (\<And>w'. P w' \<Longrightarrow> Q w') \<Longrightarrow> res_ok Q (handle_cmreq i d w)"
  unfolding handle_cmreq_def by (auto intro!: identity_safe simp: fits_def)

lemma handle_serv_req_safe: "P w \<Longrightarrow> (\<And>w'. P w' \<Longrightarrow> Q w') \<Longrightarrow> res_ok Q (handle_serv_req i d w)"
  unfolding handle_serv_req_def by (auto intro!: identity_safe simp: fits_def)

lemma handle_pag_resp_safe: "P w \<Longrightarrow> (\<And>w'. P w' \<Longrightarrow> Q w') \<Longrightarrow> res_ok Q (handle_pag_resp i d w)"
  unfolding handle_pag_resp_def by (auto intro!: identity_safe simp: fits_def)

lemma handle_loc_upd_acc_safe: "P w \<Longrightarrow> (\<And>w'. P w' \<Longrightarrow> Q w') \<Longrightarrow> res_ok Q (handle_loc_upd_acc i d n w)"
  unfolding handle_loc_upd_acc_def by (auto intro!: identity_safe simp: fits_def)

lemma handle_loc_upd_req_safe: "P w \<Longrightarrow> (\<And>w'. P w' \<Longrightarrow> Q w') \<Longrightarrow> res_ok Q (handle_loc_upd_req i d w)"
  unfolding handle_loc_upd_req_def by (auto intro!: identity_safe octet_safe simp: fits_def)

lemma handle_detach_safe: "P w \<Longrightarrow> (\<And>w'. P w' \<Longrightarrow> Q w') \<Longrightarrow> res_ok Q (handle_detach i d w)"
  unfolding handle_detach_def by (auto intro!: identity_safe simp: fits_def)

lemma handle_attach_acc_safe: "P w \<Longrightarrow> (\<And>w'. P w' \<Longrightarrow> Q w') \<Longrightarrow> res_ok Q (handle_attach_acc i d w)"
  unfolding handle_attach_acc_def by (auto intro!: identity_safe simp: fits_def)

lemma handle_ra_upd_acc_safe: "P w \<Longrightarrow> (\<And>w'. P w' \<Longrightarrow> Q w') \<Longrightarrow> res_ok Q (handle_ra_upd_acc i d w)"
  unfolding handle_ra_upd_acc_def by (auto intro!: identity_safe simp: fits_def)


subsection \<open>Short messages\<close>

lemma handle_tpdu_safe: "P w \<Longrightarrow> (\<And>w'. P w' \<Longrightarrow> Q w') \<Longrightarrow> res_ok Q (handle_tpdu i msg n net smsc w)"
  unfolding handle_tpdu_def Let_def
  by (auto split: option.splits intro!: step_safe handle_address_safe tpdu_fields_safe simp: fits_def)

lemma rpdata_type_safe: "P w \<Longrightarrow> (\<And>w'. P w' \<Longrightarrow> Q w') \<Longrightarrow> res_ok Q (rpdata_type i d off fl net smsc w)"
  unfolding rpdata_type_def Let_def by (auto intro!: step_safe handle_tpdu_safe)

lemma handle_rpdata_safe: "P w \<Longrightarrow> (\<And>w'. P w' \<Longrightarrow> Q w') \<Longrightarrow> res_ok Q (handle_rpdata i d n net w)"
  unfolding handle_rpdata_def Let_def
  by (auto split: option.splits prod.splits intro!: step_safe rpdata_address_safe rpdata_type_safe)

lemma handle_cpdata_safe: "P w \<Longrightarrow> (\<And>w'. P w' \<Longrightarrow> Q w') \<Longrightarrow> res_ok Q (handle_cpdata i d n w)"
  unfolding handle_cpdata_def Let_def by (auto intro!: step_safe handle_rpdata_safe simp: fits_def)

lemma handle_sms_safe: "P w \<Longrightarrow> (\<And>w'. P w' \<Longrightarrow> Q w') \<Longrightarrow> res_ok Q (handle_sms i d n w)"
  unfolding handle_sms_def Let_def by (auto intro!: step_safe handle_cpdata_safe simp: fits_def)

subsection \<open>Call control, mobility management, packet domain\<close>

lemma cc_number_safe: "P w \<Longrightarrow> (\<And>w'. P w' \<Longrightarrow> Q w') \<Longrightarrow> res_ok Q (cc_number i ie tp w)"
  unfolding cc_number_def by (auto split: option.splits intro!: step_safe handle_address_safe simp: fits_def)

lemma cc_setup_safe: "P w \<Longrightarrow> (\<And>w'. P w' \<Longrightarrow> Q w') \<Longrightarrow> res_ok Q (cc_setup i d n ul w)"
  unfolding cc_setup_def by (auto intro!: step_safe tlv_parse_safe cc_number_safe simp: fits_def)

lemma cc_message_safe: "P w \<Longrightarrow> (\<And>w'. P w' \<Longrightarrow> Q w') \<Longrightarrow> res_ok Q (cc_message i d n ul t w)"
  unfolding cc_message_def by (auto intro!: step_safe cc_setup_safe on_cond_safe simp: fits_def)

lemma handle_cc_safe: "P w \<Longrightarrow> (\<And>w'. P w' \<Longrightarrow> Q w') \<Longrightarrow> res_ok Q (handle_cc i d n ul w)"
  unfolding handle_cc_def by (auto intro!: step_safe cc_message_safe simp: fits_def)

lemma octets_are_safe: "(\<And>b. Q b) \<Longrightarrow> res_ok Q (octets_are d k a b)"
  by (simp add: octets_are_def)

lemma mm_auth_request_safe: "P w \<Longrightarrow> (\<And>w'. P w' \<Longrightarrow> Q w') \<Longrightarrow> res_ok Q (mm_auth_request i d n fn w)"
  unfolding mm_auth_request_def by (auto intro!: step_safe octets_are_safe simp: fits_def)

lemma mm_auth_response_safe: "P w \<Longrightarrow> (\<And>w'. P w' \<Longrightarrow> Q w') \<Longrightarrow> res_ok Q (mm_auth_response i d n fn w)"
  unfolding mm_auth_response_def by (auto intro!: step_safe octets_are_safe simp: fits_def)

lemma mm_identity_request_safe: "P w \<Longrightarrow> (\<And>w'. P w' \<Longrightarrow> Q w') \<Longrightarrow> res_ok Q (mm_identity_request i d w)"
  unfolding mm_identity_request_def data_octet_def Let_def by (auto intro!: step_safe simp: fits_def)

lemma mm_identity_response_safe: "P w \<Longrightarrow> (\<And>w'. P w' \<Longrightarrow> Q w') \<Longrightarrow> res_ok Q (mm_identity_response i d w)"
  unfolding mm_identity_response_def data_octet_def Let_def by (auto intro!: step_safe mi_at_safe simp: fits_def)


lemma mm_message_safe: "P w \<Longrightarrow> (\<And>w'. P w' \<Longrightarrow> Q w') \<Longrightarrow> res_ok Q (mm_message i d n fn t w)"
  unfolding mm_message_def data_octet_def
  by (auto intro!: identity_safe handle_detach_safe handle_loc_upd_acc_safe handle_loc_upd_req_safe mm_auth_request_safe
      mm_auth_response_safe mm_identity_request_safe mm_identity_response_safe handle_cmreq_safe simp: fits_def)

lemma handle_mm_safe: "P w \<Longrightarrow> (\<And>w'. P w' \<Longrightarrow> Q w') \<Longrightarrow> res_ok Q (handle_mm i d n fn w)"
  unfolding handle_mm_def by (auto intro!: step_safe mm_message_safe)

lemma handle_ss_safe: "P w \<Longrightarrow> (\<And>w'. P w' \<Longrightarrow> Q w') \<Longrightarrow> res_ok Q (handle_ss i d n w)"
  unfolding handle_ss_def Let_def by (auto intro!: step_safe on_cond_safe simp: fits_def)

lemma in_ps_safe:
  assumes "P w" and "\<And>w'. P w' \<Longrightarrow> res_ok Q (f w')" and "\<And>w'. P w' \<Longrightarrow> Q w'"
  shows "res_ok Q (in_ps i name n f w)"
  unfolding in_ps_def by (auto intro!: step_safe on_cond_safe upd_msg_safe assms simp: DOMAIN_PS_def)

lemma gmm_message_safe: "P w \<Longrightarrow> (\<And>w'. P w' \<Longrightarrow> Q w') \<Longrightarrow> res_ok Q (gmm_message i d t w)"
  unfolding gmm_message_def data_octet_def
  by (auto intro!: step_safe handle_attach_acc_safe handle_ra_upd_acc_safe handle_serv_req_safe simp: fits_def)

lemma handle_gmm_safe: "P w \<Longrightarrow> (\<And>w'. P w' \<Longrightarrow> Q w') \<Longrightarrow> res_ok Q (handle_gmm i d n w)"
  unfolding handle_gmm_def by (rule in_ps_safe) (auto intro!: gmm_message_safe)

lemma sm_message_safe: "P w \<Longrightarrow> (\<And>w'. P w' \<Longrightarrow> Q w') \<Longrightarrow> res_ok Q (sm_message i t w)"
  unfolding sm_message_def by (auto intro!: step_safe simp: fits_def)

lemma handle_sm_safe: "P w \<Longrightarrow> (\<And>w'. P w' \<Longrightarrow> Q w') \<Longrightarrow> res_ok Q (handle_sm i d n w)"
  unfolding handle_sm_def by (rule in_ps_safe) (auto intro!: sm_message_safe)

subsection \<open>Cells and paging\<close>

lemma set_cells_only: "P w \<Longrightarrow> cells_ok (w\<lparr>w_cells := cs\<rparr>) \<Longrightarrow> P (w\<lparr>w_cells := cs\<rparr>)"
  using set_cells [where w = w and cs = cs and l = "w_cell_list w" and n = "w_cell_info_id w"] by simp

lemma upd_cell_safe:
  assumes "P w" and "cell_live w a" and "\<And>c. cell_ok c \<Longrightarrow> res_ok cell_ok (f c)"
    and "\<And>w'. P w' \<Longrightarrow> cell_live w' a \<Longrightarrow> w_cell_list w' = w_cell_list w \<Longrightarrow> w_sess w' = w_sess w \<Longrightarrow> Q w'"
  shows "res_ok Q (upd_cell a f w)"
proof -
  from assms(2) obtain c where c: "a < length (w_cells w)" "w_cells w ! a = Some c" by (auto simp: cell_live_def)
  then have "cell_ok c" using cells [OF assms(1)] by (auto simp: cells_ok_def in_set_conv_nth)
  note f = assms(3) [OF this]
  have "P (w\<lparr>w_cells := (w_cells w)[a := Some c']\<rparr>)" if "cell_ok c'" for c'
    using cells [OF assms(1)] c that
    by (intro set_cells_only [OF assms(1)])
      (auto simp: cells_ok_def cell_live_def nth_list_update dest!: set_update_subset_insert [THEN subsetD])
  then show ?thesis
    unfolding upd_cell_def cell_at_def using c f
    by (simp, elim res_ok_mono) (auto intro!: assms(4) simp: cell_live_def)
qed

lemma find_cell_safe:
  "(\<And>a. a \<in> set as \<Longrightarrow> cell_live w a) \<Longrightarrow> (\<And>r. (\<And>a. r = Some a \<Longrightarrow> cell_live w a) \<Longrightarrow> Q r) \<Longrightarrow> res_ok Q (find_cell k d as w)"
proof (induction as)
  case (Cons a as)
  from Cons.prems(1) [of a] obtain c where "a < length (w_cells w)" "w_cells w ! a = Some c" by (auto simp: cell_live_def)
  with Cons show ?case by (auto simp: cell_at_def)
qed auto

text \<open>A cell that nothing refers to yet.\<close>

definition cell_fresh :: "world \<Rightarrow> nat \<Rightarrow> bool" where
  "cell_fresh w a \<longleftrightarrow> a \<notin> set (w_cell_list w) \<and> (\<forall>s \<in> set (w_sess w). s_ci s \<noteq> Some a)"

lemma malloc_cell_safe:
  assumes "P w" and "malloc_cell w = (a, w')"
  shows "P w'" "cell_live w' a" "cell_fresh w' a"
proof -
  have "cells_ok (w\<lparr>w_cells := w_cells w @ [Some zero_cell]\<rparr>)"
    using cells [OF assms(1)] by (auto simp: cells_ok_def cell_live_def nth_append)
  then show "P w'" using assms set_cells_only by (auto simp: malloc_cell_def)
  show "cell_live w' a" using assms(2) by (auto simp: malloc_cell_def cell_live_def)
  show "cell_fresh w' a"
    using cells [OF assms(1)] assms(2) by (auto simp: malloc_cell_def cell_fresh_def cells_ok_def cell_live_def)
qed

lemma free_cell_safe:
  assumes "P w" and "cell_live w a" and "cell_fresh w a" and "\<And>w'. P w' \<Longrightarrow> (\<And>c. c \<noteq> a \<Longrightarrow> cell_live w c \<Longrightarrow> cell_live w' c) \<Longrightarrow> Q w'"
  shows "res_ok Q (free_cell a w)"
proof -
  from assms(2) obtain c where c: "a < length (w_cells w)" "w_cells w ! a = Some c" by (auto simp: cell_live_def)
  have "cell_live (w\<lparr>w_cells := (w_cells w)[a := None]\<rparr>) d" if "cell_live w d" "d \<noteq> a" for d
    using that by (simp add: cell_live_def)
  then have "P (w\<lparr>w_cells := (w_cells w)[a := None]\<rparr>)"
    using cells [OF assms(1)] assms(3)
    by (intro set_cells_only [OF assms(1)])
      (auto simp: cells_ok_def cell_fresh_def dest!: set_update_subset_insert [THEN subsetD])
  then show ?thesis
    using c by (auto simp: free_cell_def cell_at_def cell_live_def nth_list_update intro!: assms(4))
qed

lemma session_cell_safe:
  assumes "P w" and "cell_live w a" and "b \<longrightarrow> cell_fresh w a" and "\<And>c b w'. P w' \<Longrightarrow> cell_live w' c \<Longrightarrow> b \<longrightarrow> c \<notin> set (w_cell_list w') \<Longrightarrow> Q (c, b, w')"
  shows "res_ok Q (session_cell i a b w)"
  unfolding session_cell_def res_ok_rbind
proof (rule sess_safe [OF assms(1)])
  fix s assume i: "i < length (w_sess w)" "s \<in> set (w_sess w)" "s = w_sess w ! i"
  show "res_ok Q (case s_ci s of
       Some c \<Rightarrow> rbind (if b then free_cell a w else Inr w) (\<lambda>w. Inr (c, False, w))
     | None \<Rightarrow> rbind (upd i (\<lambda>s. s\<lparr>s_ci := Some a\<rparr>) w) (\<lambda>w. Inr (a, b, w)))"
  proof (cases "s_ci s")
    case None
    with i assms(2,3) set_cell [OF assms(1) i(1) assms(2)] show ?thesis by (auto intro!: assms(4) simp: cell_live_def cell_fresh_def)
  next
    case (Some c)
    then have "cell_live w c" using cells [OF assms(1)] i(2) by (auto simp: cells_ok_def)
    moreover have "b \<Longrightarrow> c \<noteq> a" using assms(3) Some i(2) by (auto simp: cell_fresh_def)
    ultimately show ?thesis
      using Some assms by (auto intro!: free_cell_safe assms(4))
  qed
qed



lemma get_from_si_safe:
  assumes "P w" and "n \<le> 20" and "\<And>r. (\<And>a. r = Some a \<Longrightarrow> cell_live w a) \<Longrightarrow> Q r"
  shows "res_ok Q (get_from_si t d n w)"
proof -
  have "cell_live w a" if "a \<in> set (w_cell_list w)" for a using cells [OF assms(1)] that by (auto simp: cells_ok_def)
  with assms(2) show ?thesis
    unfolding get_from_si_def by (auto split: option.splits intro!: find_cell_safe assms(3))
qed

lemma si_append_safe:
  assumes "P w" and "cell_live w a" and "a \<notin> set (w_cell_list w)" and "\<And>w'. P w' \<Longrightarrow> Q w'"
  shows "res_ok Q (si_append a m w)"
proof -
  have add: "P (w'\<lparr>w_cell_info_id := n, w_cell_list := a # l\<rparr>)"
    if "P w'" "cell_live w' a" "l = w_cell_list w'" "a \<notin> set l" for w' n l
  proof -
    have "cells_ok (w'\<lparr>w_cells := w_cells w', w_cell_list := a # w_cell_list w'\<rparr>)"
      using cells [OF that(1)] that(2-4) by (simp add: cells_ok_def cell_live_def)
    from set_cells [OF that(1) this, of n]
    have "P (w'\<lparr>w_cell_list := a # w_cell_list w', w_cell_info_id := n\<rparr>)" by simp
    also have "w'\<lparr>w_cell_list := a # w_cell_list w', w_cell_info_id := n\<rparr> = w'\<lparr>w_cell_info_id := n, w_cell_list := a # w_cell_list w'\<rparr>"
      by (cases w') simp
    finally show ?thesis using that(3) by simp
  qed
  show ?thesis
    unfolding si_append_def using assms(3) by (auto intro!: upd_cell_safe [OF assms(1,2)] assms(4) add)
qed

lemma sysinfo_update_safe:
  assumes "P w" and "cell_live w a" and "k < 12" and "fresh \<longrightarrow> a \<notin> set (w_cell_list w)" and Q: "\<And>w'. P w' \<Longrightarrow> Q w'"
  shows "res_ok Q (sysinfo_update i d n k (a, fresh, w))"
proof -
  have store: "res_ok Q (rbind (sess i w) (\<lambda>s. rbind (deref (s_new_msg s) w) (\<lambda>m.
     rbind (rdn d 2 (min (unat (n - 2)) 20)) (\<lambda>data.
     rbind (upd_cell a (si_store k data m) w) (\<lambda>w. if fresh then si_append a m w else Inr w)))))"
    if "P w" "cell_live w a" "fresh \<longrightarrow> a \<notin> set (w_cell_list w)" for w
    using that assms(3) by (auto intro!: sess_safe deref_safe upd_cell_safe si_store_safe si_append_safe Q)
  have "res_ok (\<lambda>w. P w \<and> cell_live w a \<and> (fresh \<longrightarrow> a \<notin> set (w_cell_list w)))
      (if k \<in> {SI5, SI5b, SI5t, SI6} \<or> fresh then upd_cell a (si_fields k d n) w else Inr w)"
    using assms(1,2,4) by (simp add: upd_cell_safe si_fields_safe)
  then show ?thesis
    unfolding sysinfo_update_def split_conv res_ok_rbind [of _ "if _ then _ else _"]
    by (rule res_ok_mono) (blast intro: store)
qed

lemma sysinfo_index_safe:
  assumes "P w" and "k < 12" and Q: "\<And>w'. P w' \<Longrightarrow> Q w'"
  shows "res_ok Q (sysinfo_index i d n t k w)"
  unfolding sysinfo_index_def
proof (simp only: res_ok_rbind, rule get_from_si_safe [OF assms(1)])
  fix found assume found: "\<And>a. found = Some a \<Longrightarrow> cell_live w a"
  obtain a fresh w' where st: "(case found of Some a \<Rightarrow> (a, False, w) | None \<Rightarrow> (case malloc_cell w of (a, w) \<Rightarrow> (a, True, w)))
      = (a, fresh, w')" and P: "P w'" "cell_live w' a" "fresh \<longrightarrow> cell_fresh w' a"
    using malloc_cell_safe [OF assms(1)] found assms(1) by (cases found; cases "malloc_cell w") auto
  show "res_ok Q (let (a, fresh, w) = (case found of Some a \<Rightarrow> (a, False, w)
                           | None \<Rightarrow> (case malloc_cell w of (a, w) \<Rightarrow> (a, True, w)))
     in rbind (if k \<in> {SI5, SI5b, SI5t, SI6} then session_cell i a fresh w else Inr (a, fresh, w))
          (sysinfo_update i d n k))"
    unfolding st Let_def split_conv
    using P by (auto intro!: session_cell_safe sysinfo_update_safe assms(2) Q simp: si_consts cell_fresh_def)
qed simp

lemma handle_sysinfo_safe: "P w \<Longrightarrow> (\<And>w'. P w' \<Longrightarrow> Q w') \<Longrightarrow> res_ok Q (handle_sysinfo i d n w)"
  unfolding handle_sysinfo_def
  by (auto intro!: sess_safe deref_safe reset_safe on_cond_safe sysinfo_index_safe split: option.splits dest: si_index_less)

lemma paging_inc_safe:
  assumes "P w" and "k < 4" and "\<And>w'. P w' \<Longrightarrow> Q w'"
  shows "res_ok Q (paging_inc k t w)"
proof -
  have "P (w\<lparr>w_paging_count := c\<rparr>)" "P (w\<lparr>w_paging_null := x\<rparr>)" "P (w\<lparr>w_paging_imsi := x\<rparr>)" "P (w\<lparr>w_paging_tmsi := x\<rparr>)"
    if "P w" for c x w
    using set_paging [OF that, where pc = c and pn = "w_paging_null w" and pi = "w_paging_imsi w" and pt = "w_paging_tmsi w"]
      set_paging [OF that, where pc = "w_paging_count w" and pn = x and pi = "w_paging_imsi w" and pt = "w_paging_tmsi w"]
      set_paging [OF that, where pc = "w_paging_count w" and pn = "w_paging_null w" and pi = x and pt = "w_paging_tmsi w"]
      set_paging [OF that, where pc = "w_paging_count w" and pn = "w_paging_null w" and pi = "w_paging_imsi w" and pt = x]
    by simp_all
  with assms show ?thesis unfolding paging_inc_def by auto
qed

lemma paging_safe:
  assumes "P w" and "\<And>w'. P w' \<Longrightarrow> Q w'"
  shows "res_ok Q (handle_paging1 d n w)" "res_ok Q (handle_paging2 d n w)" "res_ok Q (handle_paging3 w)"
  unfolding handle_paging1_def handle_paging2_def handle_paging3_def
  using assms by (auto intro!: paging_inc_safe)


subsection \<open>Radio resource management\<close>

lemma si_rand_safe:
  assumes "P w" and "\<And>s. get s \<in> set (rands s)" and "\<And>r s. links (put r s) = links s"
    and "\<And>r s. session_ok s \<Longrightarrow> rand_ok r \<Longrightarrow> rs_ciphered r = 0 \<or> nz (s_cipher s) \<Longrightarrow> session_ok (put r s)"
    and "\<And>w'. P w' \<Longrightarrow> Q w'"
  shows "res_ok Q (si_rand get put i d w)"
  unfolding si_rand_def
  by (rule updr_safe [OF assms(1)]) (auto intro!: session_rand_check assms simp: fits_def)

lemma rr_sysinfo_safe: "P w \<Longrightarrow> (\<And>w'. P w' \<Longrightarrow> Q w') \<Longrightarrow> res_ok Q (rr_sysinfo i name d n w)"
  unfolding rr_sysinfo_def by (auto intro!: step_safe handle_sysinfo_safe)

lemma release_safe:
  assumes "P w" and "\<And>w'. R w' \<Longrightarrow> Q w'"
  shows "res_ok (\<lambda>w. res_ok Q (on_cond (w_auto_reset w) (upd (i + 1) (\<lambda>s. s\<lparr>s_new_msg := None\<rparr>)) w)) (session_reset i False w)"
  using release [OF assms(1), of i] by (simp, elim res_ok_mono) (use assms(2) in auto)

lemma rr_chan_rel_safe: "P w \<Longrightarrow> (\<And>w'. R w' \<Longrightarrow> Q w') \<Longrightarrow> res_ok Q (rr_chan_rel i d n w)"
  unfolding rr_chan_rel_def data_octet_def
  using release_safe
  by (auto intro!: step_safe on_cond_safe simp: fits_def)

lemma rr_assignment_safe: "P w \<Longrightarrow> (\<And>w'. P w' \<Longrightarrow> Q w') \<Longrightarrow> res_ok Q (rr_assignment i d n w)"
  unfolding rr_assignment_def
  by (rule updr_safe) (auto intro!: parse_assignment_safe simp: fits_def session_ok_def rands_def)

lemma rr_ciph_compl_safe: "P w \<Longrightarrow> (\<And>w'. P w' \<Longrightarrow> Q w') \<Longrightarrow> res_ok Q (rr_ciph_compl i d n fn w)"
  unfolding rr_ciph_compl_def data_octet_def
  by (auto split: option.splits intro!: step_safe on_cond_safe tlv_parse_safe mi_at_safe simp: fits_def)

lemma rr_ciph_cmd_safe: "P w \<Longrightarrow> (\<And>w'. P w' \<Longrightarrow> Q w') \<Longrightarrow> res_ok Q (rr_ciph_cmd i d fn w)"
proof -
  have nz: "nz (1 + (x AND 7))" for x :: u8
  proof -
    have "unat (x AND 7) \<le> 7" using unat_le_mask [of x 7] by simp
    then show ?thesis by (simp add: word_unat_eq_iff unat_word_ariths)
  qed
  show "P w \<Longrightarrow> (\<And>w'. P w' \<Longrightarrow> Q w') \<Longrightarrow> res_ok Q (rr_ciph_cmd i d fn w)"
    unfolding rr_ciph_cmd_def data_octet_def Let_def
    by (auto intro!: step_safe on_cond_safe not_zero_safe session_ok_cipher nz simp: fits_def)
qed

lemma rr_si6_safe: "P w \<Longrightarrow> (\<And>w'. P w' \<Longrightarrow> Q w') \<Longrightarrow> res_ok Q (rr_si6 i d n w)"
  unfolding rr_si6_def
  by (auto intro!: step_safe si_rand_safe handle_lai_safe be16_safe handle_sysinfo_safe session_ok_rand)


lemma rr_message2_safe: "P w \<Longrightarrow> (\<And>w'. P w' \<Longrightarrow> Q w') \<Longrightarrow> res_ok Q (rr_message2 i d n fn t w)"
  unfolding rr_message2_def
  by (auto intro!: step_safe paging_safe handle_pag_resp_safe rr_assignment_safe rr_ciph_compl_safe rr_ciph_cmd_safe
      simp: fits_def)

lemma rr_message1_safe:
  assumes "P w" and "\<And>w'. P w' \<Longrightarrow> res_ok Q (other w')" and "\<And>w'. R w' \<Longrightarrow> Q w'"
  shows "res_ok Q (rr_message1 i d n t other w)"
  unfolding rr_message1_def
  by (auto intro!: step_safe rr_sysinfo_safe si_rand_safe handle_sysinfo_safe rr_si6_safe rr_chan_rel_safe
      handle_classmark_safe session_ok_rand assms weaken)

lemma handle_rr_safe:
  assumes "P w" and Q: "\<And>w'. R w' \<Longrightarrow> Q w'"
  shows "res_ok Q (handle_rr i d n fn w)"
  unfolding handle_rr_def using assms(1)
  by (auto intro!: step_safe on_cond_safe rr_message1_safe rr_message2_safe Q simp: fits_def intro: weaken)

subsection \<open>Dispatch\<close>

lemma double_match_safe: "(\<And>b. Q b) \<Longrightarrow> res_ok Q (double_match s msg n)"
  unfolding double_match_def Let_def by auto

lemma double_store_safe: "P w \<Longrightarrow> (\<And>w'. P w' \<Longrightarrow> Q w') \<Longrightarrow> res_ok Q (double_store i msg n w)"
  unfolding double_store_def
  by (auto intro!: step_safe deref_safe simp: fits_def session_ok_dtap)

lemma drop_decoded_safe: "P w \<Longrightarrow> (\<And>w'. P w' \<Longrightarrow> Q w') \<Longrightarrow> res_ok Q (drop_decoded i w)"
  unfolding drop_decoded_def by (auto intro!: step_safe upd_msg_safe)

lemma is_double_safe: "P w \<Longrightarrow> (\<And>b w'. P w' \<Longrightarrow> Q (b, w')) \<Longrightarrow> res_ok Q (is_double i msg n w)"
  unfolding is_double_def Let_def msg_uplink_def
  by (auto intro!: sess_safe step_safe deref_safe double_match_safe double_store_safe drop_decoded_safe simp: fits_def)

lemma dtap_message_safe:
  assumes "P w" and Q: "\<And>w'. R w' \<Longrightarrow> Q w'"
  shows "res_ok Q (dtap_message i msg n fn ul p w)"
  unfolding dtap_message_def using assms(1)
  by (auto intro!: step_safe handle_cc_safe handle_mm_safe handle_rr_safe handle_gmm_safe handle_sms_safe handle_sm_safe
      handle_ss_safe osmo_hexdump_safe Q intro: weaken)

lemma handle_dtap_safe:
  assumes "P w" and Q: "\<And>w'. R w' \<Longrightarrow> Q w'"
  shows "res_ok Q (handle_dtap i msg n fn ul w)"
  unfolding handle_dtap_def using assms(1)
  by (auto intro!: step_safe upd_msg_safe is_double_safe dtap_message_safe Q intro: weaken)


lemma handle_eps_safe: "P w \<Longrightarrow> (\<And>w'. P w' \<Longrightarrow> Q w') \<Longrightarrow> res_ok Q (handle_eps i d n w)"
  unfolding handle_eps_def eps_info_def eps_protected_def Let_def
  by (auto intro!: step_safe upd_msg_safe osmo_hexdump_safe simp: fits_def)

subsection \<open>LAPDm\<close>

lemma pad_check_safe:
  assumes "session_ok s" and Q: "\<And>b s'. links s' = links s \<Longrightarrow> session_ok s' \<Longrightarrow> Q (b, s')"
  shows "res_ok Q (pad_check d n dl pl s)"
  unfolding pad_check_def Let_def using assms(1)
  by (auto intro!: session_rand_check Q session_ok_rand)

lemma update_counters_safe: "P w \<Longrightarrow> (\<And>w'. P w' \<Longrightarrow> Q w') \<Longrightarrow> res_ok Q (update_counters i d n dl ul w)"
  unfolding update_counters_def Let_def
  by (rule updr_safe) (auto intro!: pad_check_safe simp: fits_def)

lemma bufs_ok:
  assumes "session_ok s"
  shows "lapdm_bufs_ok (get_bufs ch s)"
    and "lapdm_bufs_ok bs \<Longrightarrow> fits s (put_bufs ch bs s)"
  using assms by (cases ch; simp add: session_ok_def fits_def rands_def)+

lemma buf_length: "session_ok s \<Longrightarrow> k < length (get_bufs ch s) \<Longrightarrow> length (lb_data (get_bufs ch s ! k)) = 640"
  using bufs_ok(1) [of s ch] by (simp add: lapdm_bufs_ok_def)

lemma mb_update_fits:
  assumes "session_ok s" and "\<And>mb. length (lb_data mb) = 640 \<Longrightarrow> res_ok (\<lambda>mb'. length (lb_data mb') = 640) (f mb)"
  shows "res_ok (fits s) (rbind (get_mb ch k s) (\<lambda>mb. rbind (f mb) (\<lambda>mb.
     rbind (wr (get_bufs ch s) k mb) (\<lambda>bs. Inr (put_bufs ch bs s)))))"
proof -
  note ok = bufs_ok [OF assms(1)]
  have "lapdm_bufs_ok ((get_bufs ch s)[k := mb])" if "length (lb_data mb) = 640" for mb
    using ok(1) [of ch] that by (auto simp: lapdm_bufs_ok_def dest!: set_update_subset_insert [THEN subsetD])
  then show ?thesis
    unfolding get_mb_def by (auto intro!: res_ok_mono [OF assms(2)] ok(2) buf_length assms(1))
qed

lemma upd_mb_safe:
  assumes "P w" and "\<And>mb. length (lb_data mb) = 640 \<Longrightarrow> res_ok (\<lambda>mb'. length (lb_data mb') = 640) (f mb)" and "\<And>w'. P w' \<Longrightarrow> Q w'"
  shows "res_ok Q (upd_mb i ch k f w)"
  unfolding upd_mb_def by (rule updr_safe [OF assms(1) mb_update_fits]) (use assms in auto)

lemma by_mb_safe:
  assumes "P w" and "\<And>mb. length (lb_data mb) = 640 \<Longrightarrow> res_ok Q (f mb w)"
  shows "res_ok Q (by_mb i ch k f w)"
  unfolding by_mb_def get_mb_def by (auto intro!: sess_safe assms buf_length)


lemma handle_out_of_seq_safe:
  "P w \<Longrightarrow> (\<And>w'. P w' \<Longrightarrow> Q w') \<Longrightarrow> res_ok Q (handle_out_of_seq i ch k msg n dl ns mf ul w)"
  unfolding handle_out_of_seq_def
  by (auto intro!: step_safe on_cond_safe upd_mb_safe by_mb_safe update_counters_safe simp: count_out_of_seq_def Let_def)

lemma append_payload_safe:
  "length (lb_data mb) = 640 \<Longrightarrow> res_ok (\<lambda>mb'. length (lb_data mb') = 640) (append_payload pl mb)"
  unfolding append_payload_def by auto

text \<open>The steps behind a delivered message hold for the weaker invariant.\<close>

lemma sess_R_safe:
  "R w \<Longrightarrow> (\<And>s. i < length (w_sess w) \<Longrightarrow> s = w_sess w ! i \<Longrightarrow> session_ok s \<Longrightarrow> Q s) \<Longrightarrow> res_ok Q (sess i w)"
  by (auto simp: sess_def session_R)

lemma updr_R_safe:
  assumes "R w" and "\<And>s. session_ok s \<Longrightarrow> res_ok (fits s) (f s)" and "\<And>w'. R w' \<Longrightarrow> Q w'"
  shows "res_ok Q (updr i f w)"
  unfolding updr_def
  by (simp, rule sess_R_safe [OF assms(1)], simp, rule res_ok_mono [OF assms(2)]) (use assms set_session_R in auto)

lemma upd_R_safe:
  assumes "R w" and "\<And>s. session_ok s \<Longrightarrow> fits s (f s)" and "\<And>w'. R w' \<Longrightarrow> Q w'"
  shows "res_ok Q (upd i f w)"
  unfolding upd_def by (simp, rule sess_R_safe [OF assms(1)]) (use assms set_session_R in auto)

lemma upd_mb_R_safe:
  assumes "R w" and "\<And>mb. length (lb_data mb) = 640 \<Longrightarrow> res_ok (\<lambda>mb'. length (lb_data mb') = 640) (f mb)" and "\<And>w'. R w' \<Longrightarrow> Q w'"
  shows "res_ok Q (upd_mb i ch k f w)"
  unfolding upd_mb_def by (rule updr_R_safe [OF assms(1) mb_update_fits]) (use assms in auto)

lemma by_mb_R_safe:
  assumes "R w" and "\<And>mb. length (lb_data mb) = 640 \<Longrightarrow> res_ok Q (f mb w)"
  shows "res_ok Q (by_mb i ch k f w)"
  unfolding by_mb_def get_mb_def by (auto intro!: sess_R_safe assms buf_length)

lemma lapdm_deliver_safe:
  assumes "P w" and Q: "\<And>w'. R w' \<Longrightarrow> Q w'"
  shows "res_ok Q (lapdm_deliver i ch k sapi msg n dl ns mf fn ul w)"
proof -
  have end_step: "res_ok Q (by_mb i ch k (\<lambda>mb w. rbind (rd (lb_data mb) 0) (\<lambda>d0. upd i (infer_times a c sapi n d0 fn) w)) w)"
    if "R w" for a c w
    using that by (auto intro!: by_mb_R_safe upd_R_safe Q simp: fits_def)
  have dtap: "res_ok (\<lambda>w. res_ok S (upd_mb i ch k (\<lambda>mb. Inr (mb\<lparr>lb_len := 0\<rparr>)) w))
      (by_mb i ch k (\<lambda>mb. handle_dtap i (lb_data mb) (lb_len mb) fn ul) w)" if "P w" "\<And>w'. R w' \<Longrightarrow> S w'" for S w
    using that by (auto intro!: by_mb_safe handle_dtap_safe upd_mb_R_safe)
  show ?thesis
    unfolding lapdm_deliver_def using assms(1)
    by (auto intro!: update_counters_safe set_info_safe upd_mb_safe append_payload_safe by_sess_safe dtap end_step Q
        intro: weaken)
qed

lemma lapdm_frame_safe:
  assumes "P w" and Q: "\<And>w'. R w' \<Longrightarrow> Q w'"
  shows "res_ok Q (lapdm_frame i ch k sapi msg n m1 dl mf fn ul w)"
  unfolding lapdm_frame_def Let_def using assms(1)
  by (auto intro!: by_mb_safe upd_mb_safe handle_out_of_seq_safe lapdm_deliver_safe on_cond_safe Q intro: weaken)

lemma handle_lapdm_safe:
  assumes "P w" and Q: "\<And>w'. R w' \<Longrightarrow> Q w'"
  shows "res_ok Q (handle_lapdm i ch msg n fn ul w)"
  unfolding handle_lapdm_def Let_def using assms(1)
  by (auto intro!: by_sess_safe upd_msg_safe set_info_safe lapdm_frame_safe Q intro: weaken)

lemma handle_gsm_safe:
  assumes "P w" and Q: "\<And>w'. R w' \<Longrightarrow> Q w'" and "rm_flags m AND 0x0f \<in> {MSG_SACCH, MSG_SDCCH, MSG_FACCH, MSG_BCCH}"
  shows "res_ok Q (handle_gsm i m ul fn w)"
  unfolding handle_gsm_def Let_def using assms(1,3)
  by (auto intro!: by_sess_safe on_cond_safe handle_lapdm_safe handle_dtap_safe Q intro: weaken)


subsection \<open>UMTS\<close>

lemma umts_rat_safe: "P w \<Longrightarrow> (\<And>w'. P w' \<Longrightarrow> Q w') \<Longrightarrow> res_ok Q (umts_rat i w)"
  unfolding umts_rat_def by (auto intro!: step_safe simp: fits_def)

lemma with_type_safe:
  assumes "P w" and "r = dcch_type msg n \<or> r = ccch_type msg n"
    and "\<And>t. r = Inr (Some t) \<Longrightarrow> res_ok Q (f t w)" and "\<And>w'. P w' \<Longrightarrow> Q w'"
  shows "res_ok Q (with_type r i f w)"
proof -
  have "res_ok (\<lambda>_. True) r" using assms(2) by (auto simp: dcch_type_def ccch_type_def)
  with assms show ?thesis
    unfolding with_type_def by (cases r) (auto split: option.splits intro!: set_info_safe)
qed

lemma set_info_sess:
  assumes "P w" and "\<And>w'. P w' \<Longrightarrow> w_sess w' = w_sess w \<Longrightarrow> Q w'"
  shows "res_ok Q (set_info i t w)"
proof -
  have "w_sess w' = w_sess w" if "set_info i t w = Inr w'" for w'
    using that by (auto simp: set_info_def by_sess_def upd_msg_def rbind_eq_Inr split: option.splits)
  moreover have "res_ok P (set_info i t w)" by (rule set_info_safe [OF assms(1)])
  ultimately show ?thesis using assms(2) by (cases "set_info i t w") auto
qed

lemma upd_at_safe:
  assumes "P w" and "i < length (w_sess w) \<Longrightarrow> fits (w_sess w ! i) (f (w_sess w ! i))" and "\<And>w'. P w' \<Longrightarrow> Q w'"
  shows "res_ok Q (upd i f w)"
  unfolding upd_def by (simp, rule sess_safe [OF assms(1)]) (use assms set_session in auto)

lemma security_command_safe:
  assumes "P w" and "\<And>w'. P w' \<Longrightarrow> Q w'"
  shows "res_ok Q (security_command i cmd w)"
proof -
  have fit: "fits s (s\<lparr>s_cipher := c, s_integrity := x, s_cipher_missing := y\<rparr>)" if "session_ok s" "s_cipher s = 0" for s c x y
    using that by (auto simp: fits_def session_ok_def rands_def)
  have gen: "res_ok Q (by_sess k (\<lambda>s. if nz (s_cipher s) then Inr else seqs [set_info k t,
      upd k (\<lambda>s. s\<lparr>s_cipher := c, s_integrity := x, s_cipher_missing := y\<rparr>)]) w)" for k t c x y
    unfolding by_sess_def using assms
    by (auto intro!: sess_safe set_info_sess upd_at_safe fit simp: session)
  show ?thesis
  proof (cases "security_algorithms cmd")
    case None
    with assms show ?thesis by (simp add: security_command_def set_info_safe)
  next
    case (Some x)
    then obtain cn c a where x: "security_algorithms cmd = Some (cn, c, a)" by (cases x) auto
    show ?thesis
      unfolding security_command_def x Let_def option.case split_conv
      by (cases "cn < 0") (simp_all only: if_True if_False gen res_ok_Inl soft_simps)
  qed
qed

lemma dl_decoded_safe:
  assumes "P w" and Q: "\<And>w'. R w' \<Longrightarrow> Q w'" and "decoded \<noteq> Some DL_other"
  shows "res_ok Q (dl_decoded i decoded w)"
  unfolding dl_decoded_def dl_transfer_def using assms(1,3)
  by (auto split: option.splits dl_dcch.splits downlink_transfer.splits
      intro!: set_info_safe security_command_safe handle_dtap_safe Q intro: weaken)

lemma ul_transfer_safe:
  assumes "P w" and Q: "\<And>w'. R w' \<Longrightarrow> Q w'"
    and "\<And>d. decoded = Some d \<Longrightarrow> \<exists>cn nas. cn \<in> {0, 1} \<and> (d = UL_initial_transfer cn nas \<or> d = UL_uplink_transfer cn nas)"
  shows "res_ok Q (ul_transfer i decoded w)"
proof (cases decoded)
  case None
  then show ?thesis using assms(1) by (auto simp: ul_transfer_def intro!: set_info_safe Q intro: weaken)
next
  case (Some d)
  from assms(3) [OF this] obtain cn nas where "cn \<in> {0, 1 :: int}" "d = UL_initial_transfer cn nas \<or> d = UL_uplink_transfer cn nas"
    by blast
  with Some assms(1) show ?thesis
    by (auto simp: ul_transfer_def Let_def split: option.splits
        intro!: on_cond_safe by_sess_safe upd_msg_safe handle_dtap_safe Q intro: weaken)
qed

lemma setup_safe: "P w \<Longrightarrow> (\<And>w'. R w' \<Longrightarrow> Q w') \<Longrightarrow> res_ok Q (rrc_setup i w)"
  by (rule res_ok_mono [OF rrc_start])

lemma rrc_release_safe: "P w \<Longrightarrow> (\<And>w'. R w' \<Longrightarrow> Q w') \<Longrightarrow> res_ok Q (rrc_release i w)"
  by (rule res_ok_mono [OF rrc_rel])

lemma signalling_release_safe: "P w \<Longrightarrow> (\<And>w'. P w' \<Longrightarrow> Q w') \<Longrightarrow> res_ok Q (signalling_release i msg w)"
  unfolding signalling_release_def by (auto intro!: on_cond_safe upd_safe simp: fits_def)

lemma handle_dcch_ul_safe:
  assumes "rrc_lib_ok lib" and "P w" and Q: "\<And>w'. R w' \<Longrightarrow> Q w'"
  shows "res_ok Q (handle_dcch_ul lib i msg n w)"
proof -
  have "res_ok Q (ul_message lib i msg n t w)" if "P w" "dcch_type msg n = Inr (Some t)" for t w
  proof -
    have "\<exists>cn nas. cn \<in> {0, 1} \<and> (d = UL_initial_transfer cn nas \<or> d = UL_uplink_transfer cn nas)"
      if "t \<in> {pr_ul_initial_transfer lib - 1, pr_ul_uplink_transfer lib - 1}" "ul_dcch_decode lib msg n = Some d" for d
      using assms(1) that \<open>dcch_type msg n = Inr (Some t)\<close> unfolding rrc_lib_ok_def by blast
    then have "res_ok Q (ul_transfer i (ul_dcch_decode lib msg n) w)"
      if "P w" "t \<in> {pr_ul_initial_transfer lib - 1, pr_ul_uplink_transfer lib - 1}" for w
      using that by (intro ul_transfer_safe Q) auto
    then show ?thesis
      unfolding ul_message_def using that(1)
      by (auto intro!: set_info_safe setup_safe rrc_release_safe upd_safe drop_decoded_safe Q
          intro: weaken simp: fits_def)
  qed
  then show ?thesis
    unfolding handle_dcch_ul_def using assms(2)
    by (auto intro!: on_cond_safe umts_rat_safe with_type_safe Q intro: weaken)
qed

lemma handle_dcch_dl_safe:
  assumes "rrc_lib_ok lib" and "P w" and Q: "\<And>w'. R w' \<Longrightarrow> Q w'"
  shows "res_ok Q (handle_dcch_dl lib i msg n w)"
proof -
  have "res_ok Q (dl_message lib i msg n t w)" if "P w" "dcch_type msg n = Inr (Some t)" for t w
  proof -
    have "dl_dcch_decode lib msg n \<noteq> Some DL_other" if "t \<in> {pr_dl_security_command lib - 1, pr_dl_direct_transfer lib - 1}"
      using assms(1) that \<open>dcch_type msg n = Inr (Some t)\<close> unfolding rrc_lib_ok_def by blast
    then have "res_ok Q (dl_decoded i (dl_dcch_decode lib msg n) w)"
      if "P w" "t \<in> {pr_dl_security_command lib - 1, pr_dl_direct_transfer lib - 1}" for w
      using that by (intro dl_decoded_safe Q) auto
    then show ?thesis
      unfolding dl_message_def using that(1)
      by (auto intro!: set_info_safe rrc_release_safe signalling_release_safe drop_decoded_safe Q intro: weaken)
  qed
  then show ?thesis
    unfolding handle_dcch_dl_def using assms(2)
    by (auto intro!: on_cond_safe umts_rat_safe with_type_safe Q intro: weaken)
qed

lemma handle_ccch_safe:
  assumes "P w" and Q: "\<And>w'. P w' \<Longrightarrow> Q w'"
  shows "res_ok Q (handle_ccch_ul i msg n w)" "res_ok Q (handle_ccch_dl lib i msg n w)"
  unfolding handle_ccch_ul_def handle_ccch_dl_def using assms(1)
  by (auto intro!: on_cond_safe umts_rat_safe with_type_safe set_info_safe drop_decoded_safe Q)

lemma handle_umts_safe:
  assumes "rrc_lib_ok lib" and "P w" and "\<And>w'. R w' \<Longrightarrow> Q w'" and "nz (rm_flags m AND MSG_SDCCH) \<or> nz (rm_flags m AND MSG_FACCH)"
  shows "res_ok Q (handle_umts lib i m ul w)"
  unfolding handle_umts_def Let_def using assms
  by (auto intro!: handle_dcch_ul_safe handle_dcch_dl_safe handle_ccch_safe intro: weaken)

end

end
