(* ===== verification/Msg_Life.thy ===== *)
theory Msg_Life
  imports Contract
begin

text \<open>
  The life of a message, from \<open>malloc\<close> to the list of a session or to \<open>free\<close>
  (\<open>handle_radio_msg\<close> of \<open>l3_handler.c\<close>), for any sequence of messages.  Between two messages the
  store is \<open>idle\<close>: the two sessions own disjoint lists of live messages.  While a message is
  handled it is alive, is in no list, and both sessions point to it (\<open>in_flight\<close>); a handler may give
  it up with the whole list of its session (\<open>settled\<close>).  The two predicates satisfy the contract of
  the handlers, so the handlers never touch a freed message, and the store is idle again at the end.
\<close>

section \<open>Predicates\<close>

text \<open>The two sessions with the lists of their messages; auto reset is on, as in all importers but one.\<close>

definition store_ok :: "(nat \<Rightarrow> nat list) \<Rightarrow> world \<Rightarrow> bool" where
  "store_ok L w \<longleftrightarrow> w_auto_reset w \<and> length (w_sess w) = 2
     \<and> (\<forall>i < 2. msg_seq (w_msgs w) (w_sess w ! i) (L i) \<and> s_domain (w_sess w ! i) = of_nat i \<and> session_ok (w_sess w ! i))
     \<and> set (L 0) \<inter> set (L 1) = {} \<and> cells_ok w"

definition loose :: "nat \<Rightarrow> (nat \<Rightarrow> nat list) \<Rightarrow> world \<Rightarrow> bool" where
  "loose a L w \<longleftrightarrow> a \<notin> set (L 0) \<union> set (L 1) \<and> a < length (w_msgs w) \<and> (\<exists>m. w_msgs w ! a = Some m \<and> rm_domain m < 2)"

text \<open>No message is lost: the live messages are those of the lists, and a set of others.\<close>

definition tight :: "nat set \<Rightarrow> (nat \<Rightarrow> nat list) \<Rightarrow> world \<Rightarrow> bool" where
  "tight X L w \<longleftrightarrow> (\<forall>b < length (w_msgs w). w_msgs w ! b \<noteq> None \<longrightarrow> b \<in> set (L 0) \<union> set (L 1) \<union> X)"

definition idle :: "nat set \<Rightarrow> world \<Rightarrow> bool" where
  "idle X w \<longleftrightarrow> (\<exists>L. store_ok L w \<and> tight X L w \<and> s_new_msg (w_sess w ! 0) = None)"

definition in_flight :: "nat set \<Rightarrow> nat \<Rightarrow> world \<Rightarrow> bool" where
  "in_flight X a w \<longleftrightarrow>
     (\<exists>L. store_ok L w \<and> loose a L w \<and> tight (insert a X) L w \<and> (\<forall>i < 2. s_new_msg (w_sess w ! i) = Some a))"

definition outcome :: "nat set \<Rightarrow> nat \<Rightarrow> (nat \<Rightarrow> nat list) \<Rightarrow> world \<Rightarrow> bool" where
  "outcome X a L w \<longleftrightarrow>
     s_new_msg (w_sess w ! 0) = None \<and> tight X L w
     \<or> s_new_msg (w_sess w ! 0) = Some a \<and> loose a L w \<and> tight (insert a X) L w \<and> s_new_msg (w_sess w ! 1) \<in> {None, Some a}"

definition settled :: "nat set \<Rightarrow> nat \<Rightarrow> world \<Rightarrow> bool" where
  "settled X a w \<longleftrightarrow> (\<exists>L. store_ok L w \<and> outcome X a L w)"

lemma tight_given_up:
  "\<forall>X. tight X L w \<longrightarrow> tight (X - {a}) L' w' \<Longrightarrow> tight (insert a X) L w \<Longrightarrow> tight X L' w'"
  by (drule spec [of _ "insert a X"]) (auto simp: tight_def)

lemma less_2: "(i :: nat) < 2 \<longleftrightarrow> i = 0 \<or> i = 1"
  by auto

lemma all_less_2: "(\<forall>i < 2. Q i) \<longleftrightarrow> Q 0 \<and> Q (1 :: nat)"
  by (auto simp: less_2)

lemma set_two: "length xs = 2 \<Longrightarrow> s \<in> set xs \<longleftrightarrow> (\<exists>i < 2. s = xs ! i)"
  by (auto simp: in_set_conv_nth)

section \<open>Steps\<close>

text \<open>A change of a loose message, or of a message store that keeps the lists.\<close>

lemma msg_seq_cong:
  "(\<And>a. a \<in> set xs \<Longrightarrow> ms' ! a = ms ! a) \<Longrightarrow> length ms \<le> length ms' \<Longrightarrow> msg_seq ms s xs \<Longrightarrow> msg_seq ms' s xs"
  using chain_cong [of xs ms' ms] by (auto simp: msg_seq_def)

lemma msg_seq_links: "links s' = links s \<Longrightarrow> msg_seq ms s' xs = msg_seq ms s xs"
  by (simp add: msg_seq_def links_def)

lemma cells_ok_sess:
  "cells_ok w \<Longrightarrow> w_cells w' = w_cells w \<Longrightarrow> w_cell_list w' = w_cell_list w \<Longrightarrow>
   (\<And>s c. s \<in> set (w_sess w') \<Longrightarrow> s_ci s = Some c \<Longrightarrow> cell_live w c) \<Longrightarrow> cells_ok w'"
  by (auto simp: cells_ok_def cell_live_def)

lemma store_ok_msgs:
  assumes "store_ok L w" and "length (w_msgs w) \<le> length ms"
    and "\<And>a. a \<in> set (L 0) \<union> set (L 1) \<Longrightarrow> ms ! a = w_msgs w ! a"
  shows "store_ok L (w\<lparr>w_msgs := ms\<rparr>)"
  using assms msg_seq_cong [of "L 0" ms "w_msgs w"] msg_seq_cong [of "L 1" ms "w_msgs w"]
  by (auto simp: store_ok_def all_less_2 cells_ok_def cell_live_def)

lemma cells_ok_upd:
  assumes "cells_ok w" and "\<And>c. s_ci s = Some c \<Longrightarrow> cell_live w c"
  shows "cells_ok (w\<lparr>w_sess := (w_sess w)[i := s]\<rparr>)"
proof (rule cells_ok_sess [OF assms(1)])
  fix t c assume "t \<in> set (w_sess (w\<lparr>w_sess := (w_sess w)[i := s]\<rparr>))" "s_ci t = Some c"
  then show "cell_live w c"
    using assms set_update_subset_insert [of "w_sess w" i s] by (auto simp: cells_ok_def)
qed simp_all

text \<open>A session may be replaced by one with the same links to messages, and an arbitrary live cell.\<close>

lemma store_ok_sess:
  assumes "store_ok L w" and "i < 2" and "session_ok s" and "s_first_msg s = s_first_msg (w_sess w ! i)"
    and "s_last_msg s = s_last_msg (w_sess w ! i)" and "s_domain s = s_domain (w_sess w ! i)"
    and "s_ci s = s_ci (w_sess w ! i) \<or> (\<exists>c. s_ci s = Some c \<and> cell_live w c)"
  shows "store_ok L (w\<lparr>w_sess := (w_sess w)[i := s]\<rparr>)"
proof -
  have "w_sess w ! i \<in> set (w_sess w)" using assms(1,2) by (simp add: store_ok_def)
  then have "cells_ok (w\<lparr>w_sess := (w_sess w)[i := s]\<rparr>)"
    using assms(1,7) by (intro cells_ok_upd) (auto simp: store_ok_def cells_ok_def)
  with assms(1-6) show ?thesis
    by (auto simp: store_ok_def all_less_2 less_2 msg_seq_def nth_list_update)
qed

lemma store_ok_fits:
  "store_ok L w \<Longrightarrow> i < length (w_sess w) \<Longrightarrow> fits (w_sess w ! i) s \<Longrightarrow> store_ok L (w\<lparr>w_sess := (w_sess w)[i := s]\<rparr>)"
  by (rule store_ok_sess) (auto simp: store_ok_def fits_def links_def)

lemma store_okD:
  assumes "store_ok L w"
  shows "length (w_sess w) = 2" "w_auto_reset w" "cells_ok w"
    "\<And>i. i < 2 \<Longrightarrow> session_ok (w_sess w ! i)" "\<And>i. i < 2 \<Longrightarrow> msg_seq (w_msgs w) (w_sess w ! i) (L i)"
    "\<And>i. i < 2 \<Longrightarrow> s_domain (w_sess w ! i) = of_nat i" "set (L 0) \<inter> set (L 1) = {}"
  using assms by (simp_all add: store_ok_def)

section \<open>The reset of a session\<close>

lemma length_strncpy_buf [simp]: "length (strncpy_buf n src) = n"
  by (simp add: strncpy_buf_def)

text \<open>The new session field by field.\<close>

lemma session_renew_eq:
  "session_renew f ts n s = zero_session\<lparr>s_id := n, s_appid := s_appid s, s_name := strncpy_buf 1024 (s_name s),
     s_domain := s_domain s, s_timestamp := (if ts then zero_timeval else s_timestamp s), s_mcc := s_mcc s,
     s_mnc := s_mnc s, s_lac := s_lac s, s_cid := (if s_rat s = RAT_GSM then 0 else s_cid s),
     s_imsi := (if cstr (s_imsi s) = [] then replicate 32 0 else strncpy_buf 32 (s_imsi s)),
     s_sql_callback := s_sql_callback s, s_new_msg := (if f then s_new_msg s else None),
     s_last_dtap_len := s_last_dtap_len s,
     s_last_dtap := take (unat (s_last_dtap_len s)) (s_last_dtap s) @ drop (unat (s_last_dtap_len s)) (replicate 256 0),
     s_last_dtap_rat := (if s_last_dtap_len s = 0 then 0 else s_last_dtap_rat s),
     s_chan_sdcch := s_chan_sdcch s, s_chan_sacch := s_chan_sacch s, s_chan_facch := s_chan_facch s\<rparr>"
  unfolding session_renew_def Let_def
  by (cases f; cases ts; cases "s_rat s = RAT_GSM"; cases "cstr (s_imsi s) = []"; cases "s_last_dtap_len s = 0")
    (simp_all add: zero_session_def)

lemma session_renew_dtap: "length (s_last_dtap s) = 256 \<Longrightarrow> length (s_last_dtap (session_renew f ts n s)) = 256"
  using unsigned_less [of "s_last_dtap_len s", where 'a = nat] by (simp add: session_renew_eq)

lemma session_ok_renew: "session_ok s \<Longrightarrow> session_ok (session_renew f ts n s)"
  using session_renew_dtap [of s f ts n] session_ok_zero
  by (simp add: session_ok_def rands_def) (simp add: session_renew_eq)

lemma session_ok_stamped [simp]: "session_ok (stamped w s) = session_ok s"
  by (simp add: session_ok_def stamped_def rands_def)

lemma reset_result_simps [simp]:
  "w_auto_reset (reset_result i f xs w) = w_auto_reset w" "w_cells (reset_result i f xs w) = w_cells w"
  "w_cell_list (reset_result i f xs w) = w_cell_list w" "w_previous_ts (reset_result i f xs w) = w_previous_ts w"
  "length (w_sess (reset_result i f xs w)) = length (w_sess w)"
  "w_msgs (reset_result i f xs w) = clear (xs @ pending f (w_sess w ! i)) (w_msgs w)"
  by (simp_all add: reset_result_def Let_def)

lemma reset_result_sess:
  "w_sess (reset_result i f xs w) = (w_sess w)[i := session_renew f (w_auto_timestamp w) (reset_ident w (w_sess w ! i))
     (if open_session (w_sess w ! i) then stamped w (w_sess w ! i) else w_sess w ! i)]"
  by (simp add: reset_result_def Let_def)

definition own :: "nat \<Rightarrow> (nat \<Rightarrow> nat list) \<Rightarrow> world \<Rightarrow> bool" where
  "own i L w \<longleftrightarrow> (\<forall>b. s_new_msg (w_sess w ! i) = Some b \<longrightarrow> loose b L w)"

lemma store_ok_reset:
  assumes "store_ok L w" and "i < 2" and "own i L w"
  shows "store_ok (L(i := [])) (reset_result i f (L i) w)"
proof -
  note w = store_okD [OF assms(1)]
  let ?w = "reset_result i f (L i) w" and ?xs = "L i @ pending f (w_sess w ! i)"
  have i: "i < length (w_sess w)" using assms(2) w(1) by simp
  have other: "msg_seq (w_msgs ?w) (w_sess ?w ! j) (L j)" if "j < 2" "j \<noteq> i" for j
  proof -
    have "set (L i) \<inter> set (L j) = {}" using assms(2) that w(7) by (auto simp: less_2)
    moreover have "b \<notin> set (L j)" if "b \<in> set (pending f (w_sess w ! i))" for b
      using that assms(3) \<open>j < 2\<close> by (auto simp: own_def loose_def pending_def less_2 split: if_splits option.splits)
    ultimately have "set ?xs \<inter> set (L j) = {}" by auto
    then have "clear ?xs (w_msgs w) ! a = w_msgs w ! a" if "a \<in> set (L j)" for a
      using that chain_live [of "w_msgs w" _ "L j" a] w(5) [OF \<open>j < 2\<close>] by (auto simp: nth_clear msg_seq_def)
    then have "msg_seq (clear ?xs (w_msgs w)) (w_sess w ! j) (L j)"
      by (intro msg_seq_cong [OF _ _ w(5) [OF \<open>j < 2\<close>]]) simp_all
    then show ?thesis using that by (simp add: reset_result_sess)
  qed
  have "cells_ok ?w"
  proof (rule cells_ok_sess [OF w(3)])
    fix t c assume "t \<in> set (w_sess ?w)" "s_ci t = Some c"
    then have "t \<in> set (w_sess w)"
      using set_update_subset_insert [of "w_sess w" i] by (fastforce simp: reset_result_sess split: if_splits)
    with \<open>s_ci t = Some c\<close> w(3) show "cell_live w c" by (auto simp: cells_ok_def)
  qed simp_all
  moreover have "session_ok (w_sess ?w ! j) \<and> s_domain (w_sess ?w ! j) = of_nat j \<and> msg_seq (w_msgs ?w) (w_sess ?w ! j) ((L(i := [])) j)"
    if "j < 2" for j
    using that i other [OF that] w(4,6) [OF that]
    by (cases "j = i") (simp_all add: reset_result_sess session_ok_renew msg_seq_def)
  moreover have "set ((L(i := [])) 0) \<inter> set ((L(i := [])) 1) = {}" using w(7) by simp
  ultimately show ?thesis using w(1,2) by (simp add: store_ok_def)
qed

text \<open>A reset never fails: the list of the session is given up, everything else is kept.\<close>

lemma reset_run:
  assumes "store_ok L w" and "i < 2" and "own i L w"
  shows "\<exists>w'. session_reset i f w = Inr w' \<and> store_ok (L(i := [])) w'
    \<and> (\<forall>j < 2. s_new_msg (w_sess w' ! j) = (if j = i \<and> \<not> f then None else s_new_msg (w_sess w ! j)))
    \<and> (\<forall>b. loose b L w \<and> (f \<or> s_new_msg (w_sess w ! i) \<noteq> Some b) \<longrightarrow> loose b (L(i := [])) w')
    \<and> (\<forall>X. tight X L w \<longrightarrow> tight (X - set (pending f (w_sess w ! i))) (L(i := [])) w')
    \<and> w_cells w' = w_cells w \<and> w_cell_list w' = w_cell_list w \<and> w_previous_ts w' = w_previous_ts w
    \<and> w_cell_callback w' = w_cell_callback w \<and> (\<exists>es. w_out w' = w_out w @ es \<and> (\<forall>e \<in> set es. session_event e))"
proof (intro exI [of _ "reset_result i f (L i) w"] conjI allI impI)
  note w = store_okD [OF assms(1)]
  show "session_reset i f w = Inr (reset_result i f (L i) w)"
    using session_reset_ok [OF _ w(2) w(5) [OF assms(2)]] assms w(1) by (fastforce simp: own_def loose_def less_2)
  show "store_ok (L(i := [])) (reset_result i f (L i) w)" by (rule store_ok_reset [OF assms])
  show "s_new_msg (w_sess (reset_result i f (L i) w) ! j) = (if j = i \<and> \<not> f then None else s_new_msg (w_sess w ! j))" if "j < 2" for j
    using that w(1) assms(2) by (auto simp: reset_result_sess nth_list_update)
  show "loose b (L(i := [])) (reset_result i f (L i) w)" if "loose b L w \<and> (f \<or> s_new_msg (w_sess w ! i) \<noteq> Some b)" for b
    using that assms(2) by (auto simp: loose_def nth_clear pending_def less_2 split: option.splits)
  show "tight (X - set (pending f (w_sess w ! i))) (L(i := [])) (reset_result i f (L i) w)" if "tight X L w" for X
    using that assms(2) by (auto simp: tight_def nth_clear less_2)
  show "\<exists>es. w_out (reset_result i f (L i) w) = w_out w @ es \<and> (\<forall>e \<in> set es. session_event e)"
    by (auto simp: reset_result_def Let_def dest: close_events_session)
qed (simp_all add: reset_result_def Let_def)

lemma reset_outside: "\<not> i < length (w_sess w) \<Longrightarrow> w_auto_reset w \<Longrightarrow> session_reset i f w = Inl OutOfBounds"
  by (cases f) (simp_all add: session_reset_def on_cond_def by_sess_def sess_def rd_def)

section \<open>The contract of the handlers\<close>

lemma in_flightE:
  assumes "in_flight X a w"
  obtains L where "store_ok L w" "loose a L w" "tight (insert a X) L w" "\<And>i. i < 2 \<Longrightarrow> s_new_msg (w_sess w ! i) = Some a" "own 0 L w" "own 1 L w"
  using assms by (auto simp: in_flight_def own_def all_less_2 less_2)

lemma in_flight_new_msg: "in_flight X a w \<Longrightarrow> s \<in> set (w_sess w) \<Longrightarrow> s_new_msg s = Some a \<and> session_ok s"
  by (auto simp: in_flight_def store_ok_def set_two)

lemma in_flight_message:
  "in_flight X a w \<Longrightarrow> s \<in> set (w_sess w) \<Longrightarrow>
   \<exists>b m. s_new_msg s = Some b \<and> b < length (w_msgs w) \<and> w_msgs w ! b = Some m \<and> rm_domain m < 2"
  using in_flight_new_msg [of X a w s] by (auto simp: in_flight_def loose_def)

lemma in_flight_set_message:
  assumes "in_flight X a w" and "s \<in> set (w_sess w)" and "s_new_msg s = Some b" and "rm_domain m' < 2"
  shows "in_flight X a (w\<lparr>w_msgs := (w_msgs w)[b := Some m']\<rparr>)"
proof -
  from assms(1-3) have b: "b = a" using in_flight_new_msg by fastforce
  from assms(1) obtain L where L: "store_ok L w" "loose a L w" "tight (insert a X) L w" "\<forall>i < 2. s_new_msg (w_sess w ! i) = Some a"
    by (auto simp: in_flight_def)
  have "store_ok L (w\<lparr>w_msgs := (w_msgs w)[b := Some m']\<rparr>)"
    by (rule store_ok_msgs [OF L(1)]) (use L(2) in \<open>auto simp: b loose_def not_in_upd\<close>)
  moreover have "loose a L (w\<lparr>w_msgs := (w_msgs w)[b := Some m']\<rparr>)"
    using L(2) assms(4) by (auto simp: b loose_def)
  moreover have "tight (insert a X) L (w\<lparr>w_msgs := (w_msgs w)[b := Some m']\<rparr>)"
    using L(3) by (auto simp: b tight_def nth_list_update)
  ultimately show ?thesis using L(4) by (auto simp: in_flight_def)
qed

lemma loose_sess [simp]: "loose a L (w\<lparr>w_sess := x\<rparr>) = loose a L w"
  by (simp add: loose_def)

lemma tight_sess [simp]: "tight X L (w\<lparr>w_sess := x\<rparr>) = tight X L w"
  by (simp add: tight_def)

lemma nth_upd_same: "i < length xs \<Longrightarrow> g s = g (xs ! i) \<Longrightarrow> g (xs[i := s] ! j) = g (xs ! j)"
  by (cases "i = j") simp_all

lemma in_flight_set_session:
  assumes "in_flight X a w" and "i < length (w_sess w)" and "fits (w_sess w ! i) s"
  shows "in_flight X a (w\<lparr>w_sess := (w_sess w)[i := s]\<rparr>)"
proof -
  have "s_new_msg s = s_new_msg (w_sess w ! i)" using assms(3) by (simp add: fits_def links_def)
  with assms show ?thesis
    by (auto simp: in_flight_def nth_upd_same [where g = s_new_msg] intro: store_ok_fits)
qed

lemma session_ok_ci [simp]: "session_ok (s\<lparr>s_ci := c\<rparr>) = session_ok s"
  "session_ok (s\<lparr>s_new_msg := x\<rparr>) = session_ok s"
  by (simp_all add: session_ok_def rands_def)

lemma in_flight_set_cell:
  assumes "in_flight X a w" and "i < length (w_sess w)" and "cell_live w c"
  shows "in_flight X a (w\<lparr>w_sess := (w_sess w)[i := (w_sess w ! i)\<lparr>s_ci := Some c\<rparr>]\<rparr>)"
proof -
  from assms(1) obtain L where L: "store_ok L w" "loose a L w" "tight (insert a X) L w" "\<forall>j < 2. s_new_msg (w_sess w ! j) = Some a"
    by (auto simp: in_flight_def)
  have "store_ok L (w\<lparr>w_sess := (w_sess w)[i := (w_sess w ! i)\<lparr>s_ci := Some c\<rparr>]\<rparr>)"
    by (rule store_ok_sess [OF L(1)]) (use assms(2,3) store_okD [OF L(1)] in auto)
  with L assms(2) show ?thesis by (auto simp: in_flight_def nth_upd_same [where g = s_new_msg])
qed

lemma store_ok_cong:
  assumes "store_ok L w" and "w_sess w' = w_sess w" "w_msgs w' = w_msgs w" "w_auto_reset w' = w_auto_reset w" "cells_ok w'"
  shows "store_ok L w'"
  using assms by (simp add: store_ok_def)

lemma in_flight_cong:
  assumes "in_flight X a w" and "w_sess w' = w_sess w" "w_msgs w' = w_msgs w" "w_auto_reset w' = w_auto_reset w" "cells_ok w'"
  shows "in_flight X a w'"
  using assms store_ok_cong [OF _ assms(2-)] by (auto simp: in_flight_def loose_def tight_def)

lemma in_flight_cells: "in_flight X a w \<Longrightarrow> cells_ok w"
  by (auto simp: in_flight_def store_ok_def)

text \<open>Giving up the reference of a session.\<close>

lemma drop_ref:
  assumes "store_ok L w" and "i < 2"
  shows "store_ok L (w\<lparr>w_sess := (w_sess w)[i := (w_sess w ! i)\<lparr>s_new_msg := x\<rparr>]\<rparr>)"
  by (rule store_ok_sess [OF assms]) (use store_okD [OF assms(1)] assms(2) in auto)

lemma settledI: "store_ok L w \<Longrightarrow> outcome X a L w \<Longrightarrow> settled X a w"
  by (auto simp: settled_def)

lemma reset_law:
  assumes "in_flight X a w"
  shows "res_ok (in_flight X a) (session_reset i True w)"
proof (rule in_flightE [OF assms])
  fix L assume L: "store_ok L w" "loose a L w" "tight (insert a X) L w" "\<And>i. i < 2 \<Longrightarrow> s_new_msg (w_sess w ! i) = Some a" "own 0 L w" "own 1 L w"
  show ?thesis
  proof (cases "i < 2")
    case True
    then have "own i L w" using L(5,6) by (auto simp: less_2)
    from reset_run [OF L(1) True this, where f = True] L(2-4) show ?thesis
      by (auto simp: in_flight_def pending_def intro!: exI [of _ "L(i := [])"])
  qed (use store_okD(1,2) [OF L(1)] in \<open>simp add: reset_outside\<close>)
qed

lemma release_law:
  assumes "in_flight X a w"
  shows "res_ok (settled X a) (seqs [session_reset i False,
    (\<lambda>w. on_cond (w_auto_reset w) (upd (i + 1) (\<lambda>s. s\<lparr>s_new_msg := None\<rparr>)) w)] w)"
proof (rule in_flightE [OF assms])
  fix L assume L: "store_ok L w" "loose a L w" "tight (insert a X) L w" "\<And>i. i < 2 \<Longrightarrow> s_new_msg (w_sess w ! i) = Some a" "own 0 L w" "own 1 L w"
  show ?thesis
  proof (cases "i < 2")
    case True
    then have "own i L w" using L(5,6) by (auto simp: less_2)
    from reset_run [OF L(1) True this, where f = False] obtain w' where w': "session_reset i False w = Inr w'"
      "store_ok (L(i := [])) w'" "s_new_msg (w_sess w' ! i) = None" "tight X (L(i := [])) w'"
      using True L(3,4) by (auto simp: pending_def dest: tight_given_up)
    note k = store_okD(1,2) [OF w'(2)]
    show ?thesis
    proof (cases "i = 0")
      case True
      with w' k show ?thesis
        using drop_ref [OF w'(2), of 1 None] by (auto intro!: settledI [of "L(i := [])"] simp: outcome_def)
    qed (use w' k True in \<open>auto simp: less_2 upd_def sess_def rd_def\<close>)
  qed (use store_okD(1,2) [OF L(1)] in \<open>simp add: reset_outside\<close>)
qed

lemma reset_law_settled:
  assumes "store_ok L w" and "i < 2" and "own i L w" and "outcome X a L w"
    and "f \<or> i = 1 \<and> s_new_msg (w_sess w ! 1) = None"
  shows "res_ok (settled X a) (session_reset i f w)"
proof -
  from reset_run [OF assms(1-3), of f] obtain w' where w': "session_reset i f w = Inr w'" "store_ok (L(i := [])) w'"
    "\<forall>j < 2. s_new_msg (w_sess w' ! j) = (if j = i \<and> \<not> f then None else s_new_msg (w_sess w ! j))"
    "\<forall>b. loose b L w \<and> (f \<or> s_new_msg (w_sess w ! i) \<noteq> Some b) \<longrightarrow> loose b (L(i := [])) w'"
    "\<forall>X. tight X L w \<longrightarrow> tight (X - set (pending f (w_sess w ! i))) (L(i := [])) w'" by blast
  have "pending f (w_sess w ! i) = []" using assms(5) by (auto simp: pending_def)
  then have "outcome X a (L(i := [])) w'" using w' assms(4,5) by (auto simp: outcome_def)
  with w' show ?thesis by (auto intro: settledI)
qed

lemma own_None: "s_new_msg (w_sess w ! i) = None \<Longrightarrow> own i L w"
  by (simp add: own_def)

lemma rrc_setup_law:
  assumes "in_flight X a w"
  shows "res_ok (settled X a) (rrc_setup i w)"
proof -
  have "res_ok (\<lambda>w. res_ok (settled X a) (seqs [upd (i + 1) (\<lambda>s. s\<lparr>s_new_msg := None\<rparr>), session_reset (i + 1) True] w))
    (session_reset i True w)"
  proof (rule res_ok_mono [OF reset_law [OF assms]])
    fix w' assume "in_flight X a w'"
    then obtain L where L: "store_ok L w'" "loose a L w'" "tight (insert a X) L w'" "\<forall>j < 2. s_new_msg (w_sess w' ! j) = Some a"
      by (auto simp: in_flight_def)
    show "res_ok (settled X a) (seqs [upd (i + 1) (\<lambda>s. s\<lparr>s_new_msg := None\<rparr>), session_reset (i + 1) True] w')"
    proof (cases "i = 0")
      case True
      with store_okD(1) [OF L(1)] L show ?thesis
        by (auto intro!: reset_law_settled [OF drop_ref [OF L(1)]] own_None simp: outcome_def)
    qed (use store_okD(1) [OF L(1)] in \<open>simp add: upd_def sess_def rd_def\<close>)
  qed
  then show ?thesis by (simp add: rrc_setup_def)
qed

lemma rrc_release_law:
  assumes "in_flight X a w"
  shows "res_ok (settled X a) (rrc_release i w)"
proof (rule in_flightE [OF assms])
  fix L assume L: "store_ok L w" "loose a L w" "tight (insert a X) L w" "\<And>i. i < 2 \<Longrightarrow> s_new_msg (w_sess w ! i) = Some a" "own 0 L w" "own 1 L w"
  note k = store_okD [OF L(1)]
  show ?thesis
  proof (cases "i < 2")
    case True
    let ?w = "w\<lparr>w_sess := (w_sess w)[i := (w_sess w ! i)\<lparr>s_release := 1\<rparr>]\<rparr>"
    have "in_flight X a ?w" by (rule in_flight_set_session [OF assms]) (use True k in \<open>auto simp: fits_def\<close>)
    then obtain L where L: "store_ok L ?w" "own i L ?w" "tight (insert a X) L ?w" "s_new_msg (w_sess ?w ! i) = Some a"
      using True by (elim in_flightE) (auto simp: less_2)
    from reset_run [OF L(1) True L(2), where f = False] obtain w' where w': "session_reset i False ?w = Inr w'"
      "store_ok (L(i := [])) w'" "s_new_msg (w_sess w' ! i) = None" "tight X (L(i := [])) w'"
      using True L(3,4) by (auto simp: pending_def dest: tight_given_up)
    note k' = store_okD [OF w'(2)]
    show ?thesis
    proof (cases "i = 0")
      case True
      let ?s = "(w_sess w' ! 1)\<lparr>s_new_msg := None, s_release := 1\<rparr>"
      have "store_ok (L(i := [])) (w'\<lparr>w_sess := (w_sess w')[1 := ?s]\<rparr>)"
        by (rule store_ok_sess [OF w'(2)]) (use k' in auto)
      then have "res_ok (settled X a) (session_reset 1 False (w'\<lparr>w_sess := (w_sess w')[1 := ?s]\<rparr>))"
        by (rule reset_law_settled) (use w' k' True in \<open>auto intro!: own_None simp: outcome_def\<close>)
      with True w' k k' show ?thesis by (simp add: rrc_release_def)
    qed (use w' k k' True in \<open>simp add: rrc_release_def upd_def sess_def rd_def\<close>)
  qed (use k in \<open>simp add: rrc_release_def upd_def sess_def rd_def\<close>)
qed

lemma settled_set_session:
  assumes "settled X a w" and "i < length (w_sess w)" and "fits (w_sess w ! i) s"
  shows "settled X a (w\<lparr>w_sess := (w_sess w)[i := s]\<rparr>)"
proof -
  have "s_new_msg s = s_new_msg (w_sess w ! i)" using assms(3) by (simp add: fits_def links_def)
  then have same: "s_new_msg ((w_sess w)[i := s] ! j) = s_new_msg (w_sess w ! j)" for j
    using assms(2) by (simp add: nth_upd_same [where g = s_new_msg])
  obtain L where "store_ok L w" "outcome X a L w" using assms(1) by (auto simp: settled_def)
  then show ?thesis
    using store_ok_fits [of L w i s] assms(2,3) by (auto simp: outcome_def same intro!: settledI [of L])
qed

interpretation life: handler_contract "in_flight X a" "settled X a" for X a
proof
  fix w :: world and s s' :: session_info and b i c cs l n pc pn pi pt
  assume w: "in_flight X a w"
  {
    assume s: "s \<in> set (w_sess w)"
    show "session_ok s" using in_flight_new_msg [OF w s] by simp
    show "\<exists>a m. s_new_msg s = Some a \<and> a < length (w_msgs w) \<and> w_msgs w ! a = Some m \<and> rm_domain m < 2"
      by (rule in_flight_message [OF w s])
  }
  show "cells_ok w" by (rule in_flight_cells [OF w])
  show "settled X a w" using w by (auto simp: in_flight_def settled_def outcome_def)
  show "in_flight X a (w\<lparr>w_cells := cs, w_cell_list := l, w_cell_info_id := n\<rparr>)"
    if "cells_ok (w\<lparr>w_cells := cs, w_cell_list := l\<rparr>)"
    by (rule in_flight_cong [OF w]) (use that in \<open>simp_all add: cells_ok_def cell_live_def\<close>)
  show "in_flight X a (w\<lparr>w_paging_count := pc, w_paging_null := pn, w_paging_imsi := pi, w_paging_tmsi := pt\<rparr>)"
    by (rule in_flight_cong [OF w]) (use in_flight_cells [OF w] in \<open>simp_all add: cells_ok_def cell_live_def\<close>)
qed (blast intro: in_flight_set_message in_flight_set_session in_flight_set_cell reset_law release_law rrc_setup_law
    rrc_release_law settled_set_session | auto simp: settled_def store_ok_def set_two)+

section \<open>From the allocation to the end\<close>

text \<open>A message enters: both sessions point to it.\<close>

lemma attach_msg_law:
  assumes "store_ok L w" and "loose a L w" and "tight (insert a X) L w"
  shows "res_ok (in_flight X a) (attach_msg 0 a w)"
proof -
  note k = store_okD [OF assms(1)]
  let ?w0 = "w\<lparr>w_sess := (w_sess w)[0 := (w_sess w ! 0)\<lparr>s_new_msg := Some a\<rparr>]\<rparr>"
  let ?w1 = "?w0\<lparr>w_sess := (w_sess ?w0)[1 := (w_sess ?w0 ! 1)\<lparr>s_new_msg := Some a\<rparr>]\<rparr>"
  have "store_ok L ?w0" by (rule drop_ref [OF assms(1)]) simp
  then have "store_ok L ?w1" by (rule drop_ref) simp
  then have "in_flight X a ?w1"
    unfolding in_flight_def all_less_2 using assms(2,3) k(1) by (intro exI [of _ L]) simp
  moreover have "attach_msg 0 a w = Inr ?w1"
    using k(1,2) k(6) [of 0] k(6) [of 1] by (simp add: attach_msg_def by_sess_def)
  ultimately show ?thesis by simp
qed

text \<open>At the end it is linked to the list of a session \<dots>\<close>

lemma store_ok_linked:
  assumes "store_ok L w" and "i < 2" and "loose a L w"
  shows "store_ok (L(i := L i @ [a])) (linked i a w)"
proof -
  note k = store_okD [OF assms(1)]
  obtain m where a: "a < length (w_msgs w)" "w_msgs w ! a = Some m" "a \<notin> set (L 0)" "a \<notin> set (L 1)"
    using assms(3) by (auto simp: loose_def)
  define s' where "s' = (if s_first_msg (w_sess w ! i) = None then (w_sess w ! i)\<lparr>s_first_msg := Some a, s_last_msg := Some a\<rparr>
      else (w_sess w ! i)\<lparr>s_last_msg := Some a\<rparr>)"
  have s': "w_sess (linked i a w) = (w_sess w)[i := s']" by (simp add: linked_def s'_def Let_def)
  have same: "session_ok s' = session_ok (w_sess w ! i)" "s_domain s' = s_domain (w_sess w ! i)" "s_ci s' = s_ci (w_sess w ! i)"
    by (simp_all add: s'_def session_ok_def rands_def)
  have "cells_ok (linked i a w)"
  proof -
    have "cells_ok (w\<lparr>w_sess := (w_sess w)[i := s']\<rparr>)"
      using k(1,3) assms(2) by (intro cells_ok_upd) (auto simp: cells_ok_def same)
    then show ?thesis by (simp add: cells_ok_def cell_live_def s') (simp add: linked_def Let_def)
  qed
  moreover have "msg_seq (w_msgs (linked i a w)) (w_sess (linked i a w) ! i) (L i @ [a])"
    by (rule linked_msg_seq [OF _ k(5) [OF assms(2)] a(1,2)]) (use k(1) assms(2) a in \<open>auto simp: less_2\<close>)
  moreover have "msg_seq (w_msgs (linked i a w)) (w_sess (linked i a w) ! j) (L j)" if "j < 2" "j \<noteq> i" for j
  proof -
    have "\<forall>l. s_last_msg (w_sess w ! i) = Some l \<longrightarrow> l \<in> set (L i)" "a \<notin> set (L j)" "set (L i) \<inter> set (L j) = {}"
      using k(5) [OF assms(2)] a assms(2) that k(7) by (auto simp: msg_seq_def less_2 split: if_splits)
    then have "chain (w_msgs (linked i a w)) (s_first_msg (w_sess w ! j)) (L j)"
      using k(5) [OF that(1)] by (intro linked_other) (auto simp: msg_seq_def)
    with k(5) [OF that(1)] that show ?thesis by (simp add: msg_seq_def s')
  qed
  moreover have "set ((L(i := L i @ [a])) 0) \<inter> set ((L(i := L i @ [a])) 1) = {}"
    using k(7) a assms(2) by (auto simp: less_2)
  moreover have "session_ok (w_sess (linked i a w) ! j) \<and> s_domain (w_sess (linked i a w) ! j) = of_nat j" if "j < 2" for j
    using k(1) k(4,6) [OF that] assms(2) by (cases "j = i") (simp_all add: s' same)
  ultimately show ?thesis using k(1,2) unfolding store_ok_def by auto
qed

lemma live_upd: "b < length xs \<Longrightarrow> (xs[a := map_option f (xs ! a)] ! b = None) = (xs ! b = None)"
  by (cases "a = b") auto

lemma linked_live: "b < length (w_msgs w) \<Longrightarrow> (w_msgs (linked i a w) ! b = None) = (w_msgs w ! b = None)"
  by (simp add: linked_def Let_def live_upd split: option.splits)

text \<open>\<dots> or it is freed.\<close>

lemma store_ok_free: "store_ok L w \<Longrightarrow> loose a L w \<Longrightarrow> store_ok L (w\<lparr>w_msgs := (w_msgs w)[a := None]\<rparr>)"
  by (rule store_ok_msgs) (auto simp: loose_def not_in_upd)

definition held :: "nat set \<Rightarrow> nat \<Rightarrow> world \<Rightarrow> bool" where
  "held X a w \<longleftrightarrow> settled X a w \<and> s_new_msg (w_sess w ! 0) = Some a"

lemma heldE:
  assumes "held X a w"
  obtains L m where "store_ok L w" "loose a L w" "tight (insert a X) L w" "a < length (w_msgs w)" "w_msgs w ! a = Some m"
    "rm_domain m < 2" "length (w_sess w) = 2" "\<And>i. i < 2 \<Longrightarrow> s_new_msg (w_sess w ! i) \<in> {None, Some a}"
  using assms by (auto simp: held_def settled_def outcome_def loose_def store_ok_def less_2)

lemma update_timestamps_law:
  assumes "i < 2" and "held X a w"
  shows "res_ok (\<lambda>w'. held X a w' \<and> w_msgs w' = w_msgs w) (update_timestamps i w)"
proof (rule heldE [OF assms(2)])
  fix L m assume h: "store_ok L w" "a < length (w_msgs w)" "w_msgs w ! a = Some m" "length (w_sess w) = 2"
    "\<And>i. i < 2 \<Longrightarrow> s_new_msg (w_sess w ! i) \<in> {None, Some a}"
  let ?f = "\<lambda>s fn. s\<lparr>s_first_fn := (if s_first_fn s = 0 then fn_or_max fn else s_first_fn s), s_last_fn := fn\<rparr>"
  have "held X a (w\<lparr>w_sess := (w_sess w)[i := ?f (w_sess w ! i) fn]\<rparr>)" for fn
    using assms h(4) store_okD(4) [OF h(1) assms(1)]
    by (auto simp: held_def nth_upd_same [where g = s_new_msg] intro!: settled_set_session simp: fits_def)
  then show ?thesis
    using assms h(2-4) h(5) [OF assms(1)]
    by (auto simp: update_timestamps_def by_sess_def msg_fn_def)
qed

lemma link_end:
  assumes "held X a w" and "d < 2"
  shows "res_ok (idle X) (seqs [link_to_msg_list d (Some a), upd 0 (\<lambda>s. s\<lparr>s_new_msg := None\<rparr>),
      (\<lambda>w. rbind (deref (Some a) w) (\<lambda>m. on_cond (w_output_gsmtap w) (emit (Net_send_msg m)) w))] w)"
proof (rule heldE [OF assms(1)])
  fix L m assume h: "store_ok L w" "loose a L w" "tight (insert a X) L w" "a < length (w_msgs w)" "w_msgs w ! a = Some m" "length (w_sess w) = 2"
  let ?L = "L(d := L d @ [a])" and ?w = "linked d a w"
  let ?w' = "?w\<lparr>w_sess := (w_sess ?w)[0 := (w_sess ?w ! 0)\<lparr>s_new_msg := None\<rparr>]\<rparr>"
  have l: "link_to_msg_list d (Some a) w = Inr ?w"
    by (rule link_to_msg_list_linked [OF _ store_okD(5) [OF h(1) assms(2)] h(4,5)])
      (use h(2,6) assms(2) in \<open>auto simp: loose_def less_2\<close>)
  have s: "store_ok ?L ?w'" by (rule drop_ref [OF store_ok_linked [OF h(1) assms(2) h(2)]]) simp
  have t: "tight X ?L ?w'" using h(3) assms(2) by (auto simp: tight_def linked_live less_2 simp flip: not_None_eq)
  have live: "\<exists>m'. w_msgs ?w ! a = Some m'" using linked_live [OF h(4), of d a] h(5) by auto
  have "idle X ?w'" "idle X (?w'\<lparr>w_out := x\<rparr>)" for x
    using h(6) s t store_ok_cong [OF s, of "?w'\<lparr>w_out := x\<rparr>"] store_okD(3) [OF s]
    by (auto simp: idle_def tight_def cells_ok_def cell_live_def intro!: exI [of _ ?L])
  with l live h(4,6) show ?thesis by (auto simp: on_cond_def emit_def)
qed

lemma free_end:
  assumes "held X a w"
  shows "res_ok (idle X) (seqs [free_msg a, upd 0 (\<lambda>s. s\<lparr>s_new_msg := None\<rparr>)] w)"
proof (rule heldE [OF assms(1)])
  fix L m assume h: "store_ok L w" "loose a L w" "tight (insert a X) L w" "a < length (w_msgs w)" "w_msgs w ! a = Some m" "length (w_sess w) = 2"
  have "tight X L (w\<lparr>w_msgs := (w_msgs w)[a := None]\<rparr>)"
    using h(3,4) by (auto simp: tight_def nth_list_update)
  with drop_ref [OF store_ok_free [OF h(1,2)], of 0 None] h(4-6) show ?thesis
    by (auto simp: free_msg_def idle_def intro!: exI [of _ L])
qed

lemma finish_msg_law:
  assumes "settled X a w"
  shows "res_ok (idle X) (finish_msg 0 a w)"
proof (cases "s_new_msg (w_sess w ! 0)")
  case None
  obtain L where "store_ok L w" "outcome X a L w" using assms by (auto simp: settled_def)
  with None show ?thesis by (auto simp: finish_msg_def by_sess_def store_ok_def outcome_def idle_def)
next
  case (Some b)
  then have h: "held X a w" using assms by (auto simp: held_def settled_def outcome_def)
  then obtain m where m: "a < length (w_msgs w)" "w_msgs w ! a = Some m" "rm_domain m < 2" "length (w_sess w) = 2"
    by (rule heldE)
  define d where "d = unat (rm_domain m)"
  have d: "d < 2" using m(3) by (simp add: d_def word_less_nat_alt)
  have b: "b = a" using Some h by (simp add: held_def)
  have "res_ok (\<lambda>w. res_ok (idle X) (if nz (rm_flags m AND MSG_DECODED)
      then seqs [link_to_msg_list d (Some a), upd 0 (\<lambda>s. s\<lparr>s_new_msg := None\<rparr>),
        (\<lambda>w. rbind (deref (Some a) w) (\<lambda>m. on_cond (w_output_gsmtap w) (emit (Net_send_msg m)) w))] w
      else seqs [free_msg a, upd 0 (\<lambda>s. s\<lparr>s_new_msg := None\<rparr>)] w) \<and> deref (Some a) w = Inr m)
    (update_timestamps d w)"
    by (rule res_ok_mono [OF update_timestamps_law [OF d h]])
      (use link_end [OF _ d] free_end m(1,2) in \<open>simp add: if_split [where P = "res_ok (idle X)"] del: seqs.simps\<close>)
  then show ?thesis
    using Some m(1-4) b by (cases "update_timestamps d w") (auto simp: finish_msg_def by_sess_def d_def)
qed

end
