(* ===== verification/Program.thy ===== *)
theory Program
  imports Msg_Life
begin

text \<open>
  The program as a whole: messages arrive in any order, the cells are written out now and then, the clock
  goes on, and at the end the sessions are destroyed.  The states between two messages are reachable
  states of a transition system; the theorems of this theory are about all of them.
\<close>

section \<open>Messages\<close>

text \<open>
  The messages that the front ends produce: \<open>new_l2\<close> and the functions of \<open>diag_input.c\<close> set one of
  the channel flags of the technology.
\<close>

definition entry_ok :: "radio_message \<Rightarrow> bool" where
  "entry_ok m \<longleftrightarrow> rm_domain m < 2 \<and> radio_message_ok m
     \<and> (rm_rat m = RAT_GSM \<and> rm_flags m AND 0x0f \<in> {MSG_SACCH, MSG_SDCCH, MSG_FACCH, MSG_BCCH}
        \<or> rm_rat m = RAT_UMTS \<and> (nz (rm_flags m AND MSG_SDCCH) \<or> nz (rm_flags m AND MSG_FACCH))
        \<or> rm_rat m = RAT_LTE)"

lemma flags_decoded:
  "(f OR MSG_DECODED) AND 0x0f = f AND (0x0f :: u8)" "(f OR MSG_DECODED) AND MSG_SDCCH = f AND MSG_SDCCH"
  "(f OR MSG_DECODED) AND MSG_FACCH = f AND MSG_FACCH"
  by (simp_all add: radio_consts bit.conj_disj_distrib2)

text \<open>A message is allocated, filled and handled.\<close>

definition take_msg :: "rrc_lib \<Rightarrow> radio_message \<Rightarrow> world \<Rightarrow> world res" where
  "take_msg lib m w = (case malloc_msg m w of (a, w) \<Rightarrow> handle_radio_msg lib 0 a w)"

lemma fresh_store:
  assumes "store_ok L w" and "tight X L w" and "rm_domain m < 2"
  shows "store_ok L (w\<lparr>w_msgs := w_msgs w @ [Some m]\<rparr>)" "loose (length (w_msgs w)) L (w\<lparr>w_msgs := w_msgs w @ [Some m]\<rparr>)"
    "tight (insert (length (w_msgs w)) X) L (w\<lparr>w_msgs := w_msgs w @ [Some m]\<rparr>)"
proof -
  have live: "b < length (w_msgs w)" if "b \<in> set (L 0) \<union> set (L 1)" for b
    using that store_okD(5) [OF assms(1), of 0] store_okD(5) [OF assms(1), of 1] by (auto simp: msg_seq_def dest: chain_live)
  show "store_ok L (w\<lparr>w_msgs := w_msgs w @ [Some m]\<rparr>)"
    by (rule store_ok_msgs [OF assms(1)]) (use live in \<open>auto simp: nth_append\<close>)
  show "loose (length (w_msgs w)) L (w\<lparr>w_msgs := w_msgs w @ [Some m]\<rparr>)"
    using live [of "length (w_msgs w)"] assms(3) by (auto simp: loose_def)
  show "tight (insert (length (w_msgs w)) X) L (w\<lparr>w_msgs := w_msgs w @ [Some m]\<rparr>)"
    using assms(2) by (auto simp: tight_def nth_append)
qed

lemma take_msg_law:
  assumes "idle X w" and "entry_ok m" and "rrc_lib_ok lib"
  shows "res_ok (idle X) (take_msg lib m w)"
proof -
  from assms(1) obtain L where L: "store_ok L w" "tight X L w" by (auto simp: idle_def)
  let ?a = "length (w_msgs w)" and ?m = "m\<lparr>rm_info := [], rm_flags := rm_flags m OR MSG_DECODED\<rparr>"
  let ?w = "w\<lparr>w_msgs := w_msgs w @ [Some ?m]\<rparr>"
  have d: "rm_domain ?m < 2" using assms(2) by (simp add: entry_ok_def)
  note at = attach_msg_law [OF fresh_store [OF L d]]
  have fin: "settled X ?a w' \<Longrightarrow> res_ok (idle X) (finish_msg 0 ?a w')" for w' by (rule finish_msg_law)
  define body where "body = (\<lambda>ul fn w'. if rm_rat m = RAT_GSM then rbind (handle_gsm 0 ?m ul fn w') (finish_msg 0 ?a)
     else if rm_rat m = RAT_UMTS then rbind (handle_umts lib 0 ?m ul w') (finish_msg 0 ?a)
     else if rm_rat m = RAT_LTE then rbind (handle_eps 0 (bb_data (rm_bb m)) (rm_msg_len m) w') (finish_msg 0 ?a)
     else Inr w')"
  have run: "res_ok (idle X) (body ul fn w')" if "in_flight X ?a w'" for ul fn w'
    unfolding body_def using assms(2,3) that
    by (auto simp: entry_ok_def flags_decoded radio_consts(1-3)
        intro!: life.handle_gsm_safe life.handle_umts_safe life.handle_eps_safe fin intro: life.weaken)
  have "handle_radio_msg lib 0 ?a (w\<lparr>w_msgs := w_msgs w @ [Some m]\<rparr>)
      = rbind (msg_uplink ?m) (\<lambda>ul. rbind (msg_fn ?m) (\<lambda>fn. rbind (attach_msg 0 ?a ?w) (body ul fn)))"
    by (simp add: handle_radio_msg_def body_def upd_msg_def deref_def cong: if_cong)
  then show ?thesis
    unfolding take_msg_def malloc_msg_def using run
    by (auto simp: msg_uplink_def msg_fn_def intro: res_ok_mono [OF at])
qed

section \<open>Writing out the cells\<close>

lemma rfold_total:
  assumes "R s" and "\<And>x s. x \<in> set xs \<Longrightarrow> R s \<Longrightarrow> \<exists>s'. f x s = Inr s' \<and> R s'"
  shows "\<exists>s'. rfold f xs s = Inr s' \<and> R s'"
  using assms
proof (induction xs arbitrary: s)
  case (Cons x xs)
  from Cons.prems(2) [of x s] Cons.prems(1) obtain t where t: "f x s = Inr t" "R t" by auto
  moreover have "\<exists>s'. rfold f xs t = Inr s' \<and> R s'" by (rule Cons.IH [OF t(2)]) (use Cons.prems(2) in auto)
  ultimately show ?case by auto
qed simp

definition same_store :: "world \<Rightarrow> world \<Rightarrow> bool" where
  "same_store w w' \<longleftrightarrow> w_sess w' = w_sess w \<and> w_msgs w' = w_msgs w \<and> w_auto_reset w' = w_auto_reset w
     \<and> w_cell_list w' = w_cell_list w \<and> w_previous_ts w' = w_previous_ts w \<and> cells_ok w'"

lemma dump_cell_ok:
  assumes "same_store w0 w" and "a \<in> set (w_cell_list w0)"
  shows "\<exists>w'. dump_cell a w = Inr w' \<and> same_store w0 w'"
proof -
  have w: "cells_ok w" "a \<in> set (w_cell_list w)" using assms by (auto simp: same_store_def)
  then obtain ci where ci: "a < length (w_cells w)" "w_cells w ! a = Some ci" by (auto simp: cells_ok_def cell_live_def)
  then have "cell_ok ci" using w(1) by (metis cells_ok_def nth_mem)
  then have "\<exists>es. rfold (\<lambda>i es. rbind (arfcn_list_make_sql ci i) (\<lambda>e. Inr (es @ e))) [0..<SI_MAX] [Sql_cell ci] = Inr es \<and> True"
    by (intro rfold_total) (auto simp: arfcn_list_make_sql_def cell_ok_def SI_MAX_def)
  then obtain es where es: "rfold (\<lambda>i es. rbind (arfcn_list_make_sql ci i) (\<lambda>e. Inr (es @ e))) [0..<SI_MAX] [Sql_cell ci] = Inr es"
    by blast
  have "cells_ok (w\<lparr>w_cells := (w_cells w)[a := Some (ci\<lparr>ci_stored := 1\<rparr>)]\<rparr>)"
    using w ci \<open>cell_ok ci\<close>
    by (auto simp: cells_ok_def cell_live_def nth_list_update dest!: set_update_subset_insert [THEN subsetD])
  then have "same_store w0 ((call_back es w)\<lparr>w_cells := (w_cells w)[a := Some (ci\<lparr>ci_stored := 1\<rparr>)]\<rparr>)"
    using assms(1) by (auto simp: same_store_def call_back_def cells_ok_def cell_live_def)
  with ci es show ?thesis
    by (auto simp: dump_cell_def cell_at_def upd_cell_def call_back_def)
qed

lemma dump_ok:
  assumes "cells_ok w"
  shows "\<exists>w'. cell_and_paging_dump ts forced False w = Inr w' \<and> w_sess w' = w_sess w \<and> w_msgs w' = w_msgs w
    \<and> w_auto_reset w' = w_auto_reset w \<and> cells_ok w'"
proof -
  have "\<exists>w'. rfold dump_cell (w_cell_list w) w = Inr w' \<and> same_store w w'"
    by (rule rfold_total) (use assms dump_cell_ok in \<open>auto simp: same_store_def\<close>)
  then obtain w1 where "rfold dump_cell (w_cell_list w) w = Inr w1" "same_store w w1" by blast
  with assms show ?thesis
    by (auto simp: cell_and_paging_dump_def same_store_def Let_def call_back_def paging_reset_def cells_ok_def cell_live_def)
qed

lemma idle_dump:
  assumes "idle X w" and "cell_and_paging_dump ts forced False w = Inr w'"
  shows "idle X w'"
proof -
  obtain L where L: "store_ok L w" "tight X L w" "s_new_msg (w_sess w ! 0) = None" using assms(1) by (auto simp: idle_def)
  from dump_ok [OF store_okD(3) [OF L(1)], of ts forced] assms(2)
  have "w_sess w' = w_sess w" "w_msgs w' = w_msgs w" "w_auto_reset w' = w_auto_reset w" "cells_ok w'" by auto
  with L store_ok_cong [OF L(1)] show ?thesis by (auto simp: idle_def tight_def intro!: exI [of _ L])
qed

section \<open>Reachable states\<close>

text \<open>
  What happens to the state of the parser: the program starts with \<open>session_init\<close> in automatic mode
  and no cell; then messages come in, the cells are written out, the clock goes on, and the time and the application
  of the sessions are set.  A front end may also allocate a message and never free it; the second argument of
  \<open>reachable\<close> collects the addresses that were lost in this way.
\<close>

definition start_world :: "world \<Rightarrow> u32 \<Rightarrow> bool \<Rightarrow> bool \<Rightarrow> bool \<Rightarrow> world" where
  "start_world w sid console gsmtap callback =
     session_init sid console gsmtap callback (w\<lparr>w_auto_reset := True, w_msgs := [], w_cells := [], w_cell_list := []\<rparr>)"

definition lose_msg :: "radio_message \<Rightarrow> world \<Rightarrow> world" where
  "lose_msg m w = snd (malloc_msg m w)"

definition set_times :: "(u8 \<Rightarrow> timeval \<Rightarrow> timeval) \<Rightarrow> world \<Rightarrow> world" where
  "set_times f w = w\<lparr>w_sess := map (\<lambda>s. s\<lparr>s_timestamp := f (s_domain s) (s_timestamp s)\<rparr>) (w_sess w)\<rparr>"

definition set_appids :: "u32 \<Rightarrow> world \<Rightarrow> world" where
  "set_appids n w = w\<lparr>w_sess := map (\<lambda>s. s\<lparr>s_appid := n\<rparr>) (w_sess w)\<rparr>"

text \<open>What a session may learn from the name of a file: everything else is as before.\<close>

definition unnamed :: "session_info \<Rightarrow> session_info" where
  "unnamed s = s\<lparr>s_imsi := replicate 32 0, s_timestamp := zero_timeval, s_rat := 0, s_mcc := 0, s_mnc := 0, s_lac := 0, s_cid := 0, s_appid := 0\<rparr>"

definition named_as :: "session_info \<Rightarrow> session_info \<Rightarrow> bool" where
  "named_as s s' \<longleftrightarrow> length (s_imsi s') = length (s_imsi s) \<and> unnamed s' = unnamed s"

inductive reachable :: "rrc_lib \<Rightarrow> nat set \<Rightarrow> world \<Rightarrow> bool" for lib where
  start: "reachable lib {} (start_world w sid console gsmtap callback)"
| message: "reachable lib X w \<Longrightarrow> entry_ok m \<Longrightarrow> take_msg lib m w = Inr w' \<Longrightarrow> reachable lib X w'"
| lost: "reachable lib X w \<Longrightarrow> reachable lib (insert (length (w_msgs w)) X) (lose_msg m w)"
| dump: "reachable lib X w \<Longrightarrow> cell_and_paging_dump ts forced False w = Inr w' \<Longrightarrow> reachable lib X w'"
| clock: "reachable lib X w \<Longrightarrow> reachable lib X (w\<lparr>w_now := n, w_tod := t\<rparr>)"
| times: "reachable lib X w \<Longrightarrow> reachable lib X (set_times f w)"
| appids: "reachable lib X w \<Longrightarrow> reachable lib X (set_appids n w)"
| named: "reachable lib X w \<Longrightarrow> \<forall>s \<in> set (w_sess w). named_as s (f s) \<Longrightarrow> reachable lib X (w\<lparr>w_sess := map f (w_sess w)\<rparr>)"
| cells: "reachable lib X w \<Longrightarrow> reachable lib X (cell_init cid ts callback w)"

lemma idle_start: "idle {} (start_world w sid console gsmtap callback)"
proof -
  have "session_ok (zero_session\<lparr>s_sql_callback := c, s_id := n\<rparr>)"
    "session_ok (zero_session\<lparr>s_sql_callback := c, s_id := n, s_domain := d\<rparr>)" for c n d
    using session_ok_zero by (simp_all add: session_ok_def rands_def)
  then have "store_ok (\<lambda>_. []) (start_world w sid console gsmtap callback)"
    by (auto simp: store_ok_def start_world_def session_init_def all_less_2 msg_seq_def cells_ok_def cell_live_def
        zero_session_def DOMAIN_PS_def)
  then show ?thesis by (auto simp: idle_def tight_def start_world_def session_init_def zero_session_def)
qed

lemma idle_clock: "idle X w \<Longrightarrow> idle X (w\<lparr>w_now := n, w_tod := t\<rparr>)"
  by (auto simp: idle_def store_ok_def tight_def cells_ok_def cell_live_def)

lemma idle_lost:
  assumes "idle X w"
  shows "idle (insert (length (w_msgs w)) X) (lose_msg m w)"
proof -
  obtain L where L: "store_ok L w" "tight X L w" "s_new_msg (w_sess w ! 0) = None" using assms by (auto simp: idle_def)
  have "length (w_msgs w) \<le> length (w_msgs w @ [Some m])" by simp
  moreover have "(w_msgs w @ [Some m]) ! b = w_msgs w ! b" if "b \<in> set (L 0) \<union> set (L 1)" for b
    using that store_okD(5) [OF L(1), of 0] store_okD(5) [OF L(1), of 1]
    by (auto simp: msg_seq_def nth_append dest: chain_live)
  ultimately have "store_ok L (lose_msg m w)"
    unfolding lose_msg_def malloc_msg_def snd_conv by (rule store_ok_msgs [OF L(1)])
  with L(2,3) show ?thesis by (auto simp: idle_def tight_def lose_msg_def malloc_msg_def nth_append intro!: exI [of _ L])
qed

lemma idle_map_sessions:
  assumes "idle X w" and "\<And>s. session_ok (f s) = session_ok s" and "\<And>s. links (f s) = links s"
  shows "idle X (w\<lparr>w_sess := map f (w_sess w)\<rparr>)"
proof -
  obtain L where L: "store_ok L w" "tight X L w" "s_new_msg (w_sess w ! 0) = None" using assms(1) by (auto simp: idle_def)
  note k = store_okD [OF L(1)]
  have f: "s_first_msg (f s) = s_first_msg s" "s_last_msg (f s) = s_last_msg s" "s_new_msg (f s) = s_new_msg s"
    "s_domain (f s) = s_domain s" "s_ci (f s) = s_ci s" for s
    using assms(3) [of s] by (simp_all add: links_def)
  have "cells_ok (w\<lparr>w_sess := map f (w_sess w)\<rparr>)"
    using k(3) by (auto simp: cells_ok_def cell_live_def f)
  then have "store_ok L (w\<lparr>w_sess := map f (w_sess w)\<rparr>)"
    using L(1) by (auto simp: store_ok_def less_2 msg_seq_def f assms(2))
  with L(2,3) k(1) show ?thesis by (auto simp: idle_def f)
qed

lemma idle_cell_init: "idle X w \<Longrightarrow> idle X (cell_init cid ts callback w)"
  by (auto simp: idle_def store_ok_def tight_def cells_ok_def cell_live_def cell_init_def paging_reset_def)

lemma idle_times: "idle X w \<Longrightarrow> idle X (set_times f w)" "idle X w \<Longrightarrow> idle X (set_appids n w)"
  unfolding set_times_def set_appids_def
  by (erule idle_map_sessions; simp add: session_ok_def rands_def links_def)+

lemma named_as_ok:
  assumes "named_as s s'"
  shows "session_ok s' = session_ok s" "links s' = links s"
proof -
  have "session_ok x \<longleftrightarrow> session_ok (unnamed x) \<and> length (s_imsi x) = 32" "links (unnamed x) = links x" for x
    by (auto simp: session_ok_def rands_def links_def unnamed_def)
  with assms show "session_ok s' = session_ok s" "links s' = links s" unfolding named_as_def by metis+
qed

lemma idle_named:
  assumes "idle X w" and "\<forall>s \<in> set (w_sess w). named_as s (f s)"
  shows "idle X (w\<lparr>w_sess := map f (w_sess w)\<rparr>)"
proof -
  let ?f = "\<lambda>s. if named_as s (f s) then f s else s"
  have "map f (w_sess w) = map ?f (w_sess w)" using assms(2) by auto
  moreover have "session_ok (?f s) = session_ok s" "links (?f s) = links s" for s
    by (simp_all add: named_as_ok)
  ultimately show ?thesis using idle_map_sessions [OF assms(1), of ?f] by metis
qed

lemma idle_reachable:
  assumes "rrc_lib_ok lib" and "reachable lib X w"
  shows "idle X w"
  using assms(2)
proof induction
  case (message X w m w')
  then show ?case using take_msg_law [of X w m lib] assms(1) by simp
qed (auto simp: idle_start idle_clock idle_lost idle_times idle_cell_init idle_named intro: idle_dump)

text \<open>An instance: a library whose decoders take the octets behind the header for the embedded message.\<close>

definition zero_world :: world where
  "zero_world = \<lparr>w_sess = [], w_msgs = [], w_cells = [], w_cell_list = [], w_cell_info_id = 0, w_previous_ts = 0,
     w_cell_callback = False, w_paging_count = [0, 0, 0], w_paging_imsi = 0, w_paging_tmsi = 0, w_paging_null = 0, w_s_id = 0,
     w_auto_reset = True, w_auto_timestamp = False, w_now = 0, w_tod = zero_timeval, w_output_console = False,
     w_output_gsmtap = False, w_stack = replicate 32 0, w_out = []\<rparr>"

definition sample_lib :: rrc_lib where
  "sample_lib = \<lparr>pr_ul_setup_complete = 12, pr_ul_release_complete = 15, pr_ul_security_complete = 18,
     pr_ul_initial_transfer = 7, pr_ul_uplink_transfer = 20, pr_dl_signalling_release = 17, pr_dl_connection_release = 14,
     pr_dl_security_command = 16, pr_dl_direct_transfer = 6, pr_dl_connection_setup = 4, pr_dl_ccch_release = 3,
     pr_dl_connection_reject = 2, ul_dcch_decode = (\<lambda>msg n. Some (UL_initial_transfer 0 (Some (drop 2 msg)))),
     dl_dcch_decode = (\<lambda>msg n. Some (DL_transfer (DDT_r3 0 (Some (drop 2 msg)))))\<rparr>"

lemma sample_lib_ok: "rrc_lib_ok sample_lib"
  by (auto simp: rrc_lib_ok_def sample_lib_def)

definition sample_msg :: radio_message where
  "sample_msg = zero_radio_message\<lparr>rm_flags := MSG_SDCCH, rm_msg := [0x03, 0x03, 0x01] @ replicate 253 0x2b, rm_msg_len := 23\<rparr>"

lemma sample_msg_ok: "entry_ok sample_msg"
  by (simp add: entry_ok_def sample_msg_def zero_radio_message_def radio_message_ok_def radio_consts)

text \<open>C2. The invariant of the message store.  In every state the program reaches between two messages
  (any sequence of GSM, UMTS and LTE messages, with any decoder of RRC messages that keeps its contract),
  the two sessions own disjoint lists of live messages with consistent first, last and next
  links; nothing dangles, and nothing leaks but the messages that a front end has lost; every buffer of a
  session has its declared size, and the cells that sessions refer to are alive.\<close>

theorem reachable_invariant:
  assumes "rrc_lib_ok lib" and "reachable lib X w"
  shows "\<exists>xs ys. msg_seq (w_msgs w) (w_sess w ! 0) xs \<and> msg_seq (w_msgs w) (w_sess w ! 1) ys \<and> set xs \<inter> set ys = {}
    \<and> {b. b < length (w_msgs w) \<and> w_msgs w ! b \<noteq> None} - X = set xs \<union> set ys - X
    \<and> set xs \<union> set ys \<subseteq> {b. b < length (w_msgs w) \<and> w_msgs w ! b \<noteq> None}
    \<and> length (w_sess w) = 2 \<and> (\<forall>s \<in> set (w_sess w). session_ok s) \<and> cells_ok w"
proof -
  from idle_reachable [OF assms] obtain L where L: "store_ok L w" "tight X L w" by (auto simp: idle_def)
  note k = store_okD [OF L(1)]
  have "b < length (w_msgs w) \<and> w_msgs w ! b \<noteq> None" if "b \<in> set (L 0) \<union> set (L 1)" for b
    using that k(5) [of 0] k(5) [of 1] by (auto simp: msg_seq_def dest: chain_live)
  then have "set (L 0) \<union> set (L 1) \<subseteq> {b. b < length (w_msgs w) \<and> w_msgs w ! b \<noteq> None}"
    "{b. b < length (w_msgs w) \<and> w_msgs w ! b \<noteq> None} - X = set (L 0) \<union> set (L 1) - X"
    using L(2) unfolding tight_def by blast+
  with k show ?thesis by (intro exI [of _ "L 0"] exI [of _ "L 1"]) (auto simp: set_two)
qed

theorem reachable_invariant_witness:
  "let w = start_world zero_world 1 False False False in
   \<exists>xs ys. msg_seq (w_msgs w) (w_sess w ! 0) xs \<and> msg_seq (w_msgs w) (w_sess w ! 1) ys \<and> set xs \<inter> set ys = {}
    \<and> {b. b < length (w_msgs w) \<and> w_msgs w ! b \<noteq> None} - {} = set xs \<union> set ys - {}
    \<and> set xs \<union> set ys \<subseteq> {b. b < length (w_msgs w) \<and> w_msgs w ! b \<noteq> None}
    \<and> length (w_sess w) = 2 \<and> (\<forall>s \<in> set (w_sess w). session_ok s) \<and> cells_ok w"
  unfolding Let_def by (rule reachable_invariant [OF sample_lib_ok reachable.start])

text \<open>C1. No temporal memory error.  Whatever messages came before, handling one more message never
  dereferences a null pointer or a freed message, never fails an assertion of the code and never aborts: the only
  faults that remain are reads or writes outside of a buffer, uses of unwritten memory, and the endless loop
  of the short message parser.\<close>

theorem no_temporal_fault:
  assumes "rrc_lib_ok lib" and "reachable lib X w" and "entry_ok m"
  shows "take_msg lib m w \<notin> Inl ` {NullDeref, UseAfterFree, AssertFailed, Aborted}"
  using take_msg_law [OF idle_reachable [OF assms(1,2)] assms(3,1)] by auto

theorem no_temporal_fault_witness:
  "take_msg sample_lib sample_msg (start_world zero_world 1 False False False)
     \<notin> Inl ` {NullDeref, UseAfterFree, AssertFailed, Aborted}"
  by (rule no_temporal_fault [OF sample_lib_ok reachable.start sample_msg_ok])

section \<open>The end of the program\<close>

text \<open>Both lists are given up, one after the other.\<close>

lemma destroy_sessions:
  assumes "idle X w"
  shows "\<exists>w' es. seqs [session_reset 0 False, upd 1 (\<lambda>s. s\<lparr>s_new_msg := None\<rparr>), session_reset 1 False] w = Inr w'
    \<and> (\<forall>b < length (w_msgs w'). b \<notin> X \<longrightarrow> w_msgs w' ! b = None)
    \<and> w_cells w' = w_cells w \<and> w_cell_list w' = w_cell_list w \<and> w_previous_ts w' = w_previous_ts w
    \<and> w_cell_callback w' = w_cell_callback w \<and> cells_ok w' \<and> w_out w' = w_out w @ es \<and> (\<forall>e \<in> set es. session_event e)"
proof -
  from assms obtain L where L: "store_ok L w" "tight X L w" "s_new_msg (w_sess w ! 0) = None" by (auto simp: idle_def)
  from reset_run [OF L(1) _ own_None [OF L(3)], of False] L(2,3) obtain w1 es1 where
    1: "session_reset 0 False w = Inr w1" "store_ok (L(0 := [])) w1" "tight X (L(0 := [])) w1"
      "w_cells w1 = w_cells w" "w_cell_list w1 = w_cell_list w" "w_previous_ts w1 = w_previous_ts w"
      "w_cell_callback w1 = w_cell_callback w" "w_out w1 = w_out w @ es1" "\<forall>e \<in> set es1. session_event e"
    by (auto simp: pending_def)
  let ?w = "w1\<lparr>w_sess := (w_sess w1)[1 := (w_sess w1 ! 1)\<lparr>s_new_msg := None\<rparr>]\<rparr>"
  have 2: "store_ok (L(0 := [])) ?w" "tight X (L(0 := [])) ?w" "s_new_msg (w_sess ?w ! 1) = None"
    using drop_ref [OF 1(2), of 1 None] 1(3) store_okD(1) [OF 1(2)] by auto
  from reset_run [OF 2(1) _ own_None [OF 2(3)], of False] 2(2,3) obtain w2 es2 where
    "session_reset 1 False ?w = Inr w2" "tight X (L(0 := [], 1 := [])) w2" "store_ok (L(0 := [], 1 := [])) w2"
      "w_cells w2 = w_cells w" "w_cell_list w2 = w_cell_list w" "w_previous_ts w2 = w_previous_ts w"
      "w_cell_callback w2 = w_cell_callback w" "w_out w2 = (w_out w @ es1) @ es2" "\<forall>e \<in> set es2. session_event e"
    using 1(4-) by (auto simp: pending_def)
  moreover from this(3) have "cells_ok w2" by (rule store_okD(3))
  ultimately show ?thesis
    using 1(1,9) store_okD(1) [OF 1(2)] by (intro exI [of _ w2] exI [of _ "es1 @ es2"]) (auto simp: tight_def)
qed

text \<open>A cell is written out, and then only its mark is changed.\<close>

definition dumped :: "world \<Rightarrow> nat list \<Rightarrow> world \<Rightarrow> bool" where
  "dumped w0 seen w \<longleftrightarrow> same_store w0 w \<and> w_cell_callback w = w_cell_callback w0
     \<and> (\<forall>c. c \<notin> set seen \<longrightarrow> w_cells w ! c = w_cells w0 ! c)
     \<and> (\<exists>es. w_out w = w_out w0 @ es
          \<and> (w_cell_callback w0 \<longrightarrow> (\<forall>c \<in> set seen. \<exists>ci. w_cells w0 ! c = Some ci \<and> Sql_cell ci \<in> set es)))"

lemma rfold_keeps_prefix:
  assumes "rfold (\<lambda>i es. rbind (g i) (\<lambda>e. Inr (es @ e))) xs es0 = Inr es"
  shows "set es0 \<subseteq> set es"
  using assms
proof (induction xs arbitrary: es0)
  case (Cons x xs)
  then show ?case by (fastforce simp: rbind_eq_Inr)
qed simp

lemma dump_cell_dumped:
  assumes "dumped w0 seen w" and "a \<in> set (w_cell_list w0)" and "a \<notin> set seen" and "dump_cell a w = Inr w'"
  shows "dumped w0 (seen @ [a]) w'"
proof -
  have same: "same_store w0 w'"
    using dump_cell_ok [of w0 w a] assms by (auto simp: dumped_def)
  from assms(4) obtain ci es where d: "a < length (w_cells w)" "w_cells w ! a = Some ci"
      "rfold (\<lambda>i es. rbind (arfcn_list_make_sql ci i) (\<lambda>e. Inr (es @ e))) [0..<SI_MAX] [Sql_cell ci] = Inr es"
      "w' = (call_back es w)\<lparr>w_cells := (w_cells w)[a := Some (ci\<lparr>ci_stored := 1\<rparr>)]\<rparr>"
    by (auto simp: dump_cell_def cell_at_def upd_cell_def call_back_def rbind_eq_Inr rd_eq_Inr split: option.splits if_splits)
  have "Sql_cell ci \<in> set es" using rfold_keeps_prefix [OF d(3)] by simp
  moreover from assms(1,3) d(2) have "w_cells w0 ! a = Some ci" by (simp add: dumped_def)
  moreover from assms(1) obtain es0 where "w_out w = w_out w0 @ es0"
      "w_cell_callback w0 \<longrightarrow> (\<forall>c \<in> set seen. \<exists>ci. w_cells w0 ! c = Some ci \<and> Sql_cell ci \<in> set es0)" by (auto simp: dumped_def)
  ultimately show ?thesis
    using assms(1) same d(4) unfolding dumped_def
    by (auto simp: call_back_def intro!: exI [of _ "es0 @ (if w_cell_callback w0 then es else [])"])
qed

lemma dump_cells_dumped:
  assumes "cells_ok w0"
  shows "\<exists>w'. rfold dump_cell (w_cell_list w0) w0 = Inr w' \<and> dumped w0 (w_cell_list w0) w'"
proof -
  have "\<exists>w'. rfold dump_cell ys w = Inr w' \<and> dumped w0 (seen @ ys) w'"
    if "dumped w0 seen w" "seen @ ys = w_cell_list w0" for seen ys w
    using that
  proof (induction ys arbitrary: seen w)
    case (Cons y ys)
    have y: "y \<in> set (w_cell_list w0)" using Cons.prems(2) by (metis in_set_conv_decomp)
    have "distinct (seen @ y # ys)" using assms Cons.prems(2) by (simp add: cells_ok_def)
    then have n: "y \<notin> set seen" by simp
    from dump_cell_ok [of w0 w y] Cons.prems(1) y obtain w1 where "dump_cell y w = Inr w1" by (auto simp: dumped_def)
    with Cons.IH [OF dump_cell_dumped [OF Cons.prems(1) y n this]] Cons.prems(2) show ?case by simp
  qed simp
  from this [of "[]" w0 "w_cell_list w0"] assms show ?thesis by (auto simp: dumped_def same_store_def)
qed

lemma free_cells_ok:
  assumes "distinct as" and "\<forall>a \<in> set as. cell_live w a"
  shows "rfold free_cell as w = Inr (w\<lparr>w_cells := map (\<lambda>c. if c \<in> set as then None else w_cells w ! c) [0..<length (w_cells w)]\<rparr>)"
  using assms
proof (induction as arbitrary: w)
  case Nil
  show ?case by (simp add: map_nth)
next
  case (Cons a as)
  let ?w = "w\<lparr>w_cells := (w_cells w)[a := None]\<rparr>"
  have "free_cell a w = Inr ?w" using Cons.prems(2) by (auto simp: free_cell_def cell_at_def cell_live_def)
  moreover have "\<forall>b \<in> set as. cell_live ?w b" using Cons.prems by (auto simp: cell_live_def nth_list_update)
  moreover have "map (\<lambda>c. if c \<in> set as then None else (w_cells w)[a := None] ! c) [0..<length (w_cells w)]
      = map (\<lambda>c. if c \<in> set (a # as) then None else w_cells w ! c) [0..<length (w_cells w)]"
    by (auto simp: nth_list_update)
  ultimately show ?case using Cons.IH [of ?w] Cons.prems(1) by simp
qed

text \<open>The end of the cells: written and freed, or, when the dump takes the time 0 for a message out of sequence, neither.\<close>

lemma cell_destroy_run:
  assumes "cells_ok w"
  shows "\<exists>w' cid es. cell_destroy w = Inr (cid, w') \<and> w_msgs w' = w_msgs w \<and> w_out w' = w_out w @ es
    \<and> (if 86400 < 0 - w_previous_ts w
       then es = [] \<and> w_cells w' = w_cells w \<and> w_cell_list w' = w_cell_list w
       else w_cell_list w' = [] \<and> (\<forall>c \<in> set (w_cell_list w). w_cells w' ! c = None
          \<and> (w_cell_callback w \<longrightarrow> (\<exists>ci. w_cells w ! c = Some ci \<and> Sql_cell ci \<in> set es))))"
proof (cases "86400 < 0 - w_previous_ts w")
  case True
  then show ?thesis by (simp add: cell_destroy_def cell_and_paging_dump_def)
next
  case False
  from dump_cells_dumped [OF assms] obtain w1 es1 where d: "rfold dump_cell (w_cell_list w) w = Inr w1" "same_store w w1"
      "w_out w1 = w_out w @ es1"
      "w_cell_callback w \<longrightarrow> (\<forall>c \<in> set (w_cell_list w). \<exists>ci. w_cells w ! c = Some ci \<and> Sql_cell ci \<in> set es1)"
    unfolding dumped_def by blast
  define w2 where "w2 = call_back (paging_make_sql (w_previous_ts w1) w1) w1"
  have w2: "w_cell_list w2 = w_cell_list w" "w_msgs w2 = w_msgs w" "\<exists>es. w_out w2 = w_out w @ es1 @ es" "w_cells w2 = w_cells w1"
    using d(2,3) by (auto simp: w2_def call_back_def same_store_def)
  have "\<forall>a \<in> set (w_cell_list w). cell_live w2 a" "distinct (w_cell_list w)"
    using d(2) assms by (auto simp: same_store_def cells_ok_def cell_live_def w2(4))
  note f = free_cells_ok [OF this(2,1)] and live = this(1)
  have "cell_destroy w = Inr (w_cell_info_id w2, paging_reset (w2\<lparr>w_cells := map (\<lambda>c. if c \<in> set (w_cell_list w) then None else w_cells w2 ! c)
      [0..<length (w_cells w2)], w_cell_list := []\<rparr>)\<lparr>w_previous_ts := 0\<rparr>)"
    using False d(1) f w2(1) by (simp add: cell_destroy_def cell_and_paging_dump_def Let_def w2_def [symmetric] paging_reset_def)
  moreover have "w_cell_callback w \<longrightarrow> (\<forall>c \<in> set (w_cell_list w). \<exists>ci. w_cells w ! c = Some ci \<and> Sql_cell ci \<in> set (es1 @ es))" for es
    using d(4) by (metis UnCI set_append)
  ultimately show ?thesis using False w2 live by (force simp: paging_reset_def cell_live_def)
qed

text \<open>C5. The end of the program.  From every reachable state \<open>session_destroy\<close> returns, and it frees every message but those
  that a front end has lost before (the set \<open>X\<close>).  What becomes of the cells depends on the time of the last dump.  With a usual
  clock (the last dump at a Unix time later than the first day of 1970 and before the last day of 2106) only events of sessions are
  put out, no row of a cell, of a frequency list or of the paging counters, and the cells are not freed: the dump gets the time 0,
  takes that for a message out of sequence and returns.  Otherwise every cell of the list is freed, and its row is written where
  there is a call-back.\<close>

theorem session_destroy_frees:
  assumes "rrc_lib_ok lib" and "reachable lib X w"
  shows "\<exists>w' sid cid es. session_destroy w = Inr (sid, cid, w') \<and> (\<forall>b < length (w_msgs w'). b \<notin> X \<longrightarrow> w_msgs w' ! b = None)
    \<and> w_out w' = w_out w @ es
    \<and> (if 86400 < 0 - w_previous_ts w
       then (\<forall>e \<in> set es. session_event e) \<and> w_cells w' = w_cells w \<and> w_cell_list w' = w_cell_list w
       else w_cell_list w' = [] \<and> (\<forall>c \<in> set (w_cell_list w). w_cells w' ! c = None
          \<and> (w_cell_callback w \<longrightarrow> (\<exists>ci. w_cells w ! c = Some ci \<and> Sql_cell ci \<in> set es))))"
proof -
  from destroy_sessions [OF idle_reachable [OF assms]] obtain w1 es1 where
    1: "seqs [session_reset 0 False, upd 1 (\<lambda>s. s\<lparr>s_new_msg := None\<rparr>), session_reset 1 False] w = Inr w1"
      "\<forall>b < length (w_msgs w1). b \<notin> X \<longrightarrow> w_msgs w1 ! b = None" "w_cells w1 = w_cells w" "w_cell_list w1 = w_cell_list w"
      "w_previous_ts w1 = w_previous_ts w" "w_cell_callback w1 = w_cell_callback w" "cells_ok w1" "w_out w1 = w_out w @ es1"
      "\<forall>e \<in> set es1. session_event e" by blast
  from cell_destroy_run [OF 1(7)] obtain w2 cid es2 where
    2: "cell_destroy w1 = Inr (cid, w2)" "w_msgs w2 = w_msgs w1" "w_out w2 = w_out w1 @ es2"
      "if 86400 < 0 - w_previous_ts w1
       then es2 = [] \<and> w_cells w2 = w_cells w1 \<and> w_cell_list w2 = w_cell_list w1
       else w_cell_list w2 = [] \<and> (\<forall>c \<in> set (w_cell_list w1). w_cells w2 ! c = None
          \<and> (w_cell_callback w1 \<longrightarrow> (\<exists>ci. w_cells w1 ! c = Some ci \<and> Sql_cell ci \<in> set es2)))" by blast
  have "session_destroy w = Inr (w_s_id w2, cid, w2)" using 1(1) 2(1) by (simp add: session_destroy_def)
  with 1 2 show ?thesis
    by (intro exI [of _ w2] exI [of _ "w_s_id w2"] exI [of _ cid] exI [of _ "es1 @ es2"]) (auto split: if_splits)
qed

theorem session_destroy_frees_witness:
  "let w = start_world (zero_world\<lparr>w_previous_ts := 1356998400\<rparr>) 1 False False False in
   \<exists>w' sid cid es. session_destroy w = Inr (sid, cid, w') \<and> (\<forall>b < length (w_msgs w'). b \<notin> {} \<longrightarrow> w_msgs w' ! b = None)
    \<and> w_out w' = w_out w @ es \<and> (\<forall>e \<in> set es. session_event e) \<and> w_cells w' = w_cells w \<and> w_cell_list w' = w_cell_list w"
proof -
  let ?w = "start_world (zero_world\<lparr>w_previous_ts := 1356998400\<rparr>) 1 False False False"
  have "86400 < 0 - w_previous_ts ?w" by (simp add: start_world_def session_init_def)
  then show ?thesis
    using session_destroy_frees [OF sample_lib_ok reachable.start, of "zero_world\<lparr>w_previous_ts := 1356998400\<rparr>" 1 False False False]
    unfolding Let_def by auto
qed

end
