(* ===== verification/Msg_Spec.thy ===== *)
theory Msg_Spec
  imports Msg_Store
begin

text \<open>
  What the linked lists of \<open>session.c\<close> promise, as operations on lists of addresses.  \<open>msg_list p w\<close>
  follows the links from \<open>p\<close>; it is the abstraction.
\<close>

text \<open>C7. Linking refines appending.  \<open>link_to_msg_list\<close> succeeds for a live message that is not in the list, and the
  list of the session then has the message at its end; every list of other messages is as before.\<close>

theorem link_refines_append:
  assumes "i < length (w_sess w)" and "msg_seq (w_msgs w) (w_sess w ! i) xs"
    and "b < length (w_msgs w)" and "w_msgs w ! b = Some m" and "b \<notin> set xs"
  shows "\<exists>w'. link_to_msg_list i (Some b) w = Inr w'
    \<and> msg_list (s_first_msg (w_sess w' ! i)) w' = Inr (xs @ [b]) \<and> s_last_msg (w_sess w' ! i) = Some b
    \<and> (\<forall>p ys. chain (w_msgs w) p ys \<and> distinct ys \<and> set ys \<inter> set (xs @ [b]) = {} \<longrightarrow> msg_list p w' = Inr ys)"
proof (intro exI conjI allI impI)
  show "link_to_msg_list i (Some b) w = Inr (linked i b w)" by (rule link_to_msg_list_linked [OF assms])
  have s: "msg_seq (w_msgs (linked i b w)) (w_sess (linked i b w) ! i) (xs @ [b])" by (rule linked_msg_seq [OF assms])
  then show "msg_list (s_first_msg (w_sess (linked i b w) ! i)) (linked i b w) = Inr (xs @ [b])"
    by (auto simp: msg_seq_def intro: msg_list_chain)
  show "s_last_msg (w_sess (linked i b w) ! i) = Some b" using s by (simp add: msg_seq_def)
  fix p ys assume ys: "chain (w_msgs w) p ys \<and> distinct ys \<and> set ys \<inter> set (xs @ [b]) = {}"
  have "\<forall>l. s_last_msg (w_sess w ! i) = Some l \<longrightarrow> l \<in> set xs" using assms(2) by (auto simp: msg_seq_def)
  with ys have "chain (w_msgs (linked i b w)) p ys" by (intro linked_other) auto
  with ys show "msg_list p (linked i b w) = Inr ys" by (auto intro: msg_list_chain)
qed

definition two_messages :: world where
  "two_messages = \<lparr>w_sess = [zero_session\<lparr>s_first_msg := Some 0, s_last_msg := Some 0\<rparr>],
     w_msgs = [Some zero_radio_message, Some zero_radio_message], w_cells = [], w_cell_list = [], w_cell_info_id = 0,
     w_previous_ts = 0, w_cell_callback = False, w_paging_count = [0, 0, 0], w_paging_imsi = 0, w_paging_tmsi = 0,
     w_paging_null = 0, w_s_id = 7, w_auto_reset = True, w_auto_timestamp = False, w_now = 0, w_tod = zero_timeval,
     w_output_console = False, w_output_gsmtap = False, w_stack = replicate 32 0, w_out = []\<rparr>"

lemma two_messages_simps:
  "w_msgs two_messages = [Some zero_radio_message, Some zero_radio_message]" "length (w_sess two_messages) = 1"
  "w_auto_reset two_messages"
  by (simp_all add: two_messages_def)

lemma two_messages_seq: "msg_seq (w_msgs two_messages) (w_sess two_messages ! 0) [0]"
  by (simp add: two_messages_def msg_seq_def zero_radio_message_def)

theorem link_refines_append_witness:
  "\<exists>w'. link_to_msg_list 0 (Some 1) two_messages = Inr w' \<and> msg_list (s_first_msg (w_sess w' ! 0)) w' = Inr [0, 1]"
  using link_refines_append [OF _ two_messages_seq, of 1 zero_radio_message] by (auto simp: two_messages_def)

text \<open>C6. The reset of a session.  \<open>session_reset\<close> succeeds; the messages of the session, and with them the current
  message unless the release is forced, are freed and all other messages are as before; the list is empty; a forced reset keeps
  the current message. A session that was started and not closed is reported exactly once, and a session that was started
  gets a new number.\<close>

theorem session_reset_spec:
  assumes "i < length (w_sess w)" and "w_auto_reset w" and "msg_seq (w_msgs w) (w_sess w ! i) xs"
    and "\<forall>b. s_new_msg (w_sess w ! i) = Some b \<longrightarrow> b < length (w_msgs w) \<and> w_msgs w ! b \<noteq> None \<and> b \<notin> set xs"
    and "s = w_sess w ! i" and "gone = set xs \<union> (if forced then {} else set_option (s_new_msg s))"
  shows "\<exists>w'. session_reset i forced w = Inr w' \<and> length (w_msgs w') = length (w_msgs w)
    \<and> (\<forall>a < length (w_msgs w). w_msgs w' ! a = (if a \<in> gone then None else w_msgs w ! a))
    \<and> msg_list (s_first_msg (w_sess w' ! i)) w' = Inr [] \<and> s_last_msg (w_sess w' ! i) = None
    \<and> s_new_msg (w_sess w' ! i) = (if forced then s_new_msg s else None) \<and> s_started (w_sess w' ! i) = 0
    \<and> (\<exists>f l n. w_out w' = w_out w @ (if open_session s
          then close_events w (s\<lparr>s_first_msg := f, s_last_msg := l, s_new_msg := n, s_cracked := 1\<rparr>) else []))
    \<and> s_id (w_sess w' ! i) = (if nz (s_started s) then sint (w_s_id w + 1) else s_id s)
    \<and> (\<forall>j. j \<noteq> i \<longrightarrow> w_sess w' ! j = w_sess w ! j)"
proof -
  let ?w = "reset_result i forced xs w"
  have run: "session_reset i forced w = Inr ?w" by (rule session_reset_ok [OF assms(1-4)])
  have "set (pending forced s) = (if forced then {} else set_option (s_new_msg s))"
    by (auto simp: pending_def split: option.splits)
  then have msgs: "w_msgs ?w ! a = (if a \<in> gone then None else w_msgs w ! a)" if "a < length (w_msgs w)" for a
    using that by (auto simp: reset_result_def Let_def nth_clear assms(5,6))
  have sess: "w_sess ?w = (w_sess w)[i := session_renew forced (w_auto_timestamp w) (reset_ident w s) (if open_session s then stamped w s else s)]"
    by (simp add: reset_result_def Let_def assms(5))
  have new: "s_started (w_sess ?w ! i) = 0" "s_id (w_sess ?w ! i) = (if nz (s_started s) then sint (w_s_id w + 1) else s_id s)"
    using assms(1) by (simp_all add: sess reset_ident_def session_renew_def zero_session_def Let_def)
  obtain ms f l n where "reset_step1 i forced w = w\<lparr>w_msgs := ms,
      w_sess := (w_sess w)[i := (w_sess w ! i)\<lparr>s_first_msg := f, s_last_msg := l, s_new_msg := n\<rparr>]\<rparr>"
    using reset_step1_shape [OF assms(1), of forced] by blast
  then have "w_sess (reset_step1 i forced w) ! i = s\<lparr>s_first_msg := f, s_last_msg := l, s_new_msg := n\<rparr>"
    using assms(1,5) by simp
  then have out: "w_out ?w = w_out w @ (if open_session s
      then close_events w (s\<lparr>s_first_msg := f, s_last_msg := l, s_new_msg := n, s_cracked := 1\<rparr>) else [])"
    by (simp add: reset_result_def Let_def assms(5))
  have links: "msg_list (s_first_msg (w_sess ?w ! i)) ?w = Inr []" "s_last_msg (w_sess ?w ! i) = None"
    "s_new_msg (w_sess ?w ! i) = (if forced then s_new_msg s else None)" "\<And>j. j \<noteq> i \<Longrightarrow> w_sess ?w ! j = w_sess w ! j"
    using assms(1) by (auto simp: sess msg_list_def)
  have "length (w_msgs ?w) = length (w_msgs w)" by (simp add: reset_result_def Let_def)
  with run msgs new out links show ?thesis by blast
qed

theorem session_reset_spec_witness:
  "\<exists>w'. session_reset 0 False two_messages = Inr w' \<and> w_msgs w' ! 0 = None \<and> w_msgs w' ! 1 = Some zero_radio_message
     \<and> msg_list (s_first_msg (w_sess w' ! 0)) w' = Inr []"
proof -
  let ?w = two_messages
  have "s_new_msg (w_sess ?w ! 0) = None" by (simp add: two_messages_def zero_session_def)
  then have "\<exists>w'. session_reset 0 False ?w = Inr w' \<and> (\<forall>a < length (w_msgs ?w). w_msgs w' ! a = (if a \<in> {0} then None else w_msgs ?w ! a))
    \<and> msg_list (s_first_msg (w_sess w' ! 0)) w' = Inr []"
    using session_reset_spec [OF _ _ two_messages_seq _ refl refl, of False] two_messages_simps by auto
  then show ?thesis by (auto simp: two_messages_simps less_Suc_eq)
qed

end
