(* ===== verification/Lapdm_Frames.thy ===== *)
theory Lapdm_Frames
  imports Lapdm
begin

text \<open>
  LAPDm frames: reassembly of a segmented message, and the frames that \<open>encapsulate_lapdm\<close> makes of
  layer 3 messages read back by \<open>handle_lapdm\<close>.
\<close>

section \<open>Reassembly\<close>

definition reassembled :: "u8 list list \<Rightarrow> lapdm_buf \<Rightarrow> lapdm_buf" where
  "reassembled ps mb = (if ps = [] then mb
     else mb\<lparr>lb_data := concat ps @ replicate (640 - length (concat ps)) 0x2b, lb_len := of_nat (length (concat ps))\<rparr>)"

lemma append_first:
  assumes "length (lb_data mb) = 640" and "lb_len mb = 0"
  shows "append_payload p mb = (if length p \<le> 640 then Inr (reassembled [p] mb) else Inl OutOfBounds)"
  using assms by (auto simp: append_payload_def reassembled_def wrn_def)

lemma append_more:
  assumes "ps \<noteq> []" and "concat ps \<noteq> []" and "length (concat ps) \<le> 640"
  shows "append_payload p (reassembled ps mb)
    = (if length (concat (ps @ [p])) \<le> 640 then Inr (reassembled (ps @ [p]) mb) else Inl OutOfBounds)"
proof -
  have "unat (of_nat (length (concat ps)) :: u32) = length (concat ps)"
    using assms(3) by (simp add: unat_of_nat)
  moreover from this have "(of_nat (length (concat ps)) :: u32) \<noteq> 0" using assms(2) by (metis length_0_conv unsigned_0)
  ultimately show ?thesis
    using assms by (auto simp: append_payload_def reassembled_def wrn_def algebra_simps)
qed

text \<open>C8. Reassembly of a segmented message.  Appending the payloads of a sequence of frames to an
  idle buffer gives their concatenation, followed by padding octets, and its length; as soon as
  the message is longer than the 640 octets of the buffer, it is written past the end, since the length
  is checked nowhere.\<close>

theorem lapdm_reassembly:
  assumes "length (lb_data mb) = 640" and "lb_len mb = 0" and "\<forall>p \<in> set ps. p \<noteq> []"
  shows "rfold append_payload ps mb = (if length (concat ps) \<le> 640 then Inr (reassembled ps mb) else Inl OutOfBounds)"
  using assms(3)
proof (induction ps rule: rev_induct)
  case Nil
  show ?case by (simp add: reassembled_def)
next
  case (snoc p ps)
  show ?case
  proof (cases "ps = []")
    case True
    then show ?thesis using append_first [OF assms(1,2), of p] by simp
  next
    case False
    with snoc.prems have "concat ps \<noteq> []" by (cases ps) auto
    with snoc False append_more [OF False this] show ?thesis by (auto simp: rfold_append)
  qed
qed

theorem lapdm_reassembly_witness:
  "rfold append_payload [[1, 2, 3], [4, 5]] zero_lapdm_buf = Inr (reassembled [[1, 2, 3], [4, 5]] zero_lapdm_buf)
   \<and> rfold append_payload [replicate 600 1, replicate 41 2] zero_lapdm_buf = Inl OutOfBounds"
  using lapdm_reassembly [of zero_lapdm_buf "[[1, 2, 3], [4, 5]]"]
    lapdm_reassembly [of zero_lapdm_buf "[replicate 600 1, replicate 41 2]"]
  by (simp add: zero_lapdm_buf_def)

lemma seqs_append: "seqs (fs @ gs) s = rbind (seqs fs s) (seqs gs)"
proof (induction fs arbitrary: s)
  case (Cons f fs)
  then show ?case by (cases "f s") auto
qed simp

lemma seqs_first: "seqs (seqs fs # gs) = seqs (fs @ gs)"
  by (simp add: fun_eq_iff seqs_append)

lemma seqs_last: "seqs [f, seqs gs] = seqs (f # gs)"
proof
  show "seqs [f, seqs gs] s = seqs (f # gs) s" for s by (cases "f s") (simp_all add: seqs_single [simplified])
qed

lemma seqs_skip: "seqs (on_cond False f # gs) = seqs gs"
  by (simp add: fun_eq_iff)

section \<open>Frames made of layer 3 messages\<close>

lemma unnumbered:
  fixes n :: nat
  assumes "n \<le> 63"
  shows "drop_bit 2 (push_bit 2 (of_nat n) OR (0x01 :: u8)) AND 0x3f = of_nat n"
    "bit (push_bit 2 (of_nat n) OR (0x01 :: u8)) 0" "\<not> bit (push_bit 2 (of_nat n) OR (0x01 :: u8)) 1"
proof -
  have "list_all (\<lambda>n. drop_bit 2 (push_bit 2 (of_nat n) OR (0x01 :: u8)) AND 0x3f = of_nat n) [0..<64]" by code_simp
  with assms show "drop_bit 2 (push_bit 2 (of_nat n) OR (0x01 :: u8)) AND 0x3f = of_nat n" by (auto simp: list_all_iff)
qed (simp_all add: bit_simps)

text \<open>C9. Frames made of layer 3 messages.  \<open>handle_lapdm\<close> recognises the frame that
  \<open>encapsulate_lapdm\<close> makes of a message of up to 63 octets: it clears the text of the message, checks the padding
  behind the payload, appends exactly the octets of the message to the buffer of the direction and
  passes the buffer on to \<open>handle_dtap\<close>.\<close>

theorem encapsulate_roundtrip:
  assumes "0 < length d" and "length d \<le> 63"
  shows "\<exists>frame. encapsulate_lapdm d (length d) ul False = Inr frame \<and> length frame = 3 + max (length d) 20
    \<and> handle_lapdm i ch frame (of_nat (length frame)) fn ul = seqs [
        by_sess i (\<lambda>s. upd_msg (s_new_msg s) (\<lambda>m. m\<lparr>rm_info := []\<rparr>)),
        update_counters i (d @ replicate (20 - length d) 0x2b) (of_nat (max (length d) 20)) (of_nat (length d)) ul,
        upd_mb i ch (of_bool ul) (append_payload d),
        by_sess i (\<lambda>old. seqs [
          by_mb i ch (of_bool ul) (\<lambda>mb. handle_dtap i (lb_data mb) (lb_len mb) fn ul),
          upd_mb i ch (of_bool ul) (\<lambda>mb. Inr (mb\<lparr>lb_len := 0\<rparr>)),
          by_mb i ch (of_bool ul) (\<lambda>mb w. rbind (rd (lb_data mb) 0) (\<lambda>d0.
            upd i (infer_times (nz (s_auth old)) (nz (s_cipher old)) 0 (of_nat (length frame)) d0 fn) w))])]"
proof -
  let ?n = "length d"
  define m2 where "m2 = push_bit 2 (of_nat ?n) OR (0x01 :: u8)"
  define n8 where "n8 = (of_nat ?n :: u8)"
  let ?frame = "[if ul then 0x01 else 0x03, 0x03, m2] @ d @ replicate (20 - ?n) (0x2b :: u8)"
  let ?len = "of_nat (3 + max ?n 20) :: u32"
  have m2: "drop_bit 2 m2 AND 0x3f = n8" "bit m2 0" "\<not> bit m2 1"
    unfolding m2_def n8_def by (rule unnumbered [OF assms(2)])+
  have enc: "encapsulate_lapdm d ?n ul False = Inr ?frame"
    using assms by (simp add: encapsulate_lapdm_def rdn_def Let_def m2_def)
  have len: "length ?frame = 3 + max ?n 20" by simp
  have n: "ucast n8 = (of_nat ?n :: u32)" "unat n8 = ?n" "n8 \<noteq> 0"
    using assms by (simp_all add: n8_def word_unat_eq_iff unat_of_nat unsigned_ucast_eq take_bit_eq_mod)
  have fits: "\<not> ucast n8 + 3 > ?len"
    using assms by (simp add: n word_less_nat_alt unat_word_ariths unat_of_nat)
  have payload: "rdn ?frame 3 ?n = Inr d" by (simp add: rdn_def)
  have 1: "handle_lapdm i ch ?frame ?len fn ul = seqs [
      by_sess i (\<lambda>s. upd_msg (s_new_msg s) (\<lambda>m. m\<lparr>rm_info := []\<rparr>)),
      lapdm_frame i ch (of_bool ul) 0 ?frame ?len 3 n8 False fn ul]"
    using m2 fits by (intro ext) (cases ul; simp add: handle_lapdm_def Let_def)
  have 2: "lapdm_frame i ch (of_bool ul) 0 ?frame ?len 3 n8 False fn ul
      = lapdm_deliver i ch (of_bool ul) 0 ?frame ?len n8 0 False fn ul"
    by (simp add: lapdm_frame_def seqs_skip seqs_single del: seqs.simps)
  have 3: "lapdm_deliver i ch (of_bool ul) 0 ?frame ?len n8 0 False fn ul = seqs [
        update_counters i (d @ replicate (20 - ?n) 0x2b) (of_nat (max ?n 20)) n8 ul,
        upd_mb i ch (of_bool ul) (append_payload d),
        by_sess i (\<lambda>old. seqs [
          by_mb i ch (of_bool ul) (\<lambda>mb. handle_dtap i (lb_data mb) (lb_len mb) fn ul),
          upd_mb i ch (of_bool ul) (\<lambda>mb. Inr (mb\<lparr>lb_len := 0\<rparr>)),
          by_mb i ch (of_bool ul) (\<lambda>mb w. rbind (rd (lb_data mb) 0) (\<lambda>d0.
            upd i (infer_times (nz (s_auth old)) (nz (s_cipher old)) 0 ?len d0 fn) w))])]"
    using n payload by (simp add: lapdm_deliver_def seqs_last seqs_first del: seqs.simps)
  show ?thesis
    by (intro exI conjI, rule enc, rule len) (simp only: n8_def [symmetric] len 1 2 3 seqs_last)
qed

text \<open>A call set-up of 10 octets; the frame is that of the downlink.\<close>

theorem encapsulate_roundtrip_witness:
  "let d = [3, 5, 4, 6, 0x60, 4, 2, 0, 5, 0x81] in
   \<exists>frame. encapsulate_lapdm d (length d) False False = Inr frame \<and> length frame = 23"
  unfolding Let_def using encapsulate_roundtrip [of "[3, 5, 4, 6, 0x60, 4, 2, 0, 5, 0x81]" False 0 Sdcch 0] by auto

end
