(* ===== verification/Sms_Header.thy ===== *)
theory Sms_Header
  imports Sms
begin

text \<open>
  The walk over the elements of a user data header (\<open>handle_udh\<close> of \<open>sms.c\<close>).  The offset is a byte;
  for messages of fewer than 255 octets it cannot wrap and the walk ends, for a message of 255 octets
  it can go on for ever.
\<close>

section \<open>Functions whose loops end\<close>

definition returns :: "'a res \<Rightarrow> bool" where
  "returns r \<longleftrightarrow> r \<noteq> Inl Diverges"

lemma returns_Inr [simp]: "returns (Inr x)"
  by (simp add: returns_def)

lemma returns_Inl [simp]: "returns (Inl e) \<longleftrightarrow> e \<noteq> Diverges"
  by (simp add: returns_def)

lemma returns_rbind: "returns m \<Longrightarrow> (\<And>x. m = Inr x \<Longrightarrow> returns (f x)) \<Longrightarrow> returns (rbind m f)"
  by (cases m) simp_all

lemma returns_cells [simp]: "returns (rd xs i)" "returns (wr xs i v)" "returns (rdn xs i n)" "returns (wrn xs i ys)" "returns (rassert b)"
  by (simp_all add: rd_def wr_def rdn_def wrn_def rassert_def)

lemma returns_bcd2str_from [simp]: "returns (bcd2str_from bcd len i s k)"
proof (induction "len - i" arbitrary: i s k)
  case (Suc d)
  then show ?case by (subst bcd2str_from.simps) (auto intro!: returns_rbind simp: Let_def)
qed (subst bcd2str_from.simps, simp add: returns_rbind)

lemma returns_gsm_7bit_from [simp]: "returns (gsm_7bit_from n ud l sh i ext k buf)"
proof (induction "l - i" arbitrary: i ext k buf)
  case (Suc d)
  then show ?case by (subst gsm_7bit_from.simps) (auto intro!: returns_rbind simp: gsm_septet_def)
qed (subst gsm_7bit_from.simps, auto intro!: returns_rbind)

lemma returns_is_printable_from [simp]: "returns (is_printable_from s n i)"
proof (induction "n - i" arbitrary: i)
  case (Suc d)
  then have "returns (is_printable_from s n (Suc i))" by simp
  then show ?case by (subst is_printable_from.simps) (simp add: returns_rbind del: is_printable_from.simps)
qed (subst is_printable_from.simps, simp)

lemma returns_texts [simp]:
  "returns (put_str s txt)" "returns (strncpy_lit s txt n)" "returns (is_printable s n)"
  "returns (bcd2str bcd s n i)" "returns (gsm_7bit_decode_n s n ud l)" "returns (bcd2str_at k bcd s n)"
  by (simp_all add: put_str_def strncpy_lit_def is_printable_def bcd2str_def gsm_7bit_decode_n_def
      gsm_7bit_decode_n_hdr_def bcd2str_at_def returns_rbind split_beta del: bcd2str_from.simps is_printable_from.simps)

lemma returns_address_digits [simp]: "returns (address_digits ton npi d n s)"
  unfolding address_digits_def handle_addr_national_def handle_addr_e164_def by (simp add: returns_rbind)

lemma returns_address_tail [simp]: "returns (address_tail ton npi d n s)"
  unfolding address_tail_def Let_def split_beta by (simp add: returns_rbind)

lemma returns_handle_address [simp]: "returns (handle_address data len dest dig)"
  unfolding handle_address_def Let_def by (simp add: returns_rbind)

lemma returns_udh_element: "returns (udh_element junk msg header_len type vlen offset cmd sm)"
  unfolding udh_element_def udh_concat_def udh_reply_def Let_def by (simp add: returns_rbind)

section \<open>The walk\<close>

lemma udh_walk_Suc:
  assumes "len < 255" and "unat header_len < len" and "Suc (unat header_len) - unat offset \<le> 2 * fuel"
  shows "udh_walk (Suc fuel) junk msg len header_len offset cmd sm = udh_walk fuel junk msg len header_len offset cmd sm
    \<and> returns (udh_walk fuel junk msg len header_len offset cmd sm)"
  using assms(3)
proof (induction fuel arbitrary: offset cmd sm)
  case 0
  then have "\<not> offset \<le> header_len" by (simp add: word_le_nat_alt)
  then show ?case by (simp add: udh_walk.simps)
next
  case (Suc fuel)
  show ?case
  proof (cases "offset \<le> header_len")
    case True
    have o2: "unat (offset + 2) = unat offset + 2"
      using True assms(1,2) by (simp add: word_le_nat_alt unat_word_ariths)
    have rec: "udh_walk (Suc fuel) junk msg len header_len (offset + 2 + v) c s = udh_walk fuel junk msg len header_len (offset + 2 + v) c s"
        "returns (udh_walk fuel junk msg len header_len (offset + 2 + v) c s)"
      if "\<not> len < unat (offset + 2) + unat v" for v c s
    proof -
      have "unat (offset + 2 + v) = unat offset + 2 + unat v"
        using that o2 assms(1) by (simp add: unat_word_ariths)
      with Suc.prems Suc.IH [of "offset + 2 + v" c s] show
        "udh_walk (Suc fuel) junk msg len header_len (offset + 2 + v) c s = udh_walk fuel junk msg len header_len (offset + 2 + v) c s"
        "returns (udh_walk fuel junk msg len header_len (offset + 2 + v) c s)" by simp_all
    qed
    show ?thesis
      using True rec returns_udh_element
      by (simp add: udh_walk.simps [of "Suc fuel"] udh_walk.simps [of "Suc (Suc fuel)"] Let_def cong: if_cong)
        (auto intro!: returns_rbind split: prod.splits)
  qed (simp add: udh_walk.simps)
qed

text \<open>C23. The walk over the user data header ends.  For a user data part of fewer than 255 octets the loop
  of \<open>handle_udh\<close> ends after at most 128 rounds, whatever the octets are: more rounds give the
  same result, and the result is not that of a loop that goes on.\<close>

theorem udh_walk_ends:
  assumes "len < 255" and "unat header_len < len" and "128 \<le> fuel"
  shows "udh_walk fuel junk msg len header_len 1 cmd sm = udh_walk 128 junk msg len header_len 1 cmd sm
    \<and> udh_walk fuel junk msg len header_len 1 cmd sm \<noteq> Inl Diverges"
proof -
  have step: "udh_walk (Suc n) junk msg len header_len 1 cmd sm = udh_walk n junk msg len header_len 1 cmd sm
    \<and> returns (udh_walk n junk msg len header_len 1 cmd sm)" if "128 \<le> n" for n
    by (rule udh_walk_Suc [OF assms(1,2)]) (use that assms(1,2) in simp)
  have "udh_walk fuel junk msg len header_len 1 cmd sm = udh_walk 128 junk msg len header_len 1 cmd sm"
    using assms(3) by (induction fuel rule: dec_induct) (simp_all add: step)
  with step [OF assms(3)] show ?thesis by (simp add: returns_def)
qed

theorem udh_walk_ends_witness:
  "udh_walk 500 [] [5, 0, 3, 1, 2, 1] 6 5 1 False zero_sms = udh_walk 128 [] [5, 0, 3, 1, 2, 1] 6 5 1 False zero_sms
    \<and> udh_walk 500 [] [5, 0, 3, 1, 2, 1] 6 5 1 False zero_sms \<noteq> Inl Diverges"
  by (rule udh_walk_ends) simp_all

text \<open>
  The wrap: with a header of 254 octets the element at offset 254 has its length at offset 255, behind
  the header, and its value starts at offset 0.
\<close>

lemma udh_walk_loop:
  assumes "256 \<le> length msg" and "msg ! 1 = 0x80" and "msg ! 2 = 251" and "msg ! 254 = 0x80" and "msg ! 255 = 1"
  shows "udh_walk fuel junk msg 255 254 1 cmd sm = Inl Diverges \<and> udh_walk fuel junk msg 255 254 254 cmd sm = Inl Diverges"
proof (induction fuel)
  case 0
  show ?case by (simp add: udh_walk.simps)
next
  case (Suc fuel)
  have wrap: "(257 :: u8) = 1" by code_simp
  from Suc assms show ?case
    by (simp add: wrap udh_walk.simps [of "Suc fuel"] udh_element_def Let_def)
qed

text \<open>C24. The walk may never end.  For a user data part of 255 octets whose header claims 254 octets the
  byte offset can wrap around: with an element of 251 octets at the start and one at offset 254
  whose length octet (behind the user data) is 1, \<open>handle_udh\<close> does not return.\<close>

theorem handle_udh_endless:
  assumes "256 \<le> length msg" and "msg ! 0 = 254" and "msg ! 1 = 0x80" and "msg ! 2 = 251" and "msg ! 254 = 0x80"
    and "msg ! 255 = 1"
  shows "(\<forall>fuel. udh_walk fuel junk msg 255 254 1 False sm = Inl Diverges) \<and> handle_udh junk sm msg 255 = Inl Diverges"
proof -
  have "rd msg 0 = Inr 254" using assms(1,2) by (auto simp: rd_def)
  with udh_walk_loop [OF assms(1,3-6)] show ?thesis by (simp add: handle_udh_def Let_def)
qed

theorem handle_udh_endless_witness:
  "handle_udh [] zero_sms ([254, 0x80, 251] @ replicate 251 0 @ [0x80, 1]) 255 = Inl Diverges"
  using handle_udh_endless [of "[254, 0x80, 251] @ replicate 251 0 @ [0x80, 1]" "[]" zero_sms]
  by (simp add: nth_append nth_Cons')

end
