(* ===== verification/Diag_Input.thy ===== *)
theory Diag_Input
  imports Lapdm
begin

text \<open>
  The front end for Qualcomm DIAG captures (\<open>gsm-parser/diag_input.c\<close>, \<open>diag_structs.h\<close> and the loop of \<open>diag_import.c\<close>): a
  packet of the capture becomes at most one message, which is passed to \<open>handle_radio_msg\<close>.

  A packet is the buffer of the importer, of which the first \<open>len\<close> bytes were read from the file.  The
  fields of the packed \<open>struct diag_packet\<close> are read from it in the byte order of the host, little-endian:
  the class at 0, the length at 2, the protocol at 6, the time stamp at 8, the type, the subtype and the
  data length at 16, 17 and 18, the data from 19 on.
\<close>

section \<open>Definitions\<close>

subsection \<open>Packets\<close>

definition le16 :: "u8 list \<Rightarrow> nat \<Rightarrow> u16 res" where
  "le16 msg k = rbind (rd msg k) (\<lambda>a. rbind (rd msg (k + 1)) (\<lambda>b. Inr (ucast a OR push_bit 8 (ucast b))))"

definition le64 :: "u8 list \<Rightarrow> nat \<Rightarrow> u64 res" where
  "le64 msg k = rbind (rdn msg k 8) (\<lambda>bs. Inr (foldr (\<lambda>b x. ucast b OR push_bit 8 x) bs 0))"

definition dp_class :: "u8 list \<Rightarrow> u16 res" where "dp_class msg = le16 msg 0"
definition dp_len :: "u8 list \<Rightarrow> u16 res" where "dp_len msg = le16 msg 2"
definition dp_protocol :: "u8 list \<Rightarrow> u16 res" where "dp_protocol msg = le16 msg 6"
definition dp_timestamp :: "u8 list \<Rightarrow> u64 res" where "dp_timestamp msg = le64 msg 8"
definition dp_type :: "u8 list \<Rightarrow> u8 res" where "dp_type msg = rd msg 16"
definition dp_subtype :: "u8 list \<Rightarrow> u8 res" where "dp_subtype msg = rd msg 17"
definition dp_data_len :: "u8 list \<Rightarrow> u8 res" where "dp_data_len msg = rd msg 18"
definition dp_data :: "u8 list \<Rightarrow> u8 list" where "dp_data msg = drop 19 msg"

lemmas dp_defs = dp_class_def dp_len_def dp_protocol_def dp_timestamp_def dp_type_def dp_subtype_def dp_data_len_def
  dp_data_def

subsection \<open>Time\<close>

definition get_fn :: "u8 list \<Rightarrow> u32 res" where
  "get_fn msg = rbind (dp_timestamp msg) (\<lambda>t. Inr (ucast ((t div 204800) mod 2715648)))"

text \<open>
  Rounding to the 53 bits of a \<open>double\<close>, to the nearest and ties to even.  A number is kept as a multiple of
  2^-54; the factor \<open>1.25*256.0/1000.0\<close> is the \<open>double\<close> next to 0.32, which is 5764607523034235 / 2^54.
\<close>

definition fl53 :: "nat \<Rightarrow> nat" where
  "fl53 n = (if n < 2 ^ 53 then n
     else let k = bit_length n - 53; q = n div 2 ^ k; r = n mod 2 ^ k
          in (if r > 2 ^ (k - 1) \<or> (r = 2 ^ (k - 1) \<and> odd q) then q + 1 else q) * 2 ^ k)"

text \<open>
  The ticks of the capture since the GPS epoch, the number of a packet in seconds, and its Unix
  time; a time before 2011 is replaced by the clock of the host.
\<close>

definition qd_ticks :: "u8 list \<Rightarrow> nat \<Rightarrow> nat res" where
  "qd_ticks msg k = rbind (rdn msg (k + 1) 4) (\<lambda>bs. Inr (foldr (\<lambda>b x. unat b + 256 * x) bs 0))"

definition qd_epoch :: "nat \<Rightarrow> u32 \<Rightarrow> u32" where
  "qd_epoch n clock =
     (let qd_ts = fl53 (n * 5764607523034235)
      in if qd_ts > 1000000000 * 2 ^ 54 then of_nat (fl53 (qd_ts + 315964800 * 2 ^ 54) div 2 ^ 54) else clock)"

definition get_epoch :: "u8 list \<Rightarrow> nat \<Rightarrow> world \<Rightarrow> u32 res" where
  "get_epoch msg k w = rbind (qd_ticks msg k) (\<lambda>n. Inr (qd_epoch n (ucast (tv_sec (w_tod w)))))"

subsection \<open>Messages\<close>

text \<open>
  What a handler makes of a packet: nothing, a message, or a message that is allocated but neither returned nor
  freed.
\<close>

datatype diag_result = No_message | Message radio_message | Lost_message radio_message

definition from_option :: "radio_message option \<Rightarrow> diag_result" where
  "from_option x = (case x of None \<Rightarrow> No_message | Some m \<Rightarrow> Message m)"

text \<open>The payload of an RRC or NAS message of the third or fourth generation; \<open>None\<close> is an inconsistent length.\<close>

definition payload_length :: "u8 list \<Rightarrow> u32 \<Rightarrow> u32 option res" where
  "payload_length msg len =
     (if len < 16 then Inr None
      else rbind (dp_len msg) (\<lambda>l.
           let payload_len = ucast l - 16 in
           Inr (if payload_len > len - 16 \<or> payload_len > 912 then None else Some payload_len)))"

definition filled :: "u8 \<Rightarrow> u8 \<Rightarrow> bool \<Rightarrow> u32 \<Rightarrow> radio_message" where
  "filled tech flags ul fn =
     zero_radio_message\<lparr>rm_rat := tech, rm_flags := flags,
       rm_bb := zero_burst_buf\<lparr>bb_fn := (bb_fn zero_burst_buf)[0 := fn],
                               bb_arfcn := (bb_arfcn zero_burst_buf)[0 := if ul then ARFCN_UPLINK else 0]\<rparr>\<rparr>"

definition with_payload :: "u8 list \<Rightarrow> u32 \<Rightarrow> radio_message \<Rightarrow> diag_result res" where
  "with_payload msg payload_len m =
     rbind (rdn (dp_data msg) 1 (unat payload_len)) (\<lambda>d.
     rbind (wrn (bb_data (rm_bb m)) 0 d) (\<lambda>d.
     Inr (Message (m\<lparr>rm_msg_len := payload_len, rm_bb := (rm_bb m)\<lparr>bb_data := d\<rparr>\<rparr>))))"

definition handle_3G :: "u8 list \<Rightarrow> u32 \<Rightarrow> diag_result res" where
  "handle_3G msg len =
     rbind (payload_length msg len) (\<lambda>p. case p of
       None \<Rightarrow> Inr No_message
     | Some payload_len \<Rightarrow>
         rbind (get_fn msg) (\<lambda>fn. rbind (dp_type msg) (\<lambda>t.
         if t = 0 then with_payload msg payload_len (filled RAT_UMTS MSG_FACCH True fn)
         else if t = 1 then with_payload msg payload_len (filled RAT_UMTS MSG_SDCCH True fn)
         else if t = 2 then with_payload msg payload_len (filled RAT_UMTS MSG_FACCH False fn)
         else if t = 3 then with_payload msg payload_len (filled RAT_UMTS MSG_SDCCH False fn)
         else Inr No_message)))"

definition handle_4G :: "u8 list \<Rightarrow> u32 \<Rightarrow> diag_result res" where
  "handle_4G msg len =
     rbind (payload_length msg len) (\<lambda>p. case p of
       None \<Rightarrow> Inr No_message
     | Some payload_len \<Rightarrow>
         rbind (get_fn msg) (\<lambda>fn. rbind (dp_protocol msg) (\<lambda>t.
         if t = 0xb0c0 then rbind (rd (dp_data msg) 0) (\<lambda>_. Inr (Lost_message (filled RAT_LTE 0 False fn)))
         else if t = 0xb0e0 \<or> t = 0xb0ea then with_payload msg payload_len (filled RAT_LTE (MSG_SDCCH OR MSG_CIPHERED) False fn)
         else if t = 0xb0e1 \<or> t = 0xb0eb then with_payload msg payload_len (filled RAT_LTE (MSG_SDCCH OR MSG_CIPHERED) True fn)
         else if t = 0xb0e2 \<or> t = 0xb0ec then with_payload msg payload_len (filled RAT_LTE MSG_SDCCH False fn)
         else if t = 0xb0e3 \<or> t = 0xb0ed then with_payload msg payload_len (filled RAT_LTE MSG_SDCCH True fn)
         else Inr No_message)))"

definition handle_nas :: "u8 list \<Rightarrow> u32 \<Rightarrow> diag_result res" where
  "handle_nas msg len =
     rbind (dp_subtype msg) (\<lambda>sub.
     if unat sub + 19 + 2 > unat len then Inr No_message
     else if sub = 0 then Inr No_message
     else rbind (get_fn msg) (\<lambda>fn. rbind (dp_type msg) (\<lambda>ul.
          rbind (new_l3 (drop 2 (dp_data msg)) sub RAT_GSM DOMAIN_CS fn (nz ul) MSG_SDCCH) (\<lambda>m. Inr (from_option m)))))"

text \<open>What \<open>print_common\<close> reads.\<close>

definition print_common :: "u8 list \<Rightarrow> u32 \<Rightarrow> diag_result res" where
  "print_common msg len =
     rbind (get_fn msg) (\<lambda>_. rbind (rdn msg 0 19) (\<lambda>_.
     rbind (osmo_hexdump_nospc (dp_data msg) (len - 2 - 19)) (\<lambda>_. Inr No_message)))"

definition handle_bcch_and_rr :: "u8 list \<Rightarrow> u32 \<Rightarrow> diag_result res" where
  "handle_bcch_and_rr msg len =
     (let dtap_len = ucast (len - 2 - 19) :: u8;
          l3 = (\<lambda>ul flags. rbind (get_fn msg) (\<lambda>fn.
             rbind (new_l3 (dp_data msg) dtap_len RAT_GSM DOMAIN_CS fn ul flags) (\<lambda>m. Inr (from_option m))));
          l2 = rbind (get_fn msg) (\<lambda>fn. rbind (dp_data_len msg) (\<lambda>n.
             rbind (new_l2 (dp_data msg) n RAT_GSM DOMAIN_CS fn False MSG_BCCH) (\<lambda>m. Inr (Message m))))
      in rbind (dp_type msg) (\<lambda>t.
         if t = 0 then rbind (dp_subtype msg) (\<lambda>sub.
           if sub \<in> {22, 23, 39, 41, 44, 50, 52, 96} then l3 True MSG_SDCCH else print_common msg len)
         else if t = 4 then rbind (dp_subtype msg) (\<lambda>sub.
           if sub = 21 then l3 True MSG_SACCH else print_common msg len)
         else if t = 128 then l3 False MSG_SDCCH
         else if t = 129 then l2
         else if t = 131 then l2
         else if t = 132 then l3 False MSG_SACCH
         else print_common msg len))"

text \<open>
  The measurement reports are only printed, and only when \<open>msg_verbose\<close> is above 1, which no program sets.
  Without printing, the handlers of four of them read a count or swap a field at the start of the report.
\<close>

definition measurement_report :: "u8 list \<Rightarrow> u16 \<Rightarrow> diag_result res" where
  "measurement_report msg protocol =
     (if protocol = 0x5071 \<or> protocol = 0x507b then rbind (rd msg 16) (\<lambda>_. Inr No_message)
      else if protocol = 0x5082 then rbind (rdn msg 16 4) (\<lambda>_. Inr No_message)
      else if protocol = 0x5076 then rbind (rdn msg 16 2) (\<lambda>_. Inr No_message)
      else Inr No_message)"

definition diag_message :: "u8 list \<Rightarrow> u32 \<Rightarrow> diag_result res" where
  "diag_message msg len =
     rbind (dp_protocol msg) (\<lambda>p.
     if p \<in> {0x5071, 0x506c, 0x5076, 0x507a, 0x507b, 0x5082, 0x51fc} then measurement_report msg p
     else if p = 0x412f then handle_3G msg len
     else if p = 0x512f then handle_bcch_and_rr msg len
     else if p = 0x5230 then Inr No_message
     else if p = 0x713a then handle_nas msg len
     else if p \<in> {0xb0c0, 0xb0e0, 0xb0e1, 0xb0e2, 0xb0e3, 0xb0ea, 0xb0eb, 0xb0ec, 0xb0ed} then handle_4G msg len
     else print_common msg len)"

subsection \<open>The packet handler\<close>

definition deliver :: "rrc_lib \<Rightarrow> diag_result \<Rightarrow> world \<Rightarrow> world res" where
  "deliver lib r w = (case r of
      No_message \<Rightarrow> Inr w
    | Lost_message m \<Rightarrow> Inr (snd (malloc_msg m w))
    | Message m \<Rightarrow>
        (case malloc_msg (m\<lparr>rm_timestamp := (rm_timestamp m)\<lparr>tv_sec := ucast (w_now w)\<rparr>\<rparr>) w of
           (a, w) \<Rightarrow> handle_radio_msg lib 0 a w))"

definition handle_diag :: "rrc_lib \<Rightarrow> u8 list \<Rightarrow> u32 \<Rightarrow> world \<Rightarrow> world res" where
  "handle_diag lib msg len w =
     rbind (dp_class msg) (\<lambda>c.
     if c \<noteq> 0x0010 then
       if c = 0x001d then
         rbind (rassert (len > 3)) (\<lambda>_.
         rbind (get_epoch msg 3 w) (\<lambda>t. seqs [
           upd 0 (\<lambda>s. s\<lparr>s_timestamp := (s_timestamp s)\<lparr>tv_sec := ucast t\<rparr>\<rparr>),
           by_sess 0 (\<lambda>s0. upd 1 (\<lambda>s. s\<lparr>s_timestamp := s_timestamp s0\<rparr>))] w))
       else Inr w
     else
       rbind (rassert (len > 10)) (\<lambda>_.
       rbind (get_epoch msg 10 w) (\<lambda>t.
       rbind (cell_and_paging_dump t False False (w\<lparr>w_now := t\<rparr>)) (\<lambda>w.
       rbind (diag_message msg len) (\<lambda>r. deliver lib r w)))))"

subsection \<open>The importer\<close>

text \<open>
  \<open>diag_init\<close> for standard input (a name that starts with a dash is not parsed; for other names see \<open>Filename\<close>), with the time of the sessions at
  zero: the cells then start at the clock of the host.
\<close>

definition diag_init :: "u32 \<Rightarrow> u32 \<Rightarrow> bool \<Rightarrow> bool \<Rightarrow> bool \<Rightarrow> u32 \<Rightarrow> world \<Rightarrow> world" where
  "diag_init start_sid start_cid gsmtap callback autotime appid w =
     (let w = session_init start_sid False gsmtap callback (w\<lparr>w_auto_timestamp := autotime\<rparr>);
          w = (if nz appid then w\<lparr>w_sess := map (\<lambda>s. s\<lparr>s_appid := appid\<rparr>) (w_sess w)\<rparr> else w)
      in cell_init start_cid (ucast (tv_sec (s_timestamp (w_sess w ! 0)))) callback w)"

text \<open>
  The loop of \<open>process_file\<close>.  A round that reads no byte is the last one; any other shortens the rest of the
  file.  The clock of the host at the time of the round \<open>k\<close> is \<open>clock k\<close>.
\<close>

declare fread_unescape_from.simps [simp del]

lemma fread_unescape_rest:
  assumes "length msg = len"
  shows "\<exists>msg' n f'. fread_unescape_from f msg len i = Inr (msg', n, f') \<and> length msg' = len \<and> i \<le> n \<and> (i \<le> len \<longrightarrow> n \<le> len)
    \<and> length f' + (n - i) \<le> length f"
  using assms
proof (induction "len - i" arbitrary: f msg i)
  case 0
  then show ?case by (subst fread_unescape_from.simps) auto
next
  case (Suc d)
  have rec: "\<exists>msg' n f'. fread_unescape_from g m len (Suc i) = Inr (msg', n, f') \<and> length msg' = len \<and> Suc i \<le> n
      \<and> (Suc i \<le> len \<longrightarrow> n \<le> len) \<and> length f' + (n - Suc i) \<le> length g" if "length m = len" for g m
    using Suc.hyps that by simp
  show ?case
  proof (cases f)
    case Nil
    with Suc show ?thesis by (subst fread_unescape_from.simps) auto
  next
    case (Cons b g)
    show ?thesis
    proof (cases "b = 0x7d \<and> g \<noteq> []")
      case True
      then obtain c h where g: "g = c # h" by (cases g) auto
      with rec [of "msg[i := b, i := (c AND 0x0f) OR 0x70]" h] True Cons Suc show ?thesis
        by (subst fread_unescape_from.simps) fastforce
    next
      case False
      have "i < len" using Suc.hyps(2) by simp
      then have "fread_unescape_from f msg len i =
          (if b = 0x7e then Inr (msg[i := b], i, g) else if b = 0x7d then Inr (msg[i := b], i, [])
           else fread_unescape_from g (msg[i := b]) len (Suc i))"
        using False Cons Suc.prems by (subst fread_unescape_from.simps) (cases g; simp)
      moreover obtain msg' n f' where "fread_unescape_from g (msg[i := b]) len (Suc i) = Inr (msg', n, f')" "length msg' = len"
        "Suc i \<le> n" "n \<le> len" "length f' + (n - Suc i) \<le> length g"
        using rec [of "msg[i := b]" g] Suc.prems \<open>i < len\<close> by auto
      ultimately show ?thesis using Cons Suc.prems \<open>i < len\<close> by auto
    qed
  qed
qed

lemma fread_unescape_total:
  "length msg = len \<Longrightarrow> \<exists>msg' n f'. fread_unescape f msg len = Inr (msg', n, f') \<and> length msg' = len \<and> n \<le> len
    \<and> length f' + n \<le> length f"
  using fread_unescape_rest [of msg len f 0] by (auto simp: fread_unescape_def)

function import_loop :: "rrc_lib \<Rightarrow> (nat \<Rightarrow> timeval) \<Rightarrow> nat \<Rightarrow> u8 list \<Rightarrow> world \<Rightarrow> world res" where
  "import_loop lib clock k f w =
     rbind (fread_unescape f (replicate 4096 0x2b) 4096) (\<lambda>(msg, len, f').
     if len = 0 then Inr w
     else rbind (handle_diag lib msg (of_nat len) (w\<lparr>w_tod := clock k\<rparr>)) (import_loop lib clock (Suc k) f'))"
  by pat_completeness auto
termination
proof (relation "measure (\<lambda>(lib, clock, k, f, w). length f)")
  fix lib :: rrc_lib and clock :: "nat \<Rightarrow> timeval" and k n :: nat and f f' msg y :: "u8 list" and w w' :: world
  show "((lib, clock, Suc k, f', w'), lib, clock, k, f, w) \<in> measure (\<lambda>(lib, clock, k, f, w). length f)"
    if "fread_unescape f (replicate 4096 0x2b) 4096 = Inr x" "(msg, y') = x" "(n, f') = y'" "n \<noteq> 0" for x y'
    using that fread_unescape_total [of "replicate 4096 0x2b" 4096 f] by auto
qed auto

declare import_loop.simps [simp del]

definition process_file ::
  "rrc_lib \<Rightarrow> (nat \<Rightarrow> timeval) \<Rightarrow> u32 \<Rightarrow> u32 \<Rightarrow> bool \<Rightarrow> bool \<Rightarrow> bool \<Rightarrow> u32 \<Rightarrow> u8 list \<Rightarrow> world \<Rightarrow> (u32 \<times> u32 \<times> world) res" where
  "process_file lib clock sid cid gsmtap callback autotime appid infile w =
     rbind (import_loop lib clock 0 infile (diag_init sid cid gsmtap callback autotime appid w)) session_destroy"

section \<open>The time of a packet\<close>

lemma bit_length_upper: "n < 2 ^ bit_length n"
proof (induction n rule: bit_length.induct)
  case (1 n)
  then show ?case by (cases "n = 0") (simp_all add: bit_length.simps [of n])
qed

lemma bit_length_lower: "n \<noteq> 0 \<Longrightarrow> 2 ^ (bit_length n - 1) \<le> n"
proof (induction n rule: bit_length.induct)
  case (1 n)
  show ?case
  proof (cases "n div 2 = 0")
    case False
    with 1 have "2 ^ (bit_length (n div 2) - 1) \<le> n div 2" by simp
    then have "2 * 2 ^ (bit_length (n div 2) - 1) \<le> n" by linarith
    moreover have "bit_length (n div 2) \<noteq> 0" using False by (simp add: bit_length.simps)
    then have "2 * (2 :: nat) ^ (bit_length (n div 2) - 1) = 2 ^ bit_length (n div 2)" by (cases "bit_length (n div 2)") simp_all
    ultimately have "2 ^ bit_length (n div 2) \<le> n" by simp
    with 1(2) show ?thesis by (simp add: bit_length.simps [of n])
  qed (use 1 in \<open>simp add: bit_length.simps\<close>)
qed

lemma bit_length_le:
  assumes "n < 2 ^ m"
  shows "bit_length n \<le> m"
proof (cases "n = 0")
  case False
  then have "(2 :: nat) ^ (bit_length n - 1) < 2 ^ m" using bit_length_lower [OF False] assms by linarith
  then show ?thesis by simp
qed (simp add: bit_length.simps)

lemma bit_length_eq:
  assumes "2 ^ m \<le> n" and "n < 2 ^ Suc m"
  shows "bit_length n = Suc m"
proof -
  have "\<not> bit_length n \<le> m"
    using bit_length_upper [of n] power_increasing [of "bit_length n" m "2 :: nat"] assms(1) by linarith
  with bit_length_le [OF assms(2)] show ?thesis by simp
qed

text \<open>Rounding does not leave the interval between two multiples of a unit that is coarse enough, and the error is half a unit.\<close>

lemma fl53_bounds:
  assumes "n < 2 ^ 85"
  shows "2 ^ 32 dvd a \<Longrightarrow> a \<le> n \<Longrightarrow> a \<le> fl53 n" "fl53 n \<le> n + 2 ^ 31"
proof -
  define k where "k = bit_length n - 53"
  have k: "k \<le> 32" using bit_length_le [OF assms] by (simp add: k_def)
  have n: "n = n div 2 ^ k * 2 ^ k + n mod 2 ^ k" by (rule div_mult_mod_eq [symmetric])
  have f: "fl53 n = (if n < 2 ^ 53 then n
      else (if n mod 2 ^ k > 2 ^ (k - 1) \<or> (n mod 2 ^ k = 2 ^ (k - 1) \<and> odd (n div 2 ^ k)) then n div 2 ^ k + 1 else n div 2 ^ k) * 2 ^ k)"
    by (simp only: fl53_def Let_def k_def)
  show "a \<le> fl53 n" if "2 ^ 32 dvd a" "a \<le> n"
  proof -
    have "(2 :: nat) ^ k dvd a" using that(1) k by (meson dvd_trans le_imp_power_dvd)
    then obtain c where "a = 2 ^ k * c" ..
    moreover from this that(2) have "c \<le> n div 2 ^ k" by (simp add: less_eq_div_iff_mult_less_eq mult.commute)
    ultimately have "a \<le> n div 2 ^ k * 2 ^ k" by (simp add: mult.commute)
    moreover have "n div 2 ^ k * 2 ^ k \<le> fl53 n" using n unfolding f by (simp only: if_split) (auto simp: algebra_simps)
    ultimately show ?thesis by simp
  qed
  show "fl53 n \<le> n + 2 ^ 31"
  proof (cases "n < 2 ^ 53")
    case False
    then have "\<not> bit_length n \<le> 53" using bit_length_upper [of n] power_increasing [of "bit_length n" 53 "2 :: nat"] by linarith
    then have "0 < k" by (simp add: k_def)
    then have "(2 :: nat) ^ k = 2 * 2 ^ (k - 1)" "(2 :: nat) ^ (k - 1) \<le> 2 ^ 31"
      using k power_increasing [of "k - 1" 31 "2 :: nat"] by (simp_all flip: power_Suc)
    moreover have "fl53 n \<le> n \<or> 2 ^ (k - 1) \<le> n mod 2 ^ k \<and> fl53 n = n div 2 ^ k * 2 ^ k + 2 ^ k"
    proof (cases "n mod 2 ^ k > 2 ^ (k - 1) \<or> (n mod 2 ^ k = 2 ^ (k - 1) \<and> odd (n div 2 ^ k))")
      case True
      then have "fl53 n = (n div 2 ^ k + 1) * 2 ^ k" using False by (simp only: f if_False if_True)
      with True show ?thesis by (auto simp: distrib_right)
    next
      case c: False
      then have "fl53 n = n div 2 ^ k * 2 ^ k" using False by (simp only: f if_False)
      with n show ?thesis by linarith
    qed
    ultimately show ?thesis using n by linarith
  qed (simp add: fl53_def)
qed

text \<open>C33. The time of a packet.  The computation of \<open>get_epoch\<close> in floating point, with the rounded factor 0.32 and two rounded
  operations, gives exactly the integer part of 0.32 n plus the distance of the two epochs for every number n
  of ticks above 3125000000 (a day in September 2011), and the clock of the host for all others.\<close>

theorem qd_epoch_exact:
  assumes "n < 2 ^ 32"
  shows "qd_epoch n clock = (if 3125000000 < n then of_nat (n * 8 div 25 + 315964800) else clock)"
proof -
  let ?x = "n * 5764607523034235" and ?u = "2 ^ 54 :: nat"
  define q r where "q = n * 8 div 25" and "r = n * 8 mod 25"
  have r: "n * 8 = 25 * q + r" "r < 25" by (simp_all add: q_def r_def)
  have x: "25 * ?x = ?u * (25 * q + r) + 3 * n" by (simp flip: r(1))
  have "?x < 2 ^ 85" using assms by simp
  note y = fl53_bounds [OF this]
  have lo: "q * ?u \<le> fl53 ?x" by (rule y(1)) (use x in \<open>simp_all add: dvd_mult\<close>)
  have up: "25 * fl53 ?x \<le> ?u * (25 * q + r) + 3 * n + 25 * 2 ^ 31" using y(2) x by linarith
  have clock: "fl53 ?x > 1000000000 * ?u \<longleftrightarrow> 3125000000 < n"
  proof (cases n "3125000000 :: nat" rule: linorder_cases)
    case less
    then have "n * 8 \<le> 25 * 1000000000 - 8" by simp
    with up assms r(1) show ?thesis by simp
  next
    case equal
    have "bit_length (3125000000 * 5764607523034235) = Suc 83" by (rule bit_length_eq) simp_all
    then have "\<not> fl53 (3125000000 * 5764607523034235) > 1000000000 * 2 ^ 54" by (simp add: fl53_def Let_def)
    with equal show ?thesis by simp
  next
    case greater
    have "1000000000 * ?u + 2 ^ 32 \<le> ?x" using greater by simp
    then have "1000000000 * ?u + 2 ^ 32 \<le> fl53 ?x" by (intro y(1)) simp_all
    with greater show ?thesis by simp
  qed
  show ?thesis
  proof (cases "3125000000 < n")
    case True
    let ?z = "fl53 ?x + 315964800 * ?u"
    have "?z < 2 ^ 85" using up assms r by simp
    note z = fl53_bounds [OF this]
    have "(q + 315964800) * ?u \<le> fl53 ?z" by (rule z(1)) (use lo in \<open>simp_all add: dvd_mult algebra_simps\<close>)
    moreover have "fl53 ?z < (q + 315964800 + 1) * ?u" using z(2) up assms r(2) by simp
    ultimately have "fl53 ?z div ?u = q + 315964800"
      by (intro div_nat_eqI) (simp_all add: algebra_simps)
    with True clock show ?thesis by (simp add: qd_epoch_def q_def Let_def)
  qed (use clock in \<open>simp add: qd_epoch_def Let_def\<close>)
qed

theorem qd_epoch_exact_witness: "qd_epoch 3200000000 7 = 1339964800 \<and> qd_epoch 42 7 = 7"
  using qd_epoch_exact [of 3200000000 7] qd_epoch_exact [of 42 7] by simp

end
