(* ===== verification/Diag_Safe.thy ===== *)
theory Diag_Safe
  imports Program Diag_Input
begin

text \<open>
  The DIAG importer on arbitrary input: a packet only takes the parser through steps of the transition system of \<open>Program\<close>,
  so that its theorems hold for every capture.
\<close>

section \<open>Messages of the front end\<close>

definition result_ok :: "diag_result \<Rightarrow> bool" where
  "result_ok r \<longleftrightarrow> (\<forall>m. r = Message m \<longrightarrow> entry_ok m)"

lemma result_ok_simps [simp]:
  "result_ok No_message" "result_ok (Lost_message m)" "result_ok (Message m) \<longleftrightarrow> entry_ok m"
  "result_ok (from_option x) \<longleftrightarrow> (\<forall>m. x = Some m \<longrightarrow> entry_ok m)"
  by (auto simp: result_ok_def from_option_def split: option.splits)

definition channel_flag :: "u8 \<Rightarrow> bool" where
  "channel_flag f \<longleftrightarrow> f \<in> {MSG_SACCH, MSG_SDCCH, MSG_FACCH, MSG_BCCH}"

lemma channel_flag_simps [simp]:
  "channel_flag MSG_SACCH" "channel_flag MSG_SDCCH" "channel_flag MSG_FACCH" "channel_flag MSG_BCCH"
  by (simp_all add: channel_flag_def)

lemma new_l2_safe:
  assumes "channel_flag flags"
  shows "res_ok entry_ok (new_l2 d n RAT_GSM DOMAIN_CS fn ul flags)"
  using assms
  by (auto simp: new_l2_def Let_def entry_ok_def channel_flag_def radio_message_ok_def burst_buf_ok_def zero_radio_message_def
      zero_burst_buf_def radio_consts)

lemma encapsulate_safe: "res_ok (\<lambda>_. True) (encapsulate_lapdm d n ul sacch)"
  by (simp add: encapsulate_lapdm_def Let_def)

lemma new_l3_safe:
  assumes "channel_flag flags"
  shows "res_ok (\<lambda>x. \<forall>m. x = Some m \<longrightarrow> entry_ok m) (new_l3 d n RAT_GSM DOMAIN_CS fn ul flags)"
  unfolding new_l3_def
  by (auto intro!: res_ok_mono [OF encapsulate_safe] res_ok_mono [OF new_l2_safe [OF assms]])

lemma le_safe: "(\<And>x. Q x) \<Longrightarrow> res_ok Q (le16 msg k)" "(\<And>x. R x) \<Longrightarrow> res_ok R (le64 msg k)"
  by (simp_all add: le16_def le64_def)

lemma get_fn_safe: "(\<And>x. Q x) \<Longrightarrow> res_ok Q (get_fn msg)"
  by (simp add: get_fn_def dp_timestamp_def) (rule le_safe, simp)

lemma print_common_safe: "res_ok result_ok (print_common msg len)"
  unfolding print_common_def by (auto intro!: get_fn_safe osmo_hexdump_safe)

lemma with_payload_safe:
  assumes "entry_ok m"
  shows "res_ok result_ok (with_payload msg n m)"
  using assms by (auto simp: with_payload_def entry_ok_def radio_message_ok_def burst_buf_ok_def)

lemma filled_ok:
  "flags \<in> {MSG_SDCCH, MSG_FACCH} \<Longrightarrow> entry_ok (filled RAT_UMTS flags ul fn)" "entry_ok (filled RAT_LTE flags ul fn)"
  by (auto simp: entry_ok_def filled_def radio_message_ok_def burst_buf_ok_def zero_radio_message_def zero_burst_buf_def radio_consts)

lemma payload_length_safe: "(\<And>x. Q x) \<Longrightarrow> res_ok Q (payload_length msg len)"
  by (auto simp: payload_length_def dp_len_def Let_def intro!: le_safe)

lemma handle_3G_safe: "res_ok result_ok (handle_3G msg len)"
  unfolding handle_3G_def dp_type_def
  by (auto intro!: payload_length_safe get_fn_safe with_payload_safe filled_ok split: option.splits)

lemma handle_4G_safe: "res_ok result_ok (handle_4G msg len)"
  unfolding handle_4G_def dp_protocol_def
  by (auto intro!: payload_length_safe get_fn_safe with_payload_safe filled_ok le_safe split: option.splits)

lemma handle_nas_safe: "res_ok result_ok (handle_nas msg len)"
  unfolding handle_nas_def dp_subtype_def dp_type_def
  by (auto intro!: get_fn_safe res_ok_mono [OF new_l3_safe])

lemma bcch_and_rr_safe: "res_ok result_ok (handle_bcch_and_rr msg len)"
  unfolding handle_bcch_and_rr_def Let_def dp_subtype_def dp_type_def dp_data_len_def
  by (auto intro!: get_fn_safe print_common_safe res_ok_mono [OF new_l3_safe] res_ok_mono [OF new_l2_safe])

lemma diag_message_safe: "res_ok result_ok (diag_message msg len)"
  unfolding diag_message_def dp_protocol_def measurement_report_def
  by (auto intro!: le_safe handle_3G_safe handle_4G_safe handle_nas_safe bcch_and_rr_safe print_common_safe)

text \<open>C22. The messages of the front end are well formed.  For every packet, \<open>diag_message\<close> yields a
  message only with a domain of the two sessions, with buffers of the declared sizes, and with a technology and
  channel flags that \<open>handle_radio_msg\<close> accepts; and it never dereferences a null pointer or aborts.\<close>

theorem diag_message_type:
  "diag_message msg len = Inr (Message m) \<Longrightarrow>
     rm_domain m < 2 \<and> length (rm_msg m) = 256 \<and> burst_buf_ok (rm_bb m)
     \<and> (rm_rat m = RAT_GSM \<and> rm_flags m AND 0x0f \<in> {MSG_SACCH, MSG_SDCCH, MSG_FACCH, MSG_BCCH}
        \<or> rm_rat m = RAT_UMTS \<and> (nz (rm_flags m AND MSG_SDCCH) \<or> nz (rm_flags m AND MSG_FACCH)) \<or> rm_rat m = RAT_LTE)"
  using diag_message_safe [of msg len] by (auto simp: entry_ok_def radio_message_ok_def)

text \<open>A packet with a plain NAS message of three octets.\<close>

definition sample_packet :: "u8 list" where
  "sample_packet = [0x10, 0, 19, 0, 0, 0, 0xe2, 0xb0, 0, 0, 0, 0, 0xc0, 0xde, 0xbe, 0, 0, 0, 0, 0, 0x07, 0x41, 0x01]"

theorem diag_message_type_witness:
  "\<exists>m. diag_message sample_packet 36 = Inr (Message m) \<and>
     rm_domain m < 2 \<and> length (rm_msg m) = 256 \<and> burst_buf_ok (rm_bb m)
     \<and> (rm_rat m = RAT_GSM \<and> rm_flags m AND 0x0f \<in> {MSG_SACCH, MSG_SDCCH, MSG_FACCH, MSG_BCCH}
        \<or> rm_rat m = RAT_UMTS \<and> (nz (rm_flags m AND MSG_SDCCH) \<or> nz (rm_flags m AND MSG_FACCH)) \<or> rm_rat m = RAT_LTE)"
proof -
  have "\<exists>m. diag_message sample_packet 36 = Inr (Message m)"
    by (simp add: diag_message_def sample_packet_def dp_defs le16_def le64_def handle_4G_def payload_length_def get_fn_def
        with_payload_def filled_def zero_radio_message_def zero_burst_buf_def)
  then show ?thesis using diag_message_type [of sample_packet 36] by blast
qed

section \<open>Packets\<close>

text \<open>A packet whose header is cut off: the handler asserts that it is not.\<close>

definition short_packet :: "u8 list \<Rightarrow> u32 \<Rightarrow> bool" where
  "short_packet msg len \<longleftrightarrow> dp_class msg = Inr 0x0010 \<and> len \<le> 10 \<or> dp_class msg = Inr 0x001d \<and> len \<le> 3"

lemma short_packet_asserts: "short_packet msg len \<Longrightarrow> handle_diag lib msg len w = Inl AssertFailed"
  by (auto simp: short_packet_def handle_diag_def rassert_def)

definition reaches :: "rrc_lib \<Rightarrow> world \<Rightarrow> bool" where
  "reaches lib w \<longleftrightarrow> (\<exists>X. reachable lib X w)"

lemma dump_safe:
  assumes "rrc_lib_ok lib" and "reaches lib w"
  shows "res_ok (reaches lib) (cell_and_paging_dump t forced False w)"
proof -
  obtain X where X: "reachable lib X w" using assms(2) by (auto simp: reaches_def)
  then have "cells_ok w" using idle_reachable [OF assms(1)] store_okD(3) by (auto simp: idle_def)
  from dump_ok [OF this] obtain w' where "cell_and_paging_dump t forced False w = Inr w'" by blast
  with reachable.dump [OF X] show ?thesis by (auto simp: reaches_def)
qed

lemma clock_safe: "reaches lib w \<Longrightarrow> reaches lib (w\<lparr>w_now := n\<rparr>)" "reaches lib w \<Longrightarrow> reaches lib (w\<lparr>w_tod := t\<rparr>)"
proof -
  assume "reaches lib w"
  then obtain X where X: "reachable lib X w" by (auto simp: reaches_def)
  have "w\<lparr>w_now := n\<rparr> = w\<lparr>w_now := n, w_tod := w_tod w\<rparr>" "w\<lparr>w_tod := t\<rparr> = w\<lparr>w_now := w_now w, w_tod := t\<rparr>" by simp_all
  with reachable.clock [OF X] show "reaches lib (w\<lparr>w_now := n\<rparr>)" "reaches lib (w\<lparr>w_tod := t\<rparr>)"
    by (metis reaches_def)+
qed

lemma take_msg_reaches:
  assumes "rrc_lib_ok lib" and "reaches lib w" and "entry_ok m"
  shows "res_ok (reaches lib) (take_msg lib m w)"
proof -
  obtain X where X: "reachable lib X w" using assms(2) by (auto simp: reaches_def)
  show ?thesis
    using take_msg_law [OF idle_reachable [OF assms(1) X] assms(3,1)] reachable.message [OF X assms(3)]
    by (auto simp: res_ok_def reaches_def split: sum.splits)
qed

lemma lose_msg_reaches: "reaches lib w \<Longrightarrow> reaches lib (lose_msg m w)"
  by (auto simp: reaches_def intro: reachable.lost)

lemma deliver_safe:
  assumes "rrc_lib_ok lib" and "reaches lib w" and "result_ok r"
  shows "res_ok (reaches lib) (deliver lib r w)"
proof (cases r)
  case (Message m)
  let ?m = "m\<lparr>rm_timestamp := (rm_timestamp m)\<lparr>tv_sec := ucast (w_now w)\<rparr>\<rparr>"
  have "entry_ok ?m" using assms(3) Message by (simp add: entry_ok_def radio_message_ok_def)
  moreover have "deliver lib r w = take_msg lib ?m w" by (simp add: deliver_def take_msg_def Message)
  ultimately show ?thesis using take_msg_reaches [OF assms(1,2)] by simp
qed (use assms(2) lose_msg_reaches [OF assms(2)] in \<open>simp_all add: deliver_def lose_msg_def\<close>)

lemma get_epoch_safe: "(\<And>t. Q t) \<Longrightarrow> res_ok Q (get_epoch msg k w)"
  by (simp add: get_epoch_def qd_ticks_def)

lemma set_time_safe:
  assumes "rrc_lib_ok lib" and "reaches lib w"
  shows "res_ok (reaches lib) (seqs [upd 0 (\<lambda>s. s\<lparr>s_timestamp := (s_timestamp s)\<lparr>tv_sec := t\<rparr>\<rparr>),
           by_sess 0 (\<lambda>s0. upd 1 (\<lambda>s. s\<lparr>s_timestamp := s_timestamp s0\<rparr>))] w)"
proof -
  obtain X where X: "reachable lib X w" using assms(2) by (auto simp: reaches_def)
  then have "length (w_sess w) = 2" using idle_reachable [OF assms(1)] store_okD(1) by (auto simp: idle_def)
  then obtain s0 s1 where "w_sess w = [s0, s1]" by (auto simp: numeral_2_eq_2 length_Suc_conv)
  with reachable.times [OF X, of "\<lambda>_ _. (s_timestamp s0)\<lparr>tv_sec := t\<rparr>"] show ?thesis
    by (auto simp: upd_def by_sess_def set_times_def reaches_def)
qed

lemma handle_diag_safe:
  assumes "rrc_lib_ok lib" and "reaches lib w" and "\<not> short_packet msg len"
  shows "res_ok (reaches lib) (handle_diag lib msg len w)"
proof (cases "dp_class msg")
  case (Inl e)
  then have "res_ok (\<lambda>_. True) (Inl e :: u16 res)" using le_safe(1) [of "\<lambda>_. True" msg 0] by (simp add: dp_class_def)
  with Inl show ?thesis by (simp add: handle_diag_def)
next
  case (Inr c)
  with assms(3) show ?thesis
    by (auto simp: handle_diag_def short_packet_def rassert_def simp del: seqs.simps One_nat_def
        intro!: get_epoch_safe set_time_safe [OF assms(1,2)] assms(2) res_ok_mono [OF diag_message_safe] deliver_safe [OF assms(1)]
          res_ok_mono [OF dump_safe [OF assms(1) clock_safe(1) [OF assms(2)]]])
qed

section \<open>Captures\<close>

text \<open>The packets that the importer reads from a file: it stops at the first empty one.\<close>

function packets :: "u8 list \<Rightarrow> (u8 list \<times> nat) list" where
  "packets f = (case fread_unescape f (replicate 4096 0x2b) 4096 of
     Inl _ \<Rightarrow> []
   | Inr (msg, len, f') \<Rightarrow> if len = 0 then [] else (msg, len) # packets f')"
  by pat_completeness auto
termination
proof (relation "measure length")
  show "(f', f) \<in> measure length"
    if "fread_unescape f (replicate 4096 0x2b) 4096 = Inr x" "(msg, y) = x" "(len, f') = y" "len \<noteq> 0" for f f' msg x y and len :: nat
    using that fread_unescape_total [of "replicate 4096 0x2b" 4096 f] by auto
qed simp

declare packets.simps [simp del]

text \<open>A computation that may also end in a failed assertion.\<close>

definition passes :: "('a \<Rightarrow> bool) \<Rightarrow> 'a res \<Rightarrow> bool" where
  "passes Q r \<longleftrightarrow> r = Inl AssertFailed \<or> res_ok Q r"

lemma passes_Inr [simp]: "passes Q (Inr x) \<longleftrightarrow> Q x"
  by (simp add: passes_def)

lemma passes_assert: "(b \<Longrightarrow> passes Q (f ())) \<Longrightarrow> passes Q (rbind (rassert b) f)"
  by (auto simp: passes_def rassert_def)

lemma passes_bind: "passes R m \<Longrightarrow> (\<And>x. R x \<Longrightarrow> passes Q (f x)) \<Longrightarrow> passes Q (rbind m f)"
  by (cases m) (auto simp: passes_def)

lemma passes_res_ok: "res_ok Q r \<Longrightarrow> passes Q r"
  by (simp add: passes_def)

lemma handle_diag_passes: "rrc_lib_ok lib \<Longrightarrow> reaches lib w \<Longrightarrow> passes (reaches lib) (handle_diag lib msg len w)"
  using handle_diag_safe short_packet_asserts unfolding passes_def by blast

text \<open>The loop of the importer fails an assertion only on a packet that is cut off within its header.\<close>

lemma import_loop_outcome:
  assumes "rrc_lib_ok lib" and "reaches lib w"
  shows "res_ok (reaches lib) (import_loop lib clock k f w)
    \<or> import_loop lib clock k f w = Inl AssertFailed \<and> (\<exists>(msg, len) \<in> set (packets f). short_packet msg (of_nat len))"
  using assms(2)
proof (induction "length f" arbitrary: f k w rule: less_induct)
  case less
  obtain msg len f' where r: "fread_unescape f (replicate 4096 0x2b) 4096 = Inr (msg, len, f')" "length f' + len \<le> length f"
    using fread_unescape_total [of "replicate 4096 0x2b" 4096 f] by auto
  show ?case
  proof (cases "len = 0")
    case False
    then have p: "packets f = (msg, len) # packets f'" using r(1) by (subst packets.simps) simp
    let ?h = "handle_diag lib msg (of_nat len) (w\<lparr>w_tod := clock k\<rparr>)"
    have run: "import_loop lib clock k f w = rbind ?h (import_loop lib clock (Suc k) f')"
      using r(1) False by (subst import_loop.simps) simp
    show ?thesis
    proof (cases "short_packet msg (of_nat len)")
      case True
      then show ?thesis using short_packet_asserts [OF True] p run by simp
    next
      case short: False
      have "res_ok (reaches lib) ?h" by (rule handle_diag_safe [OF assms(1) clock_safe(2) [OF less.prems] short])
      moreover have "res_ok (reaches lib) (import_loop lib clock (Suc k) f' w') \<or> import_loop lib clock (Suc k) f' w' = Inl AssertFailed
          \<and> (\<exists>(msg, len) \<in> set (packets f'). short_packet msg (of_nat len))" if "reaches lib w'" for w'
        by (rule less.hyps) (use r(2) False that in auto)
      ultimately show ?thesis unfolding run p by (cases ?h) auto
    qed
  qed (use r(1) less.prems in \<open>subst import_loop.simps, simp\<close>)
qed

text \<open>The start of the importer is the start of the transition system.\<close>

definition fresh_world :: "world \<Rightarrow> bool" where
  "fresh_world w \<longleftrightarrow> w_auto_reset w \<and> w_msgs w = [] \<and> w_cells w = [] \<and> w_cell_list w = []"

lemma diag_init_reaches:
  assumes "fresh_world w"
  shows "reaches lib (diag_init sid cid gsmtap callback autotime appid w)"
proof -
  let ?w = "session_init sid False gsmtap callback (w\<lparr>w_auto_timestamp := autotime\<rparr>)"
  have "w\<lparr>w_auto_timestamp := autotime\<rparr>
      = (w\<lparr>w_auto_timestamp := autotime\<rparr>)\<lparr>w_auto_reset := True, w_msgs := [], w_cells := [], w_cell_list := []\<rparr>"
    using assms by (cases w) (simp add: fresh_world_def)
  then have start: "reachable lib {} ?w" using reachable.start [of lib "w\<lparr>w_auto_timestamp := autotime\<rparr>"] by (simp add: start_world_def)
  show ?thesis
    using reachable.cells [OF start] reachable.cells [OF reachable.appids [OF start, of appid]]
    by (auto simp: diag_init_def Let_def set_appids_def reaches_def intro!: exI [of _ "{}"])
qed

lemma packets_frame:
  assumes "bs \<noteq> []" and "length bs < 4096"
  shows "\<exists>msg. packets (concat (map escape_byte bs) @ 0x7e # f) = (msg, length bs) # packets f \<and> take (length bs) msg = bs"
proof -
  obtain msg where "fread_unescape (concat (map escape_byte bs) @ 0x7e # f) (replicate 4096 0x2b) 4096 = Inr (msg, length bs, f)"
    "take (length bs) msg = bs"
    using fread_unescape_frame [of 0 bs 4096 "replicate 4096 0x2b" f] assms(2) by (auto simp: fread_unescape_def)
  with assms(1) show ?thesis by (subst packets.simps) auto
qed

end
