(* ===== verification/Sch.thy ===== *)
theory Sch
  imports Crc Viterbi
begin

text \<open>
  The synchronisation channel (\<open>gsm-parser/sch.c\<close>): 25 bits of cell identity and frame number, ten
  parity bits and four tail bits, coded by the same convolutional code as the control channels but decoded
  from hard bits, and spread over the two data fields of a burst.

  The decoder is shown to be a maximum likelihood decoder, and \<open>decode_sch\<close> to accept exactly the code words.
\<close>

section \<open>Definitions\<close>

definition sch_polynomial :: "u8 list" where
  "sch_polynomial = [1, 0, 1, 0, 1, 1, 1, 0, 1, 0, 1]"

definition sch_remainder :: "u8 list" where
  "sch_remainder = [1, 1, 1, 1, 1, 1, 1, 1, 1, 1]"

text \<open>The loops of the two parity functions are those of \<open>crc.c\<close> with the sizes 25 and 10.\<close>

definition sch_parity_encode :: "u8 list \<Rightarrow> u8 list \<Rightarrow> u8 list res" where
  "sch_parity_encode d p = Crc.parity_encode d 25 sch_polynomial p 10"

definition sch_parity_check :: "u8 list \<Rightarrow> bool res" where
  "sch_parity_check d = Crc.parity_check d 25 sch_polynomial sch_remainder 10"

definition sch_encode :: "nat list list" where
  "sch_encode =
     [[0, 3], [3, 0], [3, 0], [0, 3],
      [0, 3], [3, 0], [3, 0], [0, 3],
      [1, 2], [2, 1], [2, 1], [1, 2],
      [1, 2], [2, 1], [2, 1], [1, 2]]"

definition sch_next_state :: "nat list list" where
  "sch_next_state =
     [[0, 8], [0, 8], [1, 9], [1, 9],
      [2, 10], [2, 10], [3, 11], [3, 11],
      [4, 12], [4, 12], [5, 13], [5, 13],
      [6, 14], [6, 14], [7, 15], [7, 15]]"

definition sch_prev_next_state :: "nat list list" where
  "sch_prev_next_state =
     [[0, 2, 2, 2, 2, 2, 2, 2, 1, 2, 2, 2, 2, 2, 2, 2],
      [0, 2, 2, 2, 2, 2, 2, 2, 1, 2, 2, 2, 2, 2, 2, 2],
      [2, 0, 2, 2, 2, 2, 2, 2, 2, 1, 2, 2, 2, 2, 2, 2],
      [2, 0, 2, 2, 2, 2, 2, 2, 2, 1, 2, 2, 2, 2, 2, 2],
      [2, 2, 0, 2, 2, 2, 2, 2, 2, 2, 1, 2, 2, 2, 2, 2],
      [2, 2, 0, 2, 2, 2, 2, 2, 2, 2, 1, 2, 2, 2, 2, 2],
      [2, 2, 2, 0, 2, 2, 2, 2, 2, 2, 2, 1, 2, 2, 2, 2],
      [2, 2, 2, 0, 2, 2, 2, 2, 2, 2, 2, 1, 2, 2, 2, 2],
      [2, 2, 2, 2, 0, 2, 2, 2, 2, 2, 2, 2, 1, 2, 2, 2],
      [2, 2, 2, 2, 0, 2, 2, 2, 2, 2, 2, 2, 1, 2, 2, 2],
      [2, 2, 2, 2, 2, 0, 2, 2, 2, 2, 2, 2, 2, 1, 2, 2],
      [2, 2, 2, 2, 2, 0, 2, 2, 2, 2, 2, 2, 2, 1, 2, 2],
      [2, 2, 2, 2, 2, 2, 0, 2, 2, 2, 2, 2, 2, 2, 1, 2],
      [2, 2, 2, 2, 2, 2, 0, 2, 2, 2, 2, 2, 2, 2, 1, 2],
      [2, 2, 2, 2, 2, 2, 2, 0, 2, 2, 2, 2, 2, 2, 2, 1],
      [2, 2, 2, 2, 2, 2, 2, 0, 2, 2, 2, 2, 2, 2, 2, 1]]"

definition hamming_distance2 :: "nat \<Rightarrow> nat" where
  "hamming_distance2 w = (w AND 1) + of_bool (bit w 1)"

definition conv_encode :: "u8 list \<Rightarrow> u8 list \<Rightarrow> u8 list res" where
  "conv_encode data output =
     rbind (rfold (\<lambda>i (state, out).
         rbind (rd data i) (\<lambda>b.
         rbind (conv_table sch_encode state (unat b)) (\<lambda>o'.
         rbind (conv_table sch_next_state state (unat b)) (\<lambda>state.
         rbind (wr out (2 * i) (if bit o' 1 then 1 else 0)) (\<lambda>out.
         rbind (wr out (2 * i + 1) (of_nat o' AND 1)) (\<lambda>out. Inr (state, out)))))))
       [0..<39] (0, output)) (\<lambda>(state, out). Inr out)"

text \<open>
  The decoder.  The errors are counted in \<open>unsigned int\<close>; no state is left by a path with \<open>MAX_ERROR\<close> or more, so that
  they stay below 81.  The array \<open>state_history[16][40]\<close> is kept as one list, row by row, with \<open>None\<close> in the
  cells that have not been written.
\<close>

definition MAX_ERROR :: nat where "MAX_ERROR = 79"

type_synonym sch_scan = "nat list \<times> nat option list"

definition sch_branch :: "nat \<Rightarrow> nat \<Rightarrow> nat list \<Rightarrow> nat \<Rightarrow> nat \<Rightarrow> sch_scan \<Rightarrow> sch_scan res" where
  "sch_branch t rdata ae state b = (\<lambda>(nae, state_history).
     rbind (conv_table sch_next_state state b) (\<lambda>nstate.
     rbind (conv_table sch_encode state b) (\<lambda>o'.
     let distance = hamming_distance2 (rdata XOR o');
         accumulated_error = ae ! state + distance
     in if accumulated_error < nae ! nstate
        then rbind (wr state_history (nstate * 40 + (t + 1)) (Some state)) (\<lambda>state_history.
             Inr (nae[nstate := accumulated_error], state_history))
        else Inr (nae, state_history))))"

definition sch_step :: "u8 list \<Rightarrow> nat \<Rightarrow> sch_scan \<Rightarrow> sch_scan res" where
  "sch_step data t = (\<lambda>(ae, state_history).
     rbind (rd data (2 * t)) (\<lambda>d0. rbind (rd data (2 * t + 1)) (\<lambda>d1.
     let rdata = push_bit 1 (unat d0) OR unat d1 in
     rfold (\<lambda>state st.
         if ae ! state \<ge> MAX_ERROR then Inr st
         else rfold (\<lambda>b. sch_branch t rdata ae state b) [0..<2] st)
       [0..<16] (replicate 16 MAX_ERROR, state_history))))"

definition sch_best :: "nat list \<Rightarrow> nat \<times> nat option" where
  "sch_best ae = fold (\<lambda>i (min_error, min_state). if ae ! i < min_error then (ae ! i, Some i) else (min_error, min_state))
     [0..<16] (MAX_ERROR, None)"

text \<open>A \<open>min_state\<close> of -1 indexes outside of the history.\<close>

definition sch_back :: "nat option list \<Rightarrow> nat \<Rightarrow> nat option \<times> u8 list \<Rightarrow> (nat option \<times> u8 list) res" where
  "sch_back state_history t = (\<lambda>(cur_state, output). case cur_state of
     None \<Rightarrow> Inl OutOfBounds
   | Some min_state \<Rightarrow>
       rbind (rd state_history (min_state * 40 + t)) (\<lambda>cell. case cell of
         None \<Rightarrow> Inl Uninitialised
       | Some cur_state \<Rightarrow>
           rbind (conv_table sch_prev_next_state cur_state min_state) (\<lambda>v.
           rbind (wr output (t - 1) (of_nat v)) (\<lambda>output. Inr (Some cur_state, output)))))"

definition conv_decode :: "u8 list \<Rightarrow> u8 list \<Rightarrow> (nat \<times> u8 list) res" where
  "conv_decode data output =
     rbind (rfold (sch_step data) [0..<39] ((replicate 16 MAX_ERROR)[0 := 0], replicate (16 * 40) None)) (\<lambda>(ae, state_history).
     case sch_best ae of (min_error, min_state) \<Rightarrow>
     rbind (rfold (sch_back state_history) (rev [1..<40]) (min_state, output)) (\<lambda>(cur_state, output).
     Inr (min_error, output)))"

record sch_info =
  sch_t1 :: int
  sch_t2 :: int
  sch_t3 :: int
  sch_ncc :: int
  sch_bcc :: int

definition sch_fields :: "u8 list \<Rightarrow> sch_info" where
  "sch_fields d = (let f = (\<lambda>i k. push_bit k (uint (d ! i))) in
     \<lparr>sch_t1 = f 1 10 OR f 0 9 OR f 15 8 OR f 14 7 OR f 13 6 OR f 12 5 OR f 11 4 OR f 10 3 OR f 9 2 OR f 8 1 OR f 23 0,
      sch_t2 = f 22 4 OR f 21 3 OR f 20 2 OR f 19 1 OR f 18 0,
      sch_t3 = 10 * (f 17 2 OR f 16 1 OR f 24 0) + 1,
      sch_ncc = f 7 2 OR f 6 1 OR f 5 0,
      sch_bcc = f 4 2 OR f 3 1 OR f 2 0\<rparr>)"

text \<open>
  \<open>decode_sch\<close>: the return value, and what is written through the five pointers when all of them are given (\<open>outs\<close>).
\<close>

definition decode_sch :: "u8 list \<Rightarrow> bool \<Rightarrow> (nat \<times> sch_info option) res" where
  "decode_sch buf outs =
     rbind (rdn buf 0 39) (\<lambda>d0. rbind (rdn buf (39 + 64) 39) (\<lambda>d1.
     rbind (conv_decode (d0 @ d1) (replicate 39 0)) (\<lambda>(errors, decoded_data).
     if errors \<noteq> 0 then Inr (errors, None)
     else rbind (sch_parity_check decoded_data) (\<lambda>bad.
          if bad then Inr (1, None)
          else Inr (0, if outs then Some (sch_fields decoded_data) else None)))))"

section \<open>Paths through the trellis\<close>

text \<open>The two branch tables are those of the control channels; the third one is the inverse of the second.\<close>

lemma sch_tables: "sch_encode = conv_cch_next_output" "sch_next_state = conv_cch_next_state"
  by (simp_all add: sch_encode_def sch_next_state_def conv_cch_next_output_def conv_cch_next_state_def)

lemma sch_prev_next: "s < 16 \<Longrightarrow> b < 2 \<Longrightarrow> conv_table sch_prev_next_state s (cch_next s b) = Inr b"
  unfolding below_16_cases below_2_cases
  by (elim disjE; simp add: cch_next_def conv_cch_next_state_def sch_prev_next_state_def conv_table_def)

lemma conv_encode_cch: "conv_encode data out = conv_cch_encode data out 39"
  by (simp only: conv_encode_def conv_cch_encode_def sch_tables)

text \<open>The received symbol pair of a round and the distance of a path from what was received.\<close>

definition sch_rdata :: "u8 list \<Rightarrow> nat \<Rightarrow> nat" where
  "sch_rdata data t = push_bit 1 (unat (data ! (2 * t))) OR unat (data ! (2 * t + 1))"

definition sch_dist :: "u8 list \<Rightarrow> nat \<Rightarrow> nat \<Rightarrow> nat \<Rightarrow> nat" where
  "sch_dist data t s b = hamming_distance2 (sch_rdata data t XOR cch_out s b)"

primrec sch_cost :: "u8 list \<Rightarrow> (nat \<Rightarrow> nat) \<Rightarrow> nat \<Rightarrow> nat" where
  "sch_cost data u 0 = 0"
| "sch_cost data u (Suc t) = sch_cost data u t + sch_dist data t (cch_states u t) (u t)"

lemma sch_dist_le: "sch_dist data t s b \<le> 2"
  by (simp add: sch_dist_def hamming_distance2_def and_one_eq mod_2_eq_odd)

lemma sch_cost_le: "sch_cost data u t \<le> 2 * t"
proof (induction t)
  case (Suc t)
  then show ?case using sch_dist_le [of data t "cch_states u t" "u t"] by simp
qed simp

text \<open>The survivor of a state, as the history has it.\<close>

definition sch_traced :: "nat option list \<Rightarrow> (nat \<Rightarrow> nat) \<Rightarrow> nat \<Rightarrow> bool" where
  "sch_traced hist u t \<longleftrightarrow> (\<forall>j < t. hist ! (cch_states u (Suc j) * 40 + (j + 1)) = Some (cch_states u j))"

definition sch_inv :: "u8 list \<Rightarrow> nat \<Rightarrow> sch_scan \<Rightarrow> bool" where
  "sch_inv data t = (\<lambda>(ae, hist). length ae = 16 \<and> length hist = 640
     \<and> (\<forall>s < 16. ae ! s < 79 \<longrightarrow> (\<exists>u. (\<forall>j. u j < 2) \<and> cch_states u t = s \<and> sch_cost data u t = ae ! s \<and> sch_traced hist u t))
     \<and> (\<forall>u. (\<forall>j. u j < 2) \<longrightarrow> ae ! cch_states u t \<le> sch_cost data u t))"

text \<open>Within a round: \<open>D\<close> is the set of the branches seen.\<close>

definition sch_scanned :: "u8 list \<Rightarrow> nat \<Rightarrow> nat list \<Rightarrow> nat option list \<Rightarrow> (nat \<times> nat) set \<Rightarrow> sch_scan \<Rightarrow> bool" where
  "sch_scanned data t ae hist D = (\<lambda>(nae, hist'). length nae = 16 \<and> length hist' = 640
     \<and> (\<forall>s' < 16. nae ! s' < 79 \<longrightarrow> (\<exists>s b. s < 16 \<and> b < 2 \<and> ae ! s < 79 \<and> cch_next s b = s'
          \<and> nae ! s' = ae ! s + sch_dist data t s b \<and> hist' ! (s' * 40 + (t + 1)) = Some s))
     \<and> (\<forall>(s, b) \<in> D. ae ! s < 79 \<longrightarrow> nae ! cch_next s b \<le> ae ! s + sch_dist data t s b)
     \<and> (\<forall>s < 16. \<forall>j < 40. j \<noteq> t + 1 \<longrightarrow> hist' ! (s * 40 + j) = hist ! (s * 40 + j)))"

lemma sch_index_eq: "j < 40 \<Longrightarrow> k < 40 \<Longrightarrow> s * 40 + j = q * 40 + k \<longleftrightarrow> s = q \<and> j = (k :: nat)"
  by (cases s q rule: linorder_cases) simp_all

lemma sch_branch_scanned:
  assumes "sch_scanned data t ae hist D st" and "t < 39" and "s < 16" "b < 2" and "ae ! s < 79"
  shows "\<exists>st'. sch_branch t (sch_rdata data t) ae s b st = Inr st' \<and> sch_scanned data t ae hist (insert (s, b) D) st'"
proof -
  obtain nae h where st: "st = (nae, h)" by (cases st)
  note k = assms(1) [unfolded st sch_scanned_def split]
  let ?n = "cch_next s b" and ?e = "ae ! s + sch_dist data t s b"
  have n: "?n < 16" using assms(3,4) by (rule cch_next_less)
  then have i: "?n * 40 + (t + 1) < 640" using assms(2) by simp
  have r: "sch_branch t (sch_rdata data t) ae s b st
      = (if ?e < nae ! ?n then Inr (nae[?n := ?e], h[?n * 40 + (t + 1) := Some s]) else Inr (nae, h))"
    using assms(3,4) i k by (simp add: sch_branch_def st sch_tables conv_table_out conv_table_next Let_def sch_dist_def)
  show ?thesis
  proof (cases "?e < nae ! ?n")
    case True
    have "sch_scanned data t ae hist (insert (s, b) D) (nae[?n := ?e], h[?n * 40 + (t + 1) := Some s])"
      unfolding sch_scanned_def split
    proof (intro conjI allI impI ballI)
      fix q assume q: "q < 16" "nae[?n := ?e] ! q < 79"
      show "\<exists>s' b'. s' < 16 \<and> b' < 2 \<and> ae ! s' < 79 \<and> cch_next s' b' = q \<and> nae[?n := ?e] ! q = ae ! s' + sch_dist data t s' b'
          \<and> h[?n * 40 + (t + 1) := Some s] ! (q * 40 + (t + 1)) = Some s'"
      proof (cases "q = ?n")
        case True
        with n i k assms(3-5) show ?thesis by (intro exI [of _ s] exI [of _ b]) simp
      next
        case False
        with q(2) have "nae ! q < 79" by simp
        with q(1) k obtain s' b' where "s' < 16 \<and> b' < 2 \<and> ae ! s' < 79 \<and> cch_next s' b' = q
            \<and> nae ! q = ae ! s' + sch_dist data t s' b' \<and> h ! (q * 40 + (t + 1)) = Some s'" by blast
        with False show ?thesis by (intro exI [of _ s'] exI [of _ b']) simp
      qed
    next
      fix x assume "x \<in> insert (s, b) D"
      then show "case x of (s', b') \<Rightarrow> ae ! s' < 79 \<longrightarrow> nae[?n := ?e] ! cch_next s' b' \<le> ae ! s' + sch_dist data t s' b'"
        using k n True by (fastforce simp: nth_list_update)
    next
      fix q j :: nat assume "q < 16" "j < 40" "j \<noteq> t + 1"
      then show "h[?n * 40 + (t + 1) := Some s] ! (q * 40 + j) = hist ! (q * 40 + j)"
        using k assms(2) sch_index_eq [of "t + 1" j ?n q] by (simp add: nth_list_update)
    qed (use k in simp_all)
    with r True show ?thesis by simp
  next
    case False
    with k have "sch_scanned data t ae hist (insert (s, b) D) (nae, h)" by (auto simp: sch_scanned_def)
    with r False show ?thesis by simp
  qed
qed

lemma sch_state_scanned:
  assumes "sch_scanned data t ae hist {(s', b'). s' < s \<and> b' < 2} st" and "t < 39" and "s < 16"
  shows "\<exists>st'. (if ae ! s \<ge> MAX_ERROR then Inr st else rfold (\<lambda>b. sch_branch t (sch_rdata data t) ae s b) [0..<2] st) = Inr st'
    \<and> sch_scanned data t ae hist {(s', b'). s' < Suc s \<and> b' < 2} st'"
proof (cases "ae ! s \<ge> MAX_ERROR")
  case True
  then have "sch_scanned data t ae hist {(s', b'). s' < Suc s \<and> b' < 2} st"
    using assms(1) by (auto simp: sch_scanned_def MAX_ERROR_def less_Suc_eq split: prod.splits)
  with True show ?thesis by simp
next
  case False
  let ?D = "\<lambda>b. {(s', b'). s' < s \<and> b' < 2} \<union> {s} \<times> {..<b}"
  have "\<exists>st'. rfold (\<lambda>b. sch_branch t (sch_rdata data t) ae s b) [0..<2] st = Inr st' \<and> sch_scanned data t ae hist (?D 2) st'"
  proof (rule rfold_upt_rule [where P = "\<lambda>b. sch_scanned data t ae hist (?D b)"])
    fix b st' assume b: "b < 2" "sch_scanned data t ae hist (?D b) st'"
    have "insert (s, b) (?D b) = ?D (Suc b)" by (auto simp: less_Suc_eq)
    with sch_branch_scanned [OF b(2) assms(2,3) b(1)] False
    show "\<exists>st''. sch_branch t (sch_rdata data t) ae s b st' = Inr st'' \<and> sch_scanned data t ae hist (?D (Suc b)) st''"
      by (simp add: MAX_ERROR_def)
  qed (use assms(1) in simp)
  moreover have "?D 2 = {(s', b' :: nat). s' < Suc s \<and> b' < 2}" by (auto simp: less_Suc_eq)
  ultimately show ?thesis using False by simp
qed

text \<open>A path of \<open>t + 1\<close> rounds is a path of \<open>t\<close> rounds and a branch.\<close>

lemma cch_states_cong: "(\<And>j. j < t \<Longrightarrow> u j = v j) \<Longrightarrow> cch_states u t = cch_states v t"
  by (induction t) simp_all

lemma sch_cost_cong: "(\<And>j. j < t \<Longrightarrow> u j = v j) \<Longrightarrow> sch_cost data u t = sch_cost data v t"
proof (induction t)
  case (Suc t)
  then have "cch_states u t = cch_states v t" by (intro cch_states_cong) simp
  with Suc show ?case by simp
qed simp

lemma sch_step_inv:
  assumes "sch_inv data t st" and "t < 39" and "length data = 78"
  shows "\<exists>st'. sch_step data t st = Inr st' \<and> sch_inv data (Suc t) st'"
proof -
  obtain ae hist where st: "st = (ae, hist)" by (cases st)
  note k = assms(1) [unfolded st sch_inv_def split]
  let ?f = "\<lambda>s st. if ae ! s \<ge> MAX_ERROR then Inr st else rfold (\<lambda>b. sch_branch t (sch_rdata data t) ae s b) [0..<2] st"
  have "\<exists>st'. rfold ?f [0..<16] (replicate 16 MAX_ERROR, hist) = Inr st'
      \<and> sch_scanned data t ae hist {(s', b'). s' < 16 \<and> b' < 2} st'"
  proof (rule rfold_upt_rule [where P = "\<lambda>s. sch_scanned data t ae hist {(s', b'). s' < s \<and> b' < 2}"])
    show "sch_scanned data t ae hist {(s', b'). s' < 0 \<and> b' < 2} (replicate 16 MAX_ERROR, hist)"
      using k by (auto simp: sch_scanned_def MAX_ERROR_def)
  qed (rule sch_state_scanned, use assms(2) in auto)
  then obtain nae h where nae: "rfold ?f [0..<16] (replicate 16 MAX_ERROR, hist) = Inr (nae, h)"
    and sc: "sch_scanned data t ae hist {(s', b'). s' < 16 \<and> b' < 2} (nae, h)" by auto
  note sc = sc [unfolded sch_scanned_def split]
  have "sch_inv data (Suc t) (nae, h)" unfolding sch_inv_def split
  proof (intro conjI allI impI)
    fix s' assume s': "s' < 16" "nae ! s' < 79"
    with sc obtain s b where b: "s < 16" "b < 2" "ae ! s < 79" "cch_next s b = s'" "nae ! s' = ae ! s + sch_dist data t s b"
      "h ! (s' * 40 + (t + 1)) = Some s" by blast
    from b(1,3) k obtain u where u: "\<forall>j. u j < 2" "cch_states u t = s" "sch_cost data u t = ae ! s" "sch_traced hist u t" by blast
    let ?v = "u(t := b)"
    have v: "cch_states ?v j = cch_states u j" if "j \<le> t" for j by (rule cch_states_cong) (use that in auto)
    have c: "sch_cost data ?v t = sch_cost data u t" by (rule sch_cost_cong) auto
    have "sch_traced h ?v (Suc t)"
      unfolding sch_traced_def
    proof (intro allI impI)
      fix j assume j: "j < Suc t"
      show "h ! (cch_states ?v (Suc j) * 40 + (j + 1)) = Some (cch_states ?v j)"
      proof (cases "j = t")
        case True
        with b u(2) v [of t] show ?thesis by simp
      next
        case False
        then have "h ! (cch_states u (Suc j) * 40 + (j + 1)) = hist ! (cch_states u (Suc j) * 40 + (j + 1))"
          by (intro sc [THEN conjunct2, THEN conjunct2, THEN conjunct2, THEN conjunct2, rule_format])
            (use j assms(2) cch_states_less [of "Suc j" u] u(1) in simp_all)
        with False j v [of "Suc j"] v [of j] u(4) show ?thesis by (simp add: sch_traced_def)
      qed
    qed
    with u b v [of t] c show "\<exists>u. (\<forall>j. u j < 2) \<and> cch_states u (Suc t) = s' \<and> sch_cost data u (Suc t) = nae ! s' \<and> sch_traced h u (Suc t)"
      by (intro exI [of _ ?v]) simp
  next
    fix u :: "nat \<Rightarrow> nat" assume u: "\<forall>j. u j < 2"
    then have le: "ae ! cch_states u t \<le> sch_cost data u t" "cch_states u t < 16" using k cch_states_less [of t u] by auto
    moreover have "sch_cost data u t < 79" using sch_cost_le [of data u t] assms(2) by simp
    ultimately have "nae ! cch_next (cch_states u t) (u t) \<le> ae ! cch_states u t + sch_dist data t (cch_states u t) (u t)"
      using sc u by auto
    with le show "nae ! cch_states u (Suc t) \<le> sch_cost data u (Suc t)" by simp
  qed (use sc in simp_all)
  moreover have "sch_step data t st = rfold ?f [0..<16] (replicate 16 MAX_ERROR, hist)"
    using assms(2,3) by (simp add: sch_step_def st sch_rdata_def Let_def cong: if_cong)
  ultimately show ?thesis using nae by simp
qed

section \<open>Tracing back\<close>

lemma sch_best_fold:
  "k \<le> 16 \<Longrightarrow> fold (\<lambda>i (min_error, min_state). if ae ! i < min_error then (ae ! i, Some i) else (min_error, min_state)) [0..<k]
     (MAX_ERROR, None) = (e, m) \<Longrightarrow>
   (\<forall>i < k. e \<le> ae ! i) \<and> (case m of None \<Rightarrow> e = 79 | Some i \<Rightarrow> i < k \<and> e = ae ! i \<and> e < 79)"
proof (induction k arbitrary: e m)
  case (Suc k)
  obtain e0 m0 where f: "fold (\<lambda>i (min_error, min_state). if ae ! i < min_error then (ae ! i, Some i) else (min_error, min_state)) [0..<k]
     (MAX_ERROR, None) = (e0, m0)" by fastforce
  from Suc.IH [OF _ f] Suc.prems f show ?case
    by (cases m0) (auto simp: less_Suc_eq split: if_splits)
qed (simp add: MAX_ERROR_def)

lemma sch_back_path:
  assumes "sch_traced hist u 39" and "\<forall>j. u j < 2" and "length hist = 640" and "39 \<le> length out" and "k \<le> 39"
  shows "\<exists>c out'. rfold (sch_back hist) (rev [Suc (39 - k)..<40]) (Some (cch_states u 39), out) = Inr (c, out')
    \<and> c = Some (cch_states u (39 - k)) \<and> length out' = length out
    \<and> (\<forall>j. 39 - k \<le> j \<and> j < 39 \<longrightarrow> out' ! j = of_nat (u j)) \<and> drop 39 out' = drop 39 out"
  using assms(5)
proof (induction k)
  case (Suc k)
  let ?t = "39 - k"
  from Suc obtain out' where o: "rfold (sch_back hist) (rev [Suc ?t..<40]) (Some (cch_states u 39), out) = Inr (Some (cch_states u ?t), out')"
    "length out' = length out" "\<forall>j. ?t \<le> j \<and> j < 39 \<longrightarrow> out' ! j = of_nat (u j)" "drop 39 out' = drop 39 out" by auto
  obtain j where j: "?t = Suc j" "j < 39" using Suc.prems by (cases ?t) auto
  have s: "cch_states u j < 16" "cch_states u ?t < 16" by (rule cch_states_less, simp add: assms(2))+
  have h: "hist ! (cch_states u ?t * 40 + ?t) = Some (cch_states u j)"
    using assms(1) j by (simp add: sch_traced_def)
  have "sch_back hist ?t (Some (cch_states u ?t), out') = Inr (Some (cch_states u j), out'[j := of_nat (u j)])"
    using s h j assms(2,3,4) o(2) sch_prev_next [OF s(1), of "u j"] by (simp add: sch_back_def)
  moreover have "[Suc j..<40] = ?t # [Suc ?t..<40]" using j by (simp add: upt_conv_Cons)
  ultimately have "rfold (sch_back hist) (rev [Suc j..<40]) (Some (cch_states u 39), out) = Inr (Some (cch_states u j), out'[j := of_nat (u j)])"
    using o(1) by (simp add: rfold_append)
  moreover have "39 - Suc k = j" using j(1) by simp
  moreover have "out'[j := of_nat (u j)] ! i = of_nat (u i)" if "j \<le> i" "i < 39" for i
    using that o(2,3) j assms(4) by (cases "i = j") auto
  ultimately show ?case using o(2,4) j(2) by auto
qed auto

lemma conv_decode_path:
  assumes "length data = 78" and "39 \<le> length out"
  shows "\<exists>e u. conv_decode data out = Inr (e, map (\<lambda>j. of_nat (u j)) [0..<39] @ drop 39 out) \<and> (\<forall>j. u j < 2)
    \<and> sch_cost data u 39 = e \<and> (\<forall>v. (\<forall>j. v j < 2) \<longrightarrow> e \<le> sch_cost data v 39)"
proof -
  have "\<exists>st. rfold (sch_step data) [0..<39] ((replicate 16 MAX_ERROR)[0 := 0], replicate (16 * 40) None) = Inr st \<and> sch_inv data 39 st"
  proof (rule rfold_upt_rule)
    show "sch_inv data 0 ((replicate 16 MAX_ERROR)[0 := 0], replicate (16 * 40) None)"
      by (auto simp: sch_inv_def MAX_ERROR_def nth_list_update sch_traced_def intro!: exI [of _ "\<lambda>_. 0"])
  qed (use sch_step_inv [OF _ _ assms(1)] in auto)
  then obtain ae hist where r: "rfold (sch_step data) [0..<39] ((replicate 16 MAX_ERROR)[0 := 0], replicate (16 * 40) None) = Inr (ae, hist)"
    and inv: "sch_inv data 39 (ae, hist)" by auto
  note k = inv [unfolded sch_inv_def split]
  obtain e m where b: "sch_best ae = (e, m)" by fastforce
  from sch_best_fold [of 16 ae e m] b have best: "\<forall>i < 16. e \<le> ae ! i" "case m of None \<Rightarrow> e = 79 | Some i \<Rightarrow> i < 16 \<and> e = ae ! i \<and> e < 79"
    by (simp_all add: sch_best_def)
  have low: "e \<le> sch_cost data v 39" if "\<forall>j. v j < 2" for v
    using k best(1) that cch_states_less [of 39 v] by (meson order_trans)
  have "e < 79" using low [of "\<lambda>_. 0"] sch_cost_le [of data "\<lambda>_. 0" 39] by simp
  with best(2) obtain i where i: "m = Some i" "i < 16" "e = ae ! i" by (auto split: option.splits)
  with k \<open>e < 79\<close> obtain u where u: "\<forall>j. u j < 2" "cch_states u 39 = i" "sch_cost data u 39 = e" "sch_traced hist u 39" by auto
  from sch_back_path [OF u(4,1) _ assms(2), of 39] k obtain c out' where
    t: "rfold (sch_back hist) (rev [1..<40]) (Some i, out) = Inr (c, out')" "length out' = length out"
      "\<forall>j < 39. out' ! j = of_nat (u j)" "drop 39 out' = drop 39 out"
    using u(2) by auto
  have "out' = take 39 out' @ drop 39 out" using t(4) by (metis append_take_drop_id)
  moreover have "take 39 out' = map (\<lambda>j. of_nat (u j)) [0..<39]" using t(2,3) assms(2) by (intro nth_equalityI) simp_all
  ultimately have "conv_decode data out = Inr (e, map (\<lambda>j. of_nat (u j)) [0..<39] @ drop 39 out)"
    using r b i(1) t(1) by (simp add: conv_decode_def)
  with u low show ?thesis by blast
qed

section \<open>Code words\<close>

definition bit_errors :: "u8 list \<Rightarrow> u8 list \<Rightarrow> nat" where
  "bit_errors xs ys = length (filter (\<lambda>i. xs ! i \<noteq> ys ! i) [0..<length xs])"

definition path_of :: "u8 list \<Rightarrow> nat \<Rightarrow> nat" where
  "path_of bs j = (if j < length bs then unat (bs ! j) else 0)"

lemma path_of_less: "is_bits bs \<Longrightarrow> path_of bs j < 2"
  using is_bits_nth [of bs j] by (auto simp: path_of_def)

lemma conv_encode_path:
  assumes "is_bits bs" and "length bs = 39"
  shows "\<exists>c. conv_encode bs (replicate 78 0) = Inr c \<and> length c = 78 \<and> is_bits c
    \<and> (\<forall>i < 39. c ! (2 * i) = of_bool (cch_sym (path_of bs) i 1) \<and> c ! (2 * i + 1) = of_bool (cch_sym (path_of bs) i 0))"
proof -
  let ?u = "\<lambda>i. unat (bs ! i)"
  have "unat (bs ! i) < 2" if "i < 39" for i using is_bits_nth [OF assms(1), of i] that assms(2) by auto
  from conv_cch_encode_spec [of 39 bs "replicate 78 0", OF _ _ this] assms(2) obtain c where
    c: "conv_encode bs (replicate 78 0) = Inr c" "length c = 78"
      "\<forall>i < 39. c ! (2 * i) = of_bool (cch_sym ?u i 1) \<and> c ! (2 * i + 1) = of_bool (cch_sym ?u i 0)"
    by (auto simp: conv_encode_cch)
  have "cch_sym ?u i k = cch_sym (path_of bs) i k" if "i < 39" for i k
    using that assms(2) cch_states_cong [of i ?u "path_of bs"] by (simp add: cch_sym_def path_of_def)
  with c(3) have sym: "\<forall>i < 39. c ! (2 * i) = of_bool (cch_sym (path_of bs) i 1) \<and> c ! (2 * i + 1) = of_bool (cch_sym (path_of bs) i 0)"
    by simp
  have "c ! i = 0 \<or> c ! i = 1" if "i < 78" for i
  proof (cases "even i")
    case True
    with sym that show ?thesis by (auto elim!: evenE)
  next
    case False
    with sym that show ?thesis by (auto elim!: oddE)
  qed
  then have "x = 0 \<or> x = 1" if "x \<in> set c" for x using that c(2) by (metis in_set_conv_nth)
  then have "is_bits c" by (auto simp: is_bits_def list_all_iff)
  with c(1,2) sym show ?thesis by blast
qed

lemma pair_distance:
  assumes "x = 0 \<or> x = 1" "y = 0 \<or> y = (1 :: u8)" "o' = 0 \<or> o' = 1 \<or> o' = 2 \<or> o' = 3"
  shows "hamming_distance2 ((push_bit 1 (unat x) OR unat y) XOR o')
    = of_bool (of_bool (bit o' 1) \<noteq> x) + of_bool (of_bool (bit o' 0) \<noteq> y)"
  using assms by (elim disjE; hypsubst; code_simp)

lemma sch_dist_sym:
  assumes "is_bits data" and "2 * t + 1 < length data" and "s < 16" "b < 2"
  shows "sch_dist data t s b = of_bool (of_bool (bit (cch_out s b) 1) \<noteq> data ! (2 * t))
    + of_bool (of_bool (bit (cch_out s b) 0) \<noteq> data ! (2 * t + 1))"
  unfolding sch_dist_def sch_rdata_def
  by (rule pair_distance) (use is_bits_nth [OF assms(1)] assms(2) cch_out_less [OF assms(3,4)] in auto)

lemma bit_errors_cost:
  assumes "is_bits data" "length data = 78" and "is_bits bs" "length bs = 39" and "conv_encode bs (replicate 78 0) = Inr c"
  shows "bit_errors c data = sch_cost data (path_of bs) 39"
proof -
  from conv_encode_path [OF assms(3,4)] assms(5) have
    c: "length c = 78" "\<forall>i < 39. c ! (2 * i) = of_bool (cch_sym (path_of bs) i 1) \<and> c ! (2 * i + 1) = of_bool (cch_sym (path_of bs) i 0)"
    by auto
  have "t \<le> 39 \<Longrightarrow> length (filter (\<lambda>i. c ! i \<noteq> data ! i) [0..<2 * t]) = sch_cost data (path_of bs) t" for t
  proof (induction t)
    case (Suc t)
    have "cch_states (path_of bs) t < 16" "path_of bs t < 2"
      using path_of_less [OF assms(3)] by (simp_all add: cch_states_less)
    note d = sch_dist_sym [OF assms(1) _ this, of t]
    have "[0..<2 * Suc t] = [0..<2 * t] @ [2 * t, 2 * t + 1]" by simp
    with Suc d c(2) assms(2) show ?case by (auto simp: cch_sym_def)
  qed simp
  from this [of 39] c(1) show ?thesis by (simp add: bit_errors_def)
qed

lemma is_bits_map_path:
  assumes "\<And>j. u j < 2"
  shows "is_bits (map (\<lambda>j. of_nat (u j)) [0..<n])"
proof -
  have "of_nat (u j) = (0 :: u8) \<or> of_nat (u j) = (1 :: u8)" for j using less_2_cases [OF assms, of j] by auto
  then show ?thesis by (auto simp: is_bits_def list_all_iff)
qed

lemma sch_cost_path_of:
  assumes "\<And>j. u j < 2"
  shows "sch_cost data (path_of (map (\<lambda>j. of_nat (u j)) [0..<39])) 39 = sch_cost data u 39"
proof (rule sch_cost_cong)
  fix j :: nat assume "j < 39"
  moreover have "unat (of_nat (u j) :: u8) = u j" using assms [of j] by (simp add: unat_of_nat)
  ultimately show "path_of (map (\<lambda>j. of_nat (u j)) [0..<39]) j = u j" by (simp add: path_of_def)
qed

text \<open>C27. The decoder of the synchronisation channel is a maximum likelihood decoder.  For every block of 78 received
  bits \<open>conv_decode\<close> returns 39 bits whose encoding differs from what was received in as many places as the number it returns,
  and the encoding of no other 39 bits differs in fewer.\<close>

theorem conv_decode_optimal:
  assumes "is_bits data" "length data = 78" and "39 \<le> length out"
  shows "\<exists>e bs c. conv_decode data out = Inr (e, bs @ drop 39 out) \<and> is_bits bs \<and> length bs = 39
    \<and> conv_encode bs (replicate 78 0) = Inr c \<and> bit_errors c data = e
    \<and> (\<forall>bs' c'. is_bits bs' \<and> length bs' = 39 \<and> conv_encode bs' (replicate 78 0) = Inr c' \<longrightarrow> e \<le> bit_errors c' data)"
proof -
  from conv_decode_path [OF assms(2,3)] obtain e u where
    u: "conv_decode data out = Inr (e, map (\<lambda>j. of_nat (u j)) [0..<39] @ drop 39 out)" "\<And>j. u j < 2"
      "sch_cost data u 39 = e" "\<And>v. (\<forall>j. v j < 2) \<Longrightarrow> e \<le> sch_cost data v 39" by blast
  let ?bs = "map (\<lambda>j. of_nat (u j)) [0..<39] :: u8 list"
  have bs: "is_bits ?bs" "length ?bs = 39" using is_bits_map_path [OF u(2)] by simp_all
  from conv_encode_path [OF bs] obtain c where c: "conv_encode ?bs (replicate 78 0) = Inr c" by blast
  have "bit_errors c data = e"
    using bit_errors_cost [OF assms(1,2) bs c] u(3) sch_cost_path_of [OF u(2), of data] by simp
  moreover have "e \<le> bit_errors c' data" if "is_bits bs'" "length bs' = 39" "conv_encode bs' (replicate 78 0) = Inr c'" for bs' c'
    using bit_errors_cost [OF assms(1,2) that] u(4) [of "path_of bs'"] path_of_less [OF that(1)] by simp
  ultimately show ?thesis using u(1) bs c by blast
qed

theorem conv_decode_optimal_witness:
  "\<exists>e bs c. conv_decode (replicate 40 1 @ replicate 38 0) (replicate 39 0) = Inr (e, bs @ drop 39 (replicate 39 0)) \<and> is_bits bs
    \<and> length bs = 39 \<and> conv_encode bs (replicate 78 0) = Inr c \<and> bit_errors c (replicate 40 1 @ replicate 38 0) = e
    \<and> (\<forall>bs' c'. is_bits bs' \<and> length bs' = 39 \<and> conv_encode bs' (replicate 78 0) = Inr c'
         \<longrightarrow> e \<le> bit_errors c' (replicate 40 1 @ replicate 38 0))"
  by (rule conv_decode_optimal) (simp_all add: is_bits_def list_all_iff)

section \<open>Blocks\<close>

text \<open>The code is injective: the input bit of a round can be read off its symbols.\<close>

lemma cch_out_flip: "s < 16 \<Longrightarrow> bit (cch_out s 0) 1 \<noteq> bit (cch_out s 1) 1"
  unfolding below_16_cases by (elim disjE; hypsubst; code_simp)

lemma cch_out_inj: "s < 16 \<Longrightarrow> b < 2 \<Longrightarrow> d < 2 \<Longrightarrow> bit (cch_out s b) 1 = bit (cch_out s d) 1 \<Longrightarrow> b = d"
  using cch_out_flip [of s] by (auto simp: below_2_cases)

lemma conv_encode_inj:
  assumes "is_bits bs" "length bs = 39" "is_bits ds" "length ds = 39" and "conv_encode bs (replicate 78 0) = conv_encode ds (replicate 78 0)"
  shows "bs = ds"
proof -
  let ?u = "path_of bs" and ?v = "path_of ds"
  have sym: "cch_sym ?u i 1 = cch_sym ?v i 1" if "i < 39" for i
    using conv_encode_path [OF assms(1,2)] conv_encode_path [OF assms(3,4)] assms(5) that by auto
  have "t \<le> 39 \<Longrightarrow> \<forall>j < t. ?u j = ?v j" for t
  proof (induction t)
    case (Suc t)
    then have "cch_states ?u t = cch_states ?v t" by (intro cch_states_cong) simp
    moreover have "cch_states ?u t < 16" using path_of_less [OF assms(1)] by (simp add: cch_states_less)
    ultimately have "?u t = ?v t"
      using sym [of t] Suc.prems path_of_less [OF assms(1)] path_of_less [OF assms(3)] cch_out_inj
      by (simp add: cch_sym_def)
    with Suc show ?case by (simp add: less_Suc_eq)
  qed simp
  then have "?u j = ?v j" if "j < 39" for j using that by blast
  then show ?thesis using assms(2,4) by (intro nth_equalityI) (simp_all add: path_of_def word_unat_eq_iff)
qed

lemma bit_errors_zero: "length xs = length ys \<Longrightarrow> bit_errors xs ys = 0 \<longleftrightarrow> xs = ys"
  by (auto simp: bit_errors_def filter_empty_conv intro: nth_equalityI)

lemma conv_decode_zero:
  assumes "is_bits data" "length data = 78" "length out = 39"
  shows "\<exists>e bs. conv_decode data out = Inr (e, bs) \<and> is_bits bs \<and> length bs = 39
    \<and> (e = 0 \<longleftrightarrow> conv_encode bs (replicate 78 0) = Inr data)
    \<and> (\<forall>ds. is_bits ds \<and> length ds = 39 \<and> conv_encode ds (replicate 78 0) = Inr data \<longrightarrow> e = 0 \<and> bs = ds)"
proof -
  from conv_decode_path [of data out] assms obtain e u where
    u: "conv_decode data out = Inr (e, map (\<lambda>j. of_nat (u j)) [0..<39])" "\<And>j. u j < 2"
      "sch_cost data u 39 = e" "\<And>v. (\<forall>j. v j < 2) \<Longrightarrow> e \<le> sch_cost data v 39" by auto
  define B where "B = (map (\<lambda>j. of_nat (u j)) [0..<39] :: u8 list)"
  have bs: "is_bits B" "length B = 39" using is_bits_map_path [OF u(2)] by (simp_all add: B_def)
  from conv_encode_path [OF bs] obtain c where c: "conv_encode B (replicate 78 0) = Inr c" "length c = 78" by blast
  have e: "bit_errors c data = e"
    using bit_errors_cost [OF assms(1,2) bs c(1)] u(3) sch_cost_path_of [OF u(2), of data] by (simp add: B_def)
  have iff: "e = 0 \<longleftrightarrow> c = data" using bit_errors_zero [of c data] c(2) assms(2) e by simp
  moreover have "e = 0 \<and> B = ds" if d: "is_bits ds" "length ds = 39" "conv_encode ds (replicate 78 0) = Inr data" for ds
  proof -
    have "e \<le> bit_errors data data"
      using bit_errors_cost [OF assms(1,2) d] u(4) [of "path_of ds"] path_of_less [OF d(1)] by simp
    then have "e = 0" using bit_errors_zero [of data data] by simp
    moreover from this iff c(1) d(3) have "conv_encode B (replicate 78 0) = conv_encode ds (replicate 78 0)" by simp
    then have "B = ds" by (rule conv_encode_inj [OF bs d(1,2)])
    ultimately show ?thesis by blast
  qed
  moreover have "conv_decode data out = Inr (e, B)" using u(1) by (simp only: B_def)
  moreover have "e = 0 \<longleftrightarrow> conv_encode B (replicate 78 0) = Inr data" using iff unfolding c(1) by blast
  ultimately show ?thesis using bs by blast
qed

lemma sch_generator: "generator sch_polynomial 10"
  by (simp add: generator_def sch_polynomial_def)

definition sch_parity :: "u8 list \<Rightarrow> u8 list" where
  "sch_parity info = map (\<lambda>x. if nz x then 0 else 1) (prem (tl sch_polynomial) 25 (info @ replicate 10 0))"

lemma sch_parity_encode_eq:
  "length info = 25 \<Longrightarrow> sch_parity_encode info (replicate 10 0) = Inr (sch_parity info)"
  using generatorD [OF sch_generator] by (simp add: sch_parity_encode_def parity_encode_rem sch_parity_def)

lemma sch_parity_bits [simp]: "length info = 25 \<Longrightarrow> length (sch_parity info) = 10" "is_bits (sch_parity info)"
  by (auto simp: sch_parity_def length_prem is_bits_def list_all_iff)

lemma sch_parity_check_iff:
  assumes "is_bits info" "length info = 25" and "is_bits par" "length par = 10"
  shows "sch_parity_check (info @ par @ tail) = Inr (par \<noteq> sch_parity info)"
proof -
  note g = generatorD [OF sch_generator]
  let ?r = "prem (tl sch_polynomial) 25 (info @ replicate 10 0)"
  have r: "is_bits ?r" "length ?r = 10" using assms g(1) by (simp_all add: is_bits_prem length_prem)
  have "prem (tl sch_polynomial) 25 (info @ par) = xor_into ?r par"
    using assms by (intro prem_append [OF g(1)]) simp_all
  moreover have "xor_into ?r par = replicate 10 1 \<longleftrightarrow> par = sch_parity info"
  proof -
    have "xor_into ?r par ! i = 1 \<longleftrightarrow> par ! i = sch_parity info ! i" if "i < 10" for i
      using that r assms(4) is_bits_nth [OF r(1), of i] is_bits_nth [OF assms(3), of i] by (auto simp: nth_xor_into sch_parity_def)
    then show ?thesis using assms(2,4) by (simp add: list_eq_iff_nth_eq)
  qed
  moreover have "take 10 sch_remainder = replicate 10 1" by (simp add: sch_remainder_def numeral_eq_Suc)
  moreover have "length sch_remainder = 10" by (simp add: sch_remainder_def)
  ultimately show ?thesis
    using g assms(2,4) by (simp add: sch_parity_check_def parity_check_rem)
qed

lemma decode_sch_cases:
  assumes "is_bits buf" "length buf = 142"
  shows "\<exists>e bs. decode_sch buf outs = (if e \<noteq> 0 then Inr (e, None)
      else if drop 25 (take 35 bs) \<noteq> sch_parity (take 25 bs) then Inr (1, None)
      else Inr (0, if outs then Some (sch_fields bs) else None))
    \<and> is_bits bs \<and> length bs = 39 \<and> (e = 0 \<longleftrightarrow> conv_encode bs (replicate 78 0) = Inr (take 39 buf @ drop 103 buf))
    \<and> (\<forall>ds. is_bits ds \<and> length ds = 39 \<and> conv_encode ds (replicate 78 0) = Inr (take 39 buf @ drop 103 buf) \<longrightarrow> e = 0 \<and> bs = ds)"
proof -
  let ?d = "take 39 buf @ drop 103 buf"
  have "is_bits ?d" "length ?d = 78" using assms by simp_all
  from conv_decode_zero [OF this, of "replicate 39 0"] obtain e bs where
    d: "conv_decode ?d (replicate 39 0) = Inr (e, bs)" "is_bits bs" "length bs = 39"
      "e = 0 \<longleftrightarrow> conv_encode bs (replicate 78 0) = Inr ?d"
      "\<forall>ds. is_bits ds \<and> length ds = 39 \<and> conv_encode ds (replicate 78 0) = Inr ?d \<longrightarrow> e = 0 \<and> bs = ds" by auto
  have "bs = take 25 bs @ drop 25 (take 35 bs) @ drop 35 bs"
    using append_take_drop_id [of 35 bs] append_take_drop_id [of 25 "take 35 bs"] by (simp add: drop_take flip: append_assoc)
  then have "sch_parity_check bs = Inr (drop 25 (take 35 bs) \<noteq> sch_parity (take 25 bs))"
    using sch_parity_check_iff [of "take 25 bs" "drop 25 (take 35 bs)" "drop 35 bs"] d(2,3) by simp
  moreover have "rdn buf 0 39 = Inr (take 39 buf)" "rdn buf (39 + 64) 39 = Inr (drop 103 buf)" using assms(2) by (simp_all add: rdn_def)
  note r = calculation this
  have "decode_sch buf outs = (if e \<noteq> 0 then Inr (e, None)
      else if drop 25 (take 35 bs) \<noteq> sch_parity (take 25 bs) then Inr (1, None)
      else Inr (0, if outs then Some (sch_fields bs) else None))"
    unfolding decode_sch_def by (simp only: d(1) rbind_Inr split r)
  with d(2-5) show ?thesis by blast
qed

text \<open>The 25 bits of a block, in the order of the standard.\<close>

definition sch_block :: "int \<Rightarrow> int \<Rightarrow> int \<Rightarrow> int \<Rightarrow> int \<Rightarrow> u8 list" where
  "sch_block t1 t2 t3' ncc bcc = map of_bool
     [bit t1 9, bit t1 10, bit bcc 0, bit bcc 1, bit bcc 2, bit ncc 0, bit ncc 1, bit ncc 2,
      bit t1 1, bit t1 2, bit t1 3, bit t1 4, bit t1 5, bit t1 6, bit t1 7, bit t1 8,
      bit t3' 1, bit t3' 2, bit t2 0, bit t2 1, bit t2 2, bit t2 3, bit t2 4, bit t1 0, bit t3' 0]"

lemma sch_block_bits [simp]: "is_bits (sch_block t1 t2 t3' ncc bcc)" "length (sch_block t1 t2 t3' ncc bcc) = 25"
  by (simp_all add: sch_block_def is_bits_def)

text \<open>The bits of a number put together again.\<close>

definition gather :: "int \<Rightarrow> nat \<Rightarrow> int" where
  "gather n k = fold (\<lambda>i x. push_bit i (of_bool (bit n i)) OR x) [0..<k] 0"

lemma gather_take_bit: "gather n k = take_bit k n"
proof (induction k)
  case (Suc k)
  have "take_bit (Suc k) n = push_bit k (of_bool (bit n k)) OR take_bit k n"
    by (rule bit_eqI) (auto simp: bit_simps bit_1_iff less_Suc_eq)
  with Suc show ?case by (simp add: gather_def)
qed (simp add: gather_def)

lemma gather_eq: "0 \<le> n \<Longrightarrow> n < 2 ^ k \<Longrightarrow> gather n k = n"
  by (simp add: gather_take_bit take_bit_int_eq_self_iff)

lemma uint_of_bool: "uint (of_bool b :: u8) = of_bool b"
  by (cases b) simp_all

lemma sch_fields_block:
  assumes "0 \<le> t1" "t1 < 2 ^ 11" "0 \<le> t2" "t2 < 2 ^ 5" "0 \<le> t3'" "t3' < 2 ^ 3" "0 \<le> ncc" "ncc < 2 ^ 3" "0 \<le> bcc" "bcc < 2 ^ 3"
  shows "sch_fields (sch_block t1 t2 t3' ncc bcc @ rest)
    = \<lparr>sch_t1 = t1, sch_t2 = t2, sch_t3 = 10 * t3' + 1, sch_ncc = ncc, sch_bcc = bcc\<rparr>"
proof -
  have "sch_fields (sch_block t1 t2 t3' ncc bcc @ rest)
      = \<lparr>sch_t1 = gather t1 11, sch_t2 = gather t2 5, sch_t3 = 10 * gather t3' 3 + 1, sch_ncc = gather ncc 3, sch_bcc = gather bcc 3\<rparr>"
    unfolding sch_fields_def sch_block_def Let_def gather_def
    by (simp add: uint_of_bool upt_eval or.assoc del: push_bit_numeral)
  with assms show ?thesis by (simp add: gather_eq)
qed

text \<open>C28. The synchronisation channel is a round trip.  The frame number (in its three parts) and the colour codes of a cell, coded with
  parity, tail bits and the convolutional code and sent in the two data fields of a burst around any training sequence, are what
  \<open>decode_sch\<close> finds in the burst.\<close>

theorem sch_roundtrip:
  assumes "0 \<le> t1" "t1 < 2 ^ 11" "0 \<le> t2" "t2 < 2 ^ 5" "0 \<le> t3'" "t3' < 2 ^ 3" "0 \<le> ncc" "ncc < 2 ^ 3" "0 \<le> bcc" "bcc < 2 ^ 3"
    and "sch_parity_encode (sch_block t1 t2 t3' ncc bcc) (replicate 10 0) = Inr par"
    and "conv_encode (sch_block t1 t2 t3' ncc bcc @ par @ replicate 4 0) (replicate 78 0) = Inr coded"
    and "is_bits training" "length training = 64"
  shows "decode_sch (take 39 coded @ training @ drop 39 coded) True
    = Inr (0, Some \<lparr>sch_t1 = t1, sch_t2 = t2, sch_t3 = 10 * t3' + 1, sch_ncc = ncc, sch_bcc = bcc\<rparr>)"
proof -
  let ?i = "sch_block t1 t2 t3' ncc bcc" and ?b = "take 39 coded @ training @ drop 39 coded"
  have par: "par = sch_parity ?i" using assms(11) by (simp add: sch_parity_encode_eq)
  have w: "is_bits (?i @ par @ replicate 4 0)" "length (?i @ par @ replicate 4 0) = 39" by (simp_all add: par)
  from conv_encode_path [OF w] assms(12) have c: "length coded = 78" "is_bits coded" by auto
  with assms(13,14) have b: "is_bits ?b" "length ?b = 142" "take 39 ?b @ drop 103 ?b = coded" by simp_all
  from decode_sch_cases [OF b(1,2), of True] obtain e bs where
    r: "decode_sch ?b True = (if e \<noteq> 0 then Inr (e, None)
      else if drop 25 (take 35 bs) \<noteq> sch_parity (take 25 bs) then Inr (1, None) else Inr (0, Some (sch_fields bs)))"
    "\<forall>ds. is_bits ds \<and> length ds = 39 \<and> conv_encode ds (replicate 78 0) = Inr coded \<longrightarrow> e = 0 \<and> bs = ds"
    unfolding b(3) if_True by blast
  from r(2) w assms(12) have "e = 0" "bs = ?i @ par @ replicate 4 0" by blast+
  moreover have "sch_fields bs = \<lparr>sch_t1 = t1, sch_t2 = t2, sch_t3 = 10 * t3' + 1, sch_ncc = ncc, sch_bcc = bcc\<rparr>"
    using sch_fields_block [OF assms(1-10)] calculation(2) by simp
  ultimately show ?thesis using r(1) par by simp
qed

theorem sch_roundtrip_witness:
  "\<exists>par coded. sch_parity_encode (sch_block 1327 25 5 3 6) (replicate 10 0) = Inr par
    \<and> conv_encode (sch_block 1327 25 5 3 6 @ par @ replicate 4 0) (replicate 78 0) = Inr coded
    \<and> decode_sch (take 39 coded @ replicate 64 1 @ drop 39 coded) True
      = Inr (0, Some \<lparr>sch_t1 = 1327, sch_t2 = 25, sch_t3 = 51, sch_ncc = 3, sch_bcc = 6\<rparr>)"
proof -
  let ?i = "sch_block 1327 25 5 3 6"
  have par: "sch_parity_encode ?i (replicate 10 0) = Inr (sch_parity ?i)" by (simp add: sch_parity_encode_eq)
  have "is_bits (?i @ sch_parity ?i @ replicate 4 0)" "length (?i @ sch_parity ?i @ replicate 4 0) = 39" by simp_all
  from conv_encode_path [OF this] obtain coded where
    c: "conv_encode (?i @ sch_parity ?i @ replicate 4 0) (replicate 78 0) = Inr coded" by blast
  have "decode_sch (take 39 coded @ replicate 64 1 @ drop 39 coded) True
      = Inr (0, Some \<lparr>sch_t1 = 1327, sch_t2 = 25, sch_t3 = 10 * 5 + 1, sch_ncc = 3, sch_bcc = 6\<rparr>)"
    by (rule sch_roundtrip [OF _ _ _ _ _ _ _ _ _ _ par c]) (simp_all add: is_bits_def list_all_iff)
  with par c show ?thesis by auto
qed

text \<open>C29. \<open>decode_sch\<close> accepts exactly the code words.  It returns 0 for a burst of 142 bits if and only if the two data fields
  are the encoding of 25 bits, their parity and any four tail bits; a single wrong bit is never corrected.\<close>

theorem decode_sch_accepts:
  assumes "is_bits buf" "length buf = 142"
  shows "(\<exists>f. decode_sch buf True = Inr (0, f)) \<longleftrightarrow>
    (\<exists>info par tail. is_bits info \<and> length info = 25 \<and> is_bits tail \<and> length tail = 4
      \<and> sch_parity_encode info (replicate 10 0) = Inr par
      \<and> conv_encode (info @ par @ tail) (replicate 78 0) = Inr (take 39 buf @ drop 103 buf))"
proof -
  let ?c = "take 39 buf @ drop 103 buf"
  from decode_sch_cases [OF assms, of True] obtain e bs where
    r: "decode_sch buf True = (if e \<noteq> 0 then Inr (e, None)
      else if drop 25 (take 35 bs) \<noteq> sch_parity (take 25 bs) then Inr (1, None) else Inr (0, Some (sch_fields bs)))"
    "is_bits bs" "length bs = 39" "e = 0 \<longleftrightarrow> conv_encode bs (replicate 78 0) = Inr ?c"
    "\<forall>ds. is_bits ds \<and> length ds = 39 \<and> conv_encode ds (replicate 78 0) = Inr ?c \<longrightarrow> e = 0 \<and> bs = ds"
    unfolding if_True by blast
  have split: "bs = take 25 bs @ drop 25 (take 35 bs) @ drop 35 bs"
    using append_take_drop_id [of 35 bs] append_take_drop_id [of 25 "take 35 bs"] by (simp add: drop_take flip: append_assoc)
  have "(\<exists>f. decode_sch buf True = Inr (0, f)) \<longleftrightarrow> e = 0 \<and> drop 25 (take 35 bs) = sch_parity (take 25 bs)"
    using r(1) by (auto split: if_splits)
  also have "\<dots> \<longleftrightarrow> (\<exists>info tail. is_bits info \<and> length info = 25 \<and> is_bits tail \<and> length tail = 4
      \<and> conv_encode (info @ sch_parity info @ tail) (replicate 78 0) = Inr ?c)"
  proof
    assume a: "e = 0 \<and> drop 25 (take 35 bs) = sch_parity (take 25 bs)"
    with split have "bs = take 25 bs @ sch_parity (take 25 bs) @ drop 35 bs" by simp
    with a r(2-4) show "\<exists>info tail. is_bits info \<and> length info = 25 \<and> is_bits tail \<and> length tail = 4
      \<and> conv_encode (info @ sch_parity info @ tail) (replicate 78 0) = Inr ?c"
      by (intro exI [of _ "take 25 bs"] exI [of _ "drop 35 bs"]) auto
  next
    assume "\<exists>info tail. is_bits info \<and> length info = 25 \<and> is_bits tail \<and> length tail = 4
      \<and> conv_encode (info @ sch_parity info @ tail) (replicate 78 0) = Inr ?c"
    then obtain info tail where i: "is_bits info" "length info = 25" "is_bits tail" "length tail = 4"
      "conv_encode (info @ sch_parity info @ tail) (replicate 78 0) = Inr ?c" by blast
    moreover have "is_bits (info @ sch_parity info @ tail)" "length (info @ sch_parity info @ tail) = 39" using i by simp_all
    ultimately have "e = 0" "bs = info @ sch_parity info @ tail" using r(5) by blast+
    with i(2) show "e = 0 \<and> drop 25 (take 35 bs) = sch_parity (take 25 bs)" by simp
  qed
  finally show ?thesis using sch_parity_encode_eq by (metis sum.inject(2))
qed

theorem decode_sch_accepts_witness:
  "(\<exists>f. decode_sch (replicate 142 0) True = Inr (0, f)) \<longleftrightarrow>
    (\<exists>info par tail. is_bits info \<and> length info = 25 \<and> is_bits tail \<and> length tail = 4
      \<and> sch_parity_encode info (replicate 10 0) = Inr par
      \<and> conv_encode (info @ par @ tail) (replicate 78 0) = Inr (take 39 (replicate 142 0) @ drop 103 (replicate 142 0)))"
  by (rule decode_sch_accepts) (simp_all add: is_bits_def list_all_iff)

end
