(* ===== verification/A5.thy ===== *)
theory A5
  imports Crc
begin

text \<open>
  The stream ciphers A5/1 and A5/2 (\<open>libosmocore/src/gsm/a5.c\<close> and \<open>a5.h\<close>): linear shift registers that clock one
  another irregularly.  An array of registers is a list of 32 bit words; a null pointer for one of the two output buffers is
  \<open>False\<close> in the request and \<open>None\<close> in the result.
\<close>

section \<open>Definitions\<close>

definition osmo_a5_fn_count :: "u32 \<Rightarrow> u32" where
  "osmo_a5_fn_count fn =
     (let t1 = fn div (26 * 51); t2 = fn mod 26; t3 = fn mod 51
      in push_bit 11 t1 OR push_bit 5 t3 OR t2)"

definition A5_R1_MASK :: u32 where "A5_R1_MASK = push_bit 19 1 - 1"
definition A5_R2_MASK :: u32 where "A5_R2_MASK = push_bit 22 1 - 1"
definition A5_R3_MASK :: u32 where "A5_R3_MASK = push_bit 23 1 - 1"
definition A5_R4_MASK :: u32 where "A5_R4_MASK = push_bit 17 1 - 1"
definition A5_R1_TAPS :: u32 where "A5_R1_TAPS = 0x072000"
definition A5_R2_TAPS :: u32 where "A5_R2_TAPS = 0x300000"
definition A5_R3_TAPS :: u32 where "A5_R3_TAPS = 0x700080"
definition A5_R4_TAPS :: u32 where "A5_R4_TAPS = 0x010800"

definition a5_12_parity :: "u32 \<Rightarrow> u32" where
  "a5_12_parity x =
     (let x = x XOR drop_bit 16 x;
          x = x XOR drop_bit 8 x;
          x = x XOR drop_bit 4 x;
          x = x AND 0xf
      in drop_bit (unat x) 0x6996 AND 1)"

definition a5_12_majority :: "u32 \<Rightarrow> u32 \<Rightarrow> u32 \<Rightarrow> u32" where
  "a5_12_majority v1 v2 v3 = of_bool (of_bool (nz v1) + of_bool (nz v2) + of_bool (nz v3) \<ge> (2 :: nat))"

definition a5_12_clock :: "u32 \<Rightarrow> u32 \<Rightarrow> u32 \<Rightarrow> u32" where
  "a5_12_clock r msk taps = (push_bit 1 r AND msk) OR a5_12_parity (r AND taps)"

text \<open>The key is loaded from its last octet on, the lowest bit first.\<close>

definition a5_key_bit :: "u8 list \<Rightarrow> nat \<Rightarrow> u32 res" where
  "a5_key_bit key i = rbind (rd key (7 - i div 8)) (\<lambda>k. Inr (ucast (drop_bit (i mod 8) k) AND 1))"

subsection \<open>A5/1\<close>

definition a5_1_clock :: "u32 list \<Rightarrow> bool \<Rightarrow> u32 list" where
  "a5_1_clock r force =
     (let cb0 = nz (r ! 0 AND 0x000100);
          cb1 = nz (r ! 1 AND 0x000400);
          cb2 = nz (r ! 2 AND 0x000400);
          maj = nz (a5_12_majority (of_bool cb0) (of_bool cb1) (of_bool cb2))
      in [if force \<or> maj = cb0 then a5_12_clock (r ! 0) A5_R1_MASK A5_R1_TAPS else r ! 0,
          if force \<or> maj = cb1 then a5_12_clock (r ! 1) A5_R2_MASK A5_R2_TAPS else r ! 1,
          if force \<or> maj = cb2 then a5_12_clock (r ! 2) A5_R3_MASK A5_R3_TAPS else r ! 2])"

definition a5_1_get_output :: "u32 list \<Rightarrow> u8" where
  "a5_1_get_output r = ucast (drop_bit 18 (r ! 0) XOR drop_bit 21 (r ! 1) XOR drop_bit 22 (r ! 2))"

text \<open>The loops that both ciphers have: a bit is fed into all registers, and a stream of 114 bits is produced.\<close>

definition a5_feed :: "(u32 list \<Rightarrow> bool \<Rightarrow> u32 list) \<Rightarrow> u32 \<Rightarrow> u32 list \<Rightarrow> u32 list" where
  "a5_feed clock b r = map (\<lambda>x. x XOR b) (clock r True)"

definition a5_load :: "(u32 list \<Rightarrow> bool \<Rightarrow> u32 list) \<Rightarrow> u8 list \<Rightarrow> u32 \<Rightarrow> u32 list \<Rightarrow> u32 list res" where
  "a5_load clock key fn r =
     rbind (rfold (\<lambda>i r. rbind (a5_key_bit key i) (\<lambda>b. Inr (a5_feed clock b r))) [0..<64] r) (\<lambda>r.
     let fn_count = osmo_a5_fn_count fn in
     Inr (fold (\<lambda>i. a5_feed clock (drop_bit i fn_count AND 1)) [0..<22] r))"

definition a5_stream :: "(u32 list \<Rightarrow> bool \<Rightarrow> u32 list) \<Rightarrow> (u32 list \<Rightarrow> u8) \<Rightarrow> u32 list \<Rightarrow> u32 list \<times> u8 list" where
  "a5_stream clock key_out r =
     fold (\<lambda>i (r, out). let r = clock r False in (r, out @ [key_out r])) [0..<114] (r, [])"

type_synonym a5_out = "u8 list option \<times> u8 list option"

definition osmo_a5_1 :: "u8 list \<Rightarrow> u32 \<Rightarrow> bool \<Rightarrow> bool \<Rightarrow> a5_out res" where
  "osmo_a5_1 key fn dl ul =
     rbind (a5_load a5_1_clock key fn [0, 0, 0]) (\<lambda>r.
     let r = fold (\<lambda>i r. a5_1_clock r False) [0..<100] r;
         (r, d) = a5_stream a5_1_clock a5_1_get_output r;
         (r, u) = a5_stream a5_1_clock a5_1_get_output r
     in Inr (if dl then Some d else None, if ul then Some u else None))"

subsection \<open>A5/2\<close>

definition a5_2_clock :: "u32 list \<Rightarrow> bool \<Rightarrow> u32 list" where
  "a5_2_clock r force =
     (let cb0 = nz (r ! 3 AND 0x000400);
          cb1 = nz (r ! 3 AND 0x000008);
          cb2 = nz (r ! 3 AND 0x000080);
          maj = (of_bool cb0 + of_bool cb1 + of_bool cb2 \<ge> (2 :: nat))
      in [if force \<or> maj = cb0 then a5_12_clock (r ! 0) A5_R1_MASK A5_R1_TAPS else r ! 0,
          if force \<or> maj = cb1 then a5_12_clock (r ! 1) A5_R2_MASK A5_R2_TAPS else r ! 1,
          if force \<or> maj = cb2 then a5_12_clock (r ! 2) A5_R3_MASK A5_R3_TAPS else r ! 2,
          a5_12_clock (r ! 3) A5_R4_MASK A5_R4_TAPS])"

definition a5_2_get_output :: "u32 list \<Rightarrow> u8" where
  "a5_2_get_output r =
     ucast (drop_bit 18 (r ! 0) XOR drop_bit 21 (r ! 1) XOR drop_bit 22 (r ! 2)
       XOR a5_12_majority (r ! 0 AND 0x08000) (NOT (r ! 0) AND 0x04000) (r ! 0 AND 0x1000)
       XOR a5_12_majority (NOT (r ! 1) AND 0x10000) (r ! 1 AND 0x02000) (r ! 1 AND 0x0200)
       XOR a5_12_majority (r ! 2 AND 0x40000) (r ! 2 AND 0x10000) (NOT (r ! 2) AND 0x2000))"

definition osmo_a5_2 :: "u8 list \<Rightarrow> u32 \<Rightarrow> bool \<Rightarrow> bool \<Rightarrow> a5_out res" where
  "osmo_a5_2 key fn dl ul =
     rbind (a5_load a5_2_clock key fn [0, 0, 0, 0]) (\<lambda>r.
     let r = [r ! 0 OR push_bit 15 1, r ! 1 OR push_bit 16 1, r ! 2 OR push_bit 18 1, r ! 3 OR push_bit 10 1];
         r = fold (\<lambda>i r. a5_2_clock r False) [0..<99] r;
         (r, d) = a5_stream a5_2_clock a5_2_get_output r;
         (r, u) = a5_stream a5_2_clock a5_2_get_output r
     in Inr (if dl then Some d else None, if ul then Some u else None))"

subsection \<open>Choice of the cipher\<close>

text \<open>For any other cipher than these, \<open>osmo_a5\<close> returns \<open>-ENOTSUP\<close> and writes nothing; here \<open>None\<close>.\<close>

definition osmo_a5 :: "u8 \<Rightarrow> u8 list \<Rightarrow> u32 \<Rightarrow> bool \<Rightarrow> bool \<Rightarrow> a5_out option res" where
  "osmo_a5 n key fn dl ul =
     (if n = 0 then Inr (Some (if dl then Some (replicate 114 0) else None, if ul then Some (replicate 114 0) else None))
      else if n = 1 then rbind (osmo_a5_1 key fn dl ul) (\<lambda>r. Inr (Some r))
      else if n = 2 then rbind (osmo_a5_2 key fn dl ul) (\<lambda>r. Inr (Some r))
      else Inr None)"

section \<open>Shift registers\<close>

text \<open>The sum of bits modulo 2.\<close>

definition bxor :: "bool \<Rightarrow> bool \<Rightarrow> bool" where
  "bxor a b \<longleftrightarrow> a \<noteq> b"

lemma bxor_ac: "bxor a b = bxor b a" "bxor (bxor a b) c = bxor a (bxor b c)" "bxor a (bxor b c) = bxor b (bxor a c)"
  by (auto simp: bxor_def)

definition xor_bits :: "u32 \<Rightarrow> bool" where
  "xor_bits x = foldr (\<lambda>i. bxor (bit x i)) [0..<32] False"

lemma nibble_parity:
  "(drop_bit (unat (z AND 0xf)) 0x6996 AND 1 :: u32) = of_bool (bxor (bit z 0) (bxor (bit z 1) (bxor (bit z 2) (bit z 3))))"
  for z :: u32
proof -
  let ?n = "unat z"
  have "unat (z AND 0xf) = take_bit 4 ?n"
    by (simp add: unsigned_and_eq take_bit_eq_mask mask_eq_exp_minus_1)
  also have "\<dots> = of_bool (bit ?n 0) + 2 * of_bool (bit ?n 1) + 4 * of_bool (bit ?n 2) + 8 * of_bool (bit ?n 3)"
    using take_bit_Suc_from_most [of 3 ?n] take_bit_Suc_from_most [of 2 ?n] take_bit_Suc_from_most [of 1 ?n] take_bit_Suc_from_most [of 0 ?n]
    by (simp add: numeral_eq_Suc)
  also have "\<dots> = of_bool (bit z 0) + 2 * of_bool (bit z 1) + 4 * of_bool (bit z 2) + 8 * of_bool (bit z 3)"
    by (simp add: bit_unsigned_iff)
  finally have n: "unat (z AND 0xf) = of_bool (bit z 0) + 2 * of_bool (bit z 1) + 4 * of_bool (bit z 2) + 8 * of_bool (bit z 3)" .
  show ?thesis unfolding n
    by (cases "bit z 0"; cases "bit z 1"; cases "bit z 2"; cases "bit z 3"; simp add: bxor_def)
qed

lemma a5_12_parity_xor: "a5_12_parity x = of_bool (xor_bits x)"
proof -
  have bx: "bit (a XOR b) n = bxor (bit a n) (bit b n)" for a b :: u32 and n by (simp add: bit_xor_iff bxor_def)
  have F: "bxor a False = a" "bxor False a = a" for a by (auto simp: bxor_def)
  show ?thesis
    unfolding a5_12_parity_def Let_def nibble_parity xor_bits_def
    by (simp add: bx bit_drop_bit_eq upt_eval bxor_ac F)
qed

lemma a5_12_clock_bit:
  assumes "0 < n" "n < 32"
  shows "bit (a5_12_clock r (2 ^ n - 1) taps) k = (if k = 0 then xor_bits (r AND taps) else k < n \<and> bit r (k - 1))"
proof -
  have m: "x AND 2 ^ n - 1 = take_bit n x" for x :: u32 by (simp add: take_bit_eq_mask mask_eq_exp_minus_1)
  show ?thesis
    using assms bit_double_iff [of r k]
    by (cases k) (auto simp: a5_12_clock_def m a5_12_parity_xor bit_or_iff bit_take_bit_iff bit_1_iff mult.commute [of r])
qed

lemma a5_masks: "A5_R1_MASK = 2 ^ 19 - 1" "A5_R2_MASK = 2 ^ 22 - 1" "A5_R3_MASK = 2 ^ 23 - 1" "A5_R4_MASK = 2 ^ 17 - 1"
  by (simp_all add: A5_R1_MASK_def A5_R2_MASK_def A5_R3_MASK_def A5_R4_MASK_def)

text \<open>A register of \<open>n\<close> bits has none above.\<close>

definition within :: "nat \<Rightarrow> u32 \<Rightarrow> bool" where
  "within n x \<longleftrightarrow> (\<forall>k \<ge> n. \<not> bit x k)"

lemma within_clock: "0 < n \<Longrightarrow> n < 32 \<Longrightarrow> within n (a5_12_clock r (2 ^ n - 1) taps)"
  by (simp add: within_def a5_12_clock_bit)

lemma within_regs:
  "within 19 (a5_12_clock r A5_R1_MASK taps)" "within 22 (a5_12_clock r A5_R2_MASK taps)"
  "within 23 (a5_12_clock r A5_R3_MASK taps)" "within 17 (a5_12_clock r A5_R4_MASK taps)"
  unfolding a5_masks by (rule within_clock; simp)+

lemma within_0 [simp]: "within n 0"
  by (simp add: within_def)

lemma within_mono: "within m x \<Longrightarrow> m \<le> n \<Longrightarrow> within n x"
  by (auto simp: within_def)

lemma within_xor: "within n x \<Longrightarrow> within n y \<Longrightarrow> within n (x XOR y)"
  by (simp add: within_def bit_xor_iff)

lemma within_or: "within n x \<Longrightarrow> within n y \<Longrightarrow> within n (x OR y)"
  by (simp add: within_def bit_or_iff)

lemma within_and_1: "within 1 (x AND 1)"
  by (auto simp: within_def bit_and_iff bit_1_iff)

lemma within_one: "k < n \<Longrightarrow> within n (push_bit k 1)"
  by (auto simp: within_def bit_exp_iff)

lemma within_top:
  "within 19 x \<Longrightarrow> within 1 (drop_bit 18 x)" "within 22 x \<Longrightarrow> within 1 (drop_bit 21 x)" "within 23 x \<Longrightarrow> within 1 (drop_bit 22 x)"
  by (simp_all add: within_def bit_drop_bit_eq)

lemma within_1_iff: "within 1 x \<Longrightarrow> ucast x = (0 :: u8) \<or> ucast x = (1 :: u8)"
proof -
  assume "within 1 x"
  then have w: "\<not> bit x (Suc n)" for n by (simp add: within_def)
  have "x = of_bool (bit x 0)"
  proof (rule bit_word_eqI)
    show "bit x n = bit (of_bool (bit x 0) :: u32) n" for n using w by (cases n) (simp_all add: bit_1_iff)
  qed
  then have "x = 0 \<or> x = 1" by (cases "bit x 0") simp_all
  then show ?thesis by auto
qed

text \<open>What the two clock functions have in common: they keep the lengths of the registers.\<close>

locale clocked =
  fixes clock :: "u32 list \<Rightarrow> bool \<Rightarrow> u32 list" and key_out :: "u32 list \<Rightarrow> u8" and lens :: "nat list"
  assumes lens_pos: "n \<in> set lens \<Longrightarrow> 0 < n"
    and clock_regs: "list_all2 within lens r \<Longrightarrow> list_all2 within lens (clock r force)"
    and output_bit: "list_all2 within lens r \<Longrightarrow> key_out r = 0 \<or> key_out r = 1"
begin

lemma feed_regs: "list_all2 within lens r \<Longrightarrow> list_all2 within lens (a5_feed clock (x AND 1) r)"
  using clock_regs [of r True] lens_pos
  by (auto simp: a5_feed_def list_all2_conv_all_nth Suc_le_eq intro!: within_xor within_mono [OF within_and_1])

lemma feed_all: "list_all2 within lens r \<Longrightarrow> list_all2 within lens (fold (\<lambda>i. a5_feed clock (f i AND 1)) xs r)"
  by (induction xs arbitrary: r) (simp_all add: feed_regs)

lemma mix_regs: "list_all2 within lens r \<Longrightarrow> list_all2 within lens (fold (\<lambda>i r. clock r False) xs r)"
  by (induction xs arbitrary: r) (simp_all add: clock_regs)

lemma load_regs:
  assumes "list_all2 within lens r" and "length key = 8"
  shows "\<exists>r'. a5_load clock key fn r = Inr r' \<and> list_all2 within lens r'"
proof -
  have "\<exists>r'. rfold (\<lambda>i r. rbind (a5_key_bit key i) (\<lambda>b. Inr (a5_feed clock b r))) [0..<64] r = Inr r' \<and> list_all2 within lens r'"
    by (rule rfold_upt_rule [where P = "\<lambda>_. list_all2 within lens"]) (use assms in \<open>auto simp: a5_key_bit_def intro: feed_regs\<close>)
  then show ?thesis by (auto simp: a5_load_def Let_def intro: feed_all)
qed

lemma stream_bits:
  assumes "list_all2 within lens r"
  shows "\<exists>r' d. a5_stream clock key_out r = (r', d) \<and> list_all2 within lens r' \<and> is_bits d \<and> length d = 114"
proof -
  have "\<exists>r' d. fold (\<lambda>i (r, out). let r = clock r False in (r, out @ [key_out r])) xs (r, ds) = (r', ds @ d)
      \<and> list_all2 within lens r' \<and> is_bits d \<and> length d = length xs" if "list_all2 within lens r" for ds and xs :: "nat list" and r
    using that
  proof (induction xs arbitrary: r ds)
    case (Cons x xs)
    note r = clock_regs [OF Cons.prems, of False]
    from Cons.IH [OF r, of "ds @ [key_out (clock r False)]"] output_bit [OF r] show ?case by auto
  qed simp
  from this [OF assms, of "[0..<114]" "[]"] show ?thesis by (simp add: a5_stream_def)
qed

end

interpretation a51: clocked a5_1_clock a5_1_get_output "[19, 22, 23]"
proof
  show "list_all2 within [19, 22, 23] (a5_1_clock r force)" if "list_all2 within [19, 22, 23] r" for r force
    using that by (auto simp: a5_1_clock_def Let_def within_regs list_all2_Cons1)
  show "a5_1_get_output r = 0 \<or> a5_1_get_output r = 1" if "list_all2 within [19, 22, 23] r" for r
    unfolding a5_1_get_output_def
    by (rule within_1_iff) (use that in \<open>auto simp: list_all2_Cons1 simp del: One_nat_def intro!: within_xor within_top\<close>)
qed auto

lemma within_majority: "within 1 (a5_12_majority a b c)"
  by (auto simp: a5_12_majority_def within_def bit_1_iff)

interpretation a52: clocked a5_2_clock a5_2_get_output "[19, 22, 23, 17]"
proof
  show "list_all2 within [19, 22, 23, 17] (a5_2_clock r force)" if "list_all2 within [19, 22, 23, 17] r" for r force
    using that by (auto simp: a5_2_clock_def Let_def within_regs list_all2_Cons1)
  show "a5_2_get_output r = 0 \<or> a5_2_get_output r = 1" if "list_all2 within [19, 22, 23, 17] r" for r
    unfolding a5_2_get_output_def
    by (rule within_1_iff) (use that in \<open>auto simp: list_all2_Cons1 simp del: One_nat_def intro!: within_xor within_top within_majority\<close>)
qed auto

lemma osmo_a5_stream:
  assumes "length key = 8" and "n < 3"
  shows "\<exists>d u. osmo_a5 n key fn dl ul = Inr (Some (if dl then Some d else None, if ul then Some u else None))
    \<and> is_bits d \<and> length d = 114 \<and> is_bits u \<and> length u = 114"
proof -
  have a51: "\<exists>d u. osmo_a5_1 key fn dl ul = Inr (if dl then Some d else None, if ul then Some u else None)
      \<and> is_bits d \<and> length d = 114 \<and> is_bits u \<and> length u = 114"
  proof -
    obtain r where r: "a5_load a5_1_clock key fn [0, 0, 0] = Inr r" "list_all2 within [19, 22, 23] r"
      using a51.load_regs [of "[0, 0, 0]" key fn] assms(1) by auto
    from a51.stream_bits [OF a51.mix_regs [OF r(2), of "[0..<100]"]] obtain r1 d where
      d: "a5_stream a5_1_clock a5_1_get_output (fold (\<lambda>i r. a5_1_clock r False) [0..<100] r) = (r1, d)" "list_all2 within [19, 22, 23] r1"
        "is_bits d" "length d = 114" by blast
    from a51.stream_bits [OF d(2)] obtain r2 u where
      "a5_stream a5_1_clock a5_1_get_output r1 = (r2, u)" "is_bits u" "length u = 114" by blast
    with r(1) d show ?thesis by (auto simp: osmo_a5_1_def Let_def)
  qed
  have a52: "\<exists>d u. osmo_a5_2 key fn dl ul = Inr (if dl then Some d else None, if ul then Some u else None)
      \<and> is_bits d \<and> length d = 114 \<and> is_bits u \<and> length u = 114"
  proof -
    obtain r where r: "a5_load a5_2_clock key fn [0, 0, 0, 0] = Inr r" "list_all2 within [19, 22, 23, 17] r"
      using a52.load_regs [of "[0, 0, 0, 0]" key fn] assms(1) by auto
    let ?r = "[r ! 0 OR push_bit 15 1, r ! 1 OR push_bit 16 1, r ! 2 OR push_bit 18 1, r ! 3 OR push_bit 10 1]"
    have "list_all2 within [19, 22, 23, 17] ?r"
      using r(2) by (auto simp: list_all2_Cons1 simp del: push_bit_of_1 intro!: within_or within_one)
    from a52.stream_bits [OF a52.mix_regs [OF this, of "[0..<99]"]] obtain r1 d where
      d: "a5_stream a5_2_clock a5_2_get_output (fold (\<lambda>i r. a5_2_clock r False) [0..<99] ?r) = (r1, d)" "list_all2 within [19, 22, 23, 17] r1"
        "is_bits d" "length d = 114" by blast
    from a52.stream_bits [OF d(2)] obtain r2 u where
      u: "a5_stream a5_2_clock a5_2_get_output r1 = (r2, u)" "is_bits u" "length u = 114" by blast
    have "osmo_a5_2 key fn dl ul = Inr (if dl then Some d else None, if ul then Some u else None)"
      unfolding osmo_a5_2_def r(1) rbind_Inr Let_def d(1) split u(1) ..
    with d u show ?thesis by blast
  qed
  have "n = 0 \<or> n = 1 \<or> n = 2" using assms(2) by unat_arith
  then show ?thesis
  proof (elim disjE)
    assume "n = 0"
    then show ?thesis by (intro exI [of _ "replicate 114 0"]) (simp add: osmo_a5_def is_bits_def list_all_iff)
  next
    assume "n = 1"
    then have "osmo_a5 n key fn dl ul = rbind (osmo_a5_1 key fn dl ul) (\<lambda>r. Inr (Some r))" by (simp add: osmo_a5_def)
    moreover from a51 obtain d u where "osmo_a5_1 key fn dl ul = Inr (if dl then Some d else None, if ul then Some u else None)"
      "is_bits d \<and> length d = 114 \<and> is_bits u \<and> length u = 114" by blast
    ultimately show ?thesis by (intro exI [of _ d] exI [of _ u]) (simp only: rbind_Inr)
  next
    assume "n = 2"
    then have "osmo_a5 n key fn dl ul = rbind (osmo_a5_2 key fn dl ul) (\<lambda>r. Inr (Some r))" by (simp add: osmo_a5_def)
    moreover from a52 obtain d u where "osmo_a5_2 key fn dl ul = Inr (if dl then Some d else None, if ul then Some u else None)"
      "is_bits d \<and> length d = 114 \<and> is_bits u \<and> length u = 114" by blast
    ultimately show ?thesis by (intro exI [of _ d] exI [of _ u]) (simp only: rbind_Inr)
  qed
qed

section \<open>A5/1 as it is published\<close>

text \<open>
  The cipher on lists of bits: three registers of 19, 22 and 23 bits, the feedback taps of each, and the majority of
  the bits 8, 10 and 10 that decides which of them move.
\<close>

definition reg :: "nat \<Rightarrow> u32 \<Rightarrow> bool list" where
  "reg n w = map (bit w) [0..<n]"

definition lfsr :: "nat list \<Rightarrow> bool list \<Rightarrow> bool list" where
  "lfsr taps bs = foldr (\<lambda>i. bxor (bs ! i)) taps False # butlast bs"

definition a51_spec :: "bool \<Rightarrow> bool list \<times> bool list \<times> bool list \<Rightarrow> bool list \<times> bool list \<times> bool list" where
  "a51_spec force = (\<lambda>(x, y, z).
     let a = x ! 8; b = y ! 10; c = z ! 10; m = (a \<and> b \<or> a \<and> c \<or> b \<and> c)
     in (if force \<or> a = m then lfsr [13, 16, 17, 18] x else x,
         if force \<or> b = m then lfsr [20, 21] y else y,
         if force \<or> c = m then lfsr [7, 20, 21, 22] z else z))"

lemma reg_clock:
  assumes "0 < n" "n < 32" and "xor_bits (r AND taps) = foldr (\<lambda>i. bxor (bit r i)) ts False" and "\<forall>i \<in> set ts. i < n"
  shows "reg n (a5_12_clock r (2 ^ n - 1) taps) = lfsr ts (reg n r)"
proof -
  have "foldr (\<lambda>i. bxor (reg n r ! i)) ts False = foldr (\<lambda>i. bxor (bit r i)) ts False"
    by (rule foldr_cong) (use assms(4) in \<open>simp_all add: reg_def\<close>)
  moreover have "reg n (a5_12_clock r (2 ^ n - 1) taps) ! k = (xor_bits (r AND taps) # butlast (reg n r)) ! k" if "k < n" for k
    using that assms(1,2) by (cases k) (simp_all add: reg_def a5_12_clock_bit nth_butlast)
  moreover have "length (reg n (a5_12_clock r (2 ^ n - 1) taps)) = n" "length (butlast (reg n r)) = n - 1" by (simp_all add: reg_def)
  ultimately show ?thesis
    using assms(1,3) unfolding lfsr_def by (intro nth_equalityI) auto
qed

lemma a5_taps:
  "xor_bits (r AND A5_R1_TAPS) = foldr (\<lambda>i. bxor (bit r i)) [13, 16, 17, 18] False"
  "xor_bits (r AND A5_R2_TAPS) = foldr (\<lambda>i. bxor (bit r i)) [20, 21] False"
  "xor_bits (r AND A5_R3_TAPS) = foldr (\<lambda>i. bxor (bit r i)) [7, 20, 21, 22] False"
proof -
  have F: "bxor False a = a" for a by (auto simp: bxor_def)
  show "xor_bits (r AND A5_R1_TAPS) = foldr (\<lambda>i. bxor (bit r i)) [13, 16, 17, 18] False"
    "xor_bits (r AND A5_R2_TAPS) = foldr (\<lambda>i. bxor (bit r i)) [20, 21] False"
    "xor_bits (r AND A5_R3_TAPS) = foldr (\<lambda>i. bxor (bit r i)) [7, 20, 21, 22] False"
    by (simp_all add: xor_bits_def upt_eval bit_and_iff F A5_R1_TAPS_def A5_R2_TAPS_def A5_R3_TAPS_def)
qed

lemma nz_and_bit: "nz (x AND 0x000100) = bit x 8" "nz (x AND 0x000400) = bit x 10" for x :: u32
  using and_exp_eq_0_iff_not_bit [of x 8] and_exp_eq_0_iff_not_bit [of x 10] by simp_all

text \<open>C30. The clock of A5/1.  On the bits of the registers \<open>a5_1_clock\<close>, with its masks, tap constants and parity trick on
  32 bit words, is the published cipher: three shift registers of 19, 22 and 23 bits with the feedback of the bits 13, 16, 17, 18,
  of 20, 21 and of 7, 20, 21, 22, each moving when its clock bit is that of the majority, or always while the key is loaded.\<close>

theorem a5_1_clock_refines:
  "(reg 19 (a5_1_clock r force ! 0), reg 22 (a5_1_clock r force ! 1), reg 23 (a5_1_clock r force ! 2))
    = a51_spec force (reg 19 (r ! 0), reg 22 (r ! 1), reg 23 (r ! 2))"
proof -
  have c: "reg 19 (a5_12_clock x A5_R1_MASK A5_R1_TAPS) = lfsr [13, 16, 17, 18] (reg 19 x)"
    "reg 22 (a5_12_clock x A5_R2_MASK A5_R2_TAPS) = lfsr [20, 21] (reg 22 x)"
    "reg 23 (a5_12_clock x A5_R3_MASK A5_R3_TAPS) = lfsr [7, 20, 21, 22] (reg 23 x)" for x
    unfolding a5_masks by (rule reg_clock [OF _ _ a5_taps(1)] reg_clock [OF _ _ a5_taps(2)] reg_clock [OF _ _ a5_taps(3)]; simp)+
  have b: "reg 19 x ! 8 = bit x 8" "reg 22 x ! 10 = bit x 10" "reg 23 x ! 10 = bit x 10" for x by (simp_all add: reg_def)
  have m: "nz (a5_12_majority (of_bool p) (of_bool q) (of_bool t)) = (p \<and> q \<or> p \<and> t \<or> q \<and> t)" for p q t
    by (cases p; cases q; cases t) (simp_all add: a5_12_majority_def)
  show ?thesis
    unfolding a5_1_clock_def a51_spec_def Let_def m nz_and_bit split b
    by (cases "bit (r ! 0) 8"; cases "bit (r ! 1) 10"; cases "bit (r ! 2) 10"; cases force) (simp_all add: c)
qed

end
