(* ===== verification/Burst.thy ===== *)
theory Burst
  imports Cch A5 Osmo Program
begin

text \<open>
  From bursts to messages (\<open>gsm-parser/process.c\<close>, \<open>ccch.c\<close>, \<open>tch.c\<close>): the bursts of a control channel are collected
  in a buffer of the session, deciphered, decoded and passed on to LAPDm.

  A message that the code takes from \<open>malloc\<close> has the contents that the memory happens to have; that is the parameter
  \<open>mem\<close> of the operations.  The decoder of a block leaves two of its arrays on the stack (\<open>call_stack\<close>, theory \<open>Cch\<close>);
  what lies there is the parameter \<open>st\<close>.
\<close>

section \<open>Definitions\<close>

text \<open>The buffers of bursts in a session, and access to one of them.\<close>

datatype burst_chan = Buf_sacch | Buf_sdcch | Buf_saccht nat

fun get_buf :: "burst_chan \<Rightarrow> session_info \<Rightarrow> burst_buf res" where
  "get_buf Buf_sacch s = Inr (s_sacch s)"
| "get_buf Buf_sdcch s = Inr (s_sdcch s)"
| "get_buf (Buf_saccht k) s = rd (s_saccht s) k"

fun put_buf :: "burst_chan \<Rightarrow> burst_buf \<Rightarrow> session_info \<Rightarrow> session_info" where
  "put_buf Buf_sacch bb s = s\<lparr>s_sacch := bb\<rparr>"
| "put_buf Buf_sdcch bb s = s\<lparr>s_sdcch := bb\<rparr>"
| "put_buf (Buf_saccht k) bb s = s\<lparr>s_saccht := (s_saccht s)[k := bb]\<rparr>"

text \<open>
  The cipher stream of a burst, in an array of the caller.  For a cipher that \<open>osmo_a5\<close> does not know, the array is
  read without having been written.
\<close>

definition cipher_stream :: "u8 \<Rightarrow> u8 list \<Rightarrow> u32 \<Rightarrow> bool \<Rightarrow> u8 list res" where
  "cipher_stream cipher key fn uplink =
     rbind (osmo_a5 cipher key fn (\<not> uplink) uplink) (\<lambda>r. case r of
       None \<Rightarrow> Inl Uninitialised
     | Some (dl, ul) \<Rightarrow> (case (if uplink then ul else dl) of None \<Rightarrow> Inl NullDeref | Some ks \<Rightarrow> Inr ks))"

text \<open>What is added to the bits of the burst \<open>j\<close> of a message: the stream, or nothing when the message is not ciphered.\<close>

definition burst_stream :: "session_info \<Rightarrow> radio_message \<Rightarrow> nat \<Rightarrow> u8 list res" where
  "burst_stream s m j =
     (if nz (rm_flags m AND MSG_CIPHERED)
      then rbind (msg_uplink m) (\<lambda>uplink. rbind (rd (bb_fn (rm_bb m)) j) (\<lambda>fn. cipher_stream (s_cipher s) (s_key s) fn uplink))
      else Inr (replicate 114 0))"

subsection \<open>Control channels\<close>

definition compute_ber :: "interleave_maps \<Rightarrow> session_info \<Rightarrow> radio_message \<Rightarrow> u8 res" where
  "compute_ber maps s m =
     rbind (encode_signalling maps (rm_msg m) (replicate 456 0)) (\<lambda>raw_coded.
     rbind (rfold (\<lambda>j n. rbind (burst_stream s m j) (\<lambda>ks.
         rfold (\<lambda>i n. rbind (rd raw_coded (j * 114 + i)) (\<lambda>c. rbind (rd ks i) (\<lambda>k. rbind (rd (bb_data (rm_bb m)) (j * 114 + i)) (\<lambda>d.
             Inr (if c XOR k \<noteq> d then n + 1 else n))))) [0..<114] n)) [0..<4] (0 :: nat)) (\<lambda>bit_errors.
     Inr (of_nat (if bit_errors > 456 div 2 then 456 div 2 else bit_errors))))"

text \<open>The soft symbols of a message: the sign is the deciphered bit, the strength half the signal to noise ratio of its burst.\<close>

definition soft_bit :: "u32 \<Rightarrow> u8 \<Rightarrow> u8" where
  "soft_bit snr b = (let snr_amp = ucast (drop_bit 1 snr) :: u8 in if nz b then - snr_amp else snr_amp)"

definition decipher :: "session_info \<Rightarrow> radio_message \<Rightarrow> u8 list res" where
  "decipher s m =
     rfold (\<lambda>j out. rbind (burst_stream s m j) (\<lambda>ks. rbind (rd (bb_snr (rm_bb m)) j) (\<lambda>snr.
         rfold (\<lambda>i out. rbind (rd (bb_data (rm_bb m)) (j * 114 + i)) (\<lambda>d. rbind (rd ks i) (\<lambda>k.
             wr out (j * 114 + i) (soft_bit snr (d XOR k))))) [0..<114] out))) [0..<4] (replicate 456 0)"

definition try_decode :: "call_stack \<Rightarrow> interleave_maps \<Rightarrow> nat \<Rightarrow> nat \<Rightarrow> world \<Rightarrow> world res" where
  "try_decode st maps i a w =
     rbind (sess i w) (\<lambda>s. rbind (deref (Some a) w) (\<lambda>m.
     rbind (msg_uplink m) (\<lambda>uplink.
     rbind (decipher s m) (\<lambda>deciphered.
     rbind (gsm_deinter_sacch maps deciphered (replicate 456 0)) (\<lambda>conv_data.
     rbind (decode_signalling st conv_data (rm_msg m)) (\<lambda>(ret, msg).
     let m = (if ret \<noteq> 0 then m\<lparr>rm_msg := msg, rm_flags := rm_flags m OR MSG_DECODED, rm_msg_len := 23, rm_rat := RAT_GSM\<rparr>
              else m\<lparr>rm_msg := msg\<rparr>)
     in seqs [
       upd_msg (Some a) (\<lambda>_. m),
       on_cond (ret \<noteq> 0) (\<lambda>w. rbind (msg_fn m) (\<lambda>fn.
         if nz (rm_flags m AND MSG_SACCH) then handle_lapdm i Sacch (drop 2 msg) 21 fn uplink w
         else handle_lapdm i Sdcch msg 23 fn uplink w))] w))))))"

text \<open>The message that \<open>process_ccch\<close> makes of a full buffer.\<close>

definition ccch_message :: "radio_message \<Rightarrow> session_info \<Rightarrow> l1ctl_burst_ind \<Rightarrow> burst_buf \<Rightarrow> radio_message res" where
  "ccch_message mem s bi bb =
     rbind (if nz (s_cipher s) then Inr True
            else if bi_chan_nr bi < 0x20 then not_zero (s_key s) 8 else Inr False) (\<lambda>ciphered.
     Inr (mem\<lparr>rm_chan_nr := bi_chan_nr bi,
              rm_flags := (if nz (bi_flags bi AND BI_FLG_SACCH) then MSG_SACCH else MSG_SDCCH)
                          OR (if ciphered then MSG_CIPHERED else 0),
              rm_bb := bb, rm_info := []\<rparr>))"

text \<open>
  A burst that is not the successor of the last one empties the buffer, and is dropped itself; its bits have already been
  written.  On the channels below 0x20 the order is not checked.
\<close>

definition ccch_enqueue :: "l1ctl_burst_ind \<Rightarrow> burst_buf \<Rightarrow> burst_buf res" where
  "ccch_enqueue bi bb =
     rbind (rassert (bb_count bb \<le> 3)) (\<lambda>_.
     let c = unat (bb_count bb) in
     rbind (expand_msb (bi_bits bi) (drop (c * 114) (bb_data bb)) 114) (\<lambda>d.
     let bb = bb\<lparr>bb_data := take (c * 114) (bb_data bb) @ d\<rparr> in
     rbind (if c \<noteq> 0 \<and> bi_chan_nr bi \<ge> 0x20
            then rbind (rd (bb_fn bb) (c - 1)) (\<lambda>f. Inr (frame_nr bi \<noteq> (f + 1) mod (2048 * 26 * 51)))
            else Inr False) (\<lambda>out_of_order.
     if out_of_order then Inr (bb\<lparr>bb_count := 0\<rparr>)
     else rbind (wr (bb_snr bb) c (ucast (bi_snr bi))) (\<lambda>snr.
          rbind (wr (bb_rxl bb) c (ucast (rx_level bi))) (\<lambda>rxl.
          rbind (wr (bb_fn bb) c (frame_nr bi)) (\<lambda>fn.
          rbind (wr (bb_arfcn bb) c (band_arfcn bi)) (\<lambda>arfcn.
          Inr (bb\<lparr>bb_snr := snr, bb_rxl := rxl, bb_fn := fn, bb_arfcn := arfcn, bb_count := bb_count bb + 1\<rparr>))))))))"

definition process_ccch :: "call_stack \<Rightarrow> interleave_maps \<Rightarrow> radio_message \<Rightarrow> nat \<Rightarrow> burst_chan \<Rightarrow> l1ctl_burst_ind \<Rightarrow> world \<Rightarrow> world res" where
  "process_ccch st maps mem i ch bi w =
     rbind (sess i w) (\<lambda>s.
     rbind (get_buf ch s) (\<lambda>bb.
     rbind (ccch_enqueue bi bb) (\<lambda>bb.
     rbind (upd i (put_buf ch bb) w) (\<lambda>w.
     if bb_count bb < 4 then Inr w
     else rbind (ccch_message mem s bi bb) (\<lambda>m.
          case malloc_msg m w of (a, w) \<Rightarrow>
          seqs [
            upd i (\<lambda>s. s\<lparr>s_new_msg := Some a\<rparr>),
            try_decode st maps i a,
            by_sess i (\<lambda>s w. rbind (get_buf ch s) (\<lambda>bb. upd i (put_buf ch (bb\<lparr>bb_count := 0\<rparr>)) w))] w)))))"

subsection \<open>Traffic channels\<close>

text \<open>
  \<open>process_tch\<close> collects the eight half bursts of a FACCH block.  What the stealing flags of a burst mean for the count and the
  errors of the buffer; \<open>None\<close> is the end of the function.
\<close>

definition tch_count :: "u8 \<Rightarrow> burst_buf \<Rightarrow> burst_buf \<times> bool" where
  "tch_count flags bb =
     (let more = bb\<lparr>bb_count := bb_count bb + 1\<rparr>;
          retry = (if bb_errors bb < 2 then (bb\<lparr>bb_count := bb_count bb + 1, bb_errors := bb_errors bb + 1\<rparr>, True)
                   else (bb\<lparr>bb_count := 0, bb_errors := 0\<rparr>, False))
      in if flags = 0x00 then (if nz (bb_count bb) then retry else (bb, False))
         else if flags = 0x20
         then (if bb_count bb = 0 then (bb\<lparr>bb_count := 1\<rparr>, True) else if bb_count bb < 4 then (more, True) else retry)
         else if flags = 0x10 then (if bb_count bb > 3 then (more, True) else retry)
         else (if bb_count bb > 3 then (more, True)
               else (bb\<lparr>bb_count := bb_count bb + 1, bb_errors := bb_errors bb + 1\<rparr>, True)))"

definition tch_enqueue :: "session_info \<Rightarrow> l1ctl_burst_ind \<Rightarrow> bool \<Rightarrow> burst_buf \<Rightarrow> burst_buf res" where
  "tch_enqueue s bi ul bb =
     (let c = unat (bb_count bb) in
      rbind (expand_msb (bi_bits bi) (drop (c * 114) (bb_data bb)) 114) (\<lambda>d.
      let data = take (c * 114) (bb_data bb) @ d in
      rbind (not_zero (s_key s) 8) (\<lambda>have_key.
      rbind (if have_key
             then rbind (cipher_stream 1 (s_key s) (frame_nr bi) ul) (\<lambda>ks.
                  rfold (\<lambda>i data. rbind (rd data (c * 114 + i)) (\<lambda>x. rbind (rd ks i) (\<lambda>k. wr data (c * 114 + i) (x XOR k)))) [0..<114] data)
             else Inr data) (\<lambda>data.
      rbind (rd (bi_bits bi) 14) (\<lambda>b14.
      rbind (wr (bb_sbit bb) (c * 2 + 0) (of_bool (nz (b14 AND 0x10)))) (\<lambda>sbit.
      rbind (wr sbit (c * 2 + 1) (of_bool (nz (b14 AND 0x20)))) (\<lambda>sbit.
      rbind (wr (bb_snr bb) c (ucast (bi_snr bi))) (\<lambda>snr.
      rbind (wr (bb_rxl bb) c (ucast (rx_level bi))) (\<lambda>rxl.
      Inr (bb\<lparr>bb_data := data, bb_sbit := sbit, bb_snr := snr, bb_rxl := rxl\<rparr>))))))))))"

text \<open>
  Shifting the buffer by \<open>k\<close> bursts.  The source uses \<open>memcpy\<close> where the two areas overlap (for one burst); the model
  has what \<open>memmove\<close> does.
\<close>

definition tch_shift :: "nat \<Rightarrow> burst_buf \<Rightarrow> burst_buf res" where
  "tch_shift k bb =
     rbind (rdn (bb_data bb) (k * 114) ((8 - k) * 114)) (\<lambda>d. rbind (wrn (bb_data bb) 0 d) (\<lambda>data.
     rbind (rdn (bb_sbit bb) (k * 2) ((8 - k) * 2)) (\<lambda>t. rbind (wrn (bb_sbit bb) 0 t) (\<lambda>sbit.
     Inr (bb\<lparr>bb_data := data, bb_sbit := sbit, bb_count := of_nat (8 - k), bb_errors := bb_errors bb div 2\<rparr>)))))"

definition tch_message :: "radio_message \<Rightarrow> session_info \<Rightarrow> l1ctl_burst_ind \<Rightarrow> burst_buf \<Rightarrow> u8 list \<Rightarrow> radio_message res" where
  "tch_message mem s bi bb msg =
     rbind (rdn msg 0 23) (\<lambda>d.
     rbind (wrn (rm_msg mem) 0 d) (\<lambda>d.
     Inr (mem\<lparr>rm_bb := bb, rm_chan_nr := bi_chan_nr bi,
              rm_flags := (MSG_FACCH OR MSG_DECODED) OR (if nz (s_have_key s) then MSG_CIPHERED else 0),
              rm_msg := d, rm_msg_len := 23\<rparr>)))"

definition process_tch ::
  "call_stack \<Rightarrow> interleave_maps \<Rightarrow> radio_message \<Rightarrow> nat \<Rightarrow> l1ctl_burst_ind \<Rightarrow> u8 list \<Rightarrow> world \<Rightarrow> (nat \<times> u8 list \<times> world) res" where
  "process_tch st maps mem i bi msg w =
     (let ul = nz (band_arfcn bi AND ARFCN_UPLINK);
          k = of_bool ul :: nat;
          put = (\<lambda>bb. upd i (\<lambda>s. s\<lparr>s_facch := (s_facch s)[k := bb]\<rparr>))
      in rbind (sess i w) (\<lambda>s.
         rbind (rd (s_facch s) k) (\<lambda>bb.
         rbind (tch_enqueue s bi ul bb) (\<lambda>bb.
         rbind (rd (bi_bits bi) 14) (\<lambda>b14.
         case tch_count (b14 AND 0x30) bb of (bb, go_on) \<Rightarrow>
         rbind (put bb w) (\<lambda>w.
         if \<not> go_on \<or> bb_count bb \<noteq> 8 then Inr (0, msg, w)
         else rbind (gsm_deinter_facch maps (bb_data bb) (replicate 456 0)) (\<lambda>conv_data.
              rbind (decode_signalling st conv_data msg) (\<lambda>(ret, msg).
              if ret = 0
              then rbind (tch_shift 1 bb) (\<lambda>bb. rbind (put bb w) (\<lambda>w. Inr (0, msg, w)))
              else rbind (tch_message mem s bi bb msg) (\<lambda>m.
                   case malloc_msg m w of (a, w) \<Rightarrow>
                   rbind (msg_fn m) (\<lambda>fn.
                   rbind (handle_lapdm i Facch (rm_msg m) 23 fn ul w) (\<lambda>w.
                   rbind (deref (Some a) w) (\<lambda>m.
                   rbind (emit (Net_send_msg m) w) (\<lambda>w.
                   rbind (sess i w) (\<lambda>s.
                   rbind (rd (s_facch s) k) (\<lambda>bb.
                   rbind (if b14 AND 0x30 = 0x30
                          then rbind (tch_shift 4 bb) (\<lambda>bb.
                               rbind (wrn (bb_data bb) (4 * 114) (replicate 456 0)) (\<lambda>d. Inr (bb\<lparr>bb_data := d\<rparr>)))
                          else Inr (bb\<lparr>bb_count := 0, bb_errors := 0, bb_data := replicate 912 0\<rparr>)) (\<lambda>bb.
                   rbind (put bb w) (\<lambda>w. Inr (23, msg, w))))))))))))))))))"

subsection \<open>The switch over the channel type\<close>

definition process_handle_burst :: "call_stack \<Rightarrow> interleave_maps \<Rightarrow> radio_message \<Rightarrow> nat \<Rightarrow> l1ctl_burst_ind \<Rightarrow> world \<Rightarrow> world res" where
  "process_handle_burst st maps mem i bi w =
     (let ul = of_bool (nz (band_arfcn bi AND ARFCN_UPLINK)) :: nat;
          sacch = nz (bi_flags bi AND BI_FLG_SACCH)
      in case fst (rsl_dec_chan_nr (bi_chan_nr bi)) of
           None \<Rightarrow> Inl Uninitialised
         | Some (type, subch) \<Rightarrow>
             if type = RSL_CHAN_Bm_ACCHs then (if sacch then process_ccch st maps mem i (Buf_saccht ul) bi w else Inr w)
             else if type = RSL_CHAN_BCCH \<or> type = RSL_CHAN_SDCCH4_ACCH \<or> type = RSL_CHAN_SDCCH8_ACCH
             then process_ccch st maps mem i (if sacch then Buf_sacch else Buf_sdcch) bi w
             else Inr w)"

section \<open>Deciphering\<close>

lemma cipher_stream_bits:
  assumes "length key = 8" and "cipher < 3"
  shows "\<exists>ks. cipher_stream cipher key fn ul = Inr ks \<and> is_bits ks \<and> length ks = 114"
proof -
  from osmo_a5_stream [OF assms, of fn "\<not> ul" ul] obtain d u where
    "osmo_a5 cipher key fn (\<not> ul) ul = Inr (Some (if \<not> ul then Some d else None, if ul then Some u else None))"
    "is_bits d" "length d = 114" "is_bits u" "length u = 114" by blast
  then show ?thesis by (cases ul) (simp_all add: cipher_stream_def)
qed

lemma rfold_blocks:
  assumes "length out = 4 * n" and "0 < n"
    and step: "\<And>j out. j < 4 \<Longrightarrow> length out = 4 * n \<Longrightarrow> f j out = rfold (\<lambda>i out. wr out (j * n + i) (h j i)) [0..<n] out"
  shows "rfold f [0..<4] out = Inr (map (\<lambda>k. h (k div n) (k mod n)) [0..<4 * n])"
proof -
  let ?P = "\<lambda>j o'. length o' = 4 * n \<and> (\<forall>k < j * n. o' ! k = h (k div n) (k mod n))"
  have "\<exists>o'. rfold f [0..<4] out = Inr o' \<and> ?P 4 o'"
  proof (rule rfold_upt_rule [where P = ?P])
    fix j o' assume j: "j < 4" "?P j o'"
    have b: "j * n + n \<le> 4 * n" using j(1) by (metis Suc_leI add.commute mult_Suc mult_le_mono1)
    let ?Q = "\<lambda>i o'. length o' = 4 * n \<and> (\<forall>k < j * n + i. o' ! k = h (k div n) (k mod n))"
    have "\<exists>o''. rfold (\<lambda>i out. wr out (j * n + i) (h j i)) [0..<n] o' = Inr o'' \<and> ?Q n o''"
    proof (rule rfold_upt_rule [where P = ?Q])
      fix i o'' assume i: "i < n" "?Q i o''"
      have d: "(j * n + i) div n = j" "(j * n + i) mod n = i" "j * n + i < length o''"
        using i b by (simp_all, linarith)
      then have "wr o'' (j * n + i) (h j i) = Inr (o''[j * n + i := h j i])" by (simp add: wr_def)
      moreover have "?Q (Suc i) (o''[j * n + i := h j i])" using i d by (simp add: nth_list_update less_Suc_eq)
      ultimately show "\<exists>s'. wr o'' (j * n + i) (h j i) = Inr s' \<and> ?Q (Suc i) s'" by blast
    qed (use j(2) in simp)
    then show "\<exists>s'. f j o' = Inr s' \<and> ?P (Suc j) s'" using step j by (simp add: add.commute)
  qed (use assms(1) in simp)
  then obtain o' where "rfold f [0..<4] out = Inr o'" "length o' = 4 * n" "\<forall>k < 4 * n. o' ! k = h (k div n) (k mod n)" by blast
  then show ?thesis by (metis (no_types, lifting) length_map length_upt minus_nat.diff_0 nth_equalityI nth_map_upt add_0)
qed

lemma decipher_bits:
  assumes "burst_buf_ok (rm_bb m)" and ks: "\<And>j. j < 4 \<Longrightarrow> burst_stream s m j = Inr (ks j) \<and> length (ks j) = 114"
  shows "decipher s m = Inr (map (\<lambda>k. soft_bit (bb_snr (rm_bb m) ! (k div 114)) (bb_data (rm_bb m) ! k XOR ks (k div 114) ! (k mod 114))) [0..<456])"
proof -
  have len: "length (bb_data (rm_bb m)) = 912" "length (bb_snr (rm_bb m)) = 8" using assms(1) by (simp_all add: burst_buf_ok_def)
  let ?h = "\<lambda>j i. soft_bit (bb_snr (rm_bb m) ! j) (bb_data (rm_bb m) ! (j * 114 + i) XOR ks j ! i)"
  have "rfold (\<lambda>i out. rbind (rd (bb_data (rm_bb m)) (j * 114 + i)) (\<lambda>d. rbind (rd (ks j) i) (\<lambda>k.
             wr out (j * 114 + i) (soft_bit (bb_snr (rm_bb m) ! j) (d XOR k))))) [0..<114] out
      = rfold (\<lambda>i out. wr out (j * 114 + i) (?h j i)) [0..<114] out" if "j < 4" for j and out :: "u8 list"
    by (rule rfold_cong) (use that len ks [OF that] in auto)
  then have "decipher s m = Inr (map (\<lambda>k. ?h (k div 114) (k mod 114)) [0..<4 * 114])"
    unfolding decipher_def by (intro rfold_blocks) (use ks len in simp_all)
  then show ?thesis by simp
qed

text \<open>A signal of some strength gives symbols of the right sign.\<close>

lemma soft_bit_ok:
  assumes "2 \<le> snr" "snr < 256"
  shows "soft_ok (soft_bit snr b) (nz b)"
proof -
  let ?a = "ucast (drop_bit 1 snr) :: u8"
  have "unat (drop_bit 1 snr) = unat snr div 2" by (simp add: drop_bit_eq_div unat_div)
  moreover have "2 \<le> unat snr" "unat snr < 256" using assms by (simp_all add: word_le_nat_alt word_less_nat_alt)
  ultimately have "unat ?a = unat snr div 2" "0 < unat snr div 2" "unat snr div 2 < 128" by (simp_all add: unsigned_ucast_eq take_bit_nat_eq_self_iff)
  then have "0 < uint ?a" "uint ?a < 128" unfolding uint_nat by linarith+
  then have p: "sint ?a = uint ?a" by (simp add: sint_uint signed_take_bit_int_eq_self)
  then have "sint (- ?a) = - uint ?a" using \<open>0 < uint ?a\<close> \<open>uint ?a < 128\<close> by (simp add: sint_word_ariths signed_take_bit_int_eq_self)
  with p \<open>0 < uint ?a\<close> have "0 < sint ?a" "sint (- ?a) < 0" by simp_all
  then show ?thesis by (simp add: soft_bit_def Let_def soft_ok_def)
qed

section \<open>Decoding what was sent\<close>

text \<open>
  The buffer holds the four bursts of a coded block: each bit is that of the block, with the cipher stream of the burst
  added to it.
\<close>

definition carries :: "session_info \<Rightarrow> radio_message \<Rightarrow> u8 list \<Rightarrow> bool" where
  "carries s m sent \<longleftrightarrow> (\<forall>j < 4. \<exists>ks. burst_stream s m j = Inr ks \<and> length ks = 114
     \<and> (\<forall>i < 114. bb_data (rm_bb m) ! (j * 114 + i) = sent ! (j * 114 + i) XOR ks ! i)
     \<and> 2 \<le> bb_snr (rm_bb m) ! j \<and> bb_snr (rm_bb m) ! j < 256)"

lemma decipher_carried:
  assumes "burst_buf_ok (rm_bb m)" and "carries s m sent" and "length sent = 456"
  shows "\<exists>symb. decipher s m = Inr symb \<and> soft_received sent symb"
proof -
  from assms(2) obtain ks where ks: "\<And>j. j < 4 \<Longrightarrow> burst_stream s m j = Inr (ks j) \<and> length (ks j) = 114"
      "\<And>j i. j < 4 \<Longrightarrow> i < 114 \<Longrightarrow> bb_data (rm_bb m) ! (j * 114 + i) = sent ! (j * 114 + i) XOR ks j ! i"
      "\<And>j. j < 4 \<Longrightarrow> 2 \<le> bb_snr (rm_bb m) ! j \<and> bb_snr (rm_bb m) ! j < 256"
    unfolding carries_def by metis
  let ?f = "\<lambda>k. soft_bit (bb_snr (rm_bb m) ! (k div 114)) (bb_data (rm_bb m) ! k XOR ks (k div 114) ! (k mod 114))"
  have "soft_ok (?f k) (nz (sent ! k))" if "k < 456" for k
  proof -
    have d: "k div 114 < 4" "k mod 114 < 114" "k div 114 * 114 + k mod 114 = k" using that by (simp_all add: less_mult_imp_div_less)
    with ks(2) [OF d(1,2)] have "bb_data (rm_bb m) ! k XOR ks (k div 114) ! (k mod 114) = sent ! k" by (simp add: xor.assoc)
    with soft_bit_ok ks(3) [OF d(1)] show ?thesis by simp
  qed
  then have "soft_received sent (map ?f [0..<456])" using assms(3) by (simp add: soft_received_def list_all2_conv_all_nth)
  with decipher_bits [OF assms(1) ks(1)] show ?thesis by blast
qed

lemma deinter_received:
  assumes "soft_received sent symb" and "length sent = 456"
  shows "\<exists>coded conv. gsm_deinter_sacch gsm_interleave_init sent (replicate 456 0) = Inr coded
    \<and> gsm_deinter_sacch gsm_interleave_init symb (replicate 456 0) = Inr conv \<and> soft_received coded conv"
proof -
  have "length symb = 456" using assms by (simp add: soft_received_def list_all2_lengthD)
  then show ?thesis
    using assms sacch.deinter_reads [of sent "replicate 456 0"] sacch.deinter_reads [of symb "replicate 456 0"] sacch.map_nth
    by (auto simp: gsm_deinter_sacch_def soft_received_def list_all2_conv_all_nth)
qed

text \<open>The message after decoding.\<close>

definition decoded :: "u8 list \<Rightarrow> radio_message \<Rightarrow> radio_message" where
  "decoded msg m = m\<lparr>rm_msg := msg @ drop 23 (rm_msg m), rm_flags := rm_flags m OR MSG_DECODED, rm_msg_len := 23, rm_rat := RAT_GSM\<rparr>"

text \<open>The symbols that reach the decoder.\<close>

lemma carried_symbols:
  assumes "radio_message_ok m" and "length msg = 23"
    and "encode_signalling gsm_interleave_init msg (replicate 456 0) = Inr sent" and "carries s m sent"
  shows "\<exists>symb coded conv. decipher s m = Inr symb \<and> gsm_deinter_sacch gsm_interleave_init sent (replicate 456 0) = Inr coded
    \<and> gsm_deinter_sacch gsm_interleave_init symb (replicate 456 0) = Inr conv \<and> soft_received coded conv \<and> length conv = 456"
proof -
  have ok: "burst_buf_ok (rm_bb m)" using assms(1) by (simp add: radio_message_ok_def)
  have sent: "length sent = 456" using encode_signalling_total [OF assms(2), of "replicate 456 0"] assms(3) by auto
  from decipher_carried [OF ok assms(4) sent] obtain symb where symb: "decipher s m = Inr symb" "soft_received sent symb" by blast
  from deinter_received [OF symb(2) sent] obtain coded conv where
    c: "gsm_deinter_sacch gsm_interleave_init sent (replicate 456 0) = Inr coded"
      "gsm_deinter_sacch gsm_interleave_init symb (replicate 456 0) = Inr conv" "soft_received coded conv" by blast
  moreover have "length coded = 456" using encode_signalling_total [OF assms(2), of "replicate 456 0"] assms(3) c(1) by auto
  ultimately show ?thesis using symb(1) by (auto simp: soft_received_def list_all2_lengthD)
qed

lemma try_decode_sent:
  assumes "sess i w = Inr s" and "deref (Some a) w = Inr m" and "radio_message_ok m"
    and "length msg = 23" and "encode_signalling gsm_interleave_init msg (replicate 456 0) = Inr sent" and "carries s m sent"
    and "nz (rm_flags m AND MSG_SACCH) = sacch" and "0 < st_history st"
  shows "try_decode st gsm_interleave_init i a w =
    handle_lapdm i (if sacch then Sacch else Sdcch) (if sacch then drop 2 (msg @ drop 23 (rm_msg m)) else msg @ drop 23 (rm_msg m))
      (if sacch then 21 else 23) (bb_fn (rm_bb m) ! 0) (nz (bb_arfcn (rm_bb m) ! 0 AND ARFCN_UPLINK))
      (w\<lparr>w_msgs := (w_msgs w)[a := Some (decoded msg m)]\<rparr>)"
proof -
  have ok: "length (rm_msg m) = 256" using assms(3) by (simp add: radio_message_ok_def)
  from carried_symbols [OF assms(3-6)] obtain symb coded conv where
    c: "decipher s m = Inr symb" "gsm_deinter_sacch gsm_interleave_init sent (replicate 456 0) = Inr coded"
      "gsm_deinter_sacch gsm_interleave_init symb (replicate 456 0) = Inr conv" "soft_received coded conv" by blast
  have d: "decode_signalling st conv (rm_msg m) = Inr (23, msg @ drop 23 (rm_msg m))"
    by (rule decode_received [OF assms(4) _ _ assms(5) c(2,4) assms(8)]) (use ok in simp_all)
  have "(rm_flags m OR MSG_DECODED) AND MSG_SACCH = rm_flags m AND MSG_SACCH"
    by (simp add: bit.conj_disj_distrib2 radio_consts)
  moreover have "rd (bb_fn (rm_bb m)) 0 = Inr (bb_fn (rm_bb m) ! 0)" using msg_fn_ok [OF assms(3)] by (simp add: msg_fn_def)
  ultimately show ?thesis
    unfolding try_decode_def assms(1,2) rbind_Inr msg_uplink_ok [OF assms(3)] c(1,3) d
    using assms(7) by (auto simp: upd_msg_def assms(2) on_cond_def msg_fn_def decoded_def Let_def rbind_seqs_Nil)
qed

lemma try_decode_overrun:
  assumes "sess i w = Inr s" and "deref (Some a) w = Inr m" and "radio_message_ok m"
    and "length msg = 23" and "encode_signalling gsm_interleave_init msg (replicate 456 0) = Inr sent" and "carries s m sent"
    and "st_history st = 0"
  shows "try_decode st gsm_interleave_init i a w \<noteq> Inr w'"
proof -
  from carried_symbols [OF assms(3-6)] obtain symb conv where
    c: "decipher s m = Inr symb" "gsm_deinter_sacch gsm_interleave_init symb (replicate 456 0) = Inr conv" "length conv = 456" by blast
  have "decode_signalling st conv (rm_msg m) \<noteq> Inr r" for r
    by (rule decode_signalling_overrun) (use c(3) assms(7) in simp_all)
  then obtain e where "decode_signalling st conv (rm_msg m) = Inl e" by (meson sum.exhaust)
  then show ?thesis
    unfolding try_decode_def assms(1,2) rbind_Inr msg_uplink_ok [OF assms(3)] c(1,2) by simp
qed

section \<open>Collecting the bursts\<close>

definition burst_bits :: "l1ctl_burst_ind \<Rightarrow> u8 list" where
  "burst_bits bi = map (\<lambda>i. of_bool (bit (bi_bits bi ! (i div 8)) (7 - i mod 8))) [0..<114]"

lemma length_burst_bits [simp]: "length (burst_bits bi) = 114"
  by (simp add: burst_bits_def)

text \<open>The first \<open>n\<close> bursts are in the buffer.\<close>

definition collected :: "l1ctl_burst_ind list \<Rightarrow> nat \<Rightarrow> burst_buf \<Rightarrow> bool" where
  "collected bis n bb \<longleftrightarrow> burst_buf_ok bb \<and> bb_count bb = of_nat n
     \<and> (\<forall>j < n. bb_snr bb ! j = ucast (bi_snr (bis ! j)) \<and> bb_fn bb ! j = frame_nr (bis ! j) \<and> bb_arfcn bb ! j = band_arfcn (bis ! j)
          \<and> (\<forall>k < 114. bb_data bb ! (j * 114 + k) = burst_bits (bis ! j) ! k))"

definition in_order :: "l1ctl_burst_ind list \<Rightarrow> bool" where
  "in_order bis \<longleftrightarrow> length bis = 4 \<and> (\<forall>bi \<in> set bis. 0x20 \<le> bi_chan_nr bi \<and> length (bi_bits bi) = 15)
     \<and> (\<forall>j < 3. frame_nr (bis ! Suc j) = (frame_nr (bis ! j) + 1) mod (2048 * 26 * 51))"

lemma enqueue_collected:
  assumes "collected bis n bb" and "in_order bis" and "n < 4"
  shows "\<exists>bb'. ccch_enqueue (bis ! n) bb = Inr bb' \<and> collected bis (Suc n) bb'"
proof -
  let ?bi = "bis ! n"
  let ?data = "take (n * 114) (bb_data bb) @ burst_bits ?bi @ drop 114 (drop (n * 114) (bb_data bb))"
  note k = assms(1) [unfolded collected_def burst_buf_ok_def]
  have bi: "length (bi_bits ?bi) = 15" "0x20 \<le> bi_chan_nr ?bi" using assms(2,3) by (simp_all add: in_order_def)
  have c: "unat (bb_count bb) = n" "bb_count bb \<le> 3" using k assms(3) by (simp_all add: unat_of_nat word_le_nat_alt)
  have e: "expand_msb (bi_bits ?bi) (drop (n * 114) (bb_data bb)) 114 = Inr (burst_bits ?bi @ drop 114 (drop (n * 114) (bb_data bb)))"
    using k assms(3) bi(1) by (simp add: expand_msb_bits burst_bits_def)
  have f: "rd (bb_fn bb) (n - 1) = Inr (frame_nr (bis ! (n - 1)))" "frame_nr ?bi = (frame_nr (bis ! (n - 1)) + 1) mod (2048 * 26 * 51)" if "n \<noteq> 0"
    using that k assms(2,3) by (cases n; simp add: in_order_def)+
  let ?bb = "bb\<lparr>bb_data := ?data, bb_snr := (bb_snr bb)[n := ucast (bi_snr ?bi)], bb_rxl := (bb_rxl bb)[n := ucast (rx_level ?bi)],
      bb_fn := (bb_fn bb)[n := frame_nr ?bi], bb_arfcn := (bb_arfcn bb)[n := band_arfcn ?bi], bb_count := bb_count bb + 1\<rparr>"
  have "ccch_enqueue ?bi bb = Inr ?bb"
    unfolding ccch_enqueue_def c(1) Let_def e
    using c(2) f k assms(3) by (cases "n = 0") (simp_all add: rassert_def)
  moreover have "?data ! (j * 114 + i) = (if j = n then burst_bits ?bi ! i else bb_data bb ! (j * 114 + i))" if "j < Suc n" "i < 114" for j i
  proof (cases "j = n")
    case True
    then show ?thesis using that k assms(3) by (simp add: nth_append)
  next
    case False
    with that have "j * 114 + i < n * 114" by linarith
    with False k assms(3) show ?thesis by (simp add: nth_append)
  qed
  then have "collected bis (Suc n) ?bb"
    using k assms(3) by (auto simp: collected_def burst_buf_ok_def nth_list_update less_Suc_eq add.commute)
  ultimately show ?thesis by blast
qed

lemma put_get:
  assumes "get_buf ch s = Inr bb"
  shows "get_buf ch (put_buf ch b s) = Inr b" "put_buf ch c (put_buf ch b s) = put_buf ch c s"
    "s_cipher (put_buf ch b s) = s_cipher s" "s_key (put_buf ch b s) = s_key s"
  using assms by (cases ch; simp add: rd_def split: if_splits)+

lemma rfold_take_Suc:
  assumes "n < length xs"
  shows "rfold f (take (Suc n) xs) w = rbind (rfold f (take n xs) w) (f (xs ! n))"
proof -
  have "rfold f [x] v = f x v" for x v by (cases "f x v") simp_all
  then show ?thesis using assms by (cases "rfold f (take n xs) w") (simp_all add: take_Suc_conv_app_nth rfold_append)
qed

text \<open>Less than four bursts only change the buffer of the session.\<close>

lemma collect_bursts:
  assumes "sess i w = Inr s" and "get_buf ch s = Inr bb" and "collected bis 0 bb" and "in_order bis" and "n < 4"
  shows "\<exists>bb'. rfold (process_ccch st maps mem i ch) (take n bis) w = Inr (w\<lparr>w_sess := (w_sess w)[i := put_buf ch bb' s]\<rparr>)
    \<and> collected bis n bb'"
  using assms(5)
proof (induction n)
  case 0
  have "put_buf ch bb s = s" using assms(2) by (cases ch) (auto simp: rd_def split: if_splits)
  moreover have "(w_sess w)[i := s] = w_sess w" using assms(1) by (auto simp: sess_def rd_def split: if_splits)
  ultimately show ?case using assms(3) by (intro exI [of _ bb]) simp
next
  case (Suc n)
  then obtain b where b: "rfold (process_ccch st maps mem i ch) (take n bis) w = Inr (w\<lparr>w_sess := (w_sess w)[i := put_buf ch b s]\<rparr>)"
    "collected bis n b" by auto
  from enqueue_collected [OF b(2) assms(4)] Suc.prems obtain b' where
    b': "ccch_enqueue (bis ! n) b = Inr b'" "collected bis (Suc n) b'" by auto
  have "unat (of_nat (Suc n) :: u32) = Suc n" using Suc.prems by (simp add: unat_of_nat del: of_nat_Suc)
  then have "bb_count b' < 4" using b'(2) Suc.prems by (simp add: collected_def word_less_nat_alt del: of_nat_Suc)
  moreover have "i < length (w_sess w)" using assms(1) by (simp add: sess_def rd_def split: if_splits)
  ultimately have "process_ccch st maps mem i ch (bis ! n) (w\<lparr>w_sess := (w_sess w)[i := put_buf ch b s]\<rparr>)
      = Inr (w\<lparr>w_sess := (w_sess w)[i := put_buf ch b' s]\<rparr>)"
    using b'(1) put_get [OF assms(2)] by (simp add: process_ccch_def sess_def upd_def)
  moreover have "n < length bis" using Suc.prems assms(4) by (simp add: in_order_def)
  ultimately show ?case using b(1) b'(2) by (intro exI [of _ b']) (simp add: rfold_take_Suc)
qed

text \<open>Four bursts as they are on the air: the bits of a coded block with the cipher stream of the session added.\<close>

definition on_air :: "session_info \<Rightarrow> u8 list \<Rightarrow> l1ctl_burst_ind list \<Rightarrow> bool" where
  "on_air s sent bis \<longleftrightarrow> in_order bis \<and> (\<forall>j < 4. 2 \<le> bi_snr (bis ! j)
     \<and> (\<exists>ks. (if nz (s_cipher s)
              then cipher_stream (s_cipher s) (s_key s) (frame_nr (bis ! j)) (nz (band_arfcn (bis ! 0) AND ARFCN_UPLINK)) = Inr ks
              else ks = replicate 114 0)
        \<and> length ks = 114 \<and> (\<forall>k < 114. burst_bits (bis ! j) ! k = sent ! (j * 114 + k) XOR ks ! k)))"

lemma carries_on_air:
  assumes "on_air s sent bis" and "collected bis 4 (rm_bb m)" and "nz (rm_flags m AND MSG_CIPHERED) = nz (s_cipher s)"
    and "s_cipher s' = s_cipher s" "s_key s' = s_key s"
  shows "carries s' m sent"
  unfolding carries_def
proof (intro allI impI)
  fix j :: nat assume j: "j < 4"
  note c = assms(2) [unfolded collected_def burst_buf_ok_def]
  from assms(1) j obtain ks where
    ks: "if nz (s_cipher s) then cipher_stream (s_cipher s) (s_key s) (frame_nr (bis ! j)) (nz (band_arfcn (bis ! 0) AND ARFCN_UPLINK)) = Inr ks
         else ks = replicate 114 0" "length ks = 114" "\<forall>k < 114. burst_bits (bis ! j) ! k = sent ! (j * 114 + k) XOR ks ! k"
      "2 \<le> bi_snr (bis ! j)" unfolding on_air_def by blast
  have up: "msg_uplink m = Inr (nz (band_arfcn (bis ! 0) AND ARFCN_UPLINK))" using c by (simp add: msg_uplink_def)
  have "burst_stream s' m j = Inr ks"
    using ks(1) c j by (auto simp: burst_stream_def assms(3-5) up split: if_splits)
  moreover have "2 \<le> (ucast (bi_snr (bis ! j)) :: u32)" "(ucast (bi_snr (bis ! j)) :: u32) < 256"
    using ks(4) unsigned_less [of "bi_snr (bis ! j)", where ?'a = nat]
    by (simp_all add: word_le_nat_alt word_less_nat_alt unsigned_ucast_eq take_bit_nat_eq_self)
  ultimately show "\<exists>ks. burst_stream s' m j = Inr ks \<and> length ks = 114
     \<and> (\<forall>i < 114. bb_data (rm_bb m) ! (j * 114 + i) = sent ! (j * 114 + i) XOR ks ! i)
     \<and> 2 \<le> bb_snr (rm_bb m) ! j \<and> bb_snr (rm_bb m) ! j < 256"
    using ks(2,3) c j by auto
qed

section \<open>Properties\<close>

text \<open>The end of \<open>process_ccch\<close>: the buffer is emptied.\<close>

definition reset_buf :: "nat \<Rightarrow> burst_chan \<Rightarrow> world \<Rightarrow> world res" where
  "reset_buf i ch = by_sess i (\<lambda>s w. rbind (get_buf ch s) (\<lambda>bb. upd i (put_buf ch (bb\<lparr>bb_count := 0\<rparr>)) w))"

lemma flags_simps:
  "((if b then MSG_SACCH else MSG_SDCCH) OR (if c then MSG_CIPHERED else 0)) AND MSG_CIPHERED \<noteq> 0 \<longleftrightarrow> c"
  "((if b then MSG_SACCH else MSG_SDCCH) OR (if c then MSG_CIPHERED else 0)) AND MSG_SACCH \<noteq> 0 \<longleftrightarrow> b"
  by (cases b; cases c; simp add: radio_consts)+

text \<open>The message that is allocated with the fourth burst, and what is done with it.\<close>

lemma four_bursts:
  assumes "sess i w = Inr s" and "get_buf ch s = Inr bb" and "burst_buf_ok bb" "bb_count bb = 0" and "in_order bis"
    and "sacch = nz (bi_flags (bis ! 3) AND BI_FLG_SACCH)"
  shows "\<exists>b m. collected bis 4 b
    \<and> m = mem\<lparr>rm_chan_nr := bi_chan_nr (bis ! 3),
        rm_flags := (if sacch then MSG_SACCH else MSG_SDCCH) OR (if nz (s_cipher s) then MSG_CIPHERED else 0), rm_bb := b, rm_info := []\<rparr>
    \<and> rfold (process_ccch st maps mem i ch) bis w = rbind (try_decode st maps i (length (w_msgs w))
        (w\<lparr>w_msgs := w_msgs w @ [Some m], w_sess := (w_sess w)[i := (put_buf ch b s)\<lparr>s_new_msg := Some (length (w_msgs w))\<rparr>]\<rparr>)) (reset_buf i ch)"
proof -
  have four: "length bis = 4" "0x20 \<le> bi_chan_nr (bis ! 3)" using assms(5) by (simp_all add: in_order_def)
  have "collected bis 0 bb" using assms(3,4) by (simp add: collected_def)
  from collect_bursts [OF assms(1,2) this assms(5), of 3 st maps mem] obtain b3 where
    b3: "rfold (process_ccch st maps mem i ch) (take 3 bis) w = Inr (w\<lparr>w_sess := (w_sess w)[i := put_buf ch b3 s]\<rparr>)"
      "collected bis 3 b3" by auto
  from enqueue_collected [OF b3(2) assms(5)] obtain b where b: "ccch_enqueue (bis ! 3) b3 = Inr b" "collected bis 4 b" by auto
  have i: "i < length (w_sess w)" using assms(1) by (simp add: sess_def rd_def split: if_splits)
  define m where "m = mem\<lparr>rm_chan_nr := bi_chan_nr (bis ! 3),
      rm_flags := (if sacch then MSG_SACCH else MSG_SDCCH) OR (if nz (s_cipher s) then MSG_CIPHERED else 0), rm_bb := b, rm_info := []\<rparr>"
  have bb: "bb_count b = 4" using b(2) by (simp add: collected_def)
  have cm: "ccch_message mem (put_buf ch b3 s) (bis ! 3) b = Inr m"
    using four(2) put_get [OF assms(2), of b3] assms(6) by (simp add: ccch_message_def not_less [symmetric] m_def)
  have p: "rfold (process_ccch st maps mem i ch) bis w
      = process_ccch st maps mem i ch (bis ! 3) (w\<lparr>w_sess := (w_sess w)[i := put_buf ch b3 s]\<rparr>)"
    using rfold_take_Suc [of 3 bis "process_ccch st maps mem i ch" w] four(1) b3(1) by simp
  have "rfold (process_ccch st maps mem i ch) bis w = rbind (try_decode st maps i (length (w_msgs w))
        (w\<lparr>w_msgs := w_msgs w @ [Some m], w_sess := (w_sess w)[i := (put_buf ch b s)\<lparr>s_new_msg := Some (length (w_msgs w))\<rparr>]\<rparr>)) (reset_buf i ch)"
    unfolding p using i b(1) bb put_get [OF assms(2)] cm
    by (simp add: process_ccch_def sess_def upd_def malloc_msg_def reset_buf_def seqs_single del: seqs.simps(2)) (simp add: upd_def sess_def seqs_single)
  with b(2) m_def show ?thesis by blast
qed

text \<open>C10. From bursts to a layer 2 frame.  A message of 23 octets is coded, protected, interleaved over four bursts and
  ciphered with the cipher and the key of the session (none, A5/1 or A5/2), and received as four bursts in order with some signal
  strength on a dedicated channel.  If at least one int on the stack behind the decoder's \<open>state_history\<close> may be written, it is
  recovered: \<open>process_ccch\<close> collects the bursts, and with the fourth one it allocates a message with exactly these octets and passes
  them on to LAPDm, with the frame number and the direction of the first burst; then it empties the buffer.  With the array as it is
  declared and nothing behind it, the fourth burst ends in a fault.\<close>

theorem burst_roundtrip:
  assumes "sess i w = Inr s" and "get_buf ch s = Inr bb" and "burst_buf_ok bb" "bb_count bb = 0" and "radio_message_ok mem"
    and "length msg = 23" and "encode_signalling gsm_interleave_init msg (replicate 456 0) = Inr sent" and "on_air s sent bis"
    and "sacch = nz (bi_flags (bis ! 3) AND BI_FLG_SACCH)"
  shows "(0 < st_history st \<longrightarrow> (\<exists>w4 s4 m. rfold (process_ccch st gsm_interleave_init mem i ch) bis w =
      rbind (handle_lapdm i (if sacch then Sacch else Sdcch) (if sacch then drop 2 (rm_msg m) else rm_msg m) (if sacch then 21 else 23)
               (frame_nr (bis ! 0)) (nz (band_arfcn (bis ! 0) AND ARFCN_UPLINK)) w4) (reset_buf i ch)
    \<and> w_msgs w4 = w_msgs w @ [Some m] \<and> rm_msg m = msg @ drop 23 (rm_msg mem) \<and> rm_msg_len m = 23 \<and> rm_rat m = RAT_GSM
    \<and> sess i w4 = Inr s4 \<and> s_new_msg s4 = Some (length (w_msgs w))))
    \<and> (st_history st = 0 \<longrightarrow> (\<nexists>w'. rfold (process_ccch st gsm_interleave_init mem i ch) bis w = Inr w'))"
proof -
  have ord: "in_order bis" using assms(8) by (simp add: on_air_def)
  from four_bursts [OF assms(1-4) ord assms(9)] obtain b m where b: "collected bis 4 b"
    and m: "m = mem\<lparr>rm_chan_nr := bi_chan_nr (bis ! 3),
        rm_flags := (if sacch then MSG_SACCH else MSG_SDCCH) OR (if nz (s_cipher s) then MSG_CIPHERED else 0), rm_bb := b, rm_info := []\<rparr>"
    and run: "rfold (process_ccch st gsm_interleave_init mem i ch) bis w = rbind (try_decode st gsm_interleave_init i (length (w_msgs w))
        (w\<lparr>w_msgs := w_msgs w @ [Some m], w_sess := (w_sess w)[i := (put_buf ch b s)\<lparr>s_new_msg := Some (length (w_msgs w))\<rparr>]\<rparr>)) (reset_buf i ch)"
    by blast
  let ?a = "length (w_msgs w)" and ?s = "(put_buf ch b s)\<lparr>s_new_msg := Some (length (w_msgs w))\<rparr>"
  let ?w = "w\<lparr>w_msgs := w_msgs w @ [Some m], w_sess := (w_sess w)[i := ?s]\<rparr>"
  have i: "i < length (w_sess w)" using assms(1) by (simp add: sess_def rd_def split: if_splits)
  have bb: "burst_buf_ok b" "bb_fn b ! 0 = frame_nr (bis ! 0)" "bb_arfcn b ! 0 = band_arfcn (bis ! 0)"
    using b by (simp_all add: collected_def)
  have mok: "radio_message_ok m" using assms(5) bb(1) by (simp add: radio_message_ok_def m)
  have car: "carries ?s m sent"
    by (rule carries_on_air [OF assms(8)]) (use b put_get [OF assms(2), of b] flags_simps in \<open>simp_all add: m\<close>)
  have sw: "sess i ?w = Inr ?s" using i by (simp add: sess_def)
  have dw: "deref (Some ?a) ?w = Inr m" by (simp add: deref_def)
  show ?thesis
  proof (intro conjI impI)
    assume st: "0 < st_history st"
    let ?w4 = "?w\<lparr>w_msgs := (w_msgs ?w)[?a := Some (decoded msg m)]\<rparr>"
    have "rfold (process_ccch st gsm_interleave_init mem i ch) bis w =
      rbind (handle_lapdm i (if sacch then Sacch else Sdcch) (if sacch then drop 2 (rm_msg (decoded msg m)) else rm_msg (decoded msg m)) (if sacch then 21 else 23)
               (frame_nr (bis ! 0)) (nz (band_arfcn (bis ! 0) AND ARFCN_UPLINK)) ?w4) (reset_buf i ch)"
      unfolding run using try_decode_sent [OF sw dw mok assms(6,7) car _ st, of sacch] flags_simps(2) bb(2,3) by (simp add: decoded_def m)
    moreover have "w_msgs ?w4 = w_msgs w @ [Some (decoded msg m)]" "sess i ?w4 = Inr ?s" using i by (simp_all add: sess_def)
    ultimately show "\<exists>w4 s4 m. rfold (process_ccch st gsm_interleave_init mem i ch) bis w =
      rbind (handle_lapdm i (if sacch then Sacch else Sdcch) (if sacch then drop 2 (rm_msg m) else rm_msg m) (if sacch then 21 else 23)
               (frame_nr (bis ! 0)) (nz (band_arfcn (bis ! 0) AND ARFCN_UPLINK)) w4) (reset_buf i ch)
    \<and> w_msgs w4 = w_msgs w @ [Some m] \<and> rm_msg m = msg @ drop 23 (rm_msg mem) \<and> rm_msg_len m = 23 \<and> rm_rat m = RAT_GSM
    \<and> sess i w4 = Inr s4 \<and> s_new_msg s4 = Some (length (w_msgs w))"
      by (intro exI [of _ ?w4] exI [of _ ?s] exI [of _ "decoded msg m"]) (simp add: decoded_def m)
  qed (use run try_decode_overrun [OF sw dw mok assms(6,7) car] in \<open>auto simp: rbind_eq_Inr\<close>)
qed

text \<open>Every message can be sent in this way.\<close>

lemma sacch_map_onto: "k < 456 \<Longrightarrow> \<exists>j < 456. sacch_map gsm_interleave_init ! j = k"
proof -
  let ?m = "sacch_map gsm_interleave_init"
  have "set ?m \<subseteq> {..<456}" using sacch.map_in_block by auto
  moreover have "card (set ?m) = 456" using sacch.distinct_map sacch.length_map by (simp add: distinct_card)
  ultimately have "set ?m = {..<456}" by (intro card_subset_eq) simp_all
  then show "k < 456 \<Longrightarrow> \<exists>j < 456. ?m ! j = k" using sacch.length_map by (metis in_set_conv_nth lessThan_iff)
qed

lemma encode_signalling_bits:
  assumes "length msg = 23"
  shows "\<exists>sent. encode_signalling gsm_interleave_init msg (replicate 456 0) = Inr sent \<and> length sent = 456 \<and> is_bits sent"
proof -
  from encode_signalling_total [OF assms, of "replicate 456 0"] obtain coded sent where
    c: "conv_cch_encode (block_bits msg @ block_parity msg @ replicate 4 0) (replicate 456 0) 228 = Inr coded" "length coded = 456"
      "encode_signalling gsm_interleave_init msg (replicate 456 0) = Inr sent" "length sent = 456"
      "gsm_deinter_sacch gsm_interleave_init sent (replicate 456 0) = Inr coded" by auto
  let ?u = "block_bits msg @ block_parity msg @ replicate 4 0"
  have "unat (?u ! i) < 2" if "i < 228" for i
    using is_bits_nth [of ?u i] is_bits_block [of msg] that by auto
  from conv_cch_encode_spec [of 228 ?u "replicate 456 0", OF _ _ this] c(1) have
    sym: "\<forall>i < 228. \<exists>p q. coded ! (2 * i) = of_bool p \<and> coded ! (2 * i + 1) = of_bool q" by auto
  have bits: "coded ! k = 0 \<or> coded ! k = 1" if "k < 456" for k
  proof -
    have "k = 2 * (k div 2) \<or> k = 2 * (k div 2) + 1" "k div 2 < 228" using that by presburger+
    then obtain p where "coded ! k = of_bool p" using sym by metis
    then show ?thesis by (cases p) simp_all
  qed
  have "coded = map (\<lambda>k. sent ! (sacch_map gsm_interleave_init ! k)) [0..<456]"
    using c(5) sacch.deinter_reads [of sent "replicate 456 0"] c(4) by (simp add: gsm_deinter_sacch_def)
  then have d: "coded ! k = sent ! (sacch_map gsm_interleave_init ! k)" if "k < 456" for k using that by simp
  have "x = 0 \<or> x = 1" if x: "x \<in> set sent" for x
  proof -
    from x c(4) obtain n where "n < 456" "x = sent ! n" by (metis in_set_conv_nth)
    moreover from sacch_map_onto [OF this(1)] obtain k where "k < 456" "sacch_map gsm_interleave_init ! k = n" by blast
    ultimately show ?thesis using bits [of k] d [of k] by simp
  qed
  then have "is_bits sent" by (auto simp: is_bits_def list_all_iff)
  with c(3,4) show ?thesis by blast
qed

lemma burst_of_bits:
  assumes "is_bits x" "length x = 114"
  shows "\<exists>bs. length bs = 15 \<and> burst_bits (bi\<lparr>bi_bits := bs\<rparr>) = x"
proof -
  have "114 \<le> length x" "114 \<le> 8 * length (replicate 15 (0 :: u8))" using assms(2) by simp_all
  from msb.pack [OF this] obtain bs :: "u8 list" where len: "length bs = 15"
    and b: "\<forall>j < 15. \<forall>k < 8. bit (bs ! j) (7 - k) = (if 8 * j + k < 114 then nz (x ! (8 * j + k)) else bit (replicate 15 (0 :: u8) ! j) (7 - k))"
    unfolding length_replicate by blast
  have bs: "bit (bs ! j) (7 - k) = nz (x ! (8 * j + k))" if "j < 15" "k < 8" "8 * j + k < 114" for j k
    using b [rule_format, OF that(1,2)] that(3) by simp
  have "of_bool (bit (bs ! (i div 8)) (7 - i mod 8)) = x ! i" if "i < 114" for i
  proof -
    have "bit (bs ! (i div 8)) (7 - i mod 8) = nz (x ! (8 * (i div 8) + i mod 8))" by (rule bs) (use that in simp_all)
    with is_bits_nth [OF assms(1), of i] assms(2) that show ?thesis by auto
  qed
  then have "burst_bits (bi\<lparr>bi_bits := bs\<rparr>) = x" using assms(2) by (intro nth_equalityI) (simp_all add: burst_bits_def)
  with len show ?thesis by blast
qed

lemma is_bits_xor:
  assumes "is_bits xs" "is_bits ys"
  shows "is_bits (map2 (XOR) xs ys)"
proof -
  have "x XOR y = 0 \<or> x XOR y = 1" if "(x, y) \<in> set (zip xs ys)" for x y
    using assms set_zip_leftD [OF that] set_zip_rightD [OF that] by (fastforce simp: is_bits_def list_all_iff)
  then show ?thesis by (auto simp: is_bits_def list_all_iff)
qed

lemma on_air_exists:
  assumes "length sent = 456" "is_bits sent" and "length (s_key s) = 8" "s_cipher s < 3"
  shows "\<exists>bis. on_air s sent bis \<and> (\<forall>bi \<in> set bis. bi_flags bi = 0)"
proof -
  let ?b = "\<lambda>j. \<lparr>frame_nr = of_nat j, band_arfcn = 0, bi_chan_nr = 0x20, bi_flags = 0, rx_level = 63, bi_snr = 20, bi_bits = []\<rparr>"
  have "\<exists>ks. (if nz (s_cipher s) then cipher_stream (s_cipher s) (s_key s) (of_nat j) False = Inr ks else ks = replicate 114 0)
      \<and> is_bits ks \<and> length ks = 114" for j
    using cipher_stream_bits [OF assms(3,4), of "of_nat j" False] by (cases "nz (s_cipher s)") (auto simp: is_bits_def list_all_iff)
  then obtain ks where ks: "\<And>j. if nz (s_cipher s) then cipher_stream (s_cipher s) (s_key s) (of_nat j) False = Inr (ks j) else ks j = replicate 114 0"
    "\<And>j. is_bits (ks j) \<and> length (ks j) = 114" by metis
  define x where "x j = map2 (XOR) (take 114 (drop (j * 114) sent)) (ks j)" for j :: nat
  have x: "is_bits (x j)" "length (x j) = 114" "\<forall>k < 114. x j ! k = sent ! (j * 114 + k) XOR ks j ! k" if "j < 4" for j
    using that assms(1,2) ks(2) [of j] by (simp_all add: x_def is_bits_xor)
  then have "\<exists>bs. length bs = 15 \<and> burst_bits ((?b j)\<lparr>bi_bits := bs\<rparr>) = x j" if "j < 4" for j
    using burst_of_bits that by blast
  then obtain bs where bs: "\<And>j. j < 4 \<Longrightarrow> length (bs j) = 15 \<and> burst_bits ((?b j)\<lparr>bi_bits := bs j\<rparr>) = x j" by metis
  let ?bis = "map (\<lambda>j. (?b j)\<lparr>bi_bits := bs j\<rparr>) [0..<4]"
  have nth: "?bis ! j = (?b j)\<lparr>bi_bits := bs j\<rparr>" if "j < 4" for j using that by (subst nth_map) simp_all
  have "in_order ?bis"
    unfolding in_order_def
  proof (intro conjI ballI allI impI)
    show "frame_nr (?bis ! Suc j) = (frame_nr (?bis ! j) + 1) mod (2048 * 26 * 51)" if "j < 3" for j
    proof -
      have "j = 0 \<or> j = 1 \<or> j = 2" using that by auto
      with nth [of j] nth [of "Suc j"] show ?thesis by auto
    qed
  qed (use bs in auto)
  moreover have "burst_bits (?bis ! j) ! k = sent ! (j * 114 + k) XOR ks j ! k" if "j < 4" "k < 114" for j k
    using that bs [of j] x(3) [of j] nth [of j] by simp
  ultimately have "on_air s sent ?bis"
    unfolding on_air_def using ks nth by (auto intro!: exI [of _ "ks _"])
  moreover have "\<forall>bi \<in> set ?bis. bi_flags bi = 0" by simp
  ultimately show ?thesis by blast
qed

theorem burst_roundtrip_witness:
  "let s = zero_session\<lparr>s_cipher := 1, s_key := [1, 2, 3, 4, 5, 6, 7, 8]\<rparr>; w = zero_world\<lparr>w_sess := [s]\<rparr>; msg = replicate 23 0x2b in
   \<exists>sent bis w4 s4 m. encode_signalling gsm_interleave_init msg (replicate 456 0) = Inr sent \<and> on_air s sent bis
    \<and> (\<nexists>w'. rfold (process_ccch \<lparr>st_history = 0, st_syndrome = 0\<rparr> gsm_interleave_init zero_radio_message 0 Buf_sdcch) bis w = Inr w')
    \<and> rfold (process_ccch \<lparr>st_history = 1, st_syndrome = 0\<rparr> gsm_interleave_init zero_radio_message 0 Buf_sdcch) bis w =
        rbind (handle_lapdm 0 Sdcch (rm_msg m) 23 (frame_nr (bis ! 0)) (nz (band_arfcn (bis ! 0) AND ARFCN_UPLINK)) w4) (reset_buf 0 Buf_sdcch)
    \<and> w_msgs w4 = [Some m] \<and> rm_msg m = msg @ replicate 233 0 \<and> sess 0 w4 = Inr s4 \<and> s_new_msg s4 = Some 0"
proof -
  let ?s = "zero_session\<lparr>s_cipher := 1, s_key := [1, 2, 3, 4, 5, 6, 7, 8]\<rparr>" and ?msg = "replicate 23 0x2b :: u8 list"
  let ?w = "zero_world\<lparr>w_sess := [?s]\<rparr>"
  have len: "length ?msg = 23" by simp
  from encode_signalling_bits [OF len] obtain sent where
    sent: "encode_signalling gsm_interleave_init ?msg (replicate 456 0) = Inr sent" "length sent = 456" "is_bits sent" by blast
  from on_air_exists [OF sent(2,3), of ?s] obtain bis where bis: "on_air ?s sent bis" "\<forall>bi \<in> set bis. bi_flags bi = 0"
    by (auto simp: zero_session_def)
  have "length bis = 4" using bis(1) by (simp add: on_air_def in_order_def)
  with bis(2) have "bi_flags (bis ! 3) = 0" by simp
  then have sacch: "False = nz (bi_flags (bis ! 3) AND BI_FLG_SACCH)" by simp
  have "sess 0 ?w = Inr ?s" "get_buf Buf_sdcch ?s = Inr zero_burst_buf" "bb_count zero_burst_buf = 0"
    by (simp_all add: sess_def zero_session_def zero_burst_buf_def)
  note r = burst_roundtrip [OF this(1,2) burst_buf_ok_zero this(3) radio_message_ok_zero len sent(1) bis(1) sacch]
  have "\<nexists>w'. rfold (process_ccch \<lparr>st_history = 0, st_syndrome = 0\<rparr> gsm_interleave_init zero_radio_message 0 Buf_sdcch) bis ?w = Inr w'"
    using r [of "\<lparr>st_history = 0, st_syndrome = 0\<rparr>"] by simp
  moreover from r [of "\<lparr>st_history = 1, st_syndrome = 0\<rparr>"] obtain w4 :: world and s4 :: session_info and m :: radio_message where
    "rfold (process_ccch \<lparr>st_history = 1, st_syndrome = 0\<rparr> gsm_interleave_init zero_radio_message 0 Buf_sdcch) bis ?w =
        rbind (handle_lapdm 0 Sdcch (rm_msg m) 23 (frame_nr (bis ! 0)) (nz (band_arfcn (bis ! 0) AND ARFCN_UPLINK)) w4) (reset_buf 0 Buf_sdcch)"
    "w_msgs w4 = w_msgs ?w @ [Some m]" "rm_msg m = ?msg @ drop 23 (rm_msg zero_radio_message)" "sess 0 w4 = Inr s4" "s_new_msg s4 = Some (length (w_msgs ?w))"
    unfolding if_False by auto
  moreover have "w_msgs ?w = []" "drop 23 (rm_msg zero_radio_message) = replicate 233 0"
    by (simp_all add: zero_world_def zero_radio_message_def drop_replicate)
  ultimately show ?thesis using sent(1) bis(1) unfolding Let_def by (metis append_Nil list.size(3))
qed

end
