(* ===== verification/Gsmtap.thy ===== *)
theory Gsmtap
  imports Osmo Diag_Safe
begin

text \<open>
  GSMTAP packets in both directions: the output of decoded messages (\<open>gsm-parser/output.c\<close> with \<open>libosmocore/src/gsmtap_util.c\<close>)
  and the importer of packet captures (\<open>gsm-parser/gsmtap_import.c\<close>).

  A packet of a capture is its captured octets together with the length that the capture claims for it; the code checks
  only the latter.
\<close>

section \<open>Definitions\<close>

definition GSMTAP_TYPE_UM :: u8 where "GSMTAP_TYPE_UM = 0x01"
definition GSMTAP_TYPE_UMTS_RRC :: u8 where "GSMTAP_TYPE_UMTS_RRC = 0x0c"
definition GSMTAP_TYPE_LTE_RRC :: u8 where "GSMTAP_TYPE_LTE_RRC = 0x0d"
definition GSMTAP_CHANNEL_BCCH :: u8 where "GSMTAP_CHANNEL_BCCH = 0x01"
definition GSMTAP_CHANNEL_RACH :: u8 where "GSMTAP_CHANNEL_RACH = 0x03"
definition GSMTAP_CHANNEL_PCH :: u8 where "GSMTAP_CHANNEL_PCH = 0x05"
definition GSMTAP_CHANNEL_SDCCH4 :: u8 where "GSMTAP_CHANNEL_SDCCH4 = 0x07"
definition GSMTAP_CHANNEL_SDCCH8 :: u8 where "GSMTAP_CHANNEL_SDCCH8 = 0x08"
definition GSMTAP_CHANNEL_TCH_F :: u8 where "GSMTAP_CHANNEL_TCH_F = 0x09"
definition GSMTAP_CHANNEL_TCH_H :: u8 where "GSMTAP_CHANNEL_TCH_H = 0x0a"
definition GSMTAP_CHANNEL_PACCH :: u8 where "GSMTAP_CHANNEL_PACCH = 0x0b"
definition GSMTAP_CHANNEL_ACCH :: u8 where "GSMTAP_CHANNEL_ACCH = 0x80"

lemmas gsmtap_consts = GSMTAP_TYPE_UM_def GSMTAP_TYPE_UMTS_RRC_def GSMTAP_TYPE_LTE_RRC_def GSMTAP_CHANNEL_BCCH_def
  GSMTAP_CHANNEL_RACH_def GSMTAP_CHANNEL_PCH_def GSMTAP_CHANNEL_SDCCH4_def GSMTAP_CHANNEL_SDCCH8_def GSMTAP_CHANNEL_TCH_F_def
  GSMTAP_CHANNEL_TCH_H_def GSMTAP_CHANNEL_PACCH_def GSMTAP_CHANNEL_ACCH_def

subsection \<open>Network byte order\<close>

definition be16 :: "u8 list \<Rightarrow> nat \<Rightarrow> u16 res" where
  "be16 d k = rbind (rd d k) (\<lambda>a. rbind (rd d (k + 1)) (\<lambda>b. Inr (push_bit 8 (ucast a) OR ucast b)))"

definition be32 :: "u8 list \<Rightarrow> nat \<Rightarrow> u32 res" where
  "be32 d k = rbind (be16 d k) (\<lambda>a. rbind (be16 d (k + 2)) (\<lambda>b. Inr (push_bit 16 (ucast a) OR ucast b)))"

definition be16_bytes :: "u16 \<Rightarrow> u8 list" where
  "be16_bytes x = [ucast (drop_bit 8 x), ucast x]"

definition be32_bytes :: "u32 \<Rightarrow> u8 list" where
  "be32_bytes x = be16_bytes (ucast (drop_bit 16 x)) @ be16_bytes (ucast x)"

subsection \<open>Output\<close>

definition chantype_rsl2gsmtap :: "u8 \<Rightarrow> u8 \<Rightarrow> u8" where
  "chantype_rsl2gsmtap rsl_chantype link_id =
     (let ret = (if rsl_chantype = RSL_CHAN_Bm_ACCHs then GSMTAP_CHANNEL_TCH_F
                 else if rsl_chantype = RSL_CHAN_Lm_ACCHs then GSMTAP_CHANNEL_TCH_H
                 else if rsl_chantype = RSL_CHAN_SDCCH4_ACCH then GSMTAP_CHANNEL_SDCCH4
                 else if rsl_chantype = RSL_CHAN_SDCCH8_ACCH then GSMTAP_CHANNEL_SDCCH8
                 else if rsl_chantype = RSL_CHAN_BCCH then GSMTAP_CHANNEL_BCCH
                 else if rsl_chantype = RSL_CHAN_RACH then GSMTAP_CHANNEL_RACH
                 else if rsl_chantype = RSL_CHAN_PCH_AGCH then GSMTAP_CHANNEL_PCH
                 else 0)
      in if nz (link_id AND 0x40) then ret OR GSMTAP_CHANNEL_ACCH else ret)"

text \<open>The header is four words; \<open>msgb_alloc\<close> clears the buffer, so that the reserved octet is 0.\<close>

definition gsmtap_makemsg_ex ::
  "u8 \<Rightarrow> u16 \<Rightarrow> u8 \<Rightarrow> u8 \<Rightarrow> u8 \<Rightarrow> u32 \<Rightarrow> u8 \<Rightarrow> u8 \<Rightarrow> u8 list \<Rightarrow> u32 \<Rightarrow> u8 list res" where
  "gsmtap_makemsg_ex type arfcn ts chan_type ss fn signal_dbm snr data len =
     rbind (rdn data 0 (unat len)) (\<lambda>d.
     Inr ([2, 4, type, ts] @ be16_bytes arfcn @ [signal_dbm, snr] @ be32_bytes fn @ [chan_type, 0, ss, 0] @ d))"

definition gsmtap_makemsg :: "u16 \<Rightarrow> u8 \<Rightarrow> u8 \<Rightarrow> u8 \<Rightarrow> u32 \<Rightarrow> u8 \<Rightarrow> u8 \<Rightarrow> u8 list \<Rightarrow> u32 \<Rightarrow> u8 list res" where
  "gsmtap_makemsg = gsmtap_makemsg_ex GSMTAP_TYPE_UM"

text \<open>
  The three senders of \<open>output.c\<close>, with an open socket: the datagram, or \<open>None\<close> when nothing is sent.
\<close>

definition net_send_rlcmac :: "u8 list \<Rightarrow> u32 \<Rightarrow> u8 \<Rightarrow> bool \<Rightarrow> u8 list option res" where
  "net_send_rlcmac msg len ts ul =
     rbind (gsmtap_makemsg (if ul then ARFCN_UPLINK else 0) ts GSMTAP_CHANNEL_PACCH 0 0 0 0 msg len) (\<lambda>d. Inr (Some d))"

definition net_send_llc :: "u8 list \<Rightarrow> u32 \<Rightarrow> bool \<Rightarrow> u8 list option res" where
  "net_send_llc data len ul =
     rbind (rd data 0) (\<lambda>d0. rbind (if d0 = 0x43 then rd data 1 else Inr 0) (\<lambda>d1. rbind (if d1 = 0xc0 then rd data 2 else Inr 0) (\<lambda>d2.
     if d0 = 0x43 \<and> d1 = 0xc0 \<and> d2 = 0x01 then Inr None
     else rbind (gsmtap_makemsg_ex 8 (if ul then ARFCN_UPLINK else 0) 0 0 0 0 0 0 data len) (\<lambda>d. Inr (Some d)))))"

definition net_send_msg :: "radio_message \<Rightarrow> u8 list option res" where
  "net_send_msg m =
     (let bb = rm_bb m; some = (\<lambda>r. rbind r (\<lambda>d. Inr (Some d))) in
      if rm_flags m AND MSG_DECODED = 0 then Inr None
      else rbind (rd (bb_arfcn bb) 0) (\<lambda>arfcn.
           if rm_rat m = RAT_GSM
           then case rsl_dec_chan_nr (rm_chan_nr m) of
                  (None, ts) \<Rightarrow> Inl Uninitialised
                | (Some (type, subch), ts) \<Rightarrow>
                    let gsmtap_channel = chantype_rsl2gsmtap type (if nz (rm_flags m AND MSG_SACCH) then 0x40 else 0) in
                    rbind (rd (bb_fn bb) 0) (\<lambda>fn. rbind (rd (bb_rxl bb) 0) (\<lambda>rxl. rbind (rd (bb_snr bb) 0) (\<lambda>snr.
                    some (gsmtap_makemsg arfcn ts gsmtap_channel subch fn (ucast rxl) (ucast snr) (rm_msg m) (rm_msg_len m)))))
           else if rm_rat m = RAT_UMTS
           then let ul = nz (arfcn AND ARFCN_UPLINK) in
                if nz (rm_flags m AND MSG_SDCCH)
                then some (gsmtap_makemsg_ex GSMTAP_TYPE_UMTS_RRC arfcn 0 (if ul then 1 else 0) 0 0 0 0 (bb_data bb) (rm_msg_len m))
                else if nz (rm_flags m AND MSG_FACCH)
                then some (gsmtap_makemsg_ex GSMTAP_TYPE_UMTS_RRC arfcn 0 (if ul then 3 else 2) 0 0 0 0 (bb_data bb) (rm_msg_len m))
                else Inr None
           else if rm_rat m = RAT_LTE
           then some (gsmtap_makemsg_ex 0x0e arfcn 0 0 0 0 0 0 (bb_data bb) (rm_msg_len m))
           else Inr None))"

subsection \<open>Import\<close>

definition chantype_from_gsmtap :: "u8 \<Rightarrow> u8 \<Rightarrow> radio_message \<Rightarrow> radio_message" where
  "chantype_from_gsmtap gsmtap_chantype timeslot m =
     (let ch = gsmtap_chantype AND NOT GSMTAP_CHANNEL_ACCH;
          acch = nz (gsmtap_chantype AND GSMTAP_CHANNEL_ACCH);
          set = (\<lambda>rsl_type flags. m\<lparr>rm_flags := flags, rm_chan_nr := push_bit 3 rsl_type OR timeslot\<rparr>)
      in if ch = GSMTAP_CHANNEL_TCH_F then set RSL_CHAN_Bm_ACCHs MSG_FACCH
         else if ch = GSMTAP_CHANNEL_TCH_H then set RSL_CHAN_Lm_ACCHs MSG_FACCH
         else if ch = GSMTAP_CHANNEL_SDCCH4 then set RSL_CHAN_SDCCH4_ACCH (if acch then MSG_SACCH else MSG_SDCCH)
         else if ch = GSMTAP_CHANNEL_SDCCH8 then set RSL_CHAN_SDCCH8_ACCH (if acch then MSG_SACCH else MSG_SDCCH)
         else if ch = GSMTAP_CHANNEL_BCCH then set RSL_CHAN_BCCH MSG_BCCH
         else if ch = GSMTAP_CHANNEL_RACH then set RSL_CHAN_RACH MSG_BCCH
         else if ch = GSMTAP_CHANNEL_PCH then set RSL_CHAN_PCH_AGCH MSG_BCCH
         else m\<lparr>rm_flags := 0\<rparr>)"

text \<open>
  What \<open>process_gsmtap\<close> makes of the datagram from \<open>offset\<close> on; a message without flags is neither handled nor freed.
  The lengths are unsigned, so that a packet shorter than \<open>offset\<close> passes the first assertion.
\<close>

definition gsmtap_message :: "u32 \<Rightarrow> u8 list \<Rightarrow> u32 \<Rightarrow> diag_result res" where
  "gsmtap_message len pkt offset =
     rbind (rassert (len - offset > 4)) (\<lambda>_.
     let gh = unat offset in
     rbind (rd pkt gh) (\<lambda>version.
     rbind (rassert (version = 2)) (\<lambda>_.
     rbind (rd pkt (gh + 1)) (\<lambda>hdr_len.
     rbind (rassert (len - offset > ucast hdr_len * 4)) (\<lambda>_.
     let offset = offset + ucast hdr_len * 4; msg_len = len - offset in
     rbind (be32 pkt (gh + 8)) (\<lambda>fn.
     rbind (be16 pkt (gh + 4)) (\<lambda>arfcn.
     rbind (rd pkt (gh + 2)) (\<lambda>type.
     let m = zero_radio_message\<lparr>rm_msg_len := msg_len,
               rm_bb := zero_burst_buf\<lparr>bb_fn := (bb_fn zero_burst_buf)[0 := fn], bb_arfcn := (bb_arfcn zero_burst_buf)[0 := arfcn]\<rparr>\<rparr>
     in if type = GSMTAP_TYPE_UM
        then rbind (rd pkt (gh + 12)) (\<lambda>sub_type. rbind (rd pkt (gh + 3)) (\<lambda>timeslot.
             let m = chantype_from_gsmtap sub_type timeslot (m\<lparr>rm_rat := RAT_GSM\<rparr>) in
             rbind (rdn pkt (unat offset) (unat msg_len)) (\<lambda>d. rbind (wrn (rm_msg m) 0 d) (\<lambda>d.
             Inr (if nz (rm_flags m) then Message (m\<lparr>rm_msg := d\<rparr>) else Lost_message (m\<lparr>rm_msg := d\<rparr>))))))
        else if type = GSMTAP_TYPE_UMTS_RRC \<or> type = GSMTAP_TYPE_LTE_RRC
        then rbind (rdn pkt (unat offset) (unat msg_len)) (\<lambda>d. rbind (wrn (bb_data (rm_bb m)) 0 d) (\<lambda>d.
             Inr (Lost_message (m\<lparr>rm_rat := (if type = GSMTAP_TYPE_UMTS_RRC then RAT_UMTS else RAT_LTE),
                                  rm_bb := (rm_bb m)\<lparr>bb_data := d\<rparr>\<rparr>))))
        else Inr No_message))))))))"

definition process_gsmtap :: "rrc_lib \<Rightarrow> timeval \<Rightarrow> u32 \<Rightarrow> u8 list \<Rightarrow> u32 \<Rightarrow> world \<Rightarrow> world res" where
  "process_gsmtap lib ts len pkt offset w =
     rbind (gsmtap_message len pkt offset) (\<lambda>r. case r of
       No_message \<Rightarrow> Inr w
     | Lost_message m \<Rightarrow> Inr (snd (malloc_msg m w))
     | Message m \<Rightarrow>
         rbind (upd 0 (\<lambda>s. s\<lparr>s_timestamp := ts\<rparr>) w) (\<lambda>w.
         case malloc_msg (m\<lparr>rm_timestamp := ts\<rparr>) w of (a, w) \<Rightarrow> handle_radio_msg lib 0 a w))"

definition process_udp :: "rrc_lib \<Rightarrow> timeval \<Rightarrow> u32 \<Rightarrow> u8 list \<Rightarrow> u32 \<Rightarrow> world \<Rightarrow> world res" where
  "process_udp lib ts len pkt offset w =
     rbind (rassert (len - offset > 8)) (\<lambda>_.
     rbind (be16 pkt (unat (offset + 2))) (\<lambda>dport.
     if dport = 4729 then process_gsmtap lib ts len pkt (offset + 8) w else Inr w))"

definition process_ip :: "rrc_lib \<Rightarrow> timeval \<Rightarrow> u32 \<Rightarrow> u8 list \<Rightarrow> u32 \<Rightarrow> world \<Rightarrow> world res" where
  "process_ip lib ts len pkt offset w =
     rbind (rassert (len - offset > 20)) (\<lambda>_.
     rbind (rd pkt (unat (offset + 9))) (\<lambda>proto.
     if proto = 0x11 then process_udp lib ts len pkt (offset + 20) w else Inr w))"

definition process_vlan :: "rrc_lib \<Rightarrow> timeval \<Rightarrow> u32 \<Rightarrow> u8 list \<Rightarrow> u32 \<Rightarrow> world \<Rightarrow> world res" where
  "process_vlan lib ts len pkt offset w =
     rbind (be16 pkt (unat (offset + 2))) (\<lambda>etype.
     if etype = 0x0800 then process_ip lib ts len pkt (offset + 4) w else Inr w)"

definition process_ethernet :: "rrc_lib \<Rightarrow> timeval \<times> u32 \<times> u8 list \<Rightarrow> world \<Rightarrow> world res" where
  "process_ethernet lib = (\<lambda>(ts, len, pkt) w.
     rbind (be16 pkt 12) (\<lambda>etype.
     if etype = 0x0800 then process_ip lib ts len pkt 14 w
     else if etype = 0x8100 then process_vlan lib ts len pkt 14 w
     else Inr w))"

text \<open>The packets that \<open>pcap_loop\<close> hands over, one after the other.\<close>

definition gsmtap_main :: "rrc_lib \<Rightarrow> u32 \<Rightarrow> u32 \<Rightarrow> (timeval \<times> u32 \<times> u8 list) list \<Rightarrow> world \<Rightarrow> (u32 \<times> u32 \<times> world) res" where
  "gsmtap_main lib sid cid pkts w =
     rbind (rfold (process_ethernet lib) pkts (cell_init cid 0 True (session_init sid True True True w))) session_destroy"

section \<open>Captures\<close>

text \<open>
  The packets on which an assertion of the importer fails: the claimed length is too short for the headers on the way to the
  GSMTAP message, or the version of that is not 2.  The lengths are unsigned, as in the code.
\<close>

definition bad_gsmtap :: "u32 \<Rightarrow> u8 list \<Rightarrow> u32 \<Rightarrow> bool" where
  "bad_gsmtap len pkt offset \<longleftrightarrow>
     \<not> len - offset > 4
     \<or> (\<exists>version. rd pkt (unat offset) = Inr version \<and> version \<noteq> 2)
     \<or> rd pkt (unat offset) = Inr 2 \<and> (\<exists>hdr_len. rd pkt (unat offset + 1) = Inr hdr_len \<and> \<not> len - offset > ucast hdr_len * 4)"

definition bad_udp :: "u32 \<Rightarrow> u8 list \<Rightarrow> u32 \<Rightarrow> bool" where
  "bad_udp len pkt offset \<longleftrightarrow>
     \<not> len - offset > 8 \<or> be16 pkt (unat (offset + 2)) = Inr 4729 \<and> bad_gsmtap len pkt (offset + 8)"

definition bad_ip :: "u32 \<Rightarrow> u8 list \<Rightarrow> u32 \<Rightarrow> bool" where
  "bad_ip len pkt offset \<longleftrightarrow>
     \<not> len - offset > 20 \<or> rd pkt (unat (offset + 9)) = Inr 0x11 \<and> bad_udp len pkt (offset + 20)"

definition bad_packet :: "timeval \<times> u32 \<times> u8 list \<Rightarrow> bool" where
  "bad_packet = (\<lambda>(ts, len, pkt).
     be16 pkt 12 = Inr 0x0800 \<and> bad_ip len pkt 14
     \<or> be16 pkt 12 = Inr 0x8100 \<and> be16 pkt 16 = Inr 0x0800 \<and> bad_ip len pkt 18)"

lemma passes_read: "(\<And>x. passes Q (f x)) \<Longrightarrow> passes Q (rbind (rd xs k) f)" "(\<And>x. passes Q (g x)) \<Longrightarrow> passes Q (rbind (be16 xs k) g)"
  "(\<And>x. passes Q (h x)) \<Longrightarrow> passes Q (rbind (be32 xs k) h)" "(\<And>d. passes Q (f' d)) \<Longrightarrow> passes Q (rbind (rdn xs k n) f')"
  by (rule passes_bind [where R = "\<lambda>_. True"]; simp add: passes_def be16_def be32_def)+

lemma passes_wrn: "(\<And>d'. length d' = length xs \<Longrightarrow> passes Q (f d')) \<Longrightarrow> passes Q (rbind (wrn xs k d) f)"
  by (rule passes_bind [where R = "\<lambda>d'. length d' = length xs"]) (simp_all add: passes_def)

lemma chantype_entry:
  assumes "radio_message_ok m" and "rm_rat m = RAT_GSM" and "rm_domain m = 0" and "nz (rm_flags (chantype_from_gsmtap c t m))"
    and "length d = 256"
  shows "entry_ok ((chantype_from_gsmtap c t m)\<lparr>rm_msg := d\<rparr>)"
  using assms by (auto simp: chantype_from_gsmtap_def Let_def entry_ok_def radio_message_ok_def radio_consts split: if_splits)

lemma chantype_length [simp]: "rm_msg (chantype_from_gsmtap c t m) = rm_msg m"
  by (simp add: chantype_from_gsmtap_def Let_def)

lemma gsmtap_message_safe: "passes result_ok (gsmtap_message len pkt offset)"
proof -
  have ok: "radio_message_ok (zero_radio_message\<lparr>rm_msg_len := n, rm_bb := zero_burst_buf\<lparr>bb_fn := (bb_fn zero_burst_buf)[0 := fn],
      bb_arfcn := (bb_arfcn zero_burst_buf)[0 := arfcn]\<rparr>, rm_rat := RAT_GSM\<rparr>)" for n fn arfcn
    by (simp add: radio_message_ok_def burst_buf_ok_def zero_burst_buf_def zero_radio_message_def)
  have z: "length (rm_msg zero_radio_message) = 256" "rm_domain zero_radio_message = 0" by (simp_all add: zero_radio_message_def)
  show ?thesis
    unfolding gsmtap_message_def Let_def
    by (auto intro!: passes_assert passes_read passes_wrn chantype_entry [OF ok] simp: z)
qed

lemma stamp_reaches:
  assumes "rrc_lib_ok lib" and "reaches lib w"
  shows "\<exists>w'. upd 0 (\<lambda>s. s\<lparr>s_timestamp := ts\<rparr>) w = Inr w' \<and> reaches lib w'"
proof -
  obtain X where X: "reachable lib X w" using assms(2) by (auto simp: reaches_def)
  then obtain L where L: "store_ok L w" using idle_reachable [OF assms(1)] by (auto simp: idle_def)
  note k = store_okD [OF L]
  from k(1) obtain s0 s1 where s: "w_sess w = [s0, s1]" by (auto simp: numeral_2_eq_2 length_Suc_conv)
  then have "s_domain s0 = 0" "s_domain s1 = 1" using k(6) [of 0] k(6) [of 1] by simp_all
  with reachable.times [OF X, of "\<lambda>d t. if d = 0 then ts else t"] s show ?thesis
    by (auto simp: upd_def sess_def set_times_def reaches_def)
qed

lemma be16_fault: "be16 d k = Inl e \<Longrightarrow> e = OutOfBounds"
  by (auto simp: be16_def rbind_def rd_eq_Inl split: sum.splits)

lemma handle_result_safe:
  assumes "rrc_lib_ok lib" and "reaches lib w" and r: "result_ok r"
  shows "res_ok (reaches lib) (case r of No_message \<Rightarrow> Inr w | Message m \<Rightarrow> rbind (upd 0 (\<lambda>s. s\<lparr>s_timestamp := ts\<rparr>) w) (\<lambda>w.
         case malloc_msg (m\<lparr>rm_timestamp := ts\<rparr>) w of (a, w) \<Rightarrow> handle_radio_msg lib 0 a w)
     | Lost_message m \<Rightarrow> Inr (snd (malloc_msg m w)))"
proof (cases r)
  case (Message m)
  from stamp_reaches [OF assms(1,2)] obtain w' where w': "upd 0 (\<lambda>s. s\<lparr>s_timestamp := ts\<rparr>) w = Inr w'" "reaches lib w'" by blast
  have "entry_ok (m\<lparr>rm_timestamp := ts\<rparr>)" using r Message by (simp add: entry_ok_def radio_message_ok_def)
  from take_msg_reaches [OF assms(1) w'(2) this] Message w'(1) show ?thesis by (simp add: take_msg_def)
qed (use assms(2) lose_msg_reaches [OF assms(2)] in \<open>simp_all add: lose_msg_def\<close>)

lemma reads_no_assert [simp]:
  "rd xs i \<noteq> Inl AssertFailed" "rdn xs i n \<noteq> Inl AssertFailed" "wrn xs i ys \<noteq> Inl AssertFailed"
  "be16 xs i \<noteq> Inl AssertFailed" "be32 xs i \<noteq> Inl AssertFailed"
  by (simp_all add: rd_def rdn_def wrn_def be16_def be32_def rbind_eq_Inl)

lemma rassert_Inl: "rassert b = Inl e \<longleftrightarrow> \<not> b \<and> e = AssertFailed"
  by (auto simp: rassert_def)

lemma rbind_assert:
  assumes "m \<noteq> Inl AssertFailed"
  shows "rbind m f = Inl AssertFailed \<longleftrightarrow> (\<exists>x. m = Inr x \<and> f x = Inl AssertFailed)"
  using assms by (auto simp: rbind_eq_Inl)

lemma gsmtap_message_bad: "gsmtap_message len pkt offset = Inl AssertFailed \<longleftrightarrow> bad_gsmtap len pkt offset"
proof -
  have "(if b then rbind (rd pkt i) f else if c then rbind (rdn pkt k n) g else Inr x) \<noteq> Inl AssertFailed"
    if "\<And>y. f y \<noteq> Inl AssertFailed" "\<And>y. g y \<noteq> Inl AssertFailed" for b c i k n f g and x :: diag_result
    using that by (simp add: rbind_assert)
  note tail = this
  show ?thesis
    unfolding gsmtap_message_def Let_def bad_gsmtap_def rbind_eq_Inl [of "rassert _"] rassert_Inl
    by (simp add: rbind_assert rbind_eq_Inl [of "rassert _"] rassert_Inl tail) (auto simp: rassert_def split: if_splits)
qed

text \<open>The message handler fails no assertion: an assertion that fails is one of the importer.\<close>

lemma process_gsmtap_exact:
  assumes "rrc_lib_ok lib" and "reaches lib w"
  shows "if bad_gsmtap len pkt offset then process_gsmtap lib ts len pkt offset w = Inl AssertFailed
    else res_ok (reaches lib) (process_gsmtap lib ts len pkt offset w)"
proof (cases "bad_gsmtap len pkt offset")
  case True
  then show ?thesis using gsmtap_message_bad [of len pkt offset] by (simp add: process_gsmtap_def)
next
  case False
  then have "res_ok result_ok (gsmtap_message len pkt offset)"
    using gsmtap_message_safe [of len pkt offset] gsmtap_message_bad [of len pkt offset] by (simp add: passes_def)
  with False show ?thesis
    unfolding process_gsmtap_def by (auto elim!: res_ok_mono intro: handle_result_safe [OF assms])
qed

lemma process_udp_exact:
  assumes "rrc_lib_ok lib" and "reaches lib w"
  shows "if bad_udp len pkt offset then process_udp lib ts len pkt offset w = Inl AssertFailed
    else res_ok (reaches lib) (process_udp lib ts len pkt offset w)"
  using process_gsmtap_exact [OF assms, of len pkt "offset + 8" ts] assms(2)
  by (cases "be16 pkt (unat (offset + 2))") (auto simp: bad_udp_def process_udp_def rassert_def dest!: be16_fault split: if_splits)

lemma process_ip_exact:
  assumes "rrc_lib_ok lib" and "reaches lib w"
  shows "if bad_ip len pkt offset then process_ip lib ts len pkt offset w = Inl AssertFailed
    else res_ok (reaches lib) (process_ip lib ts len pkt offset w)"
  using process_udp_exact [OF assms, of len pkt "offset + 20" ts] assms(2)
  by (cases "rd pkt (unat (offset + 9))") (auto simp: bad_ip_def process_ip_def rassert_def rd_eq_Inl split: if_splits)

lemma process_ethernet_exact:
  assumes "rrc_lib_ok lib" and "reaches lib w"
  shows "if bad_packet p then process_ethernet lib p w = Inl AssertFailed else res_ok (reaches lib) (process_ethernet lib p w)"
proof -
  obtain ts len pkt where p: "p = (ts, len, pkt)" by (metis prod_cases3)
  note 1 = process_ip_exact [OF assms, of len pkt 14 ts] and 2 = process_ip_exact [OF assms, of len pkt 18 ts]
  show ?thesis
  proof (cases "be16 pkt 12")
    case (Inl e)
    then show ?thesis using be16_fault [OF Inl] by (auto simp: p bad_packet_def process_ethernet_def)
  next
    case (Inr etype)
    then show ?thesis
      using 1 2 assms(2)
      by (cases "be16 pkt 16") (auto simp: p bad_packet_def process_ethernet_def process_vlan_def dest!: be16_fault split: if_splits)
  qed
qed

lemma capture_outcome:
  assumes "rrc_lib_ok lib" and "reaches lib w"
  shows "case rfold (process_ethernet lib) pkts w of
      Inl e \<Rightarrow> soft e \<or> e = AssertFailed \<and> (\<exists>p \<in> set pkts. bad_packet p)
    | Inr w' \<Rightarrow> reaches lib w' \<and> (\<forall>p \<in> set pkts. \<not> bad_packet p)"
  using assms(2)
proof (induction pkts arbitrary: w)
  case (Cons p pkts)
  from process_ethernet_exact [OF assms(1) Cons.prems, of p] Cons.IH show ?case
    by (cases "process_ethernet lib p w") (fastforce split: if_splits sum.splits)+
qed simp

text \<open>What is in a datagram as the sender makes it.\<close>

lemma be16_bytes_word: "(push_bit 8 (ucast (ucast (drop_bit 8 x) :: u8)) OR ucast (ucast x :: u8)) = x" for x :: u16
  by (rule bit_word_eqI) (auto simp: bit_simps)

lemma be32_bytes_word: "(push_bit 16 (ucast (ucast (drop_bit 16 x) :: u16)) OR ucast (ucast x :: u16)) = x" for x :: u32
  by (rule bit_word_eqI) (auto simp: bit_simps)

lemma be16_put: "be16 (xs @ be16_bytes x @ ys) (length xs) = Inr x"
  unfolding be16_def be16_bytes_def using be16_bytes_word [of x] by (simp add: nth_append)

lemma be32_put: "be32 (xs @ be32_bytes x @ ys) (length xs) = Inr x"
  unfolding be32_def be32_bytes_def
  using be16_put [of xs "ucast (drop_bit 16 x)" "be16_bytes (ucast x) @ ys"] be16_put [of "xs @ be16_bytes (ucast (drop_bit 16 x))" "ucast x" ys]
    be32_bytes_word [of x] by (simp add: be16_bytes_def)

lemma gsmtap_message_made:
  assumes "length hdr = 42" and "length d = unat n" and "0 < n" "n \<le> 256"
  shows "gsmtap_message (58 + n) (hdr @ [2, 4, GSMTAP_TYPE_UM, ts] @ be16_bytes arfcn @ [x, y] @ be32_bytes fn @ [chan, 0, ss, 0] @ d) 42 =
    (let m = chantype_from_gsmtap chan ts (zero_radio_message\<lparr>rm_msg_len := n,
               rm_bb := zero_burst_buf\<lparr>bb_fn := (bb_fn zero_burst_buf)[0 := fn], bb_arfcn := (bb_arfcn zero_burst_buf)[0 := arfcn]\<rparr>,
               rm_rat := RAT_GSM\<rparr>)
     in Inr (if nz (rm_flags m) then Message (m\<lparr>rm_msg := d @ replicate (256 - unat n) 0\<rparr>)
             else Lost_message (m\<lparr>rm_msg := d @ replicate (256 - unat n) 0\<rparr>)))"
proof -
  let ?p = "hdr @ [2, 4, GSMTAP_TYPE_UM, ts] @ be16_bytes arfcn @ [x, y] @ be32_bytes fn @ [chan, 0, ss, 0] @ d"
  have n: "0 < unat n" "unat n \<le> 256" using assms(3,4) by (simp_all add: word_less_nat_alt word_le_nat_alt)
  have "unat (16 + n) = 16 + unat n" using n(2) by (simp add: unat_plus_simple [THEN iffD1] word_le_nat_alt unat_word_ariths)
  then have len: "(58 + n :: u32) - 42 > 4" "(58 + n :: u32) - 42 > 16" "(58 + n :: u32) - 58 = n"
    using n(1) by (simp_all add: word_less_nat_alt)
  have l: "length (be16_bytes arfcn) = 2" "length (be32_bytes fn) = 4" by (simp_all add: be16_bytes_def be32_bytes_def)
  have f: "rd ?p 42 = Inr 2" "rd ?p 43 = Inr 4" "rd ?p 44 = Inr GSMTAP_TYPE_UM" "rd ?p 45 = Inr ts" "rd ?p 54 = Inr chan"
    using assms(1) l by (simp_all add: rd_def nth_append)
  have fn: "be32 ?p 50 = Inr fn"
    using be32_put [of "hdr @ [2, 4, GSMTAP_TYPE_UM, ts] @ be16_bytes arfcn @ [x, y]" fn "[chan, 0, ss, 0] @ d"] assms(1) l by simp
  have ar: "be16 ?p 46 = Inr arfcn"
    using be16_put [of "hdr @ [2, 4, GSMTAP_TYPE_UM, ts]" arfcn "[x, y] @ be32_bytes fn @ [chan, 0, ss, 0] @ d"] assms(1) by simp
  have body: "rdn ?p 58 (unat n) = Inr d" using assms(1,2) l by (simp add: rdn_def)
  have w: "wrn (rm_msg zero_radio_message) 0 d = Inr (d @ replicate (256 - unat n) 0)"
    using assms(2) n(2) by (simp add: zero_radio_message_def wrn_def drop_replicate)
  show ?thesis
    unfolding gsmtap_message_def Let_def
    using len f fn ar body w by (simp add: rassert_def)
qed

text \<open>C4. A packet capture of any length and content is imported without a temporal memory error: \<open>process_ethernet\<close>, applied to
  the packets one after the other, comes to a reachable state of the parser, to which the theorems on reachable states apply, or it
  stops in a read or write outside of a buffer, a use of unwritten memory, the endless loop of the short message parser or a failed
  assertion; no null pointer and no freed message is used.  An assertion, which stops the program, can only fail on a packet that is
  \<open>bad_packet\<close>, by its claimed length or its GSMTAP version, whatever the state; and a capture with such a packet is never imported
  to its end.\<close>

theorem capture_import_safe:
  assumes "rrc_lib_ok lib" and "fresh_world w"
  shows "case rfold (process_ethernet lib) pkts (cell_init cid 0 True (session_init sid True True True w)) of
      Inl e \<Rightarrow> e \<in> {OutOfBounds, Uninitialised, Diverges} \<or> e = AssertFailed \<and> (\<exists>p \<in> set pkts. bad_packet p)
    | Inr w' \<Rightarrow> (\<exists>X. reachable lib X w') \<and> (\<forall>p \<in> set pkts. \<not> bad_packet p)"
proof -
  have "w = w\<lparr>w_auto_reset := True, w_msgs := [], w_cells := [], w_cell_list := []\<rparr>"
    using assms(2) by (cases w) (simp add: fresh_world_def)
  then have "reachable lib {} (session_init sid True True True w)" using reachable.start [of lib w] by (simp add: start_world_def)
  then have "reaches lib (cell_init cid 0 True (session_init sid True True True w))"
    by (auto simp: reaches_def intro: reachable.cells)
  from capture_outcome [OF assms(1) this, of pkts] show ?thesis
    by (auto simp: soft_def reaches_def split: sum.splits)
qed

text \<open>A GSMTAP packet of an SDCCH with an idle frame, in UDP, IP and Ethernet.\<close>

definition sample_pkt :: "u8 list" where
  "sample_pkt = replicate 12 0 @ [0x08, 0] @ replicate 9 0 @ [0x11] @ replicate 12 0 @ [0x12, 0x79, 0, 0, 0, 0]
     @ [2, 4, 1, 0, 0, 42, 0, 0, 0, 0, 0, 7, 8, 0, 0, 0] @ [0x03, 0x03, 0x01] @ replicate 20 0x2b"

theorem capture_import_safe_witness:
  "(\<exists>m. gsmtap_message 81 sample_pkt 42 = Inr (Message m)) \<and> \<not> bad_packet (zero_timeval, 81, sample_pkt) \<and> bad_packet (zero_timeval, 33, sample_pkt)
   \<and> (case rfold (process_ethernet sample_lib) [(zero_timeval, 81, sample_pkt)] (cell_init 1 0 True (session_init 1 True True True zero_world)) of
      Inl e \<Rightarrow> e \<in> {OutOfBounds, Uninitialised, Diverges} | Inr w' \<Rightarrow> \<exists>X. reachable sample_lib X w')"
proof -
  have f: "fresh_world zero_world" by (simp add: fresh_world_def zero_world_def)
  have m: "\<exists>m. gsmtap_message 81 sample_pkt 42 = Inr (Message m)"
  proof -
    have "sample_pkt = (replicate 12 0 @ [0x08, 0] @ replicate 9 0 @ [0x11] @ replicate 12 0 @ [0x12, 0x79, 0, 0, 0, 0])
        @ [2, 4, GSMTAP_TYPE_UM, 0] @ be16_bytes 42 @ [0, 0] @ be32_bytes 7 @ [8, 0, 0, 0] @ ([0x03, 0x03, 0x01] @ replicate 20 0x2b)"
      by (simp add: sample_pkt_def be16_bytes_def be32_bytes_def GSMTAP_TYPE_UM_def)
    then show ?thesis
      using gsmtap_message_made [of "replicate 12 0 @ [0x08, 0] @ replicate 9 0 @ [0x11] @ replicate 12 0 @ [0x12, 0x79, 0, 0, 0, 0]"
          "[0x03, 0x03, 0x01] @ replicate 20 0x2b" 23 0 42 0 0 7 8 0]
      by (simp add: chantype_from_gsmtap_def Let_def gsmtap_consts radio_consts)
  qed
  have "be16 sample_pkt 12 = Inr 0x0800" "rd sample_pkt 23 = Inr 0x11" "be16 sample_pkt 36 = Inr 4729" by code_simp+
  then have b: "\<not> bad_packet (zero_timeval, 81, sample_pkt)" "bad_packet (zero_timeval, 33, sample_pkt)"
    using m gsmtap_message_bad [of 81 sample_pkt 42] by (auto simp: bad_packet_def bad_ip_def bad_udp_def)
  from capture_import_safe [OF sample_lib_ok f, of "[(zero_timeval, 81, sample_pkt)]" 1 1] m b show ?thesis
    by (auto split: sum.splits)
qed

section \<open>Export and import\<close>

text \<open>The message that comes back.\<close>

definition reimported :: "radio_message \<Rightarrow> radio_message" where
  "reimported m = zero_radio_message\<lparr>
     rm_flags := (if nz (rm_flags m AND MSG_SACCH) then MSG_SACCH else MSG_SDCCH),
     rm_chan_nr := rm_chan_nr m AND 7,
     rm_msg := take (unat (rm_msg_len m)) (rm_msg m) @ replicate (256 - unat (rm_msg_len m)) 0,
     rm_msg_len := rm_msg_len m,
     rm_bb := zero_burst_buf\<lparr>bb_fn := (bb_fn zero_burst_buf)[0 := bb_fn (rm_bb m) ! 0],
                             bb_arfcn := (bb_arfcn zero_burst_buf)[0 := bb_arfcn (rm_bb m) ! 0]\<rparr>\<rparr>"

lemma chantype_sdcch:
  assumes "t = RSL_CHAN_SDCCH4_ACCH \<or> t = RSL_CHAN_SDCCH8_ACCH"
  shows "chantype_from_gsmtap (chantype_rsl2gsmtap t (if b then 0x40 else 0)) ts m
    = m\<lparr>rm_flags := (if b then MSG_SACCH else MSG_SDCCH), rm_chan_nr := ts\<rparr>"
proof -
  have c: "chantype_rsl2gsmtap RSL_CHAN_SDCCH4_ACCH 0x40 = 0x87" "chantype_rsl2gsmtap RSL_CHAN_SDCCH4_ACCH 0 = 0x07"
    "chantype_rsl2gsmtap RSL_CHAN_SDCCH8_ACCH 0x40 = 0x88" "chantype_rsl2gsmtap RSL_CHAN_SDCCH8_ACCH 0 = 0x08"
    by code_simp+
  have n: "(0x87 :: u8) AND NOT 0x80 = 0x07" "(0x88 :: u8) AND NOT 0x80 = 0x08" "(0x07 :: u8) AND NOT 0x80 = 0x07" "(0x08 :: u8) AND NOT 0x80 = 0x08"
    by code_simp+
  have p: "push_bit 3 RSL_CHAN_SDCCH4_ACCH = 0" "push_bit 3 RSL_CHAN_SDCCH8_ACCH = 0" by code_simp+
  have f: "chantype_from_gsmtap 0x87 ts m = m\<lparr>rm_flags := MSG_SACCH, rm_chan_nr := ts\<rparr>"
    "chantype_from_gsmtap 0x88 ts m = m\<lparr>rm_flags := MSG_SACCH, rm_chan_nr := ts\<rparr>"
    "chantype_from_gsmtap 0x07 ts m = m\<lparr>rm_flags := MSG_SDCCH, rm_chan_nr := ts\<rparr>"
    "chantype_from_gsmtap 0x08 ts m = m\<lparr>rm_flags := MSG_SDCCH, rm_chan_nr := ts\<rparr>"
    unfolding chantype_from_gsmtap_def Let_def gsmtap_consts n p by simp_all
  from assms show ?thesis by (elim disjE; cases b; simp only: c f if_True if_False)
qed

text \<open>C11. Export and import of a message.  A decoded message of a dedicated channel that is sent as GSMTAP and read back from a capture (42
  octets of Ethernet, IP and UDP headers in front of it) has the same payload, length, frame number and ARFCN, and it is still marked as
  one of the SACCH or of the SDCCH.  Nothing else comes back: of the flags only this one is kept (the mark of a decoded
  message and that of a ciphered one are gone), the signal is gone, and of the channel number only the time slot is left,
  since the importer shifts a channel type that is already in its place out of the octet.\<close>

theorem gsmtap_roundtrip:
  assumes "radio_message_ok m" and "rm_rat m = RAT_GSM" and "nz (rm_flags m AND MSG_DECODED)"
    and "fst (rsl_dec_chan_nr (rm_chan_nr m)) = Some (t, sub)" and "t = RSL_CHAN_SDCCH4_ACCH \<or> t = RSL_CHAN_SDCCH8_ACCH"
    and "0 < rm_msg_len m" "rm_msg_len m \<le> 256" and "length hdr = 42"
  shows "\<exists>d. net_send_msg m = Inr (Some d) \<and> gsmtap_message (of_nat (length (hdr @ d))) (hdr @ d) 42 = Inr (Message (reimported m))"
proof -
  let ?bb = "rm_bb m" and ?n = "rm_msg_len m" and ?s = "nz (rm_flags m AND MSG_SACCH)"
  let ?c = "chantype_rsl2gsmtap t (if ?s then 0x40 else 0)" and ?d = "take (unat ?n) (rm_msg m)"
  let ?g = "[2, 4, GSMTAP_TYPE_UM, rm_chan_nr m AND 7] @ be16_bytes (bb_arfcn ?bb ! 0) @ [ucast (bb_rxl ?bb ! 0), ucast (bb_snr ?bb ! 0)]
      @ be32_bytes (bb_fn ?bb ! 0) @ [?c, 0, sub, 0] @ ?d"
  have n: "unat ?n \<le> 256" using assms(7) by (simp add: word_le_nat_alt)
  then have d: "length ?d = unat ?n" using assms(1) by (simp add: radio_message_ok_def)
  have ch: "rsl_dec_chan_nr (rm_chan_nr m) = (Some (t, sub), rm_chan_nr m AND 7)"
    using assms(4) by (simp add: rsl_dec_chan_nr_def)
  have "net_send_msg m = Inr (Some ?g)"
    using assms(1-3) ch n
    by (simp add: net_send_msg_def Let_def gsmtap_makemsg_def gsmtap_makemsg_ex_def radio_message_ok_def burst_buf_ok_def rdn_def)
  moreover have "of_nat (length (hdr @ ?g)) = 58 + ?n"
    using assms(8) d by (simp add: be16_bytes_def be32_bytes_def)
  moreover have "gsmtap_message (58 + ?n) (hdr @ ?g) 42 = Inr (Message (reimported m))"
    unfolding gsmtap_message_made [OF assms(8) d assms(6,7)] Let_def chantype_sdcch [OF assms(5)]
    by (auto simp: reimported_def radio_consts zero_radio_message_def)
  ultimately show ?thesis by (intro exI [of _ ?g]) simp
qed

theorem gsmtap_roundtrip_witness:
  "let m = zero_radio_message\<lparr>rm_flags := MSG_DECODED OR MSG_SDCCH, rm_chan_nr := 0x41, rm_msg_len := 23\<rparr> in
   \<exists>d. net_send_msg m = Inr (Some d)
     \<and> gsmtap_message (of_nat (length (replicate 42 0 @ d))) (replicate 42 0 @ d) 42 = Inr (Message (reimported m))"
  unfolding Let_def
proof (rule gsmtap_roundtrip)
  show "fst (rsl_dec_chan_nr (rm_chan_nr (zero_radio_message\<lparr>rm_flags := MSG_DECODED OR MSG_SDCCH, rm_chan_nr := 0x41, rm_msg_len := 23\<rparr>)))
      = Some (RSL_CHAN_SDCCH8_ACCH, 0)" by (simp add: rsl_dec_chan_nr_def rsl_chans)
qed (simp_all add: radio_message_ok_def zero_radio_message_def radio_consts)

end
