(* ===== verification/Sql_Text.thy ===== *)
theory Sql_Text
  imports Cell_Info Sms
begin

text \<open>
  The texts of the SQL statements for sessions and short messages (\<open>session_make_sql\<close> of \<open>gsm-parser/session.c\<close>, \<open>sms_make_sql\<close>
  of \<open>sms.c\<close>) and for cells, frequencies and paging (\<open>cell_info.c\<close>).  In the other theories these outputs are the events
  of the state, which carry the data that is printed here; the conditions under which a statement is made are modelled there.

  A statement is the text up to its NUL.  The quoting function of SQLite is the parameter \<open>q\<close>, as in \<open>strescape_or_null\<close>; the
  Boolean \<open>sqlite\<close> is the variable \<open>output_sqlite\<close>, which selects the notation of times.
\<close>

section \<open>Formatting\<close>

definition newline :: string where "newline = [CHR 0x0A]"

definition quote :: char where "quote = CHR 0x27"

text \<open>\<open>%d\<close> of an argument that is passed as an \<open>int\<close> of 32 bits, \<open>%u\<close>, and \<open>%lu\<close>.\<close>

definition fmt_d :: "int \<Rightarrow> string" where
  "fmt_d x = (let v = signed_take_bit 31 x in if v < 0 then CHR ''-'' # dec_str (nat (- v)) else dec_str (nat v))"

definition fmt_w :: "'a::len word \<Rightarrow> string" where
  "fmt_w w = fmt_d (uint w)"

definition fmt_u :: "'a::len word \<Rightarrow> string" where
  "fmt_u w = dec_str (unat w)"

text \<open>
  The pieces of a format between its conversions, each of which is one letter here; the conversions are replaced by the
  converted arguments in their order.
\<close>

fun pieces :: "string \<Rightarrow> string list" where
  "pieces [] = [[]]"
| "pieces (c # cs) =
     (if c = CHR ''%'' then [] # pieces (drop 1 cs)
      else case pieces cs of [] \<Rightarrow> [[c]] | p # ps \<Rightarrow> (c # p) # ps)"

fun weave :: "string list \<Rightarrow> string list \<Rightarrow> string" where
  "weave [] args = []"
| "weave (p # ps) [] = p @ weave ps []"
| "weave (p # ps) (a # args) = (if ps = [] then p else p @ a @ weave ps args)"

definition snprintf :: "nat \<Rightarrow> string \<Rightarrow> string list \<Rightarrow> string" where
  "snprintf len format args = take (len - 1) (weave (pieces format) args)"

text \<open>\<open>snprintf\<close> to the end of the text in the buffer.\<close>

definition append_text :: "nat \<Rightarrow> string \<Rightarrow> string \<Rightarrow> string" where
  "append_text len txt buf = take (len - 1) (buf @ txt)"

text \<open>A quoted text, and a quoted hexadecimal dump.\<close>

definition sql_str :: "(u8 list \<Rightarrow> u8 list) option \<Rightarrow> u8 list \<Rightarrow> string" where
  "sql_str q s = bytes_str (strescape_or_null q (Some s))"

definition sql_null :: string where
  "sql_null = bytes_str (strescape_or_null None None)"

definition sql_hex :: "(u8 list \<Rightarrow> u8 list) option \<Rightarrow> u8 list \<Rightarrow> u32 \<Rightarrow> string res" where
  "sql_hex q d n = rbind (osmo_hexdump_nospc d n) (\<lambda>t. Inr (sql_str q (str_bytes t)))"

definition sql_time :: "bool \<Rightarrow> u64 \<Rightarrow> string" where
  "sql_time sqlite t =
     take 39 (if sqlite then ''datetime('' @ fmt_u t @ '', '' @ [quote] @ ''unixepoch'' @ [quote] @ '')''
              else ''FROM_UNIXTIME('' @ fmt_u t @ '')'')"

section \<open>Sessions\<close>

text \<open>
  The two halves of the union of an assignment start with the same word: \<open>h0.band_arfcn\<close> and \<open>h1.maio\<close> are one and the
  same, whichever of them was written.
\<close>

definition ga_union :: "gsm_assignment \<Rightarrow> int" where
  "ga_union ga = (if ga_h ga \<noteq> 0 then ga_maio ga else ga_band_arfcn ga)"

definition session_format :: string where
  "session_format =
   ''INSERT INTO session_info (%stimestamp,rat,domain,mcc,mnc,lac,cid,arfcn,psc,cracked,neigh_count,'' @
   ''unenc,unenc_rand,enc,enc_rand,enc_null,enc_null_rand,enc_si,enc_si_rand,predict,'' @
   ''avg_power,uplink_avail,initial_seq,cipher_seq,auth,auth_req_fn,auth_resp_fn,auth_delta,'' @
   ''cipher_missing,cipher_comp_first,cipher_comp_last,cipher_comp_count,cipher_delta,cipher,'' @
   ''integrity,cmc_imeisv,first_fn,last_fn,duration,mobile_orig,mobile_term,paging_mi,'' @
   ''t_unknown,t_detach,t_locupd,lu_type,lu_acc,lu_reject,lu_rej_cause,lu_mcc,lu_mnc,lu_lac,'' @
   ''t_abort,t_raupd,t_attach,att_acc,t_pdp,pdp_ip,t_call,t_sms,t_ss,'' @
   ''t_tmsi_realloc,t_release,rr_cause,t_gprs,iden_imsi_ac,iden_imsi_bc,iden_imei_ac,iden_imei_bc,'' @
   ''assign,assign_cmpl,handover,forced_ho,a_timeslot,a_chan_type,a_tsc,'' @
   ''a_hopping,a_arfcn,a_hsn,a_maio,a_ma_len,a_chan_mode,a_multirate,'' @
   ''call_presence,sms_presence,service_req,'' @
   ''imsi,imei,tmsi,new_tmsi,tlli,msisdn,'' @
   ''ms_cipher_mask,ue_cipher_cap,ue_integrity_cap) VALUES '' @
   ''(%s%s,%d,%d,%d,%d,%d,%d,%d,%d,%d,%d,'' @
   ''%d,%d,%d,%d,%d,%d,%d,%d,%d,'' @
   ''%d,%d,%d,%d,%d,%d,%d,%d,'' @
   ''%d,%d,%d,%d,%d,%d,'' @
   ''%d,%d,%d,%d,%d,%d,%d,%d,'' @
   ''%d,%d,%d,%d,%d,%d,%d,%d,%d,%d,'' @
   ''%d,%d,%d,%d,%d,%s,%d,%d,%d,'' @
   ''%d,%d,%d,%d,%d,%d,%d,%d,'' @
   ''%d,%d,%d,%d,%d,%d,%d,'' @
   ''%d,%d,%d,%d,%d,%d,%d,'' @
   ''%d,%d,%d,'' @
   ''%s,%s,%s,%s,%s,%s,'' @
   ''%d,%d,%d);'' @ newline"

definition tmsi_text :: "(u8 list \<Rightarrow> u8 list) option \<Rightarrow> u8 list \<Rightarrow> string res" where
  "tmsi_text q d = rbind (not_zero d 4) (\<lambda>b. if b then sql_hex q d 4 else Inr sql_null)"

definition session_statement :: "(u8 list \<Rightarrow> u8 list) option \<Rightarrow> bool \<Rightarrow> session_info \<Rightarrow> string res" where
  "session_statement q sqlite s =
     (let id_field = (if s_id s \<ge> 0 then ''id,'' else []);
          id_value = (if s_id s \<ge> 0 then take 15 (fmt_d (s_id s) @ '','') else [])
      in rbind (tmsi_text q (s_old_tmsi s)) (\<lambda>tmsi.
         rbind (tmsi_text q (s_new_tmsi s)) (\<lambda>new_tmsi.
         rbind (tmsi_text q (s_tlli s)) (\<lambda>tlli.
         let imsi = sql_str q (s_imsi s); imei = sql_str q (s_imei s); msisdn = sql_str q (s_msisdn s);
             pdpip = sql_str q (s_pdp_ip s); timestamp = sql_time sqlite (tv_sec (s_timestamp s))
         in Inr (snprintf 8192 session_format [
            id_field, id_value, timestamp, fmt_w (s_rat s), fmt_w (s_domain s), fmt_w (s_mcc s), fmt_w (s_mnc s),
            fmt_w (s_lac s), fmt_w (s_cid s), fmt_w (s_arfcn s), fmt_w (s_psc s), fmt_w (s_cracked s),
            fmt_w (s_neigh_count s), fmt_w (fc_unenc (s_fc s)), fmt_w (fc_unenc_rand (s_fc s)),
            fmt_w (fc_enc (s_fc s)), fmt_w (fc_enc_rand (s_fc s)), fmt_w (fc_enc_null (s_fc s)),
            fmt_w (fc_enc_null_rand (s_fc s)), fmt_w (fc_enc_si (s_fc s)), fmt_w (fc_enc_si_rand (s_fc s)),
            fmt_w (fc_predict (s_fc s)), fmt_w (s_avg_power s), fmt_w (s_uplink s), fmt_w (s_initial_seq s),
            fmt_w (s_cipher_seq s), fmt_w (s_auth s), fmt_w (s_auth_req_fn s), fmt_w (s_auth_resp_fn s),
            fmt_w (s_auth_delta s), fmt_d (sint (s_cipher_missing s)), fmt_w (s_cm_comp_first_fn s),
            fmt_w (s_cm_comp_last_fn s), fmt_w (s_cm_comp_count s), fmt_w (s_cipher_delta s), fmt_w (s_cipher s),
            fmt_w (s_integrity s), fmt_w (s_cmc_imeisv s), fmt_w (s_first_fn s), fmt_w (s_last_fn s),
            fmt_w (s_duration s), fmt_w (s_mo s), fmt_w (s_mt s), fmt_w (s_pag_mi s), fmt_w (s_unknown s),
            fmt_w (s_detach s), fmt_w (s_locupd s), fmt_w (s_lu_type s), fmt_w (s_lu_acc s), fmt_w (s_lu_reject s),
            fmt_w (s_lu_rej_cause s), fmt_w (s_lu_mcc s), fmt_w (s_lu_mnc s), fmt_w (s_lu_lac s), fmt_w (s_abort s),
            fmt_w (s_raupd s), fmt_w (s_attach s), fmt_w (s_att_acc s), fmt_w (s_pdp_activate s), pdpip,
            fmt_w (s_call s), fmt_w (s_sms s), fmt_w (s_ssa s), fmt_w (s_tmsi_realloc s), fmt_w (s_release s),
            fmt_w (s_rr_cause s), fmt_w (s_have_gprs s), fmt_w (s_iden_imsi_ac s), fmt_w (s_iden_imsi_bc s),
            fmt_w (s_iden_imei_ac s), fmt_w (s_iden_imei_bc s), fmt_w (s_assignment s), fmt_w (s_assign_complete s),
            fmt_w (s_handover s), fmt_w (s_forced_ho s), fmt_d (ga_chan_nr (s_ga s) AND 7),
            fmt_d (drop_bit 3 (ga_chan_nr (s_ga s))), fmt_d (ga_tsc (s_ga s)), fmt_d (ga_h (s_ga s)),
            fmt_d (ga_union (s_ga s)), fmt_d (ga_hsn (s_ga s)), fmt_d (ga_union (s_ga s)),
            fmt_d (int (ga_ma_len (s_ga s))), fmt_d (ga_chan_mode (s_ga s)), fmt_d (ga_rate_conf (s_ga s)),
            fmt_w (s_call_presence s), fmt_w (s_sms_presence s), fmt_w (s_serv_req s), imsi, imei, tmsi, new_tmsi,
            tlli, msisdn, fmt_w (s_ms_cipher_mask s), fmt_w (s_ue_cipher_cap s), fmt_w (s_ue_integrity_cap s)]))))) "

definition appid_statement :: "int \<Rightarrow> u32 \<Rightarrow> string" where
  "appid_statement sid appid =
     snprintf 8192 (''INSERT INTO sid_appid VALUES (%d,'' @ [quote] @ ''%x'' @ [quote] @ '');'' @ newline)
       [fmt_d sid, concat (map (\<lambda>k. [digit_char (unat (drop_bit (4 * k) appid AND 0xf))]) [7, 6, 5, 4, 3, 2, 1, 0])]"

section \<open>Short messages\<close>

definition sms_format :: string where
  "sms_format =
   ''INSERT INTO sms_meta (id,sequence,from_network,pid,dcs,alphabet,'' @
   ''class,udhi,concat,concat_frag,concat_total,'' @
   ''src_port,dst_port,ota,ota_iei,ota_enc,ota_enc_algo,'' @
   ''ota_sign,ota_sign_algo,ota_counter,ota_counter_value,ota_tar,ota_por,'' @
   ''smsc,msisdn,info,length,udh_length,real_length,data)'' @
   '' VALUES (%d,%d,%d,%d,%d,%d,'' @
   ''%d,%d,%d,%d,%d,'' @
   ''%d,%d,%d,%d,%d,%d,'' @
   ''%d,%d,%d,%s,%s,%d,'' @
   ''%s,%s,%s,%d,%d,%d,%s);'' @ newline"

definition sms_statement :: "(u8 list \<Rightarrow> u8 list) option \<Rightarrow> int \<Rightarrow> sms_meta \<Rightarrow> string res" where
  "sms_statement q sid sm =
     (let smsc = sql_str q (sm_smsc sm); msisdn = sql_str q (sm_msisdn sm); info = sql_str q (str_bytes (sm_info sm));
          tar = sql_str q (str_bytes (sm_ota_tar sm)); counter = sql_str q (str_bytes (sm_ota_counter sm))
      in rbind (if nz (sm_length sm) then rbind (sql_hex q (sm_data sm) (ucast (sm_length sm))) (\<lambda>t. Inr (CHR ''X'' # t))
                else Inr ([quote] @ ''<NO DATA>'' @ [quote])) (\<lambda>data.
         Inr (snprintf 8192 sms_format [
            fmt_d sid, fmt_w (sm_sequence sm), fmt_w (sm_from_network sm), fmt_w (sm_pid sm), fmt_w (sm_dcs sm),
            fmt_w (sm_alphabet sm), fmt_d (int (sm_class sm)), fmt_w (sm_udhi sm), fmt_w (sm_concat sm),
            fmt_w (sm_concat_frag sm), fmt_w (sm_concat_total sm), fmt_w (sm_src_port sm), fmt_w (sm_dst_port sm),
            fmt_w (sm_ota sm), fmt_w (sm_ota_iei sm), fmt_w (sm_ota_enc sm), fmt_w (sm_ota_enc_algo sm),
            fmt_w (sm_ota_sign sm), fmt_w (sm_ota_sign_algo sm), fmt_w (sm_ota_counter_type sm), counter, tar,
            fmt_w (sm_ota_por sm), smsc, msisdn, info, fmt_w (sm_length sm), fmt_w (sm_udh_length sm),
            fmt_w (sm_real_length sm), data])))"

section \<open>Cells\<close>

definition cell_insert_format :: string where
  "cell_insert_format =
   ''INSERT INTO cell_info ('' @
   ''id,first_seen,last_seen,mcc,mnc,lac,cid,'' @
   ''msc_ver,combined,agch_blocks,pag_mframes,t3212,dtx,'' @
   ''cro,temp_offset,pen_time,pwr_offset,gprs,'' @
   ''ba_len,neigh_2,neigh_2b,neigh_2t,'' @
   ''neigh_2q,neigh_5,neigh_5b,neigh_5t,'' @
   ''count_si1,count_si2,count_si2b,'' @
   ''count_si2t,count_si2q,count_si3,'' @
   ''count_si4,count_si5,count_si5b,'' @
   ''count_si5t,count_si6,count_si13,'' @
   ''si1,si2,si2b,si2t,si2q,si3,si4,si5,si5b,si5t,si6,si13) VALUES ('' @
   ''%d,%s,%s,%d,%d,%d,%d,'' @
   ''%d,%d,%d,%d,%d,%d,'' @
   ''%d,%d,%d,%d,%d,'' @
   ''%u,%u,%u,%u,'' @
   ''%u,%u,%u,%u,'' @
   ''%u,%u,%u,'' @
   ''%u,%u,%u,'' @
   ''%u,%u,%u,'' @
   ''%u,%u,%u,'' @
   ''%s,%s,%s,%s,'' @
   ''%s,%s,%s,%s,'' @
   ''%s,%s,%s,%s);''"

definition cell_update_format :: string where
  "cell_update_format =
   ''UPDATE cell_info SET '' @
   ''first_seen=%s,last_seen=%s,mcc=%d,mnc=%d,lac=%d,cid=%d,'' @
   ''msc_ver=%d,combined=%d,agch_blocks=%d,pag_mframes=%d,t3212=%d,dtx=%d,'' @
   ''cro=%d,temp_offset=%d,pen_time=%d,pwr_offset=%d,gprs=%d,'' @
   ''ba_len=%u,neigh_2=%u,neigh_2b=%u,neigh_2t=%u,'' @
   ''neigh_2q=%u,neigh_5=%u,neigh_5b=%u,neigh_5t=%u,'' @
   ''count_si1=%u,count_si2=%u,count_si2b=%u,'' @
   ''count_si2t=%u,count_si2q=%u,count_si3=%u,'' @
   ''count_si4=%u,count_si5=%u,count_si5b=%u,'' @
   ''count_si5t=%u,count_si6=%u,count_si13=%u,'' @
   ''si1=%s,si2=%s,si2b=%s,si2t=%s,si2q=%s,si3=%s,'' @
   ''si4=%s,si5=%s,si5b=%s,si5t=%s,si6=%s,si13=%s '' @
   ''WHERE id = %d;''"

definition cell_statement :: "(u8 list \<Rightarrow> u8 list) option \<Rightarrow> bool \<Rightarrow> cell_info \<Rightarrow> string res" where
  "cell_statement q sqlite ci =
     (let first_ts = sql_time sqlite (tv_sec (ci_first_seen ci)); last_ts = sql_time sqlite (tv_sec (ci_last_seen ci))
      in rbind (rfold (\<lambda>i hs. rbind (rd (ci_si_counter ci) i) (\<lambda>n.
             rbind (if nz n then rbind (rd (ci_si_data ci) i) (\<lambda>d. sql_hex q d 20) else Inr sql_null) (\<lambda>h.
             Inr (hs @ [h])))) [0..<SI_MAX] []) (\<lambda>si_hex.
         Inr (if ci_stored ci = 0
              then snprintf 8192 cell_insert_format [
                fmt_w (ci_id ci), first_ts, last_ts, fmt_w (ci_mcc ci), fmt_w (ci_mnc ci), fmt_w (ci_lac ci),
                fmt_w (ci_cid ci), fmt_w (ci_msc_ver ci), fmt_w (ci_combined ci), fmt_w (ci_agch_blocks ci),
                fmt_w (ci_pag_mframes ci), fmt_w (ci_t3212 ci), fmt_w (ci_dtx ci), fmt_w (ci_cro ci),
                fmt_w (ci_temp_offset ci), fmt_w (ci_pen_time ci), fmt_w (ci_pwr_offset ci), fmt_w (ci_gprs ci),
                fmt_u (ci_a_count ci ! SI1), fmt_u (ci_a_count ci ! SI2), fmt_u (ci_a_count ci ! SI2b),
                fmt_u (ci_a_count ci ! SI2t), fmt_u (ci_a_count ci ! SI2q), fmt_u (ci_a_count ci ! SI5),
                fmt_u (ci_a_count ci ! SI5b), fmt_u (ci_a_count ci ! SI5t), fmt_u (ci_si_counter ci ! SI1),
                fmt_u (ci_si_counter ci ! SI2), fmt_u (ci_si_counter ci ! SI2b), fmt_u (ci_si_counter ci ! SI2t),
                fmt_u (ci_si_counter ci ! SI2q), fmt_u (ci_si_counter ci ! SI3), fmt_u (ci_si_counter ci ! SI4),
                fmt_u (ci_si_counter ci ! SI5), fmt_u (ci_si_counter ci ! SI5b), fmt_u (ci_si_counter ci ! SI5t),
                fmt_u (ci_si_counter ci ! SI6), fmt_u (ci_si_counter ci ! SI13), si_hex ! SI1, si_hex ! SI2,
                si_hex ! SI2b, si_hex ! SI2t, si_hex ! SI2q, si_hex ! SI3, si_hex ! SI4, si_hex ! SI5, si_hex ! SI5b,
                si_hex ! SI5t, si_hex ! SI6, si_hex ! SI13]
              else snprintf 8192 cell_update_format [
                first_ts, last_ts, fmt_w (ci_mcc ci), fmt_w (ci_mnc ci), fmt_w (ci_lac ci), fmt_w (ci_cid ci),
                fmt_w (ci_msc_ver ci), fmt_w (ci_combined ci), fmt_w (ci_agch_blocks ci), fmt_w (ci_pag_mframes ci),
                fmt_w (ci_t3212 ci), fmt_w (ci_dtx ci), fmt_w (ci_cro ci), fmt_w (ci_temp_offset ci),
                fmt_w (ci_pen_time ci), fmt_w (ci_pwr_offset ci), fmt_w (ci_gprs ci), fmt_u (ci_a_count ci ! SI1),
                fmt_u (ci_a_count ci ! SI2), fmt_u (ci_a_count ci ! SI2b), fmt_u (ci_a_count ci ! SI2t),
                fmt_u (ci_a_count ci ! SI2q), fmt_u (ci_a_count ci ! SI5), fmt_u (ci_a_count ci ! SI5b),
                fmt_u (ci_a_count ci ! SI5t), fmt_u (ci_si_counter ci ! SI1), fmt_u (ci_si_counter ci ! SI2),
                fmt_u (ci_si_counter ci ! SI2b), fmt_u (ci_si_counter ci ! SI2t), fmt_u (ci_si_counter ci ! SI2q),
                fmt_u (ci_si_counter ci ! SI3), fmt_u (ci_si_counter ci ! SI4), fmt_u (ci_si_counter ci ! SI5),
                fmt_u (ci_si_counter ci ! SI5b), fmt_u (ci_si_counter ci ! SI5t), fmt_u (ci_si_counter ci ! SI6),
                fmt_u (ci_si_counter ci ! SI13), si_hex ! SI1, si_hex ! SI2, si_hex ! SI2b, si_hex ! SI2t,
                si_hex ! SI2q, si_hex ! SI3, si_hex ! SI4, si_hex ! SI5, si_hex ! SI5b, si_hex ! SI5t, si_hex ! SI6,
                si_hex ! SI13, fmt_w (ci_id ci)])))"

definition si_name :: "string list" where
  "si_name = [''SI1'', ''SI2'', ''SI2b'', ''SI2t'', ''SI2q'', ''SI3'', ''SI4'', ''SI5'', ''SI5b'', ''SI5t'', ''SI6'', ''SI13'']"

text \<open>One entry for every frequency with the bit of the message; the last comma, at the end of the text, becomes the semicolon.\<close>

definition arfcn_entry :: "cell_info \<Rightarrow> nat \<Rightarrow> nat \<Rightarrow> string" where
  "arfcn_entry ci index i =
     weave (pieces (''(%d,'' @ [quote] @ ''%s'' @ [quote] @ '',%d),'')) [fmt_w (ci_id ci), si_name ! index, fmt_d (int i)]"

definition arfcn_list_statement :: "nat \<Rightarrow> bool \<Rightarrow> cell_info \<Rightarrow> nat \<Rightarrow> string res" where
  "arfcn_list_statement len sqlite ci index =
     rbind (rfold (\<lambda>i query. rbind (rd (ci_arfcn_list ci) i) (\<lambda>m.
         Inr (if nz (m AND si_mask index) then append_text len (arfcn_entry ci index i) query else query)))
       [0..<1024]
       (snprintf len ''INSERT %sIGNORE INTO arfcn_list (id, source, arfcn) VALUES '' [if sqlite then ''OR '' else []])) (\<lambda>query.
     let offset = length query in
     rbind (rassert (offset > 0)) (\<lambda>_. Inr (take (offset - 1) query @ '';'')))"

section \<open>Paging\<close>

text \<open>
  The quotient of two unsigned numbers as \<open>float\<close>s: the operands are rounded to 24 bits, and the quotient of two such
  numbers is rounded to 24 bits again, here a fraction whose denominator is a power of 2.  \<open>%f\<close> prints the exact value of the quotient, rounded to six decimals.
\<close>

definition round_div :: "nat \<Rightarrow> nat \<Rightarrow> nat" where
  "round_div a b = (let q = a div b; r = a mod b in if 2 * r > b \<or> (2 * r = b \<and> odd q) then q + 1 else q)"

definition float_div :: "nat \<Rightarrow> nat \<Rightarrow> nat \<times> nat" where
  "float_div a b =
     (let k = 24 + bit_length b; l = bit_length a;
          n = a * 2 ^ (k - l); d = b * 2 ^ (l - k);
          s = (if n div d \<ge> 2 ^ 24 then 2 else 1)
      in (round_div n (d * s) * s * 2 ^ (l - k), 2 ^ (k - l)))"

definition fmt_rate :: "u32 \<Rightarrow> u32 \<Rightarrow> string" where
  "fmt_rate n d =
     (case float_div (fl24 (unat n)) (fl24 (unat d)) of (a, b) \<Rightarrow>
      let micro = round_div (a * 1000000) b
      in dec_str (micro div 1000000) @ ''.'' @
         concat (map (\<lambda>k. [digit_char (micro div 10 ^ k mod 10)]) [5, 4, 3, 2, 1, 0]))"

definition paging_statement :: "bool \<Rightarrow> u32 \<Rightarrow> u32 \<Rightarrow> u32 list \<Rightarrow> u32 \<Rightarrow> u32 \<Rightarrow> string" where
  "paging_statement sqlite epoch_now time_delta paging_count paging_imsi paging_tmsi =
     snprintf 8192 ''INSERT INTO paging_info VALUES (%s, %f, %f, %f, %f, %f);''
       [sql_time sqlite (ucast epoch_now), fmt_rate (paging_count ! 0) time_delta, fmt_rate (paging_count ! 1) time_delta,
        fmt_rate (paging_count ! 2) time_delta, fmt_rate paging_imsi time_delta, fmt_rate paging_tmsi time_delta]"

end
