(* ===== verification/Sql_Read.thy ===== *)
theory Sql_Read
  imports Sql_Text Contract Address
begin

text \<open>
  The statements of \<open>Sql_Text\<close>, read back.  A small reader of \<open>INSERT\<close> statements separates the columns and the values at the commas that are
  neither within quotes nor within parentheses; the theorems say that it finds, under each column, the field that belongs there.
\<close>

section \<open>A reader of statements\<close>

text \<open>The items of a list up to the parenthesis that closes it, and the rest; \<open>None\<close> when it is not closed.\<close>

fun read_list :: "nat \<Rightarrow> bool \<Rightarrow> string \<Rightarrow> string \<Rightarrow> (string list \<times> string) option" where
  "read_list d quoted cur [] = None"
| "read_list d quoted cur (c # cs) =
     (if quoted then read_list d (c \<noteq> quote) (cur @ [c]) cs
      else if c = quote then read_list d True (cur @ [c]) cs
      else if c = CHR ''('' then read_list (Suc d) False (cur @ [c]) cs
      else if c = CHR '')'' then if d = 0 then Some ([cur], cs) else read_list (d - 1) False (cur @ [c]) cs
      else if c = CHR '','' \<and> d = 0 then map_option (map_prod (Cons cur) id) (read_list 0 False [] cs)
      else read_list d False (cur @ [c]) cs)"

definition after_open :: "string \<Rightarrow> string" where
  "after_open t = drop 1 (dropWhile (\<lambda>c. c \<noteq> CHR ''('') t)"

text \<open>What precedes the first parenthesis, the columns, the values, and what follows.\<close>

definition read_insert :: "string \<Rightarrow> (string \<times> string list \<times> string list \<times> string) option" where
  "read_insert t =
     (case read_list 0 False [] (after_open t) of
        None \<Rightarrow> None
      | Some (cols, r) \<Rightarrow>
          map_option (\<lambda>(vals, r). (takeWhile (\<lambda>c. c \<noteq> CHR ''('') t, cols, vals, r)) (read_list 0 False [] (after_open r)))"

fun commas :: "string list \<Rightarrow> string" where
  "commas [] = []"
| "commas [x] = x"
| "commas (x # xs) = x @ '','' @ commas xs"

section \<open>Values\<close>

text \<open>A text is a value when the reader passes over it.\<close>

definition is_value :: "string \<Rightarrow> bool" where
  "is_value t \<longleftrightarrow> (\<forall>d cur cs. read_list d False cur (t @ cs) = read_list d False (cur @ t) cs)"

lemma is_value_read: "is_value t \<Longrightarrow> read_list d False cur (t @ cs) = read_list d False (cur @ t) cs"
  by (simp add: is_value_def)

lemma is_value_append: "is_value s \<Longrightarrow> is_value t \<Longrightarrow> is_value (s @ t)"
  by (simp add: is_value_def)

definition plain :: "char \<Rightarrow> bool" where
  "plain c \<longleftrightarrow> c \<notin> {quote, CHR ''('', CHR '')'', CHR '',''}"

lemma is_value_plain: "\<forall>c \<in> set t. plain c \<Longrightarrow> is_value t"
proof (induction t)
  case (Cons c t)
  then have "is_value t" "plain c" by simp_all
  then show ?case by (simp add: is_value_def plain_def)
qed (simp add: is_value_def)

lemma is_value_parens: "is_value t \<Longrightarrow> is_value (''('' @ t @ '')'')"
  by (simp add: is_value_def quote_def)

lemma read_commas: "vs \<noteq> [] \<Longrightarrow> \<forall>v \<in> set vs. is_value v \<Longrightarrow> read_list 0 False [] (commas vs @ CHR '')'' # cs) = Some (vs, cs)"
  by (induction vs rule: commas.induct) (simp_all add: is_value_read quote_def)

lemma digit_char_plain: "d < 16 \<Longrightarrow> plain (digit_char d) \<and> digit_char d \<notin> {CHR ''-'', CHR ''%''}"
proof -
  have "\<forall>d \<in> set [0..<16]. plain (digit_char d) \<and> digit_char d \<notin> {CHR ''-'', CHR ''%''}" by code_simp
  then show "d < 16 \<Longrightarrow> ?thesis" by simp
qed

lemma dec_str_plain: "c \<in> set (dec_str n) \<Longrightarrow> plain c"
proof (induction n rule: dec_str.induct)
  case (1 n)
  show ?case
  proof (cases "n < 10")
    case True
    with 1(2) show ?thesis using digit_char_plain [of n] by (simp add: dec_str.simps [of n])
  next
    case False
    with 1 show ?thesis using digit_char_plain [of "n mod 10"] by (auto simp: dec_str.simps [of n])
  qed
qed

lemma length_dec_str: "n < 10 ^ k \<Longrightarrow> 0 < k \<Longrightarrow> length (dec_str n) \<le> k"
proof (induction k arbitrary: n)
  case (Suc k)
  show ?case
  proof (cases "n < 10")
    case False
    with Suc.prems(1) have "n div 10 < 10 ^ k" "0 < k" by (auto simp: less_mult_imp_div_less intro: Suc_leI gr0I)
    from Suc.IH [OF this] False show ?thesis by (simp add: dec_str.simps [of n])
  qed (simp add: dec_str.simps)
qed simp

lemma is_value_dec: "is_value (dec_str n)"
  by (rule is_value_plain) (blast intro: dec_str_plain)

lemma fmt_d_value [simp]: "is_value (fmt_d x)"
  by (auto simp: fmt_d_def Let_def plain_def quote_def intro!: is_value_plain dest!: dec_str_plain)

lemma length_fmt_d: "length (fmt_d x) \<le> 11"
proof -
  have n: "nat v < 10 ^ 10" if "v \<le> 2 ^ 31" for v :: int
    using that by (cases "0 \<le> v") (simp_all add: nat_less_iff)
  have "nat (signed_take_bit 31 x) < 10 ^ 10" "nat (- signed_take_bit 31 x) < 10 ^ 10"
    using signed_take_bit_int_less_exp [of 31 x] signed_take_bit_int_greater_eq_minus_exp [of 31 x] by (intro n; simp)+
  then have "length (dec_str (nat (signed_take_bit 31 x))) \<le> 10" "length (dec_str (nat (- signed_take_bit 31 x))) \<le> 10"
    by (simp_all add: length_dec_str)
  then show ?thesis by (simp add: fmt_d_def Let_def)
qed

lemma fmt_w_value [simp]: "is_value (fmt_w w)" and fmt_u_value [simp]: "is_value (fmt_u w)"
  by (simp_all add: fmt_w_def fmt_u_def is_value_dec)

lemma length_fmt_w: "length (fmt_w w) \<le> 11"
  by (simp add: fmt_w_def length_fmt_d)

subsection \<open>Quoted texts\<close>

text \<open>What SQLite documents of \<open>%Q\<close>: the text in single quotes, with every single quote in it doubled.\<close>

definition doubled :: "u8 list \<Rightarrow> u8 list" where
  "doubled s = concat (map (\<lambda>b. if b = 0x27 then [b, b] else [b]) s)"

definition sqlite_Q :: "u8 list \<Rightarrow> u8 list" where
  "sqlite_Q s = [0x27] @ doubled s @ [0x27]"

text \<open>A text that comes out as one value: any text with SQLite, a text without quotes otherwise.\<close>

definition quotable :: "(u8 list \<Rightarrow> u8 list) option \<Rightarrow> u8 list \<Rightarrow> bool" where
  "quotable q s \<longleftrightarrow> q = Some sqlite_Q \<or> q = None \<and> 0x27 \<notin> set (cstr s)"

lemma cstr_cstr [simp]: "cstr (cstr s) = cstr s"
  by (simp add: cstr_def takeWhile_idem)

lemma cstr_nz: "\<forall>b \<in> set s. nz b \<Longrightarrow> cstr s = s"
  by (simp add: cstr_def takeWhile_eq_all_conv)

lemma set_cstr_nz: "b \<in> set (cstr s) \<Longrightarrow> nz b"
  by (auto simp: cstr_def dest: set_takeWhileD)

lemma length_cstr: "length (cstr s) \<le> length s"
  by (simp add: cstr_def length_takeWhile_le)

lemma length_doubled: "length (doubled s) \<le> 2 * length s"
  by (induction s) (auto simp: doubled_def)

abbreviation chars :: "u8 list \<Rightarrow> string" where
  "chars s \<equiv> map (\<lambda>b. char_of (unat b)) s"

lemma char_of_quote: "char_of (unat (b :: u8)) = quote \<longleftrightarrow> b = 0x27"
proof -
  have "b = 0x27" if "char_of (unat b) = (quote :: char)"
  proof -
    have "of_char (char_of (unat b) :: char) = (of_char quote :: nat)" using that by simp
    moreover have "unat b < 256" using unsigned_less [of b, where 'a = nat] by simp
    ultimately have "unat b = 39" by (simp add: quote_def)
    then show ?thesis by (metis of_nat_numeral of_nat_unat ucast_id)
  qed
  moreover have "char_of (unat (0x27 :: u8)) = quote" by code_simp
  ultimately show ?thesis by blast
qed

lemma read_doubled: "read_list d True cur (chars (doubled s) @ cs) = read_list d True (cur @ chars (doubled s)) cs"
  by (induction s arbitrary: cur) (auto simp: doubled_def char_of_quote)

lemma doubled_plain: "0x27 \<notin> set s \<Longrightarrow> doubled s = s"
  by (induction s) (auto simp: doubled_def)

lemma is_value_quoted: "is_value (chars ([0x27] @ doubled s @ [0x27]))"
proof -
  have "char_of (unat (0x27 :: u8)) = quote" by (simp only: char_of_quote)
  then show ?thesis by (simp add: is_value_def read_doubled)
qed

lemma sql_str_cases:
  assumes "quotable q s"
  shows "sql_str q s = (if cstr s = [] then ''NULL'' else chars (sqlite_Q (cstr s)))"
proof (cases "cstr s = []")
  case True
  have "bytes_str (str_bytes ''NULL'') = ''NULL''" by code_simp
  with True show ?thesis by (simp add: sql_str_def strescape_or_null_def)
next
  case False
  have "\<forall>b \<in> set (sqlite_Q (cstr s)). nz b" using set_cstr_nz by (auto simp: sqlite_Q_def doubled_def split: if_splits)
  then have nz: "bytes_str (sqlite_Q (cstr s)) = chars (sqlite_Q (cstr s))" by (simp add: bytes_str_def cstr_nz)
  have "strescape_or_null q (Some s) = sqlite_Q (cstr s)"
    using assms False by (auto simp: quotable_def strescape_or_null_def sqlite_Q_def doubled_plain)
  with False nz show ?thesis by (simp add: sql_str_def)
qed

lemma null_value [simp]: "is_value ''NULL''"
  by (rule is_value_plain) (simp add: plain_def quote_def)

lemma sql_null_eq [simp]: "sql_null = ''NULL''"
  unfolding sql_null_def by code_simp

lemma sql_str_value: "quotable q s \<Longrightarrow> is_value (sql_str q s)"
  using is_value_quoted [of "cstr s"] by (simp add: sql_str_cases sqlite_Q_def)

lemma length_sql_str: "quotable q s \<Longrightarrow> length (sql_str q s) \<le> 2 * length s + 4"
  using length_doubled [of "cstr s"] length_cstr [of s] by (auto simp: sql_str_cases sqlite_Q_def)

lemma sql_time_value:
  assumes "unat t < 10 ^ 16"
  shows "is_value (sql_time sqlite t)"
proof -
  have "length (dec_str (unat t)) \<le> 16" using length_dec_str [OF assms] by simp
  then have e: "sql_time sqlite t = (if sqlite then ''datetime'' @ ''('' @ (fmt_u t @ '', '' @ [quote] @ ''unixepoch'' @ [quote]) @ '')''
      else ''FROM_UNIXTIME'' @ ''('' @ fmt_u t @ '')'')"
    by (simp add: sql_time_def fmt_u_def)
  have v: "is_value ''datetime''" "is_value ''FROM_UNIXTIME''" by (rule is_value_plain, simp add: plain_def quote_def)+
  have "read_list (Suc d) False cur ((fmt_u t @ '', '' @ [quote] @ ''unixepoch'' @ [quote]) @ cs)
      = read_list (Suc d) False (cur @ fmt_u t @ '', '' @ [quote] @ ''unixepoch'' @ [quote]) cs" for d cur cs
    by (simp add: is_value_read quote_def)
  then have "is_value (''('' @ (fmt_u t @ '', '' @ [quote] @ ''unixepoch'' @ [quote]) @ '')'')"
    by (simp add: is_value_def quote_def)
  with v show ?thesis unfolding e by (simp only: is_value_append is_value_parens fmt_u_value split: if_split) blast
qed

lemma length_sql_time: "length (sql_time sqlite t) \<le> 39"
  by (simp add: sql_time_def)

section \<open>Statements\<close>

lemma weave_commas:
  "length args = Suc n \<Longrightarrow> weave (p # replicate n '','' @ [t]) args = p @ commas args @ t"
proof (induction n arbitrary: args p)
  case 0
  then show ?case by (cases args) auto
next
  case (Suc n)
  then obtain a as where a: "args = a # as" "length as = Suc n" by (cases args) auto
  then obtain b bs where b: "as = b # bs" by (cases as) auto
  from Suc.IH [OF a(2), of "'',''"] a b show ?case by simp
qed

lemma pieces_plain: "\<forall>c \<in> set t. c \<noteq> CHR ''%'' \<Longrightarrow> pieces (t @ CHR ''%'' # x # cs) = t # pieces cs"
  by (induction t) simp_all

lemma pieces_end: "\<forall>c \<in> set t. c \<noteq> CHR ''%'' \<Longrightarrow> pieces t = [t]"
  by (induction t) simp_all

lemma pieces_convs: "\<forall>c \<in> set t. c \<noteq> CHR ''%'' \<Longrightarrow>
   pieces (concat (map (\<lambda>x. CHR '','' # CHR ''%'' # [x]) convs) @ t) = replicate (length convs) '','' @ [t]"
  by (induction convs) (simp_all add: pieces_end)

lemma commas_Cons: "xs \<noteq> [] \<Longrightarrow> commas (x # xs) = x @ '','' @ commas xs"
  by (cases xs) simp_all

lemma read_statement:
  assumes "CHR ''('' \<notin> set table" and "cols \<noteq> []" "\<forall>c \<in> set cols. is_value c" and "vals \<noteq> []" "\<forall>v \<in> set vals. is_value v"
  shows "read_insert (table @ ''('' @ commas cols @ '') VALUES ('' @ commas vals @ '')'' @ r) = Some (table, cols, vals, r)"
proof -
  have t: "takeWhile (\<lambda>c. c \<noteq> CHR ''('') (table @ CHR ''('' # u) = table" "after_open (table @ CHR ''('' # u) = u" for u
    using assms(1) by (induction table) (auto simp: after_open_def)
  show ?thesis
    using read_commas [OF assms(2,3)] read_commas [OF assms(4,5)] t by (simp add: read_insert_def after_open_def [of "CHR '' '' # _"])
qed

lemma length_commas: "list_all2 (\<lambda>v b. length v \<le> b) vs bs \<Longrightarrow> length (commas vs) \<le> sum_list bs + length bs"
proof (induction vs bs rule: list_all2_induct)
  case (Cons v vs b bs)
  then show ?case by (cases vs) auto
qed simp

text \<open>
  The formats with one conversion for each column: the columns of the format name the values in their order.
\<close>

locale insert_format =
  fixes format table :: string and cols :: "string list" and conv :: char and convs r :: string
  assumes format_text: "format = (table @ ''('' @ commas cols @ '') VALUES ('') @ CHR ''%'' # conv # concat (map (\<lambda>x. CHR '','' # CHR ''%'' # [x]) convs) @ '')'' @ r"
    and columns: "length cols = Suc (length convs)" "\<forall>c \<in> set cols. \<forall>x \<in> set c. plain x"
    and no_conv: "\<forall>c \<in> set (table @ ''('' @ commas cols @ '') VALUES (''). c \<noteq> CHR ''%''" "\<forall>c \<in> set r. c \<noteq> CHR ''%''"
    and table_name: "CHR ''('' \<notin> set table"
begin

lemma cols_values: "cols \<noteq> []" "\<forall>c \<in> set cols. is_value c"
  using columns by (auto intro: is_value_plain)

lemma format_pieces: "pieces format = (table @ ''('' @ commas cols @ '') VALUES ('') # replicate (length cols - 1) '','' @ ['')'' @ r]"
proof -
  have "\<forall>c \<in> set ('')'' @ r). c \<noteq> CHR ''%''" using no_conv(2) by simp
  from pieces_plain [OF no_conv(1)] pieces_convs [OF this] columns(1) show ?thesis by (simp only: format_text diff_Suc_1)
qed

lemma woven:
  assumes "length vals = length cols"
  shows "weave (pieces format) vals = table @ ''('' @ commas cols @ '') VALUES ('' @ commas vals @ '')'' @ r"
  using weave_commas [of vals "length cols - 1"] assms cols_values(1) by (simp add: format_pieces)

lemma read_back:
  assumes "list_all2 (\<lambda>v b. length v \<le> b) vals bs" and "length bs = length cols" and "\<forall>v \<in> set vals. is_value v"
    and "length table + length (commas cols) + length r + sum_list bs + length bs + 13 < len"
  shows "read_insert (snprintf len format vals) = Some (table, cols, vals, r)"
proof -
  have n: "length vals = length cols" using assms(1,2) by (simp add: list_all2_lengthD)
  then have "length (weave (pieces format) vals) < len"
    using woven [OF n] length_commas [OF assms(1)] assms(4) by simp
  then have "snprintf len format vals = table @ ''('' @ commas cols @ '') VALUES ('' @ commas vals @ '')'' @ r"
    using woven [OF n] by (simp add: snprintf_def)
  moreover have "vals \<noteq> []" using n cols_values(1) by auto
  ultimately show ?thesis using read_statement [OF table_name cols_values _ assms(3)] by simp
qed

end

subsection \<open>Sessions\<close>

definition tmsi_value :: "(u8 list \<Rightarrow> u8 list) option \<Rightarrow> u8 list \<Rightarrow> string" where
  "tmsi_value q d = (if \<exists>b \<in> set d. nz b then sql_str q (str_bytes (hexdump d)) else ''NULL'')"

text \<open>The row of a session: which field belongs under which column.\<close>

definition session_row :: "(u8 list \<Rightarrow> u8 list) option \<Rightarrow> bool \<Rightarrow> session_info \<Rightarrow> (string \<times> string) list" where
  "session_row q sqlite s =
     (if s_id s \<ge> 0 then [(''id'', fmt_d (s_id s))] else []) @ [
      (''timestamp'', sql_time sqlite (tv_sec (s_timestamp s))), (''rat'', fmt_w (s_rat s)), (''domain'', fmt_w (s_domain s)),
      (''mcc'', fmt_w (s_mcc s)), (''mnc'', fmt_w (s_mnc s)), (''lac'', fmt_w (s_lac s)), (''cid'', fmt_w (s_cid s)),
      (''arfcn'', fmt_w (s_arfcn s)), (''psc'', fmt_w (s_psc s)), (''cracked'', fmt_w (s_cracked s)),
      (''neigh_count'', fmt_w (s_neigh_count s)), (''unenc'', fmt_w (fc_unenc (s_fc s))),
      (''unenc_rand'', fmt_w (fc_unenc_rand (s_fc s))), (''enc'', fmt_w (fc_enc (s_fc s))),
      (''enc_rand'', fmt_w (fc_enc_rand (s_fc s))), (''enc_null'', fmt_w (fc_enc_null (s_fc s))),
      (''enc_null_rand'', fmt_w (fc_enc_null_rand (s_fc s))), (''enc_si'', fmt_w (fc_enc_si (s_fc s))),
      (''enc_si_rand'', fmt_w (fc_enc_si_rand (s_fc s))), (''predict'', fmt_w (fc_predict (s_fc s))),
      (''avg_power'', fmt_w (s_avg_power s)), (''uplink_avail'', fmt_w (s_uplink s)),
      (''initial_seq'', fmt_w (s_initial_seq s)), (''cipher_seq'', fmt_w (s_cipher_seq s)),
      (''auth'', fmt_w (s_auth s)), (''auth_req_fn'', fmt_w (s_auth_req_fn s)),
      (''auth_resp_fn'', fmt_w (s_auth_resp_fn s)), (''auth_delta'', fmt_w (s_auth_delta s)),
      (''cipher_missing'', fmt_d (sint (s_cipher_missing s))), (''cipher_comp_first'', fmt_w (s_cm_comp_first_fn s)),
      (''cipher_comp_last'', fmt_w (s_cm_comp_last_fn s)), (''cipher_comp_count'', fmt_w (s_cm_comp_count s)),
      (''cipher_delta'', fmt_w (s_cipher_delta s)), (''cipher'', fmt_w (s_cipher s)),
      (''integrity'', fmt_w (s_integrity s)), (''cmc_imeisv'', fmt_w (s_cmc_imeisv s)),
      (''first_fn'', fmt_w (s_first_fn s)), (''last_fn'', fmt_w (s_last_fn s)), (''duration'', fmt_w (s_duration s)),
      (''mobile_orig'', fmt_w (s_mo s)), (''mobile_term'', fmt_w (s_mt s)), (''paging_mi'', fmt_w (s_pag_mi s)),
      (''t_unknown'', fmt_w (s_unknown s)), (''t_detach'', fmt_w (s_detach s)), (''t_locupd'', fmt_w (s_locupd s)),
      (''lu_type'', fmt_w (s_lu_type s)), (''lu_acc'', fmt_w (s_lu_acc s)), (''lu_reject'', fmt_w (s_lu_reject s)),
      (''lu_rej_cause'', fmt_w (s_lu_rej_cause s)), (''lu_mcc'', fmt_w (s_lu_mcc s)),
      (''lu_mnc'', fmt_w (s_lu_mnc s)), (''lu_lac'', fmt_w (s_lu_lac s)), (''t_abort'', fmt_w (s_abort s)),
      (''t_raupd'', fmt_w (s_raupd s)), (''t_attach'', fmt_w (s_attach s)), (''att_acc'', fmt_w (s_att_acc s)),
      (''t_pdp'', fmt_w (s_pdp_activate s)), (''pdp_ip'', sql_str q (s_pdp_ip s)), (''t_call'', fmt_w (s_call s)),
      (''t_sms'', fmt_w (s_sms s)), (''t_ss'', fmt_w (s_ssa s)), (''t_tmsi_realloc'', fmt_w (s_tmsi_realloc s)),
      (''t_release'', fmt_w (s_release s)), (''rr_cause'', fmt_w (s_rr_cause s)),
      (''t_gprs'', fmt_w (s_have_gprs s)), (''iden_imsi_ac'', fmt_w (s_iden_imsi_ac s)),
      (''iden_imsi_bc'', fmt_w (s_iden_imsi_bc s)), (''iden_imei_ac'', fmt_w (s_iden_imei_ac s)),
      (''iden_imei_bc'', fmt_w (s_iden_imei_bc s)), (''assign'', fmt_w (s_assignment s)),
      (''assign_cmpl'', fmt_w (s_assign_complete s)), (''handover'', fmt_w (s_handover s)),
      (''forced_ho'', fmt_w (s_forced_ho s)), (''a_timeslot'', fmt_d (ga_chan_nr (s_ga s) AND 7)),
      (''a_chan_type'', fmt_d (drop_bit 3 (ga_chan_nr (s_ga s)))), (''a_tsc'', fmt_d (ga_tsc (s_ga s))),
      (''a_hopping'', fmt_d (ga_h (s_ga s))), (''a_arfcn'', fmt_d (ga_union (s_ga s))),
      (''a_hsn'', fmt_d (ga_hsn (s_ga s))), (''a_maio'', fmt_d (ga_union (s_ga s))),
      (''a_ma_len'', fmt_d (int (ga_ma_len (s_ga s)))), (''a_chan_mode'', fmt_d (ga_chan_mode (s_ga s))),
      (''a_multirate'', fmt_d (ga_rate_conf (s_ga s))), (''call_presence'', fmt_w (s_call_presence s)),
      (''sms_presence'', fmt_w (s_sms_presence s)), (''service_req'', fmt_w (s_serv_req s)), (''imsi'', sql_str q (s_imsi s)),
      (''imei'', sql_str q (s_imei s)), (''tmsi'', tmsi_value q (s_old_tmsi s)), (''new_tmsi'', tmsi_value q (s_new_tmsi s)), (''tlli'', tmsi_value q (s_tlli s)), (''msisdn'', sql_str q (s_msisdn s)),
      (''ms_cipher_mask'', fmt_w (s_ms_cipher_mask s)), (''ue_cipher_cap'', fmt_w (s_ue_cipher_cap s)),
      (''ue_integrity_cap'', fmt_w (s_ue_integrity_cap s))]"

definition session_cols :: "string list" where
  "session_cols = [
      ''timestamp'', ''rat'', ''domain'', ''mcc'', ''mnc'', ''lac'', ''cid'', ''arfcn'', ''psc'', ''cracked'',
      ''neigh_count'', ''unenc'', ''unenc_rand'', ''enc'', ''enc_rand'', ''enc_null'', ''enc_null_rand'', ''enc_si'',
      ''enc_si_rand'', ''predict'', ''avg_power'', ''uplink_avail'', ''initial_seq'', ''cipher_seq'', ''auth'',
      ''auth_req_fn'', ''auth_resp_fn'', ''auth_delta'', ''cipher_missing'', ''cipher_comp_first'',
      ''cipher_comp_last'', ''cipher_comp_count'', ''cipher_delta'', ''cipher'', ''integrity'', ''cmc_imeisv'',
      ''first_fn'', ''last_fn'', ''duration'', ''mobile_orig'', ''mobile_term'', ''paging_mi'', ''t_unknown'',
      ''t_detach'', ''t_locupd'', ''lu_type'', ''lu_acc'', ''lu_reject'', ''lu_rej_cause'', ''lu_mcc'', ''lu_mnc'',
      ''lu_lac'', ''t_abort'', ''t_raupd'', ''t_attach'', ''att_acc'', ''t_pdp'', ''pdp_ip'', ''t_call'', ''t_sms'',
      ''t_ss'', ''t_tmsi_realloc'', ''t_release'', ''rr_cause'', ''t_gprs'', ''iden_imsi_ac'', ''iden_imsi_bc'',
      ''iden_imei_ac'', ''iden_imei_bc'', ''assign'', ''assign_cmpl'', ''handover'', ''forced_ho'', ''a_timeslot'',
      ''a_chan_type'', ''a_tsc'', ''a_hopping'', ''a_arfcn'', ''a_hsn'', ''a_maio'', ''a_ma_len'', ''a_chan_mode'',
      ''a_multirate'', ''call_presence'', ''sms_presence'', ''service_req'', ''imsi'', ''imei'', ''tmsi'',
      ''new_tmsi'', ''tlli'', ''msisdn'', ''ms_cipher_mask'', ''ue_cipher_cap'', ''ue_integrity_cap'']"

lemma session_format_split:
  "session_format = ''INSERT INTO session_info ('' @ CHR ''%'' # CHR ''s'' # (commas session_cols @ '') VALUES ('') @ CHR ''%'' # CHR ''s'' # [] @ CHR ''%'' # CHR ''s'' #
     concat (map (\<lambda>x. CHR '','' # CHR ''%'' # [x])
       ''ddddddddddddddddddddddddddddddddddddddddddddddddddddddddsddddddddddddddddddddddddddddssssssddd'') @ '');'' @ newline"
  unfolding session_format_def session_cols_def newline_def by code_simp

lemma session_cols_plain: "\<forall>c \<in> set (commas session_cols @ '') VALUES (''). c \<noteq> CHR ''%''" "\<forall>c \<in> set session_cols. \<forall>x \<in> set c. plain x"
  unfolding session_cols_def plain_def quote_def by code_simp+

lemma session_pieces:
  "pieces session_format = ''INSERT INTO session_info ('' # (commas session_cols @ '') VALUES ('') # [] # replicate 94 '','' @ ['');'' @ newline]"
  unfolding session_format_split
  by (subst pieces_plain, simp, subst pieces_plain, rule session_cols_plain, subst pieces_plain, simp, subst pieces_convs) (simp_all add: newline_def eval_nat_numeral)

lemma hexdump_text: "\<forall>c \<in> set (hexdump d). plain c" "length (hexdump d) = 2 * length d"
proof -
  have "unat b div 16 < 16" for b :: u8 using unsigned_less [of b, where 'a = nat] by simp
  then show "\<forall>c \<in> set (hexdump d). plain c" using digit_char_plain by (auto simp: hexdump_def hex2_def)
  show "length (hexdump d) = 2 * length d" by (induction d) (simp_all add: hexdump_def hex2_def)
qed

lemma of_char_quote:
  assumes "of_char c = (0x27 :: u8)"
  shows "c = quote"
proof -
  have "unat (of_nat (of_char c :: nat) :: u8) = (of_char c :: nat)"
    using nat_of_char_less_256 [of c] by (intro unat_of_nat_small) simp
  with assms have "(of_char c :: nat) = 39" by (simp add: of_nat_of_char)
  then have "char_of (of_char c :: nat) = (char_of (39 :: nat) :: char)" by simp
  moreover have "char_of (39 :: nat) = quote" by code_simp
  ultimately show ?thesis by simp
qed

lemma plain_quotable:
  assumes "q = None \<or> q = Some sqlite_Q" and "\<forall>c \<in> set t. plain c"
  shows "quotable q (str_bytes t)"
proof -
  have "of_char c \<noteq> (0x27 :: u8)" if "c \<in> set t" for c using that assms(2) of_char_quote [of c] by (auto simp: plain_def)
  then have "0x27 \<notin> set (cstr (str_bytes t))" by (metis cstr_def imageE list.set_map set_takeWhileD str_bytes_def)
  with assms(1) show ?thesis by (auto simp: quotable_def)
qed

lemma hexdump_quotable: "q = None \<or> q = Some sqlite_Q \<Longrightarrow> quotable q (str_bytes (hexdump d))"
  using plain_quotable hexdump_text(1) by blast

lemma quotable_kind: "quotable q s \<Longrightarrow> q = None \<or> q = Some sqlite_Q"
  by (auto simp: quotable_def)

lemma sql_hex_eq:
  assumes "unat n \<le> length d" and "unat n < 2048"
  shows "sql_hex q d n = Inr (sql_str q (str_bytes (hexdump (take (unat n) d))))"
proof -
  have "uint n < 2048" using of_nat_less_iff [where 'a = int, of "unat n" 2048] assms(2) by simp
  then have "sint n = uint n"
    unfolding sint_uint by (intro signed_take_bit_int_eq_self) (simp_all, rule order_trans [of _ 0], simp_all)
  then have "\<not> sint n < 0" by simp
  moreover have "min (unat n) 2047 = unat n" using assms(2) by simp
  ultimately show ?thesis using assms(1) by (simp add: sql_hex_def osmo_hexdump_nospc_def)
qed

lemma tmsi_text_value:
  assumes "length d = 4"
  shows "tmsi_text q d = Inr (tmsi_value q d)"
proof -
  from assms obtain a b c e where d: "d = [a, b, c, e]" by (auto simp: length_Suc_conv eval_nat_numeral)
  have "not_zero d 4 = Inr (\<exists>b \<in> set d. nz b)"
    by (simp add: d not_zero_def not_zero_from.simps eval_nat_numeral)
  moreover have "sql_hex q d 4 = Inr (sql_str q (str_bytes (hexdump d)))" using assms sql_hex_eq [of 4 d q] by simp
  ultimately show ?thesis by (simp add: tmsi_text_def tmsi_value_def)
qed

lemma tmsi_value_ok:
  assumes "q = None \<or> q = Some sqlite_Q"
  shows "is_value (tmsi_value q d)" "length (tmsi_value q d) \<le> 4 * length d + 4"
proof -
  note h = hexdump_quotable [OF assms, of d]
  show "is_value (tmsi_value q d)" using sql_str_value [OF h] by (simp add: tmsi_value_def)
  show "length (tmsi_value q d) \<le> 4 * length d + 4"
    using length_sql_str [OF h] by (simp add: tmsi_value_def hexdump_text(2) str_bytes_def)
qed

lemma session_row_cols: "map fst (session_row q sqlite s) = (if s_id s \<ge> 0 then [''id''] else []) @ session_cols"
  by (simp add: session_row_def session_cols_def)

lemma session_row_values:
  assumes "session_ok s" and "length (s_pdp_ip s) = 16" and "length (s_tlli s) = 4" and "unat (tv_sec (s_timestamp s)) < 10 ^ 16"
    and "\<forall>t \<in> {s_imsi s, s_imei s, s_msisdn s, s_pdp_ip s}. quotable q t"
  shows "\<forall>v \<in> set (map snd (session_row q sqlite s)). is_value v \<and> length v \<le> 68"
proof -
  have q: "q = None \<or> q = Some sqlite_Q" using assms(5) quotable_kind by blast
  note t = tmsi_value_ok [OF q]
  have n: "length (s_imsi s) = 32" "length (s_imei s) = 32" "length (s_msisdn s) = 32" "length (s_old_tmsi s) = 4" "length (s_new_tmsi s) = 4"
    using assms(1) by (simp_all add: session_ok_def)
  have u: "is_value (sql_str q x) \<and> length (sql_str q x) \<le> 68" if "x \<in> {s_imsi s, s_imei s, s_msisdn s, s_pdp_ip s}" for x
    using that assms(2,5) n sql_str_value [of q x] length_sql_str [of q x] by auto
  have d: "length (fmt_d x) \<le> 68" for x by (rule le_trans [OF length_fmt_d]) simp
  then have w: "length (fmt_w x) \<le> 68" for x :: "'a::len word" by (simp add: fmt_w_def)
  have "length (sql_time sqlite x) \<le> 68" for x by (rule le_trans [OF length_sql_time]) simp
  moreover have "length (tmsi_value q x) \<le> 68" if "x \<in> {s_old_tmsi s, s_new_tmsi s, s_tlli s}" for x
    by (rule le_trans [OF t(2)]) (use that n assms(3) in auto)
  ultimately show ?thesis
    using sql_time_value [OF assms(4)] t(1) u d
    by (simp add: session_row_def fmt_w_def)
qed

lemma session_statement_text:
  assumes "session_ok s" and "length (s_tlli s) = 4" and "length (weave (pieces session_format) (id_field # id_value # vals)) < 8192"
    and "(id_field, id_value) = (if s_id s \<ge> 0 then (''id,'', fmt_d (s_id s) @ '','') else ([], []))"
    and "map snd (session_row q sqlite s) = map snd (if s_id s \<ge> 0 then [(''id'', fmt_d (s_id s))] else []) @ vals"
  shows "session_statement q sqlite s = Inr (weave (pieces session_format) (id_field # id_value # vals))"
proof -
  have v: "vals = map snd (drop (if s_id s \<ge> 0 then 1 else 0) (session_row q sqlite s))"
    using assms(5) by (simp add: drop_map [symmetric])
  have t: "tmsi_text q d = Inr (tmsi_value q d)" if "d \<in> {s_old_tmsi s, s_new_tmsi s, s_tlli s}" for d
    using that assms(1,2) by (intro tmsi_text_value) (auto simp: session_ok_def)
  have "take 15 (fmt_d (s_id s) @ '','') = fmt_d (s_id s) @ '',''" using length_fmt_d [of "s_id s"] by simp
  then show ?thesis
    using assms(3,4) unfolding v
    by (simp add: session_statement_def t Let_def session_row_def snprintf_def split: if_splits)
qed

lemma session_row_names: "\<forall>x \<in> set (map fst (session_row q sqlite s)). is_value x"
proof -
  have "\<forall>x \<in> set session_cols. is_value x" using session_cols_plain(2) is_value_plain by blast
  moreover have "is_value ''id''" by (rule is_value_plain) (simp add: plain_def quote_def)
  ultimately show ?thesis by (auto simp: session_row_cols)
qed

lemma session_woven:
  assumes "(idf, idv) = (if s_id s \<ge> 0 then (''id,'', fmt_d (s_id s) @ '','') else ([], []))"
    and "map snd (session_row q sqlite s) = map snd (if s_id s \<ge> 0 then [(''id'', fmt_d (s_id s))] else []) @ vals"
  shows "weave (pieces session_format) (idf # idv # vals) =
      ''INSERT INTO session_info '' @ ''('' @ commas (map fst (session_row q sqlite s)) @ '') VALUES ('' @ commas (map snd (session_row q sqlite s)) @ '')'' @ '';'' @ newline"
proof -
  have n: "length vals = Suc 94"
    using arg_cong [OF assms(2), of length] by (simp add: session_row_def split: if_splits)
  then have ne: "session_cols \<noteq> []" "vals \<noteq> []" by (auto simp: session_cols_def)
  have c: "idf @ commas session_cols = commas (map fst (session_row q sqlite s))" "idv @ commas vals = commas (map snd (session_row q sqlite s))"
    using assms(1) ne unfolding session_row_cols assms(2) by (cases "s_id s \<ge> 0"; simp add: commas_Cons)+
  have "weave (pieces session_format) (idf # idv # vals) =
      ''INSERT INTO session_info ('' @ idf @ (commas session_cols @ '') VALUES ('') @ idv @ commas vals @ '');'' @ newline"
    using weave_commas [OF n, of "[]"] by (simp add: session_pieces)
  then show ?thesis unfolding c [symmetric] by simp
qed

text \<open>C12. The statement of a session is the row of its fields: for a session whose texts can be quoted, the reader finds in the text that \<open>session_make_sql\<close>
  prints, whole and not truncated, under each column the field of that name, with the identifier first when it is not
  negative.  With SQLite every text can be quoted, without it those that contain no single quote.\<close>

theorem session_sql_row:
  assumes "session_ok s" and "length (s_pdp_ip s) = 16" and "length (s_tlli s) = 4" and "unat (tv_sec (s_timestamp s)) < 10 ^ 16"
    and "\<forall>t \<in> {s_imsi s, s_imei s, s_msisdn s, s_pdp_ip s}. quotable q t"
  shows "\<exists>t. session_statement q sqlite s = Inr t
    \<and> read_insert t = Some (''INSERT INTO session_info '', map fst (session_row q sqlite s), map snd (session_row q sqlite s), '';'' @ newline)"
proof -
  let ?row = "session_row q sqlite s" and ?id = "if s_id s \<ge> 0 then [(''id'', fmt_d (s_id s))] else []"
  define vals where "vals = map snd (drop (length ?id) ?row)"
  have v: "map snd ?row = map snd ?id @ vals" by (simp add: vals_def session_row_def)
  obtain idf idv where id: "(idf, idv) = (if s_id s \<ge> 0 then (''id,'', fmt_d (s_id s) @ '','') else ([], []))"
    by (cases "if s_id s \<ge> 0 then (''id,'', fmt_d (s_id s) @ '','') else ([], [])") simp
  note t = session_woven [OF id v] and ok = session_row_values [OF assms, of sqlite]
  have n: "length ?row \<le> 96" "?row \<noteq> []" by (simp_all add: session_row_def)
  have "length (commas (map snd ?row)) \<le> sum_list (replicate (length ?row) 68) + length (replicate (length ?row) (68 :: nat))"
    by (rule length_commas) (use ok in \<open>simp add: list_all2_conv_all_nth\<close>)
  moreover have "length (commas (map fst ?row)) \<le> 1200" by (simp add: session_row_cols session_cols_def)
  ultimately have "length (weave (pieces session_format) (idf # idv # vals)) < 8192"
    unfolding t using n(1) by (simp add: sum_list_replicate newline_def)
  from session_statement_text [OF assms(1,3) this id v]
  have stmt: "session_statement q sqlite s = Inr (weave (pieces session_format) (idf # idv # vals))" .
  have "\<forall>v \<in> set (map snd ?row). is_value v" using ok by blast
  then have "read_insert (weave (pieces session_format) (idf # idv # vals)) = Some (''INSERT INTO session_info '', map fst ?row, map snd ?row, '';'' @ newline)"
    unfolding t using n(2) session_row_names by (intro read_statement) simp_all
  with stmt show ?thesis by blast
qed

text \<open>A session with an identity that needs doubled quotes.\<close>

definition sample_session :: session_info where
  "sample_session = zero_session\<lparr>s_started := 1, s_imsi := str_bytes ''26'' @ [0x27] @ replicate 29 0\<rparr>"

theorem session_sql_row_witness:
  "\<exists>t. session_statement (Some sqlite_Q) True sample_session = Inr t
    \<and> read_insert t = Some (''INSERT INTO session_info '', map fst (session_row (Some sqlite_Q) True sample_session),
        map snd (session_row (Some sqlite_Q) True sample_session), '';'' @ newline)"
proof (rule session_sql_row)
  show "session_ok sample_session"
    by (simp add: sample_session_def session_ok_def zero_session_def zero_assignment_def lapdm_bufs_ok_def zero_lapdm_buf_def rands_def
        zero_rand_state_def rand_ok_def str_bytes_def)
qed (simp_all add: sample_session_def zero_session_def zero_timeval_def quotable_def)

subsection \<open>Short messages\<close>

definition data_value :: "(u8 list \<Rightarrow> u8 list) option \<Rightarrow> sms_meta \<Rightarrow> string" where
  "data_value q sm =
     (if nz (sm_length sm) then CHR ''X'' # sql_str q (str_bytes (hexdump (take (unat (sm_length sm)) (sm_data sm))))
      else [quote] @ ''<NO DATA>'' @ [quote])"

definition sms_row :: "(u8 list \<Rightarrow> u8 list) option \<Rightarrow> int \<Rightarrow> sms_meta \<Rightarrow> (string \<times> string) list" where
  "sms_row q sid sm = [
      (''id'', fmt_d sid), (''sequence'', fmt_w (sm_sequence sm)), (''from_network'', fmt_w (sm_from_network sm)),
      (''pid'', fmt_w (sm_pid sm)), (''dcs'', fmt_w (sm_dcs sm)), (''alphabet'', fmt_w (sm_alphabet sm)),
      (''class'', fmt_d (int (sm_class sm))), (''udhi'', fmt_w (sm_udhi sm)), (''concat'', fmt_w (sm_concat sm)),
      (''concat_frag'', fmt_w (sm_concat_frag sm)), (''concat_total'', fmt_w (sm_concat_total sm)),
      (''src_port'', fmt_w (sm_src_port sm)), (''dst_port'', fmt_w (sm_dst_port sm)), (''ota'', fmt_w (sm_ota sm)),
      (''ota_iei'', fmt_w (sm_ota_iei sm)), (''ota_enc'', fmt_w (sm_ota_enc sm)),
      (''ota_enc_algo'', fmt_w (sm_ota_enc_algo sm)), (''ota_sign'', fmt_w (sm_ota_sign sm)),
      (''ota_sign_algo'', fmt_w (sm_ota_sign_algo sm)), (''ota_counter'', fmt_w (sm_ota_counter_type sm)),
      (''ota_counter_value'', sql_str q (str_bytes (sm_ota_counter sm))), (''ota_tar'', sql_str q (str_bytes (sm_ota_tar sm))), (''ota_por'', fmt_w (sm_ota_por sm)), (''smsc'', sql_str q (sm_smsc sm)),
      (''msisdn'', sql_str q (sm_msisdn sm)), (''info'', sql_str q (str_bytes (sm_info sm))), (''length'', fmt_w (sm_length sm)),
      (''udh_length'', fmt_w (sm_udh_length sm)), (''real_length'', fmt_w (sm_real_length sm)), (''data'', data_value q sm)]"

definition sms_ok :: "sms_meta \<Rightarrow> bool" where
  "sms_ok sm \<longleftrightarrow> length (sm_smsc sm) = 32 \<and> length (sm_msisdn sm) = 32 \<and> length (sm_data sm) = 256 \<and> length (sm_info sm) \<le> 255
     \<and> length (sm_ota_tar sm) \<le> 6 \<and> length (sm_ota_counter sm) \<le> 10"

definition sms_cols :: "string list" where
  "sms_cols = map fst (sms_row None 0 zero_sms)"

lemma sms_cols_list: "sms_cols = [
      ''id'', ''sequence'', ''from_network'', ''pid'', ''dcs'', ''alphabet'', ''class'', ''udhi'', ''concat'', ''concat_frag'', ''concat_total'', ''src_port'', ''dst_port'', ''ota'', ''ota_iei'',
      ''ota_enc'', ''ota_enc_algo'', ''ota_sign'', ''ota_sign_algo'', ''ota_counter'', ''ota_counter_value'', ''ota_tar'', ''ota_por'', ''smsc'', ''msisdn'', ''info'', ''length'', ''udh_length'', ''real_length'', ''data'']"
  by (simp add: sms_cols_def sms_row_def)

interpretation sms: insert_format sms_format "''INSERT INTO sms_meta ''" sms_cols "CHR ''d''" "''dddddddddddddddddddssdsssddds''" "'';'' @ newline"
proof
  show "sms_format = (''INSERT INTO sms_meta '' @ ''('' @ commas sms_cols @ '') VALUES ('') @ CHR ''%'' # CHR ''d'' #
      concat (map (\<lambda>x. CHR '','' # CHR ''%'' # [x]) ''dddddddddddddddddddssdsssddds'') @ '')'' @ '';'' @ newline"
    unfolding sms_format_def sms_cols_list newline_def by code_simp
  show "\<forall>c \<in> set sms_cols. \<forall>x \<in> set c. plain x" unfolding sms_cols_list plain_def quote_def by code_simp
  show "\<forall>c \<in> set (''INSERT INTO sms_meta '' @ ''('' @ commas sms_cols @ '') VALUES (''). c \<noteq> CHR ''%''"
    unfolding sms_cols_list by code_simp
qed (simp_all add: sms_cols_list newline_def)

lemma sms_statement_vals:
  assumes "sms_ok sm"
  shows "sms_statement q sid sm = Inr (snprintf 8192 sms_format (map snd (sms_row q sid sm)))"
proof -
  have "unat (ucast (sm_length sm) :: u32) = unat (sm_length sm)" by (simp add: unat_ucast_up)
  moreover have "unat (sm_length sm) < 256" using unsigned_less [of "sm_length sm", where 'a = nat] by simp
  ultimately have "sql_hex q (sm_data sm) (ucast (sm_length sm)) = Inr (sql_str q (str_bytes (hexdump (take (unat (sm_length sm)) (sm_data sm)))))"
    using assms sql_hex_eq [of "ucast (sm_length sm)" "sm_data sm" q] by (simp add: sms_ok_def)
  then show ?thesis by (simp add: sms_statement_def Let_def sms_row_def data_value_def)
qed

lemma data_value_ok:
  assumes "q = None \<or> q = Some sqlite_Q"
  shows "is_value (data_value q sm)" "length (data_value q sm) \<le> 1025"
proof -
  let ?h = "hexdump (take (unat (sm_length sm)) (sm_data sm))"
  note h = hexdump_quotable [OF assms, of "take (unat (sm_length sm)) (sm_data sm)"]
  have "is_value ''X''" by (rule is_value_plain) (simp add: plain_def quote_def)
  from is_value_append [OF this sql_str_value [OF h]] show "is_value (data_value q sm)"
    by (auto simp: data_value_def) (simp add: is_value_def quote_def)
  have "length ?h \<le> 510" using unsigned_less [of "sm_length sm", where 'a = nat] by (simp add: hexdump_text(2) min_def)
  with length_sql_str [OF h] show "length (data_value q sm) \<le> 1025" by (simp add: data_value_def str_bytes_def)
qed

definition sms_texts :: "sms_meta \<Rightarrow> u8 list set" where
  "sms_texts sm = {sm_smsc sm, str_bytes (sm_info sm), str_bytes (sm_ota_tar sm), str_bytes (sm_ota_counter sm)}"

definition sms_bounds :: "nat list" where
  "sms_bounds = [11, 11, 11, 11, 11, 11, 11, 11, 11, 11, 11, 11, 11, 11, 11, 11, 11, 11, 11, 11, 24, 16, 11, 68, 68, 514, 11, 11, 11, 1025]"

text \<open>All values but the number of the other party, the one text that comes from the message as it is.\<close>

lemma sms_row_ok:
  assumes "sms_ok sm" and "\<forall>t \<in> sms_texts sm. quotable q t"
  shows "\<forall>v \<in> set (map snd (filter (\<lambda>(c, v). c \<noteq> ''msisdn'') (sms_row q sid sm))). is_value v"
    and "length (sql_str q (sm_msisdn sm)) \<le> 68 \<Longrightarrow> list_all2 (\<lambda>v b. length v \<le> b) (map snd (sms_row q sid sm)) sms_bounds"
proof -
  have q: "q = None \<or> q = Some sqlite_Q" using assms(2) quotable_kind by (auto simp: sms_texts_def)
  have t: "is_value (sql_str q x)" "length (sql_str q x) \<le> 2 * length x + 4" if "x \<in> sms_texts sm" for x
    using that assms(2) sql_str_value length_sql_str by blast+
  note d = data_value_ok [OF q, of sm]
  show "\<forall>v \<in> set (map snd (filter (\<lambda>(c, v). c \<noteq> ''msisdn'') (sms_row q sid sm))). is_value v"
    using t(1) d(1) by (simp add: sms_row_def sms_texts_def)
  show "list_all2 (\<lambda>v b. length v \<le> b) (map snd (sms_row q sid sm)) sms_bounds" if "length (sql_str q (sm_msisdn sm)) \<le> 68"
  proof -
    have "length (sql_str q (sm_smsc sm)) \<le> 68" "length (sql_str q (str_bytes (sm_info sm))) \<le> 514"
      "length (sql_str q (str_bytes (sm_ota_tar sm))) \<le> 16" "length (sql_str q (str_bytes (sm_ota_counter sm))) \<le> 24"
      using t(2) [of "sm_smsc sm"] t(2) [of "str_bytes (sm_info sm)"] t(2) [of "str_bytes (sm_ota_tar sm)"]
        t(2) [of "str_bytes (sm_ota_counter sm)"] assms(1) by (simp_all add: sms_texts_def sms_ok_def str_bytes_def)
    with that d(2) show ?thesis by (simp add: sms_row_def sms_bounds_def length_fmt_d length_fmt_w)
  qed
qed

lemma sms_row_length: "map fst (sms_row q sid sm) = sms_cols" "length (sms_row q sid sm) = 30"
  by (simp_all add: sms_cols_list) (simp_all add: sms_row_def)

lemma sms_text:
  assumes "sms_ok sm" and "\<forall>t \<in> sms_texts sm. quotable q t" and "length (sql_str q (sm_msisdn sm)) \<le> 68"
  shows "sms_statement q sid sm = Inr (''INSERT INTO sms_meta '' @ ''('' @ commas sms_cols @ '') VALUES ('' @ commas (map snd (sms_row q sid sm)) @ '')'' @ '';'' @ newline)"
proof -
  let ?vals = "map snd (sms_row q sid sm)"
  have n: "length ?vals = length sms_cols" by (simp add: sms_row_length sms_cols_list)
  have "length (commas ?vals) \<le> sum_list sms_bounds + length sms_bounds"
    using length_commas [OF sms_row_ok(2) [OF assms]] .
  then have "length (weave (pieces sms_format) ?vals) < 8192"
    unfolding sms.woven [OF n] by (simp add: sms_bounds_def sms_cols_list newline_def)
  then show ?thesis using sms.woven [OF n] sms_statement_vals [OF assms(1), of q sid] by (simp add: snprintf_def)
qed



lemma commas_split: "commas (xs @ (u @ '','' @ v) # ys) = commas (xs @ u # v # ys)"
  by (induction xs) (cases ys; simp add: commas_Cons)+

text \<open>C15. Without SQLite, a single quote ends a text.  The number of the other party of a short message may be an alphanumeric
  address, whose characters are copied from the message: when it contains a quote, a comma and a quote, the database sees one value more
  than there are columns, and the sender of the message decides what these values are.\<close>

theorem sms_sql_injection:
  assumes "sms_ok sm" and "\<forall>t \<in> sms_texts sm. quotable None t"
    and "cstr (sm_msisdn sm) = a @ [0x27, 0x2c, 0x27] @ b" and "0x27 \<notin> set a" "0x27 \<notin> set b"
  shows "\<exists>t vals. sms_statement None sid sm = Inr t
    \<and> read_insert t = Some (''INSERT INTO sms_meta '', map fst (sms_row None sid sm), vals, '';'' @ newline)
    \<and> vals = take 24 (map snd (sms_row None sid sm)) @ [chars ([0x27] @ a @ [0x27]), chars ([0x27] @ b @ [0x27])]
        @ drop 25 (map snd (sms_row None sid sm)) \<and> length vals = length sms_cols + 1"
proof -
  let ?row = "map snd (sms_row None sid sm)" and ?u = "chars ([0x27] @ a @ [0x27])" and ?v = "chars ([0x27] @ b @ [0x27])"
  let ?vals = "take 24 ?row @ ?u # ?v # drop 25 ?row"
  have nz: "\<forall>x \<in> set (a @ [0x27, 0x2c, 0x27] @ b). nz x" using set_cstr_nz assms(3) by metis
  have len: "length a + length b + 3 \<le> 32" using length_cstr [of "sm_msisdn sm"] assms(1,3) by (simp add: sms_ok_def)
  have m: "sql_str None (sm_msisdn sm) = ?u @ '','' @ ?v"
  proof -
    let ?t = "[0x27] @ (a @ [0x27, 0x2c, 0x27] @ b) @ [0x27 :: u8]"
    have "strescape_or_null None (Some (sm_msisdn sm)) = ?t" by (simp add: strescape_or_null_def assms(3))
    moreover have "cstr ?t = ?t" using nz by (intro cstr_nz) auto
    moreover have "char_of (unat (0x2c :: u8)) = CHR '',''" by code_simp
    ultimately show ?thesis by (simp add: sql_str_def bytes_str_def)
  qed
  then have "length (sql_str None (sm_msisdn sm)) \<le> 68" using len by simp
  note t = sms_text [OF assms(1,2) this, of sid]
  have row: "?row = take 24 ?row @ (?u @ '','' @ ?v) # drop 25 ?row" unfolding m [symmetric] by (simp add: sms_row_def)
  have c: "commas ?row = commas ?vals" by (subst row) (rule commas_split)
  have "is_value ?u" "is_value ?v"
    using is_value_quoted [of a] is_value_quoted [of b] assms(4,5) by (simp_all add: doubled_plain)
  then have "\<forall>v \<in> set ?vals. is_value v"
    using sms_row_ok(1) [OF assms(1,2), of sid] by (simp add: sms_row_def)
  then have "read_insert (''INSERT INTO sms_meta '' @ ''('' @ commas sms_cols @ '') VALUES ('' @ commas ?vals @ '')'' @ '';'' @ newline)
      = Some (''INSERT INTO sms_meta '', sms_cols, ?vals, '';'' @ newline)"
    by (intro read_statement sms.table_name sms.cols_values) simp_all
  moreover have "length ?vals = length sms_cols + 1" by (simp add: sms_row_length sms_cols_list)
  ultimately show ?thesis using t by (simp add: c sms_row_length)
qed

definition sample_sms :: sms_meta where
  "sample_sms = zero_sms\<lparr>sm_msisdn := [0x78, 0x27, 0x2c, 0x27, 0x79] @ replicate 27 0\<rparr>"

lemma sample_sms_address: "handle_address [0xd0, 0xf8, 0x13, 0xeb, 0x94, 0x7] 6 (replicate 32 0) False = Inr (sm_msisdn sample_sms)"
  by code_simp

theorem sms_sql_injection_witness:
  "\<exists>t vals. sms_statement None 4 sample_sms = Inr t
    \<and> read_insert t = Some (''INSERT INTO sms_meta '', map fst (sms_row None 4 sample_sms), vals, '';'' @ newline)
    \<and> vals = take 24 (map snd (sms_row None 4 sample_sms)) @ [chars ([0x27] @ [0x78] @ [0x27]), chars ([0x27] @ [0x79] @ [0x27])]
        @ drop 25 (map snd (sms_row None 4 sample_sms)) \<and> length vals = length sms_cols + 1"
  by (rule sms_sql_injection) (simp_all add: sample_sms_def sms_ok_def zero_sms_def sms_texts_def quotable_def str_bytes_def cstr_def)

end
