(* ===== verification/Sql_Cells.thy ===== *)
theory Sql_Cells
  imports Sql_Read Msg_Store Faults
begin

text \<open>
  The statements of \<open>cell_info.c\<close>, read back: a cell that is new is inserted and a cell that is stored already is
  updated with the same row, and the list of frequencies is complete as long as it fits into the buffer.
\<close>

section \<open>Cells\<close>

text \<open>The system information message that was received last, or \<open>NULL\<close> when there was none.\<close>

definition si_value :: "(u8 list \<Rightarrow> u8 list) option \<Rightarrow> cell_info \<Rightarrow> nat \<Rightarrow> string" where
  "si_value q ci i = (if nz (ci_si_counter ci ! i) then sql_str q (str_bytes (hexdump (ci_si_data ci ! i))) else ''NULL'')"

text \<open>The row of a cell: which field belongs under which column.\<close>

definition cell_row :: "(u8 list \<Rightarrow> u8 list) option \<Rightarrow> bool \<Rightarrow> cell_info \<Rightarrow> (string \<times> string) list" where
  "cell_row q sqlite ci = [
      (''id'', fmt_w (ci_id ci)), (''first_seen'', sql_time sqlite (tv_sec (ci_first_seen ci))),
      (''last_seen'', sql_time sqlite (tv_sec (ci_last_seen ci))), (''mcc'', fmt_w (ci_mcc ci)),
      (''mnc'', fmt_w (ci_mnc ci)), (''lac'', fmt_w (ci_lac ci)), (''cid'', fmt_w (ci_cid ci)),
      (''msc_ver'', fmt_w (ci_msc_ver ci)), (''combined'', fmt_w (ci_combined ci)),
      (''agch_blocks'', fmt_w (ci_agch_blocks ci)), (''pag_mframes'', fmt_w (ci_pag_mframes ci)),
      (''t3212'', fmt_w (ci_t3212 ci)), (''dtx'', fmt_w (ci_dtx ci)), (''cro'', fmt_w (ci_cro ci)),
      (''temp_offset'', fmt_w (ci_temp_offset ci)), (''pen_time'', fmt_w (ci_pen_time ci)),
      (''pwr_offset'', fmt_w (ci_pwr_offset ci)), (''gprs'', fmt_w (ci_gprs ci)),
      (''ba_len'', fmt_u (ci_a_count ci ! SI1)), (''neigh_2'', fmt_u (ci_a_count ci ! SI2)),
      (''neigh_2b'', fmt_u (ci_a_count ci ! SI2b)), (''neigh_2t'', fmt_u (ci_a_count ci ! SI2t)),
      (''neigh_2q'', fmt_u (ci_a_count ci ! SI2q)), (''neigh_5'', fmt_u (ci_a_count ci ! SI5)),
      (''neigh_5b'', fmt_u (ci_a_count ci ! SI5b)), (''neigh_5t'', fmt_u (ci_a_count ci ! SI5t)),
      (''count_si1'', fmt_u (ci_si_counter ci ! SI1)), (''count_si2'', fmt_u (ci_si_counter ci ! SI2)),
      (''count_si2b'', fmt_u (ci_si_counter ci ! SI2b)), (''count_si2t'', fmt_u (ci_si_counter ci ! SI2t)),
      (''count_si2q'', fmt_u (ci_si_counter ci ! SI2q)), (''count_si3'', fmt_u (ci_si_counter ci ! SI3)),
      (''count_si4'', fmt_u (ci_si_counter ci ! SI4)), (''count_si5'', fmt_u (ci_si_counter ci ! SI5)),
      (''count_si5b'', fmt_u (ci_si_counter ci ! SI5b)), (''count_si5t'', fmt_u (ci_si_counter ci ! SI5t)),
      (''count_si6'', fmt_u (ci_si_counter ci ! SI6)), (''count_si13'', fmt_u (ci_si_counter ci ! SI13)),
      (''si1'', si_value q ci SI1), (''si2'', si_value q ci SI2), (''si2b'', si_value q ci SI2b),
      (''si2t'', si_value q ci SI2t), (''si2q'', si_value q ci SI2q), (''si3'', si_value q ci SI3),
      (''si4'', si_value q ci SI4), (''si5'', si_value q ci SI5), (''si5b'', si_value q ci SI5b),
      (''si5t'', si_value q ci SI5t), (''si6'', si_value q ci SI6), (''si13'', si_value q ci SI13)]"

definition cell_cols :: "string list" where
  "cell_cols = map fst (cell_row None True zero_cell)"

lemma cell_cols_list: "cell_cols = [
      ''id'', ''first_seen'', ''last_seen'', ''mcc'', ''mnc'', ''lac'', ''cid'', ''msc_ver'', ''combined'',
      ''agch_blocks'', ''pag_mframes'', ''t3212'', ''dtx'', ''cro'', ''temp_offset'', ''pen_time'', ''pwr_offset'',
      ''gprs'', ''ba_len'', ''neigh_2'', ''neigh_2b'', ''neigh_2t'', ''neigh_2q'', ''neigh_5'', ''neigh_5b'',
      ''neigh_5t'', ''count_si1'', ''count_si2'', ''count_si2b'', ''count_si2t'', ''count_si2q'', ''count_si3'',
      ''count_si4'', ''count_si5'', ''count_si5b'', ''count_si5t'', ''count_si6'', ''count_si13'', ''si1'', ''si2'',
      ''si2b'', ''si2t'', ''si2q'', ''si3'', ''si4'', ''si5'', ''si5b'', ''si5t'', ''si6'', ''si13'']"
  by (simp add: cell_cols_def cell_row_def)

interpretation cell: insert_format cell_insert_format "''INSERT INTO cell_info ''" cell_cols "CHR ''d''"
  "''ssddddddddddddddduuuuuuuuuuuuuuuuuuuussssssssssss''" "'';''"
proof
  show "cell_insert_format = (''INSERT INTO cell_info '' @ ''('' @ commas cell_cols @ '') VALUES ('') @ CHR ''%'' # CHR ''d'' #
      concat (map (\<lambda>x. CHR '','' # CHR ''%'' # [x]) ''ssddddddddddddddduuuuuuuuuuuuuuuuuuuussssssssssss'') @ '')'' @ '';''"
    unfolding cell_insert_format_def cell_cols_list by code_simp
  show "\<forall>c \<in> set cell_cols. \<forall>x \<in> set c. plain x" unfolding cell_cols_list plain_def quote_def by code_simp
  show "\<forall>c \<in> set (''INSERT INTO cell_info '' @ ''('' @ commas cell_cols @ '') VALUES (''). c \<noteq> CHR ''%''"
    unfolding cell_cols_list by code_simp
qed (simp_all add: cell_cols_list)

lemma cell_row_cols: "map fst (cell_row q sqlite ci) = cell_cols" "length (cell_row q sqlite ci) = 50"
  by (simp_all add: cell_cols_list) (simp_all add: cell_row_def)

lemma si_hexes:
  assumes "cell_ok ci"
  shows "rfold (\<lambda>i hs. rbind (rd (ci_si_counter ci) i) (\<lambda>n.
             rbind (if nz n then rbind (rd (ci_si_data ci) i) (\<lambda>d. sql_hex q d 20) else Inr sql_null) (\<lambda>h.
             Inr (hs @ [h])))) [0..<SI_MAX] [] = Inr (map (si_value q ci) [0..<SI_MAX])"
    (is "rfold ?f _ _ = _")
proof -
  have step: "?f i hs = Inr (hs @ [si_value q ci i])" if "i < 12" for i hs
  proof -
    have "length (ci_si_data ci ! i) = 20" using assms that by (simp add: cell_ok_def)
    then have "sql_hex q (ci_si_data ci ! i) 20 = Inr (sql_str q (str_bytes (hexdump (ci_si_data ci ! i))))"
      by (simp add: sql_hex_eq)
    with assms that show ?thesis by (simp add: cell_ok_def si_value_def)
  qed
  have "\<exists>hs. rfold ?f [0..<12] [] = Inr hs \<and> hs = map (si_value q ci) [0..<12]"
    by (rule rfold_upt_rule) (auto simp: step)
  then show ?thesis by (simp add: SI_MAX_def)
qed

lemma length_fmt_u:
  fixes w :: "'a::len word"
  assumes "LENGTH('a) \<le> 32"
  shows "length (fmt_u w) \<le> 10"
proof -
  have "(2 :: nat) ^ LENGTH('a) \<le> 2 ^ 32" using assms by (intro power_increasing) simp_all
  with unsigned_less [of w, where 'a = nat] have "unat w < 2 ^ 32" by (rule less_le_trans)
  then have "unat w < 10 ^ 10" by simp
  from length_dec_str [OF this] show ?thesis by (simp add: fmt_u_def)
qed

lemma si_value_ok:
  assumes "q = None \<or> q = Some sqlite_Q" and "cell_ok ci" and "i < 12"
  shows "is_value (si_value q ci i)" "length (si_value q ci i) \<le> 84"
proof -
  note h = hexdump_quotable [OF assms(1), of "ci_si_data ci ! i"]
  have "length (ci_si_data ci ! i) = 20" using assms(2,3) by (simp add: cell_ok_def)
  then show "is_value (si_value q ci i)" "length (si_value q ci i) \<le> 84"
    using sql_str_value [OF h] length_sql_str [OF h] by (simp_all add: si_value_def hexdump_text(2) str_bytes_def)
qed

lemma cell_row_values:
  assumes "cell_ok ci" and "q = None \<or> q = Some sqlite_Q"
    and "unat (tv_sec (ci_first_seen ci)) < 10 ^ 16" "unat (tv_sec (ci_last_seen ci)) < 10 ^ 16"
  shows "\<forall>v \<in> set (map snd (cell_row q sqlite ci)). is_value v \<and> length v \<le> 84"
proof -
  have si: "is_value (si_value q ci i) \<and> length (si_value q ci i) \<le> 84" if "i < 12" for i
    using si_value_ok [OF assms(2,1) that] by blast
  have w: "length (fmt_w x) \<le> 84" for x :: "'b::len word" by (rule le_trans [OF length_fmt_w]) simp
  have u: "length (fmt_u x) \<le> 84" for x :: u32 by (rule le_trans [OF length_fmt_u]) simp_all
  have v: "length (fmt_u x) \<le> 84" for x :: u16 by (rule le_trans [OF length_fmt_u]) simp_all
  have t: "length (sql_time sqlite x) \<le> 84" for x by (rule le_trans [OF length_sql_time]) simp
  show ?thesis
    using sql_time_value [OF assms(3)] sql_time_value [OF assms(4)]
    by (simp add: cell_row_def si w u v t si_consts)
qed

text \<open>The statement that updates a stored cell assigns the same values to the same columns, the identifier apart.\<close>

definition assignments :: "(string \<times> string) list \<Rightarrow> string" where
  "assignments row = commas (map (\<lambda>(c, v). c @ ''='' @ v) row)"

definition cell_update :: "(string \<times> string) list \<Rightarrow> string" where
  "cell_update row = ''UPDATE cell_info SET '' @ assignments (tl row) @ '' WHERE id = '' @ snd (hd row) @ '';''"

lemma update_pieces: "pieces cell_update_format =
    (''UPDATE cell_info SET '' @ cell_cols ! 1 @ ''='') # map (\<lambda>c. '','' @ c @ ''='') (drop 2 cell_cols) @ ['' WHERE id = '', '';'']"
  unfolding cell_update_format_def cell_cols_list by code_simp

lemma weave_assignments:
  "length cs = length vs \<Longrightarrow>
   weave ((p @ c @ ''='') # map (\<lambda>c. '','' @ c @ ''='') cs @ [e, r]) (v # vs @ [i]) = p @ assignments (zip (c # cs) (v # vs)) @ e @ i @ r"
proof (induction cs vs arbitrary: p c v rule: list_induct2)
  case (Cons x xs y ys)
  from Cons.IH [of "'',''" x y] show ?case by (simp add: assignments_def)
qed (simp add: assignments_def)

lemma update_woven: "weave (pieces cell_update_format) (map snd (tl (cell_row q sqlite ci)) @ [snd (hd (cell_row q sqlite ci))])
    = cell_update (cell_row q sqlite ci)"
proof -
  let ?row = "cell_row q sqlite ci"
  obtain r0 r1 rs where row: "?row = r0 # r1 # rs" by (simp add: cell_row_def)
  then have cols: "cell_cols = fst r0 # fst r1 # map fst rs" using cell_row_cols(1) [of q sqlite ci] by simp
  have c: "cell_cols ! 1 = fst r1" "drop 2 cell_cols = map fst rs" unfolding cols by simp_all
  have "weave (pieces cell_update_format) (snd r1 # map snd rs @ [snd r0])
      = ''UPDATE cell_info SET '' @ assignments (zip (fst r1 # map fst rs) (snd r1 # map snd rs)) @ '' WHERE id = '' @ snd r0 @ '';''"
    unfolding update_pieces c by (rule weave_assignments) simp
  then show ?thesis by (simp add: row cell_update_def zip_map_fst_snd)
qed

lemma cell_statement_vals:
  assumes "cell_ok ci"
  shows "cell_statement q sqlite ci = Inr (if ci_stored ci = 0 then snprintf 8192 cell_insert_format (map snd (cell_row q sqlite ci))
    else snprintf 8192 cell_update_format (map snd (tl (cell_row q sqlite ci)) @ [snd (hd (cell_row q sqlite ci))]))"
  unfolding cell_statement_def Let_def si_hexes [OF assms] rbind_Inr
  by (simp add: cell_row_def si_consts numeral_2_eq_2)

lemma length_assignments:
  "\<forall>(c, v) \<in> set row. length v \<le> b \<Longrightarrow> length (assignments row) \<le> length (commas (map fst row)) + (b + 2) * length row"
proof (induction row)
  case (Cons x row)
  then show ?case by (cases row) (auto simp: assignments_def)
qed (simp add: assignments_def)

text \<open>C13. The statement of a cell is the row of its fields.  A cell that is not stored yet is inserted: the reader finds under each column of
  \<open>cell_info\<close> the field of that name.  A cell that is stored already is updated, and the update assigns the values of the same row to
  the same columns, in the row with the same identifier.  The statement is never truncated.\<close>

theorem cell_sql_row:
  assumes "cell_ok ci" and "q = None \<or> q = Some sqlite_Q"
    and "unat (tv_sec (ci_first_seen ci)) < 10 ^ 16" "unat (tv_sec (ci_last_seen ci)) < 10 ^ 16"
  shows "\<exists>t. cell_statement q sqlite ci = Inr t
    \<and> (if ci_stored ci = 0
       then read_insert t = Some (''INSERT INTO cell_info '', map fst (cell_row q sqlite ci), map snd (cell_row q sqlite ci), '';'')
       else t = cell_update (cell_row q sqlite ci))"
proof -
  let ?row = "cell_row q sqlite ci" and ?bs = "replicate 50 (84 :: nat)"
  note v = cell_row_values [OF assms, of sqlite] and st = cell_statement_vals [OF assms(1), of q sqlite]
  have "list_all2 (\<lambda>v b. length v \<le> b) (map snd ?row) ?bs"
    using v cell_row_cols(2) [of q sqlite ci] by (simp add: list_all2_conv_all_nth)
  moreover have "\<forall>v \<in> set (map snd ?row). is_value v" using v by blast
  ultimately have ins: "read_insert (snprintf 8192 cell_insert_format (map snd ?row)) = Some (''INSERT INTO cell_info '', cell_cols, map snd ?row, '';'')"
    by (intro cell.read_back [where bs = ?bs]) (simp_all add: cell_cols_list sum_list_replicate)
  have "\<forall>(c, x) \<in> set (tl ?row). length x \<le> 84" "length (snd (hd ?row)) \<le> 84"
    using v by (auto simp: cell_row_def)
  moreover have "length (commas (map fst (tl ?row))) \<le> 600" "length (tl ?row) = 49"
    by (simp_all add: map_tl cell_row_cols cell_cols_list)
  ultimately have "length (cell_update ?row) < 8192"
    using length_assignments [of "tl ?row" 84] by (simp add: cell_update_def)
  then have "snprintf 8192 cell_update_format (map snd (tl ?row) @ [snd (hd ?row)]) = cell_update ?row"
    unfolding snprintf_def update_woven by simp
  with ins st show ?thesis by (simp add: cell_row_cols(1))
qed

theorem cell_sql_row_witness:
  "\<exists>t. cell_statement None True (zero_cell\<lparr>ci_stored := 1\<rparr>) = Inr t
    \<and> (if ci_stored (zero_cell\<lparr>ci_stored := 1\<rparr>) = 0
       then read_insert t = Some (''INSERT INTO cell_info '', map fst (cell_row None True (zero_cell\<lparr>ci_stored := 1\<rparr>)),
         map snd (cell_row None True (zero_cell\<lparr>ci_stored := 1\<rparr>)), '';'')
       else t = cell_update (cell_row None True (zero_cell\<lparr>ci_stored := 1\<rparr>)))"
  by (rule cell_sql_row) (simp_all add: cell_ok_def zero_cell_def zero_timeval_def)

section \<open>Frequencies\<close>

text \<open>The frequencies of a message, and what precedes them.\<close>

definition si_arfcns :: "cell_info \<Rightarrow> nat \<Rightarrow> nat list" where
  "si_arfcns ci index = filter (\<lambda>i. nz (ci_arfcn_list ci ! i AND si_mask index)) [0..<1024]"

definition arfcn_tuple :: "cell_info \<Rightarrow> nat \<Rightarrow> nat \<Rightarrow> string" where
  "arfcn_tuple ci index i = ''('' @ fmt_w (ci_id ci) @ '','' @ [quote] @ si_name ! index @ [quote] @ '','' @ fmt_d (int i) @ '')''"

definition arfcn_head :: "bool \<Rightarrow> string" where
  "arfcn_head sqlite = ''INSERT '' @ (if sqlite then ''OR '' else []) @ ''IGNORE INTO arfcn_list (id, source, arfcn) VALUES ''"

lemma arfcn_entry_tuple: "arfcn_entry ci index i = arfcn_tuple ci index i @ '',''"
  by (simp add: arfcn_entry_def arfcn_tuple_def quote_def)

lemma concat_commas: "xs \<noteq> [] \<Longrightarrow> concat (map (\<lambda>x. f x @ '','') xs) = commas (map f xs) @ '',''"
proof (induction xs)
  case (Cons x xs)
  then show ?case by (cases "xs = []") (simp_all add: commas_Cons)
qed simp

lemma take_append_text: "append_text len t (take (len - 1) u) = take (len - 1) (u @ t)"
  by (cases "len - 1 \<le> length u") (simp_all add: append_text_def)

text \<open>The last character of what was written is replaced.\<close>

lemma take_cut:
  assumes "2 \<le> len"
  shows "take (length (take (len - 1) (u @ [x])) - 1) (take (len - 1) (u @ [x])) = take (len - 2) u"
proof -
  have "length (take (len - 1) (u @ [x])) - 1 = min (len - 2) (length u)" by auto
  then have "take (length (take (len - 1) (u @ [x])) - 1) (take (len - 1) (u @ [x])) = take (min (len - 2) (length u)) u"
    using assms by (simp only: take_take) (simp add: min_def)
  then show ?thesis by (cases "len - 2 \<le> length u") (simp_all add: min_def)
qed

lemma arfcn_loop:
  assumes "cell_ok ci"
  shows "rfold (\<lambda>i query. rbind (rd (ci_arfcn_list ci) i) (\<lambda>m.
         Inr (if nz (m AND si_mask index) then append_text len (arfcn_entry ci index i) query else query)))
       [0..<1024] (take (len - 1) p) = Inr (take (len - 1) (p @ concat (map (arfcn_entry ci index) (si_arfcns ci index))))"
    (is "rfold ?f _ _ = _")
proof -
  let ?q = "\<lambda>n. take (len - 1) (p @ concat (map (arfcn_entry ci index) (filter (\<lambda>i. nz (ci_arfcn_list ci ! i AND si_mask index)) [0..<n])))"
  have "\<exists>q. rfold ?f [0..<1024] (take (len - 1) p) = Inr q \<and> q = ?q 1024"
    by (rule rfold_upt_rule [where P = "\<lambda>n q. q = ?q n"])
      (use assms in \<open>simp_all add: cell_ok_def take_append_text [unfolded One_nat_def] append_assoc [symmetric] del: take_append append_assoc\<close>)
  then show ?thesis by (simp add: si_arfcns_def)
qed

text \<open>C16. The list of the frequencies of a cell.  For a message that announced at least one frequency, the statement names exactly the frequencies
  that are marked for the message, in ascending order and separated by commas, as long as they fit into the buffer; a longer list is cut off in the middle and
  still closed by the semicolon.\<close>

theorem arfcn_list_text:
  assumes "cell_ok ci" and "si_arfcns ci index \<noteq> []" and "2 \<le> len"
  shows "arfcn_list_statement len sqlite ci index
    = Inr (take (len - 2) (arfcn_head sqlite @ commas (map (arfcn_tuple ci index) (si_arfcns ci index))) @ '';'')"
proof -
  let ?h = "arfcn_head sqlite" and ?c = "commas (map (arfcn_tuple ci index) (si_arfcns ci index))"
  have h: "snprintf len ''INSERT %sIGNORE INTO arfcn_list (id, source, arfcn) VALUES '' [if sqlite then ''OR '' else []] = take (len - 1) ?h"
    by (simp add: snprintf_def arfcn_head_def)
  have c: "concat (map (arfcn_entry ci index) (si_arfcns ci index)) = ?c @ '',''"
    unfolding arfcn_entry_tuple by (rule concat_commas [OF assms(2)])
  have n: "?h \<noteq> []" by (simp add: arfcn_head_def)
  note cut = take_cut [OF assms(3), of "?h @ ?c" "CHR '',''", unfolded append_assoc]
  have "0 < length (take (len - 1) (?h @ ?c @ '',''))" using n assms(3) by (cases ?h) (auto simp: take_Cons')
  then show ?thesis
    by (simp only: arfcn_list_statement_def h arfcn_loop [OF assms(1)] c rbind_Inr Let_def cut rassert_def if_True)
qed

theorem arfcn_list_text_witness:
  "arfcn_list_statement 8192 True (zero_cell\<lparr>ci_arfcn_list := replicate 1024 0xff\<rparr>) SI1
    = Inr (take (8192 - 2) (arfcn_head True @ commas (map (arfcn_tuple (zero_cell\<lparr>ci_arfcn_list := replicate 1024 0xff\<rparr>) SI1)
        (si_arfcns (zero_cell\<lparr>ci_arfcn_list := replicate 1024 0xff\<rparr>) SI1))) @ '';'')"
proof (rule arfcn_list_text)
  show "cell_ok (zero_cell\<lparr>ci_arfcn_list := replicate 1024 0xff\<rparr>)" by (simp add: cell_ok_def zero_cell_def)
  have "0 \<in> set (si_arfcns (zero_cell\<lparr>ci_arfcn_list := replicate 1024 0xff\<rparr>) SI1)"
    by (simp add: si_arfcns_def si_mask_def si_consts)
  then show "si_arfcns (zero_cell\<lparr>ci_arfcn_list := replicate 1024 0xff\<rparr>) SI1 \<noteq> []" by auto
qed simp

end
