(* ===== verification/Filename.thy ===== *)
theory Filename
  imports Sql_Text Diag_Input Program
begin

text \<open>
  The name of a recording: \<open>session_from_filename\<close> and \<open>parse_appid\<close> of \<open>gsm-parser/session.c\<close>, with the functions of the C library that they
  use.  A name is the text up to its NUL, a pointer into it the rest of the text.  \<open>strtok_r\<close> writes a NUL over the separator behind a token: what is left
  of the name for the next reader is part of the result.

  \<open>mktime\<close> depends on the time zone of the host; it is a parameter, a function of the fields of \<open>struct tm\<close>.
\<close>

section \<open>Definitions\<close>

subsection \<open>The C library\<close>

fun strstr :: "string \<Rightarrow> string \<Rightarrow> string option" where
  "strstr [] pat = (if pat = [] then Some [] else None)"
| "strstr (c # cs) pat = (if take (length pat) (c # cs) = pat then Some (c # cs) else strstr cs pat)"

text \<open>One separator; the second component is the rest to which the saved pointer points.\<close>

definition strtok_r :: "char \<Rightarrow> string \<Rightarrow> string option \<times> string" where
  "strtok_r d s =
     (let t = dropWhile (\<lambda>c. c = d) s
      in if t = [] then (None, []) else (Some (takeWhile (\<lambda>c. c \<noteq> d) t), drop 1 (dropWhile (\<lambda>c. c \<noteq> d) t)))"

definition isspace :: "char \<Rightarrow> bool" where
  "isspace c \<longleftrightarrow> c \<in> {CHR '' '', CHR 0x09, CHR 0x0A, CHR 0x0B, CHR 0x0C, CHR 0x0D}"

definition digit_value :: "nat \<Rightarrow> char \<Rightarrow> nat option" where
  "digit_value base c =
     (let n = of_char c :: nat;
          v = (if 48 \<le> n \<and> n \<le> 57 then n - 48 else if 97 \<le> n \<and> n \<le> 102 then n - 87 else if 65 \<le> n \<and> n \<le> 70 then n - 55 else base)
      in if v < base then Some v else None)"

definition digits_value :: "nat \<Rightarrow> string \<Rightarrow> int" where
  "digits_value base ds = foldl (\<lambda>a c. a * int base + (case digit_value base c of Some v \<Rightarrow> int v | None \<Rightarrow> 0)) 0 ds"

text \<open>
  A conversion of \<open>sscanf\<close> to a number: leading white space, a sign, for hexadecimal numbers the prefix \<open>0x\<close>, and
  digits, all but the space within the width.  The result is the number, limited to the range of \<open>unsigned long\<close>,
  and the rest of the input.
\<close>

definition scan_number :: "nat \<Rightarrow> nat option \<Rightarrow> string \<Rightarrow> (int \<times> string) option" where
  "scan_number base width s =
     (let s = dropWhile isspace s;
          n = (case width of None \<Rightarrow> length s | Some n \<Rightarrow> n);
          t = take n s;
          negative = (t \<noteq> [] \<and> hd t = CHR ''-'');
          t = (if t \<noteq> [] \<and> hd t \<in> {CHR ''-'', CHR ''+''} then tl t else t);
          t = (if base = 16 \<and> take 2 t \<in> {''0x'', ''0X''} then drop 2 t else t);
          ds = takeWhile (\<lambda>c. digit_value base c \<noteq> None) t;
          v = digits_value base ds
      in if ds = [] then None
         else Some (if v \<ge> 2 ^ 64 then 2 ^ 64 - 1 else if negative then - v else v, drop (length ds) t @ drop n s))"

text \<open>The conversions and the literal characters of a format; the result are the numbers that were converted before the first mismatch.\<close>

datatype directive = Number nat "nat option" | Literal char

fun sscanf :: "directive list \<Rightarrow> string \<Rightarrow> int list" where
  "sscanf [] s = []"
| "sscanf (Number base width # ds) s = (case scan_number base width s of None \<Rightarrow> [] | Some (v, r) \<Rightarrow> v # sscanf ds r)"
| "sscanf (Literal c # ds) s = (if s \<noteq> [] \<and> hd s = c then sscanf ds (tl s) else [])"

subsection \<open>The name of the file\<close>

text \<open>A null pointer passed to \<open>strlen\<close> is the fault of the second token.\<close>

definition parse_appid :: "string \<Rightarrow> u32 res" where
  "parse_appid filename =
     (case strstr filename ''2__'' of
        None \<Rightarrow> Inr 0
      | Some ptr \<Rightarrow>
          (case strtok_r (CHR ''_'') (drop 3 ptr) of
             (None, _) \<Rightarrow> Inr 0
           | (Some _, ptr) \<Rightarrow>
               (case strtok_r (CHR ''_'') ptr of
                  (None, _) \<Rightarrow> Inl NullDeref
                | (Some token, _) \<Rightarrow>
                    Inr (if length token \<noteq> 8 then 0
                         else case sscanf [Number 16 (Some 8)] token of [appid] \<Rightarrow> of_int appid | _ \<Rightarrow> 0))))"

text \<open>Year, month, day, hour, minute and second, as in \<open>struct tm\<close>.\<close>

type_synonym tm = "int \<times> int \<times> int \<times> int \<times> int \<times> int"

text \<open>The steps return whether they succeeded, and the session; a failure leads to the label \<open>parse_error\<close>.\<close>

definition with_token :: "string \<Rightarrow> (string \<Rightarrow> string \<Rightarrow> session_info \<Rightarrow> bool \<times> session_info) \<Rightarrow> session_info \<Rightarrow> bool \<times> session_info" where
  "with_token ptr k s = (case strtok_r (CHR ''.'') ptr of (None, _) \<Rightarrow> (False, s) | (Some token, ptr) \<Rightarrow> k token ptr s)"

definition filename_cell :: "string \<Rightarrow> session_info \<Rightarrow> bool \<times> session_info" where
  "filename_cell token s =
     (let r = sscanf [Number 10 (Some 3), Number 10 (Some 3), Literal (CHR ''-''), Number 16 None, Literal (CHR ''-''), Number 16 None] token;
          ret = length r;
          s = (if ret \<ge> 1 then s\<lparr>s_mcc := of_int (r ! 0)\<rparr> else s);
          s = (if ret \<ge> 2 then s\<lparr>s_mnc := of_int (r ! 1)\<rparr> else s);
          s = (if ret \<ge> 4 then s\<lparr>s_lac := of_int (r ! 2), s_cid := of_int (r ! 3)\<rparr> else s\<lparr>s_lac := 65535, s_cid := 65535\<rparr>)
      in if ret < 2 then (False, s\<lparr>s_mcc := 65535, s_mnc := 65535\<rparr>) else (True, s))"

definition filename_network :: "string \<Rightarrow> u8 option" where
  "filename_network token =
     (if token \<in> {''UMTS'', ''3G'', ''WCDMA''} then Some RAT_UMTS
      else if token \<in> {''GSM'', ''UNKNOWN'', ''UNKNWON'', ''null''} then Some RAT_GSM
      else if token = ''LTE'' then Some RAT_LTE else None)"

definition filename_time :: "(tm \<Rightarrow> u64) \<Rightarrow> timeval \<Rightarrow> string \<Rightarrow> session_info \<Rightarrow> bool \<times> session_info" where
  "filename_time mktime now token s =
     (case sscanf [Number 10 (Some 4), Number 10 (Some 2), Number 10 (Some 2), Literal (CHR ''-''),
                   Number 10 (Some 2), Number 10 (Some 2), Number 10 (Some 2)] token of
        [tm_year, tm_mon, tm_mday, tm_hour, tm_min, tm_sec] \<Rightarrow>
          let t = mktime (tm_year - 1900, tm_mon - 1, tm_mday, tm_hour, tm_min, tm_sec)
          in (True, if sint t > sint (tv_sec now) + 43200 then s\<lparr>s_timestamp := now\<rparr>
                    else s\<lparr>s_timestamp := (s_timestamp s)\<lparr>tv_sec := t\<rparr>\<rparr>)
      | _ \<Rightarrow> (False, s))"

text \<open>The tokens from the time on.\<close>

definition filename_place :: "(tm \<Rightarrow> u64) \<Rightarrow> timeval \<Rightarrow> string \<Rightarrow> string \<Rightarrow> session_info \<Rightarrow> bool \<times> session_info" where
  "filename_place mktime now token ptr s =
     (case filename_time mktime now token s of
        (False, s) \<Rightarrow> (False, s)
      | (True, s) \<Rightarrow> with_token ptr (\<lambda>token ptr s.
          (case filename_network token of
             None \<Rightarrow> (False, s)
           | Some rat \<Rightarrow> with_token ptr (\<lambda>token ptr s. filename_cell token s) (s\<lparr>s_rat := rat\<rparr>))) s)"

text \<open>The tokens from the third one on: an optional part of the model, and the optional network of the IMSI.\<close>

definition filename_imsi :: "(tm \<Rightarrow> u64) \<Rightarrow> timeval \<Rightarrow> string \<Rightarrow> string \<Rightarrow> session_info \<Rightarrow> bool \<times> session_info" where
  "filename_imsi mktime now token ptr s =
     (if length token \<in> {5, 6}
      then with_token ptr (filename_place mktime now)
             (if scan_number 10 (Some 6) token \<noteq> None then s\<lparr>s_imsi := strncpy_buf 32 (str_bytes token)\<rparr> else s)
      else filename_place mktime now token ptr s)"

definition filename_fields :: "(tm \<Rightarrow> u64) \<Rightarrow> timeval \<Rightarrow> string \<Rightarrow> session_info \<Rightarrow> bool \<times> session_info" where
  "filename_fields mktime now ptr =
     with_token ptr (\<lambda>token ptr. with_token ptr (\<lambda>token ptr. with_token ptr (\<lambda>token ptr.
       if length token \<in> {1, 2} then with_token ptr (filename_imsi mktime now)
       else filename_imsi mktime now token ptr)))"

text \<open>The baseband of the recording: exactly one of two markers.\<close>

definition filename_marker :: "string \<Rightarrow> string option" where
  "filename_marker filename =
     (case (strstr filename ''_xgs.'', strstr filename ''_qdmon.'') of
        (Some p, None) \<Rightarrow> Some p | (None, Some p) \<Rightarrow> Some p | _ \<Rightarrow> None)"

text \<open>The result, the session, and what is left of the name.\<close>

definition session_from_filename ::
  "(tm \<Rightarrow> u64) \<Rightarrow> bool \<Rightarrow> timeval \<Rightarrow> string \<Rightarrow> session_info \<Rightarrow> (int \<times> session_info \<times> string) res" where
  "session_from_filename mktime auto_timestamp now filename s =
     rbind (parse_appid filename) (\<lambda>appid.
     let s = s\<lparr>s_appid := appid\<rparr>;
         parse_error = (\<lambda>s name. Inr (- 1, if auto_timestamp then s\<lparr>s_timestamp := now\<rparr> else s, name))
     in case filename_marker filename of
          None \<Rightarrow> parse_error s filename
        | Some ptr \<Rightarrow>
            let name = take (length filename - length ptr) filename @ takeWhile (\<lambda>c. c \<noteq> CHR ''.'') ptr
            in (case filename_fields mktime now ptr s of
                  (False, s) \<Rightarrow> parse_error s name
                | (True, s) \<Rightarrow> Inr (0, s, name)))"

text \<open>\<open>diag_init\<close> for a file whose name is parsed, that is, does not start with a dash.\<close>

definition diag_init_file ::
  "(tm \<Rightarrow> u64) \<Rightarrow> string \<Rightarrow> u32 \<Rightarrow> u32 \<Rightarrow> bool \<Rightarrow> bool \<Rightarrow> bool \<Rightarrow> u32 \<Rightarrow> world \<Rightarrow> world res" where
  "diag_init_file mktime filename start_sid start_cid gsmtap callback autotime appid w =
     (let w = session_init start_sid False gsmtap callback (w\<lparr>w_auto_timestamp := autotime\<rparr>)
      in rbind (session_from_filename mktime autotime (w_tod w) filename (w_sess w ! 0)) (\<lambda>(_, s0, filename).
         rbind (session_from_filename mktime autotime (w_tod w) filename (w_sess w ! 1)) (\<lambda>(_, s1, filename).
         let s0 = (if nz appid then s0\<lparr>s_appid := appid\<rparr> else s0);
             s1 = (if nz appid then s1\<lparr>s_appid := appid\<rparr> else s1)
         in Inr (cell_init start_cid (ucast (tv_sec (s_timestamp s0))) callback (w\<lparr>w_sess := [s0, s1]\<rparr>)))))"

section \<open>Lemmas\<close>

subsection \<open>Numbers\<close>

definition digits :: "nat \<Rightarrow> string \<Rightarrow> bool" where
  "digits base ds \<longleftrightarrow> ds \<noteq> [] \<and> (\<forall>c \<in> set ds. digit_value base c \<noteq> None)"

lemma digit_code:
  assumes "digit_value base c \<noteq> None"
  shows "(of_char c :: nat) \<in> {48..57} \<union> {97..102} \<union> {65..70}"
  using assms by (auto simp: digit_value_def Let_def split: if_splits)

lemma digit_char_kind:
  assumes "digit_value base c \<noteq> None"
  shows "\<not> isspace c" "c \<notin> {CHR ''-'', CHR ''+'', CHR ''x'', CHR ''X'', CHR ''.'', CHR ''_''}"
  using digit_code [OF assms] by (auto simp: isspace_def)

lemma scan_digits:
  assumes "digits base ds" and "digits_value base ds < 2 ^ 64"
    and "width = Some (length ds) \<or> width = None \<and> (r = [] \<or> hd r = CHR ''-'')"
  shows "scan_number base width (ds @ r) = Some (digits_value base ds, r)"
proof -
  obtain c cs where ds: "ds = c # cs" using assms(1) by (cases ds) (auto simp: digits_def)
  have kind: "\<not> isspace x" "x \<notin> {CHR ''-'', CHR ''+'', CHR ''x'', CHR ''X'', CHR ''.'', CHR ''_''}" if "x \<in> set ds" for x
    using that assms(1) digit_char_kind [of base x] by (auto simp: digits_def)
  have sp: "dropWhile isspace (ds @ r) = ds @ r" using kind(1) [of c] by (simp add: ds)
  let ?n = "case width of None \<Rightarrow> length (ds @ r) | Some n \<Rightarrow> n"
  define u where "u = (if width = None then r else [])"
  have t: "take ?n (ds @ r) = ds @ u" "drop ?n (ds @ r) = (if width = None then [] else r)" and u: "u = [] \<or> hd u = CHR ''-''"
    using assms(3) by (auto simp: u_def)
  have sign: "hd (ds @ u) \<noteq> CHR ''-''" "hd (ds @ u) \<noteq> CHR ''+''" using kind(2) [of c] by (auto simp: ds)
  have x: "take 2 (ds @ u) \<notin> {''0x'', ''0X''}"
    using kind(2) u by (cases cs; cases u) (auto simp: ds)
  have "digit_value base (CHR ''-'') = None" using digit_char_kind(2) [of base "CHR ''-''"] by blast
  then have "takeWhile (\<lambda>c. digit_value base c \<noteq> None) u = []" using u by (cases u) auto
  then have tw: "takeWhile (\<lambda>c. digit_value base c \<noteq> None) (ds @ u) = ds" using assms(1) by (simp add: digits_def)
  show ?thesis
    unfolding scan_number_def Let_def sp t(1) using sign x tw assms(1,2) t(2)
    by (auto simp: digits_def u_def)
qed

subsection \<open>Tokens\<close>

lemma until_separator:
  "d \<notin> set t \<Longrightarrow> takeWhile (\<lambda>c. c \<noteq> d) (t @ d # r) = t \<and> dropWhile (\<lambda>c. c \<noteq> d) (t @ d # r) = d # r"
  "d \<notin> set t \<Longrightarrow> takeWhile (\<lambda>c. c \<noteq> d) t = t \<and> dropWhile (\<lambda>c. c \<noteq> d) t = []"
  by (induction t) auto

lemma token_next: "t \<noteq> [] \<Longrightarrow> d \<notin> set t \<Longrightarrow> strtok_r d (t @ d # r) = (Some t, r)"
  using until_separator(1) [of d t r] by (cases t) (auto simp: strtok_r_def Let_def)

lemma token_end: "t \<noteq> [] \<Longrightarrow> d \<notin> set t \<Longrightarrow> strtok_r d t = (Some t, [])"
proof -
  assume t: "t \<noteq> []" "d \<notin> set t"
  then have "dropWhile (\<lambda>c. c = d) t = t" by (cases t) auto
  with t until_separator(2) [OF t(2)] show ?thesis by (simp only: strtok_r_def Let_def drop_Nil if_False)
qed

lemma with_token_next: "t \<noteq> [] \<Longrightarrow> CHR ''.'' \<notin> set t \<Longrightarrow> with_token (t @ CHR ''.'' # r) k s = k t r s"
  by (simp add: with_token_def token_next)

lemma with_token_end: "t \<noteq> [] \<Longrightarrow> CHR ''.'' \<notin> set t \<Longrightarrow> with_token t k s = k t [] s"
  by (simp add: with_token_def token_end)

lemma digits_token: "digits base t \<Longrightarrow> t \<noteq> [] \<and> CHR ''.'' \<notin> set t \<and> CHR ''_'' \<notin> set t"
  using digit_char_kind(2) by (fastforce simp: digits_def)

subsection \<open>Searching\<close>

lemma strstr_skip: "c \<notin> set u \<Longrightarrow> strstr (u @ v) (c # pat) = strstr v (c # pat)"
  by (induction u) auto

lemma strstr_none: "c \<notin> set u \<Longrightarrow> strstr u (c # pat) = None"
  by (induction u) auto

lemma strstr_suffix: "strstr u pat = Some r \<Longrightarrow> \<exists>p. u = p @ r \<and> take (length pat) r = pat \<and> length pat \<le> length r"
proof (induction u)
  case (Cons c u)
  show ?case
  proof (cases "take (length pat) (c # u) = pat")
    case True
    then have "length pat \<le> length (c # u)" by (metis length_take min.cobounded1)
    with True Cons.prems show ?thesis by auto
  next
    case False
    with Cons obtain p where "u = p @ r" "take (length pat) r = pat" "length pat \<le> length r" by auto
    then show ?thesis by (intro exI [of _ "c # p"]) simp
  qed
qed (simp split: if_splits)

lemma strstr_append: "strstr u pat = Some r \<Longrightarrow> strstr (u @ v) pat = Some (r @ v)"
proof (induction u)
  case Nil
  then show ?case by (cases v) (simp_all split: if_splits)
next
  case (Cons c u)
  obtain p where "c # u = p @ r" "length pat \<le> length r" using strstr_suffix [OF Cons.prems] by blast
  then have "length pat \<le> length (c # u)" by (metis le_add2 length_append order_trans)
  then have "take (length pat) (c # u @ v) = take (length pat) (c # u)" by (cases pat) simp_all
  with Cons show ?case by (auto split: if_splits)
qed

text \<open>The marker is not found again in the name that the tokenizer has cut.\<close>

lemma strstr_cut:
  assumes "strstr name (pat @ [c]) = Some ptr"
  shows "strstr (take (length name - length ptr) name @ pat) (pat @ [c]) = None"
proof (rule ccontr)
  let ?pre = "take (length name - length ptr) name"
  obtain p where p: "name = p @ ptr" "take (length (pat @ [c])) ptr = pat @ [c]" using strstr_suffix [OF assms] by blast
  then have "take (length pat) ptr = pat"
    by (metis append_eq_conv_conj length_append nle_le take_take min_def le_add1)
  then have name: "name = (?pre @ pat) @ drop (length pat) ptr" using p(1) by (metis append_assoc append_take_drop_id append_eq_conv_conj length_append add_diff_cancel_right')
  assume "strstr (?pre @ pat) (pat @ [c]) \<noteq> None"
  then obtain r where r: "strstr (?pre @ pat) (pat @ [c]) = Some r" by blast
  from strstr_append [OF r, of "drop (length pat) ptr"] name assms have "ptr = r @ drop (length pat) ptr" by simp
  then have "length ptr = length r + (length ptr - length pat)" by (metis length_append length_drop)
  moreover have "length (pat @ [c]) \<le> length r" using strstr_suffix [OF r] by blast
  moreover have "length (pat @ [c]) \<le> length ptr" using strstr_suffix [OF assms] by blast
  ultimately show False by simp
qed

lemma strstr_take_none:
  assumes "strstr name pat = None"
  shows "strstr (take n name) pat = None"
  using strstr_append [of "take n name" pat _ "drop n name"] assms by (cases "strstr (take n name) pat") auto

section \<open>Names that are parsed\<close>

lemmas no_dot = digits_token [THEN conjunct2, THEN conjunct1]

lemma digits_small:
  assumes "digits base ds" and "base \<le> 16"
  shows "0 \<le> digits_value base ds" "digits_value base ds < 16 ^ length ds"
proof -
  have v: "0 \<le> (case digit_value base c of Some v \<Rightarrow> int v | None \<Rightarrow> 0)" "(case digit_value base c of Some v \<Rightarrow> int v | None \<Rightarrow> 0) < 16" for c
    using assms(2) by (auto simp: digit_value_def Let_def split: if_splits)
  have "0 \<le> digits_value base ds \<and> digits_value base ds < 16 ^ length ds"
  proof (induction ds rule: rev_induct)
    case (snoc c ds)
    let ?v = "digits_value base ds" and ?d = "case digit_value base c of Some v \<Rightarrow> int v | None \<Rightarrow> 0"
    have "?v * int base \<le> ?v * 16" using snoc assms(2) by (intro mult_left_mono) auto
    then have "?v * int base + ?d < 16 * 16 ^ length ds" using snoc v(2) [of c] by linarith
    then show ?case using snoc v(1) [of c] by (simp add: digits_value_def)
  qed (simp add: digits_value_def)
  then show "0 \<le> digits_value base ds" "digits_value base ds < 16 ^ length ds" by blast+
qed

lemma scan_fixed:
  assumes "digits 10 ds" and "length ds = n" and "n \<le> 16"
  shows "scan_number 10 (Some n) (ds @ r) = Some (digits_value 10 ds, r)"
proof (rule scan_digits [OF assms(1)])
  have "(16 :: int) ^ length ds \<le> 16 ^ 16" using assms(2,3) by (intro power_increasing) simp_all
  then show "digits_value 10 ds < 2 ^ 64" using digits_small(2) [OF assms(1)] by simp
qed (use assms(2) in simp)

text \<open>The texts of a name: the time in six fields, and the cell in four.\<close>

definition time_text :: "string \<Rightarrow> string \<Rightarrow> string \<Rightarrow> string \<Rightarrow> string \<Rightarrow> string \<Rightarrow> string" where
  "time_text y mo d h mi sec = y @ mo @ d @ ''-'' @ h @ mi @ sec"

definition cell_text :: "string \<Rightarrow> string \<Rightarrow> string \<Rightarrow> string \<Rightarrow> string" where
  "cell_text mcc mnc lac cid = mcc @ mnc @ ''-'' @ lac @ ''-'' @ cid"

definition time_ok :: "string \<Rightarrow> string \<Rightarrow> string \<Rightarrow> string \<Rightarrow> string \<Rightarrow> string \<Rightarrow> bool" where
  "time_ok y mo d h mi sec \<longleftrightarrow> digits 10 y \<and> length y = 4 \<and> (\<forall>t \<in> {mo, d, h, mi, sec}. digits 10 t \<and> length t = 2)"

definition cell_text_ok :: "string \<Rightarrow> string \<Rightarrow> string \<Rightarrow> string \<Rightarrow> bool" where
  "cell_text_ok mcc mnc lac cid \<longleftrightarrow> (\<forall>t \<in> {mcc, mnc}. digits 10 t \<and> length t = 3) \<and> (\<forall>t \<in> {lac, cid}. digits 16 t \<and> length t \<le> 8)"

lemma filename_time_text:
  assumes "time_ok y mo d h mi sec"
  shows "filename_time mktime now (time_text y mo d h mi sec) s =
    (let t = mktime (digits_value 10 y - 1900, digits_value 10 mo - 1, digits_value 10 d, digits_value 10 h, digits_value 10 mi, digits_value 10 sec)
     in (True, if sint t > sint (tv_sec now) + 43200 then s\<lparr>s_timestamp := now\<rparr> else s\<lparr>s_timestamp := (s_timestamp s)\<lparr>tv_sec := t\<rparr>\<rparr>))"
proof -
  have f: "scan_number 10 (Some 4) (y @ r) = Some (digits_value 10 y, r)" for r using assms by (intro scan_fixed) (simp_all add: time_ok_def)
  have g: "scan_number 10 (Some 2) (t @ r) = Some (digits_value 10 t, r)" if "t \<in> {mo, d, h, mi, sec}" for t r
    using that assms by (intro scan_fixed) (auto simp: time_ok_def)
  show ?thesis using f g g [of sec "[]"] by (simp add: filename_time_def time_text_def)
qed

lemma filename_cell_text:
  assumes "cell_text_ok mcc mnc lac cid"
  shows "filename_cell (cell_text mcc mnc lac cid) s = (True, s\<lparr>s_mcc := of_int (digits_value 10 mcc), s_mnc := of_int (digits_value 10 mnc),
    s_lac := of_int (digits_value 16 lac), s_cid := of_int (digits_value 16 cid)\<rparr>)"
proof -
  have f: "scan_number 10 (Some 3) (t @ r) = Some (digits_value 10 t, r)" if "t \<in> {mcc, mnc}" for t r
    using that assms by (intro scan_fixed) (auto simp: cell_text_ok_def)
  have g: "scan_number 16 None (t @ r) = Some (digits_value 16 t, r)" if "t \<in> {lac, cid}" "r = [] \<or> hd r = CHR ''-''" for t r
  proof (rule scan_digits)
    show "digits 16 t" using that assms by (auto simp: cell_text_ok_def)
    have "(16 :: int) ^ length t \<le> 16 ^ 8" using that assms by (intro power_increasing) (auto simp: cell_text_ok_def)
    then show "digits_value 16 t < 2 ^ 64" using digits_small(2) [OF \<open>digits 16 t\<close>] by simp
  qed (use that in simp)
  show ?thesis using f g [of lac] g [of cid "[]"] by (simp add: filename_cell_def cell_text_def Let_def)
qed

definition recording_name :: "string \<Rightarrow> string \<Rightarrow> string \<Rightarrow> string \<Rightarrow> string \<Rightarrow> string \<Rightarrow> string \<Rightarrow> string" where
  "recording_name pre marker model imsi time net cell =
     pre @ marker @ ''.'' @ model @ ''.'' @ imsi @ ''.'' @ time @ ''.'' @ net @ ''.'' @ cell"

lemma network_token:
  assumes "filename_network net = Some rat"
  shows "net \<noteq> [] \<and> CHR ''.'' \<notin> set net \<and> CHR ''_'' \<notin> set net"
proof -
  have "\<forall>net \<in> {''UMTS'', ''3G'', ''WCDMA''} \<union> {''GSM'', ''UNKNOWN'', ''UNKNWON'', ''null''} \<union> {''LTE''}. net \<noteq> [] \<and> CHR ''.'' \<notin> set net \<and> CHR ''_'' \<notin> set net"
    by simp
  moreover have "net \<in> {''UMTS'', ''3G'', ''WCDMA''} \<union> {''GSM'', ''UNKNOWN'', ''UNKNWON'', ''null''} \<union> {''LTE''}"
  proof -
    have "net \<in> A \<union> B \<union> {c}" if "(if net \<in> A then Some x else if net \<in> B then Some y else if net = c then Some z else None) = Some rat" for A B c and x y z :: u8
      using that by (simp split: if_splits)
    from this [OF assms [unfolded filename_network_def]] show ?thesis .
  qed
  ultimately show ?thesis by (rule bspec)
qed

lemma time_token:
  assumes "time_ok y mo d h mi sec"
  shows "time_text y mo d h mi sec \<noteq> []" "CHR ''.'' \<notin> set (time_text y mo d h mi sec)" "CHR ''_'' \<notin> set (time_text y mo d h mi sec)"
proof -
  have t: "CHR ''.'' \<notin> set x" "CHR ''_'' \<notin> set x" if "x \<in> {y, mo, d, h, mi, sec}" for x
    using that assms digits_token [of 10 x] by (auto simp: time_ok_def)
  show "CHR ''.'' \<notin> set (time_text y mo d h mi sec)" "CHR ''_'' \<notin> set (time_text y mo d h mi sec)"
    using t by (simp_all add: time_text_def)
qed (simp add: time_text_def)

lemma cell_token:
  assumes "cell_text_ok mcc mnc lac cid"
  shows "cell_text mcc mnc lac cid \<noteq> []" "CHR ''.'' \<notin> set (cell_text mcc mnc lac cid)" "CHR ''_'' \<notin> set (cell_text mcc mnc lac cid)"
proof -
  have t: "CHR ''.'' \<notin> set x" "CHR ''_'' \<notin> set x" if "x \<in> {mcc, mnc, lac, cid}" for x
    using that assms digits_token [of 10 x] digits_token [of 16 x] by (auto simp: cell_text_ok_def)
  show "CHR ''.'' \<notin> set (cell_text mcc mnc lac cid)" "CHR ''_'' \<notin> set (cell_text mcc mnc lac cid)"
    using t by (simp_all add: cell_text_def)
qed (simp add: cell_text_def)

text \<open>A name with a single underscore has no application identifier.\<close>

lemma appid_none:
  assumes "length (filter (\<lambda>c. c = CHR ''_'') name) \<le> 1"
  shows "parse_appid name = Inr 0"
proof (cases "strstr name ''2__''")
  case (Some r)
  from strstr_suffix [OF this] obtain p where r: "name = p @ r" "take 3 r = ''2__''" by (auto simp: numeral_3_eq_3)
  then obtain v where "r = ''2__'' @ v" by (metis append_take_drop_id)
  then have "2 \<le> length (filter (\<lambda>c. c = CHR ''_'') r)" by simp
  with r(1) assms show ?thesis by simp
qed (simp add: parse_appid_def)

lemma marker_found:
  assumes "marker \<in> {''_xgs'', ''_qdmon''}" and "CHR ''_'' \<notin> set pre" "CHR ''_'' \<notin> set r"
  shows "filename_marker (pre @ marker @ ''.'' @ r) = Some (marker @ ''.'' @ r)" "parse_appid (pre @ marker @ ''.'' @ r) = Inr 0"
proof -
  note n = strstr_none [OF assms(3)] and k = strstr_skip [OF assms(2)]
  show "filename_marker (pre @ marker @ ''.'' @ r) = Some (marker @ ''.'' @ r)"
    using assms(1) n by (auto simp: filename_marker_def k)
  have "filter (\<lambda>c. c = CHR ''_'') u = []" if "CHR ''_'' \<notin> set u" for u using that by (induction u) auto
  with assms show "parse_appid (pre @ marker @ ''.'' @ r) = Inr 0" by (intro appid_none) auto
qed

text \<open>C18. The name of a recording is parsed as it is written: prefix, baseband, model, network of the IMSI, time, technology and cell, separated by dots.  The
  session gets the network of the IMSI, the time, unless it is more than twelve hours ahead, the technology and the four parts of the cell, and
  the name is cut behind the baseband.\<close>

theorem filename_parsed:
  assumes "marker \<in> {''_xgs'', ''_qdmon''}" and "CHR ''_'' \<notin> set (pre @ model)" and "model \<noteq> []" "CHR ''.'' \<notin> set model"
    and "digits 10 imsi" "length imsi \<in> {5, 6}" and "time_ok y mo d h mi sec" and "filename_network net = Some rat"
    and "cell_text_ok mcc mnc lac cid"
    and "t = mktime (digits_value 10 y - 1900, digits_value 10 mo - 1, digits_value 10 d, digits_value 10 h, digits_value 10 mi, digits_value 10 sec)"
  shows "session_from_filename mktime auto now (recording_name pre marker model imsi (time_text y mo d h mi sec) net (cell_text mcc mnc lac cid)) s
    = Inr (0, s\<lparr>s_appid := 0, s_imsi := strncpy_buf 32 (str_bytes imsi),
        s_timestamp := (if sint t > sint (tv_sec now) + 43200 then now else (s_timestamp s)\<lparr>tv_sec := t\<rparr>), s_rat := rat,
        s_mcc := of_int (digits_value 10 mcc), s_mnc := of_int (digits_value 10 mnc),
        s_lac := of_int (digits_value 16 lac), s_cid := of_int (digits_value 16 cid)\<rparr>, pre @ marker)"
proof -
  let ?t = "time_text y mo d h mi sec" and ?c = "cell_text mcc mnc lac cid"
  define r where "r = model @ ''.'' @ imsi @ ''.'' @ ?t @ ''.'' @ net @ ''.'' @ ?c"
  note tok = digits_token [OF assms(5)] time_token [OF assms(7)] network_token [OF assms(8)] cell_token [OF assms(9)]
  have u: "CHR ''_'' \<notin> set r" "CHR ''_'' \<notin> set pre" using assms(2) tok by (auto simp: r_def)
  have m: "marker \<noteq> []" "CHR ''.'' \<notin> set marker" using assms(1) by auto
  have "scan_number 10 (Some 6) imsi \<noteq> None"
  proof -
    have "takeWhile (\<lambda>c. digit_value 10 c \<noteq> None) imsi = imsi" using assms(5) by (simp add: digits_def takeWhile_eq_all_conv)
    moreover have "digit_value 10 (hd imsi) \<noteq> None" "\<not> isspace (hd imsi)" "hd imsi \<notin> {CHR ''-'', CHR ''+''}" "imsi \<noteq> []"
      using assms(5) digit_char_kind [of 10 "hd imsi"] by (auto simp: digits_def)
    ultimately show ?thesis using assms(6) by (cases imsi) (auto simp: scan_number_def Let_def)
  qed
  then have "filename_fields mktime now (marker @ ''.'' @ r) s' = filename_place mktime now ?t (net @ ''.'' @ ?c) (s'\<lparr>s_imsi := strncpy_buf 32 (str_bytes imsi)\<rparr>)" for s'
    using assms(3,4,6) m tok by (auto simp: filename_fields_def r_def with_token_next filename_imsi_def)
  moreover have "filename_place mktime now ?t (net @ ''.'' @ ?c) s' = (True, s'\<lparr>s_timestamp := (if sint t > sint (tv_sec now) + 43200 then now
      else (s_timestamp s')\<lparr>tv_sec := t\<rparr>), s_rat := rat, s_mcc := of_int (digits_value 10 mcc), s_mnc := of_int (digits_value 10 mnc),
      s_lac := of_int (digits_value 16 lac), s_cid := of_int (digits_value 16 cid)\<rparr>)" for s'
    using tok assms(8) by (simp add: filename_place_def filename_time_text [OF assms(7)] Let_def with_token_next with_token_end
        filename_cell_text [OF assms(9)] assms(10))
  moreover have "takeWhile (\<lambda>c. c \<noteq> CHR ''.'') (marker @ ''.'' @ r) = marker" using until_separator(1) [OF m(2), of r] by simp
  moreover have name: "recording_name pre marker model imsi ?t net ?c = pre @ marker @ ''.'' @ r" by (simp add: recording_name_def r_def)
  ultimately show ?thesis
    unfolding session_from_filename_def name using marker_found [OF assms(1) u(2,1)] by (simp add: Let_def)
qed

theorem filename_parsed_witness:
  "session_from_filename (\<lambda>_. 7) True zero_timeval (recording_name ''dump'' ''_qdmon'' ''GT-I9100'' ''26201'' (time_text ''2014'' ''03'' ''18'' ''10'' ''20'' ''30'')
      ''GSM'' (cell_text ''262'' ''001'' ''1a'' ''c0de'')) zero_session
    = Inr (0, zero_session\<lparr>s_appid := 0, s_imsi := strncpy_buf 32 (str_bytes ''26201''),
        s_timestamp := (if sint (7 :: u64) > sint (tv_sec zero_timeval) + 43200 then zero_timeval else (s_timestamp zero_session)\<lparr>tv_sec := 7\<rparr>),
        s_rat := RAT_GSM, s_mcc := of_int (digits_value 10 ''262''), s_mnc := of_int (digits_value 10 ''001''),
        s_lac := of_int (digits_value 16 ''1a''), s_cid := of_int (digits_value 16 ''c0de'')\<rparr>, ''dump'' @ ''_qdmon'')"
proof (rule filename_parsed)
  show "digits 10 ''26201''" unfolding digits_def by code_simp
  show "time_ok ''2014'' ''03'' ''18'' ''10'' ''20'' ''30''" unfolding time_ok_def digits_def by code_simp
  show "cell_text_ok ''262'' ''001'' ''1a'' ''c0de''" unfolding cell_text_ok_def digits_def by code_simp
qed (simp_all add: filename_network_def)

section \<open>The second session\<close>

text \<open>What \<open>session_from_filename\<close> leaves of a name: a name with a marker of the baseband ends behind it.\<close>

definition cut_name :: "string \<Rightarrow> string" where
  "cut_name name =
     (case filename_marker name of
        None \<Rightarrow> name
      | Some ptr \<Rightarrow> take (length name - length ptr) name @ takeWhile (\<lambda>c. c \<noteq> CHR ''.'') ptr)"

lemma marker_lost:
  assumes "filename_marker name = Some ptr"
  shows "filename_marker (take (length name - length ptr) name @ takeWhile (\<lambda>c. c \<noteq> CHR ''.'') ptr) = None"
proof -
  have *: "strstr (take (length name - length ptr) name @ takeWhile (\<lambda>c. c \<noteq> CHR ''.'') ptr) m = None
      \<and> strstr (take (length name - length ptr) name @ takeWhile (\<lambda>c. c \<noteq> CHR ''.'') ptr) n = None"
    if m: "strstr name m = Some ptr" and n: "strstr name n = None" and p: "m = p @ ''.''" "CHR ''.'' \<notin> set p" for m n p
  proof -
    obtain q where q: "name = q @ ptr" "take (length m) ptr = m" using strstr_suffix [OF m] by blast
    then have ptr: "ptr = p @ CHR ''.'' # drop (length m) ptr"
      using p(1) by (metis append_Cons append_assoc append_self_conv2 append_take_drop_id)
    then have t: "takeWhile (\<lambda>c. c \<noteq> CHR ''.'') ptr = p" using until_separator(1) [OF p(2)] by metis
    have "take (length name - length ptr) name @ p = take (length q + length p) name" using q(1) ptr by (metis (no_types) append_eq_conv_conj length_append add_diff_cancel_right' append_assoc)
    with strstr_take_none [OF n] strstr_cut [of name p "CHR ''.''" ptr] m p(1) t show ?thesis by metis
  qed
  from assms consider "strstr name ''_xgs.'' = Some ptr" "strstr name ''_qdmon.'' = None" | "strstr name ''_qdmon.'' = Some ptr" "strstr name ''_xgs.'' = None"
    unfolding filename_marker_def by (cases "strstr name ''_xgs.''"; cases "strstr name ''_qdmon.''") simp_all
  then show ?thesis
  proof cases
    case 1
    from * [OF this, of "''_xgs''"] show ?thesis by (simp add: filename_marker_def)
  next
    case 2
    from * [OF this, of "''_qdmon''"] show ?thesis by (simp add: filename_marker_def)
  qed
qed

lemma cut_name_marker: "filename_marker (cut_name name) = None"
  using marker_lost by (simp add: cut_name_def split: option.splits)

lemma parse_appid_fault: "parse_appid name = Inl e \<Longrightarrow> e = NullDeref"
  by (auto simp: parse_appid_def split: option.splits prod.splits if_splits)

text \<open>The only fault is that of \<open>parse_appid\<close>; otherwise the name is cut.\<close>

lemma session_from_filename_cases:
  "case parse_appid name of
     Inl e \<Rightarrow> session_from_filename mktime auto now name s = Inl NullDeref
   | Inr a \<Rightarrow> \<exists>r s'. session_from_filename mktime auto now name s = Inr (r, s', cut_name name)
       \<and> (filename_marker name = None \<longrightarrow> s' = s\<lparr>s_appid := a, s_timestamp := (if auto then now else s_timestamp s)\<rparr>)"
  using parse_appid_fault [of name]
  by (auto simp: session_from_filename_def Let_def cut_name_def split: sum.splits option.splits prod.splits bool.splits)

lemma diag_init_file_cases:
  "(if parse_appid filename = Inl NullDeref \<or> parse_appid (cut_name filename) = Inl NullDeref
    then diag_init_file mktime filename sid cid gsmtap callback autotime appid w = Inl NullDeref
    else \<exists>w'. diag_init_file mktime filename sid cid gsmtap callback autotime appid w = Inr w')"
proof -
  let ?w = "session_init sid False gsmtap callback (w\<lparr>w_auto_timestamp := autotime\<rparr>)"
  note a = session_from_filename_cases [of mktime autotime "w_tod ?w" filename "w_sess ?w ! 0"]
  note b = session_from_filename_cases [of mktime autotime "w_tod ?w" "cut_name filename" "w_sess ?w ! 1"]
  show ?thesis
    using a b parse_appid_fault [of filename] parse_appid_fault [of "cut_name filename"]
    by (cases "parse_appid filename"; cases "parse_appid (cut_name filename)") (auto simp: diag_init_file_def Let_def)
qed

text \<open>C19. From the name of the file the second session learns the application identifier and nothing else.  \<open>diag_init\<close> passes the same name for the second
  session, but by then the tokenizer has cut it behind the baseband: whatever the name is, the second session is that of the initialisation, but for the
  application identifier (that of the command line, if it is given, or else that of the header of the cut name, which \<open>parse_appid\<close> still finds) and, when times are
  taken from the clock, the time.  Technology, network, cell, IMSI and time of the name are lost for it.\<close>

theorem second_session_unnamed:
  assumes "diag_init_file mktime filename sid cid gsmtap callback autotime appid w = Inr w'"
  shows "\<exists>a. parse_appid (cut_name filename) = Inr a
    \<and> w_sess w' ! 1 = (w_sess (session_init sid False gsmtap callback w) ! 1)\<lparr>s_appid := (if nz appid then appid else a),
        s_timestamp := (if autotime then w_tod w else zero_timeval)\<rparr>"
proof -
  let ?w = "session_init sid False gsmtap callback (w\<lparr>w_auto_timestamp := autotime\<rparr>)"
  let ?v = "session_init sid False gsmtap callback w"
  have w: "w_sess ?w = w_sess ?v" "w_tod ?w = w_tod w" "s_timestamp (w_sess ?v ! 1) = zero_timeval"
    by (simp_all add: session_init_def zero_session_def)
  from assms obtain r0 s0 name0 r1 s1 name1 where
    a: "session_from_filename mktime autotime (w_tod ?w) filename (w_sess ?w ! 0) = Inr (r0, s0, name0)" and
    b: "session_from_filename mktime autotime (w_tod ?w) name0 (w_sess ?w ! 1) = Inr (r1, s1, name1)" and
    c: "w_sess w' ! 1 = (if nz appid then s1\<lparr>s_appid := appid\<rparr> else s1)"
    by (auto simp: diag_init_file_def Let_def rbind_def cell_init_def paging_reset_def split: sum.splits if_splits)
  have n: "name0 = cut_name filename"
    using a session_from_filename_cases [of mktime autotime "w_tod ?w" filename "w_sess ?w ! 0"] by (auto split: sum.splits)
  from b session_from_filename_cases [of mktime autotime "w_tod ?w" "cut_name filename" "w_sess ?w ! 1"] obtain x where
    x: "parse_appid (cut_name filename) = Inr x"
      "s1 = (w_sess ?w ! 1)\<lparr>s_appid := x, s_timestamp := (if autotime then w_tod ?w else s_timestamp (w_sess ?w ! 1))\<rparr>"
    unfolding n by (auto simp: cut_name_marker split: sum.splits)
  then have "s1 = (w_sess ?v ! 1)\<lparr>s_appid := x, s_timestamp := (if autotime then w_tod w else zero_timeval)\<rparr>" unfolding w by blast
  with c x(1) show ?thesis by (intro exI [of _ x]) simp
qed

text \<open>A name with a header: both sessions get its identifier.\<close>

theorem second_session_unnamed_witness:
  "\<exists>w'. diag_init_file (\<lambda>_. 7) ''2__x_12345678_xgs.x'' 1 1 False False False 0 zero_world = Inr w'
    \<and> w_sess w' ! 1 = (w_sess (session_init 1 False False False zero_world) ! 1)\<lparr>s_appid := 0x12345678, s_timestamp := zero_timeval\<rparr>"
proof -
  let ?n = "''2__x_12345678_xgs.x''"
  have c: "cut_name ?n = ''2__x_12345678_xgs''" by code_simp
  have p: "parse_appid ?n = Inr 0x12345678" "parse_appid ''2__x_12345678_xgs'' = Inr 0x12345678" by code_simp+
  then obtain w' where w': "diag_init_file (\<lambda>_. 7) ?n 1 1 False False False 0 zero_world = Inr w'"
    using diag_init_file_cases [of ?n "\<lambda>_. 7" 1 1 False False False 0 zero_world] unfolding c by auto
  from second_session_unnamed [OF w'] w' show ?thesis unfolding c p(2) by auto
qed

definition sample_name :: string where
  "sample_name = ''dump_qdmon.x.26201.20140318-102030.GSM.262001-1a-c0de''"

lemma sample_name_parsed:
  "\<exists>s'. session_from_filename (\<lambda>_. 7) False now sample_name s = Inr (0, s', ''dump_qdmon'')"
proof -
  have a: "parse_appid sample_name = Inr 0" by code_simp
  have m: "filename_marker sample_name = Some ''_qdmon.x.26201.20140318-102030.GSM.262001-1a-c0de''" by code_simp
  have "sscanf [Number 10 (Some 4), Number 10 (Some 2), Number 10 (Some 2), Literal (CHR ''-''),
      Number 10 (Some 2), Number 10 (Some 2), Number 10 (Some 2)] ''20140318-102030'' = [2014, 3, 18, 10, 20, 30]" by code_simp
  then have time: "\<exists>s'. filename_time (\<lambda>_. 7) now ''20140318-102030'' s = (True, s')" for s by (simp add: filename_time_def Let_def)
  have "sscanf [Number 10 (Some 3), Number 10 (Some 3), Literal (CHR ''-''), Number 16 None, Literal (CHR ''-''), Number 16 None]
      ''262001-1a-c0de'' = [262, 1, 26, 49374]" by code_simp
  then have cell: "\<exists>s'. filename_cell ''262001-1a-c0de'' s = (True, s')" for s by (simp add: filename_cell_def Let_def)
  have p: "\<exists>s'. filename_place (\<lambda>_. 7) now ''20140318-102030'' ''GSM.262001-1a-c0de'' s = (True, s')" for s
  proof -
    obtain s1 where s1: "filename_time (\<lambda>_. 7) now ''20140318-102030'' s = (True, s1)" using time by blast
    obtain s2 where "filename_cell ''262001-1a-c0de'' (s1\<lparr>s_rat := RAT_GSM\<rparr>) = (True, s2)" using cell by blast
    with s1 show ?thesis by (simp add: filename_place_def with_token_def strtok_r_def filename_network_def)
  qed
  have "\<exists>s'. filename_fields (\<lambda>_. 7) now ''_qdmon.x.26201.20140318-102030.GSM.262001-1a-c0de'' s = (True, s')" for s
    using p by (simp add: filename_fields_def with_token_def strtok_r_def filename_imsi_def)
  then obtain s' where "filename_fields (\<lambda>_. 7) now ''_qdmon.x.26201.20140318-102030.GSM.262001-1a-c0de'' (s\<lparr>s_appid := 0\<rparr>) = (True, s')" by blast
  then show ?thesis using a m by (simp add: session_from_filename_def Let_def sample_name_def)
qed

lemma sample_cut: "filename_marker ''dump_qdmon'' = None" "parse_appid ''dump_qdmon'' = Inr 0"
  by code_simp+

lemma sample_init: "\<exists>w'. diag_init_file (\<lambda>_. 7) sample_name 1 1 False False False 0 zero_world = Inr w'"
proof -
  obtain s' where "session_from_filename (\<lambda>_. 7) False (w_tod (session_init 1 False False False (zero_world\<lparr>w_auto_timestamp := False\<rparr>))) sample_name
      (w_sess (session_init 1 False False False (zero_world\<lparr>w_auto_timestamp := False\<rparr>)) ! 0) = Inr (0, s', ''dump_qdmon'')"
    using sample_name_parsed by blast
  then show ?thesis by (simp add: diag_init_file_def Let_def session_from_filename_def [of _ _ _ "''dump_qdmon''"] sample_cut)
qed

end
