(* ===== verification/Importers.thy ===== *)
theory Importers
  imports Filename Sql_Read Diag_Safe
begin

text \<open>
  The two programs that read DIAG packets: \<open>diag_import.c\<close>, with the names of its files, and \<open>hex_import.c\<close>, which reads a packet per line of hexadecimal
  digits with \<open>osmo_hexparse\<close> of \<open>libosmocore/src/utils.c\<close>.  A file is the list of its octets.  The arguments of the programs are the
  arguments of the definitions.
\<close>

section \<open>Definitions\<close>

text \<open>
  \<open>fgets\<close> with a buffer of \<open>n\<close> bytes: the line with its newline, or nothing at the end of the file; the rest of the file; and whether the end was
  reached.
\<close>

definition fgets :: "nat \<Rightarrow> u8 list \<Rightarrow> u8 list option \<times> u8 list \<times> bool" where
  "fgets n f =
     (let l = length (takeWhile (\<lambda>c. c \<noteq> 0x0a) f);
          k = min (if l < length f then l + 1 else l) (n - 1)
      in (if f = [] then None else Some (take k f), drop k f, l = length f \<and> l < n - 1))"

lemma fgets_rest: "1 < n \<Longrightarrow> fgets n f = (Some line, rest, eof) \<Longrightarrow> length rest < length f"
  by (cases f) (auto simp: fgets_def Let_def)

lemma fgets_progress: "fgets 4096 f = (line, rest, eof) \<Longrightarrow> \<not> eof \<Longrightarrow> length rest < length f"
  by (cases f) (auto simp: fgets_def Let_def split: if_splits)

subsection \<open>Hexadecimal lines\<close>

definition hex_char :: "u8 \<Rightarrow> u8 option" where
  "hex_char c =
     (if 0x30 \<le> c \<and> c \<le> 0x39 then Some (c - 0x30)
      else if 0x61 \<le> c \<and> c \<le> 0x66 then Some (10 + (c - 0x61))
      else if 0x41 \<le> c \<and> c \<le> 0x46 then Some (10 + (c - 0x41)) else None)"

text \<open>The loop: the buffer, and whether all characters were digits.\<close>

fun hexparse_from :: "nat \<Rightarrow> u8 list \<Rightarrow> u8 list \<Rightarrow> (u8 list \<times> bool) res" where
  "hexparse_from i [] b = Inr (b, True)"
| "hexparse_from i (c # cs) b =
     (case hex_char c of
        None \<Rightarrow> Inr (b, False)
      | Some v \<Rightarrow>
          rbind (rd b (i div 2)) (\<lambda>x.
          rbind (wr b (i div 2) (x OR push_bit (if odd i then 0 else 4) v)) (hexparse_from (Suc i) cs)))"

definition osmo_hexparse :: "u8 list \<Rightarrow> u8 list \<Rightarrow> nat \<Rightarrow> (u8 list \<times> int) res" where
  "osmo_hexparse str b max_len =
     (let l = length (cstr str) in
      if odd l \<or> l div 2 > max_len then Inr (b, - 1)
      else rbind (wrn b 0 (replicate max_len 0)) (\<lambda>b.
           rbind (hexparse_from 0 (cstr str) b) (\<lambda>(b, ok). Inr (b, if ok then int (l div 2) else - 1))))"

text \<open>The end of a line is cut: first a carriage return, then a newline.  The second test reads the byte before the buffer when nothing is left.\<close>

definition cut_line :: "u8 list \<Rightarrow> u8 list res" where
  "cut_line s =
     (let s = (if last s = 0x0d then butlast s else s)
      in if s = [] then Inl OutOfBounds else Inr (if last s = 0x0a then butlast s else s))"

function hex_loop :: "rrc_lib \<Rightarrow> (nat \<Rightarrow> timeval) \<Rightarrow> nat \<Rightarrow> u8 list \<Rightarrow> world \<Rightarrow> world res" where
  "hex_loop lib clock k f w =
     (case fgets 4096 f of
        (None, _) \<Rightarrow> Inr w
      | (Some line, rest, _) \<Rightarrow>
          let s = cstr line in
          if s = [] \<or> hd s = 0x0a then hex_loop lib clock k rest w
          else rbind (cut_line s) (\<lambda>s.
               rbind (osmo_hexparse s (replicate 4096 0x2b) 4096) (\<lambda>(msg, len).
               rbind (rassert (len \<ge> 0)) (\<lambda>_.
               if len > 0 then rbind (handle_diag lib msg (of_int len) (w\<lparr>w_tod := clock k\<rparr>)) (hex_loop lib clock (Suc k) rest)
               else hex_loop lib clock k rest w))))"
  by pat_completeness auto
termination
  by (relation "measure (\<lambda>(lib, clock, k, f, w). length f)") (auto dest!: fgets_rest [of 4096, simplified] sym [of "(_, _)" "fgets _ _"])

declare hex_loop.simps [simp del]

definition hex_import :: "rrc_lib \<Rightarrow> (nat \<Rightarrow> timeval) \<Rightarrow> u32 \<Rightarrow> u32 \<Rightarrow> bool \<Rightarrow> bool \<Rightarrow> u8 list \<Rightarrow> world \<Rightarrow> (u32 \<times> u32 \<times> world) res" where
  "hex_import lib clock sid cid callback autotime stdin w =
     rbind (hex_loop lib clock 0 stdin (diag_init sid cid False callback autotime 0 w)) session_destroy"

subsection \<open>Files\<close>

text \<open>\<open>process_file\<close> for a file that is not the standard input.\<close>

definition process_named ::
  "rrc_lib \<Rightarrow> (nat \<Rightarrow> timeval) \<Rightarrow> (tm \<Rightarrow> u64) \<Rightarrow> string \<Rightarrow> u32 \<Rightarrow> u32 \<Rightarrow> bool \<Rightarrow> bool \<Rightarrow> bool \<Rightarrow> u32 \<Rightarrow> u8 list \<Rightarrow> world
   \<Rightarrow> (u32 \<times> u32 \<times> world) res" where
  "process_named lib clock mktime name sid cid gsmtap callback autotime appid infile w =
     rbind (diag_init_file mktime name sid cid gsmtap callback autotime appid w) (\<lambda>w.
     rbind (import_loop lib clock 0 infile w) session_destroy)"

definition chop_newline :: "u8 list \<Rightarrow> u8 list" where
  "chop_newline line = (let s = cstr line in if s \<noteq> [] \<and> last s = 0x0a then butlast s else s)"

text \<open>
  The names for which the loop over the list of files calls \<open>process_file\<close>.  The buffer of the name is the argument \<open>name\<close>, \<open>None\<close> before
  anything was read into it; \<open>leave\<close> is what a call of \<open>process_file\<close> leaves of the name in it.
\<close>

function filelist_names :: "(u8 list \<Rightarrow> u8 list) \<Rightarrow> u8 list option \<Rightarrow> u8 list \<Rightarrow> u8 list list res" where
  "filelist_names leave name f =
     (case fgets 4096 f of (line, rest, eof) \<Rightarrow>
        (case (if line = None then name else line) of
           None \<Rightarrow> Inl Uninitialised
         | Some buf \<Rightarrow>
             let name = chop_newline buf in
             if eof then Inr [name]
             else rbind (filelist_names leave (Some (leave name)) rest) (\<lambda>names. Inr (name # names))))"
  by pat_completeness auto
termination
  by (relation "measure (\<lambda>(leave, name, f). length f)") (auto dest!: sym [THEN fgets_progress] split: if_splits)

declare filelist_names.simps [simp del]

section \<open>Lines\<close>

lemma fgets_line:
  assumes "0x0a \<notin> set l" and "length l < n - 1"
  shows "fgets n (l @ 0x0a # f) = (Some (l @ [0x0a]), f, False)"
proof -
  have "takeWhile (\<lambda>c. c \<noteq> 0x0a) (l @ 0x0a # f) = l" using assms(1) by (induction l) auto
  with assms(2) show ?thesis by (simp add: fgets_def Let_def min_def)
qed

lemma fgets_end [simp]: "1 < n \<Longrightarrow> fgets n [] = (None, [], True)"
  by (simp add: fgets_def)

lemma no_newline: "0x0a \<notin> set l \<Longrightarrow> takeWhile (\<lambda>c. c \<noteq> (0x0a :: u8)) l = l"
  by (rule takeWhile_eq_all_conv [THEN iffD2]) blast

lemma fgets_last:
  assumes "0x0a \<notin> set l" and "length l < n - 1" and "l \<noteq> []"
  shows "fgets n l = (Some l, [], True)"
  using assms(2,3) unfolding fgets_def no_newline [OF assms(1)] Let_def by simp

lemma chop_line: "\<forall>c \<in> set l. nz c \<Longrightarrow> chop_newline (l @ [0x0a]) = l"
  by (simp add: chop_newline_def cstr_nz Let_def)

lemma chop_plain:
  assumes "\<forall>c \<in> set l. nz c \<and> c \<noteq> 0x0a"
  shows "chop_newline l = l"
proof -
  have "cstr l = l" using assms by (intro cstr_nz) blast
  moreover have "last l \<noteq> 0x0a" if "l \<noteq> []" using assms last_in_set [OF that] by blast
  ultimately show ?thesis by (auto simp: chop_newline_def Let_def)
qed

definition name_line :: "u8 list \<Rightarrow> bool" where
  "name_line l \<longleftrightarrow> length l < 4095 \<and> (\<forall>c \<in> set l. nz c \<and> c \<noteq> 0x0a)"

lemma filelist_line:
  assumes "name_line l"
  shows "filelist_names leave name (l @ 0x0a # f) = rbind (filelist_names leave (Some (leave l)) f) (\<lambda>names. Inr (l # names))"
proof -
  have "fgets 4096 (l @ 0x0a # f) = (Some (l @ [0x0a]), f, False)" using assms by (intro fgets_line) (auto simp: name_line_def)
  moreover have "chop_newline (l @ [0x0a]) = l" using assms by (intro chop_line) (auto simp: name_line_def)
  ultimately show ?thesis by (subst filelist_names.simps) simp
qed

lemma filelist_end: "filelist_names leave (Some n) [] = Inr [chop_newline n]"
  by (subst filelist_names.simps) simp

text \<open>C20. The list of files.  For a list of names, each ended by a newline, the loop of the importer processes every name in order, and then what is left of the last
  name a second time: it asks for the end of the file before it has read up to it.  When the last newline is missing, every name is processed once.\<close>

theorem filelist_last_twice:
  assumes "\<forall>l \<in> set (ls @ [l]). name_line l" and "l \<noteq> []" and "name_line (leave l)"
  shows "filelist_names leave None (concat (map (\<lambda>l. l @ [0x0a]) (ls @ [l]))) = Inr (ls @ [l, leave l])
    \<and> filelist_names leave None (concat (map (\<lambda>l. l @ [0x0a]) ls) @ l) = Inr (ls @ [l])"
proof -
  have "filelist_names leave name (concat (map (\<lambda>l. l @ [0x0a]) (ls @ [l]))) = Inr (ls @ [l, leave l])
      \<and> filelist_names leave name (concat (map (\<lambda>l. l @ [0x0a]) ls) @ l) = Inr (ls @ [l])" for name
    using assms(1)
  proof (induction ls arbitrary: name)
    case Nil
    then have l: "name_line l" by simp
    then have "fgets 4096 l = (Some l, [], True)" using assms(2) by (intro fgets_last) (auto simp: name_line_def)
    moreover have "chop_newline l = l" "chop_newline (leave l) = leave l" using l assms(3) by (simp_all add: name_line_def chop_plain)
    moreover from this(1) calculation(1) have "filelist_names leave name l = Inr [l]" by (subst filelist_names.simps) simp
    ultimately show ?case using l by (simp add: filelist_line filelist_end)
  qed (simp add: filelist_line)
  then show ?thesis by blast
qed

theorem filelist_last_twice_witness:
  "filelist_names id None (concat (map (\<lambda>l. l @ [0x0a]) ([[0x61]] @ [[0x2d]]))) = Inr ([[0x61]] @ [[0x2d], id [0x2d]])
    \<and> filelist_names id None (concat (map (\<lambda>l. l @ [0x0a]) [[0x61]]) @ [0x2d]) = Inr ([[0x61]] @ [[0x2d]])"
  by (rule filelist_last_twice) (simp_all add: name_line_def)

section \<open>Hexadecimal text\<close>

lemma hex_digit_code: "d < 16 \<Longrightarrow> (of_char (digit_char d) :: u8) = of_nat (if d < 10 then 48 + d else 87 + d)"
proof -
  have "(of_char (char_of n :: char) :: u8) = of_nat (n mod 256)" for n :: nat
    by (subst of_nat_of_char [symmetric]) (simp only: of_char_of)
  then show "d < 16 \<Longrightarrow> ?thesis" by (simp add: digit_char_def)
qed
lemma less_16: "d < 16 \<Longrightarrow> d \<in> {0, 1, 2, 3, 4, 5, 6, 7, 8, 9, 10, 11, 12, 13, 14, 15 :: nat}"
  by (simp add: eval_nat_numeral less_Suc_eq)
lemma hex_char_digit:
  assumes "d < 16"
  shows "hex_char (of_char (digit_char d)) = Some (of_nat d)" "nz (of_char (digit_char d) :: u8)" "(of_char (digit_char d) :: u8) \<noteq> 0x0a"
    "(of_char (digit_char d) :: u8) \<noteq> 0x0d"
  unfolding hex_digit_code [OF assms] using less_16 [OF assms] by - (elim insertE emptyE; simp add: hex_char_def)+

text \<open>An octet of two digits.\<close>

lemma nibbles: "0 OR push_bit 4 (of_nat (unat b div 16)) OR of_nat (unat b mod 16) = (b :: u8)"
proof -
  have "(of_nat (unat b div 16) :: u8) = drop_bit 4 b" by (simp add: drop_bit_eq_div unat_div_distrib [symmetric, of b 16, simplified])
  moreover have "(of_nat (unat b mod 16) :: u8) = take_bit 4 b" by (simp add: take_bit_eq_mod unat_mod_distrib [symmetric, of b 16, simplified])
  moreover have "push_bit 4 (drop_bit 4 b) OR take_bit 4 b = b" by (auto intro!: bit_word_eqI simp: bit_simps)
  ultimately show ?thesis by simp
qed

abbreviation hex_text :: "u8 list \<Rightarrow> u8 list" where
  "hex_text bs \<equiv> str_bytes (hexdump bs)"

lemma hex_text_Cons: "hex_text (b # bs) = of_char (digit_char (unat b div 16)) # of_char (digit_char (unat b mod 16)) # hex_text bs"
  by (simp add: hexdump_def hex2_def str_bytes_def)

lemma unat_u8_div: "unat (b :: u8) div 16 < 16"
  using unsigned_less [of b, where 'a = nat] by simp

lemma hexparse_text:
  "hexparse_from (2 * length pre) (hex_text bs) (pre @ replicate (length bs) 0 @ r) = Inr (pre @ bs @ r, True)"
proof (induction bs arbitrary: pre)
  case (Cons b bs)
  from Cons.IH [of "pre @ [b]"]
  have "hexparse_from (Suc (Suc (2 * length pre))) (hex_text bs) (pre @ b # replicate (length bs) 0 @ r) = Inr (pre @ b # bs @ r, True)" by simp
  then show ?case
    using nibbles [of b] by (simp add: hex_text_Cons hex_char_digit unat_u8_div)
qed (simp add: str_bytes_def hexdump_def)

lemma hex_text_chars: "c \<in> set (hex_text bs) \<Longrightarrow> nz c \<and> c \<noteq> 0x0a \<and> c \<noteq> 0x0d"
proof (induction bs)
  case (Cons b bs)
  then show ?case using hex_char_digit [OF unat_u8_div [of b]] hex_char_digit [of "unat b mod 16"] by (auto simp: hex_text_Cons)
qed (simp add: str_bytes_def hexdump_def)

lemma length_hex_text [simp]: "length (hex_text bs) = 2 * length bs"
  by (simp add: str_bytes_def hexdump_text(2))

lemma cstr_hex_text [simp]: "cstr (hex_text bs) = hex_text bs"
  by (rule cstr_nz) (use hex_text_chars in blast)

lemma osmo_hexparse_text:
  assumes "length bs \<le> max_len" and "length b = max_len"
  shows "osmo_hexparse (hex_text bs) b max_len = Inr (bs @ replicate (max_len - length bs) 0, int (length bs))"
proof -
  have r: "replicate max_len (0 :: u8) = replicate (length bs) 0 @ replicate (max_len - length bs) 0"
    using assms(1) by (simp add: replicate_add [symmetric])
  have "wrn b 0 (replicate max_len 0) = Inr (replicate max_len 0)" using assms(2) by (simp add: wrn_def)
  with hexparse_text [of "[]" bs "replicate (max_len - length bs) 0"] assms show ?thesis
    by (simp add: osmo_hexparse_def Let_def) (simp add: r)
qed

text \<open>C21. The hexadecimal functions of the library are inverse to each other: \<open>osmo_hexparse\<close> reads the octets back from what \<open>osmo_hexdump_nospc\<close> prints of up to
  2047 octets, and clears the rest of the buffer.\<close>

theorem hexdump_hexparse:
  assumes "length bs \<le> 2047" and "length bs \<le> max_len" and "length b = max_len"
  shows "rbind (osmo_hexdump_nospc bs (of_nat (length bs))) (\<lambda>t. osmo_hexparse (str_bytes t) b max_len)
    = Inr (bs @ replicate (max_len - length bs) 0, int (length bs))"
proof -
  have n: "unat (of_nat (length bs) :: u32) = length bs" using assms(1) by (intro unat_of_nat_small) simp
  have "\<not> sint (of_nat (length bs) :: u32) < 0"
    using assms(1) by (simp add: signed_of_nat signed_take_bit_int_eq_self)
  with n assms osmo_hexparse_text [OF assms(2,3)] show ?thesis by (simp add: osmo_hexdump_nospc_def)
qed

theorem hexdump_hexparse_witness:
  "rbind (osmo_hexdump_nospc [0x1a, 0xef] (of_nat (length [0x1a, 0xef :: u8]))) (\<lambda>t. osmo_hexparse (str_bytes t) [1, 2, 3] 3)
    = Inr ([0x1a, 0xef] @ replicate (3 - length [0x1a, 0xef :: u8]) 0, int (length [0x1a, 0xef :: u8]))"
  by (rule hexdump_hexparse) simp_all

section \<open>The hexadecimal importer\<close>

text \<open>The packets that the lines stand for, each in a buffer of zeros.\<close>

primrec handle_packets :: "rrc_lib \<Rightarrow> (nat \<Rightarrow> timeval) \<Rightarrow> nat \<Rightarrow> u8 list list \<Rightarrow> world \<Rightarrow> world res" where
  "handle_packets lib clock k [] w = Inr w"
| "handle_packets lib clock k (bs # ps) w =
     rbind (handle_diag lib (bs @ replicate (4096 - length bs) 0) (of_nat (length bs)) (w\<lparr>w_tod := clock k\<rparr>)) (handle_packets lib clock (Suc k) ps)"

definition hex_lines :: "u8 list list \<Rightarrow> u8 list" where
  "hex_lines ps = concat (map (\<lambda>bs. hex_text bs @ [0x0a]) ps)"

lemma hex_loop_line:
  assumes "0x0a \<notin> set l" and "\<forall>c \<in> set l. nz c" and "length l < 4095" and "l \<noteq> []"
  shows "hex_loop lib clock k (l @ 0x0a # f) w =
    rbind (osmo_hexparse l (replicate 4096 0x2b) 4096) (\<lambda>(msg, len).
    rbind (rassert (len \<ge> 0)) (\<lambda>_.
    if len > 0 then rbind (handle_diag lib msg (of_int len) (w\<lparr>w_tod := clock k\<rparr>)) (hex_loop lib clock (Suc k) f)
    else hex_loop lib clock k f w))"
proof -
  have "fgets 4096 (l @ 0x0a # f) = (Some (l @ [0x0a]), f, False)" using assms(1,3) by (intro fgets_line) auto
  moreover have "cstr (l @ [0x0a]) = l @ [0x0a]" using assms(2) by (intro cstr_nz) auto
  moreover have "cut_line (l @ [0x0a]) = Inr l" by (simp add: cut_line_def)
  moreover have "hd (l @ [0x0a]) \<noteq> 0x0a" using assms(1,4) by (cases l) auto
  ultimately show ?thesis by (subst hex_loop.simps) (simp add: Let_def)
qed

lemma hex_loop_packets:
  assumes "\<forall>bs \<in> set ps. 0 < length bs \<and> length bs \<le> 2047"
  shows "hex_loop lib clock k (hex_lines ps) w = handle_packets lib clock k ps w"
  using assms
proof (induction ps arbitrary: k w)
  case Nil
  then show ?case by (subst hex_loop.simps) (simp add: hex_lines_def)
next
  case (Cons bs ps)
  have "hex_loop lib clock k (hex_text bs @ 0x0a # hex_lines ps) w =
      rbind (handle_diag lib (bs @ replicate (4096 - length bs) 0) (of_int (int (length bs))) (w\<lparr>w_tod := clock k\<rparr>)) (hex_loop lib clock (Suc k) (hex_lines ps))"
    using Cons.prems hex_text_chars [of _ bs] osmo_hexparse_text [of bs 4096 "replicate 4096 0x2b"] length_hex_text [of bs]
    by (subst hex_loop_line) (auto simp: rassert_def simp del: length_hex_text)
  moreover have "hex_loop lib clock (Suc k) (hex_lines ps) = handle_packets lib clock (Suc k) ps"
    using Cons by (intro ext) simp
  ultimately show ?case by (simp add: hex_lines_def)
qed

lemma handle_packets_safe:
  assumes "rrc_lib_ok lib" and "reaches lib w" and "\<forall>bs \<in> set ps. 10 < length bs \<and> length bs \<le> 2047"
  shows "res_ok (reaches lib) (handle_packets lib clock k ps w)"
  using assms(2,3)
proof (induction ps arbitrary: k w)
  case (Cons bs ps)
  have "unat (of_nat (length bs) :: u32) = length bs" using Cons.prems(2) by (intro unat_of_nat_small) simp
  then have "\<not> (of_nat (length bs) :: u32) \<le> 10" "\<not> (of_nat (length bs) :: u32) \<le> 3" using Cons.prems(2) by (simp_all add: word_le_nat_alt)
  then have "\<not> short_packet (bs @ replicate (4096 - length bs) 0) (of_nat (length bs))" by (simp add: short_packet_def)
  then have "res_ok (reaches lib) (handle_diag lib (bs @ replicate (4096 - length bs) 0) (of_nat (length bs)) (w\<lparr>w_tod := clock k\<rparr>))"
    using handle_diag_safe [OF assms(1) clock_safe(2) [OF Cons.prems(1)]] by blast
  then show ?case using Cons by (auto elim: res_ok_mono)
qed simp

text \<open>Any text at all.\<close>

lemma hexparse_from_ok: "res_ok (\<lambda>_. True) (hexparse_from i cs b)"
  by (induction cs arbitrary: i b) (simp_all split: option.splits)

lemma osmo_hexparse_ok: "res_ok (\<lambda>_. True) (osmo_hexparse str b n)"
proof -
  have "res_ok (\<lambda>x. res_ok (\<lambda>_. True) (case x of (b, ok) \<Rightarrow> Inr (b, if ok then int l else - 1))) (hexparse_from 0 (cstr str) b')" for b' l
    by (rule res_ok_mono [OF hexparse_from_ok]) (auto split: prod.splits)
  then show ?thesis by (simp add: osmo_hexparse_def Let_def)
qed

lemma cut_line_ok: "res_ok (\<lambda>_. True) (cut_line s)"
  by (simp add: cut_line_def Let_def)

lemma hex_loop_passes:
  assumes "rrc_lib_ok lib" and "reaches lib w"
  shows "passes (reaches lib) (hex_loop lib clock k f w)"
  using assms(2)
proof (induction "length f" arbitrary: f k w rule: less_induct)
  case less
  obtain line rest eof where g: "fgets 4096 f = (line, rest, eof)" by (metis prod_cases3)
  show ?case
  proof (cases line)
    case (Some l)
    have less': "length rest < length f" using fgets_rest [of 4096 f l rest eof] g Some by simp
    have ih: "passes (reaches lib) (hex_loop lib clock k' rest w')" if "reaches lib w'" for k' w'
      by (rule less.hyps [OF less' that])
    have "passes (reaches lib) (rbind (cut_line s) (\<lambda>s. rbind (osmo_hexparse s (replicate 4096 0x2b) 4096) (\<lambda>(msg, len).
        rbind (rassert (len \<ge> 0)) (\<lambda>_. if len > 0 then rbind (handle_diag lib msg (of_int len) (w\<lparr>w_tod := clock k\<rparr>)) (hex_loop lib clock (Suc k) rest)
          else hex_loop lib clock k rest w))))" for s
      by (auto intro!: passes_bind [OF passes_res_ok [OF cut_line_ok]] passes_bind [OF passes_res_ok [OF osmo_hexparse_ok]] passes_assert
          passes_bind [OF handle_diag_passes [OF assms(1)]] ih clock_safe(2) less.prems)
    then show ?thesis using ih [OF less.prems] g Some by (subst hex_loop.simps) (simp add: Let_def)
  qed (use g less.prems in \<open>subst hex_loop.simps, simp\<close>)
qed

text \<open>C17. The hexadecimal importer.  For every standard input at all the importer comes to a reachable state of the parser, or it ends in a failed assertion, an access outside
  of a buffer, a use of unwritten memory or the endless loop of the short message parser: never with a null pointer, a freed message or an abort.  Lines that stand for packets of 1 to
  2047 octets, each ended by a newline, are handled as these packets in their order, each followed by zeros in its buffer; and if all of them are longer than the header (10
  octets), no assertion fails.\<close>

theorem hex_import_safe:
  assumes "rrc_lib_ok lib" and "fresh_world w" and "w0 = diag_init sid cid False callback autotime 0 w"
  shows "(case hex_loop lib clock 0 stdin w0 of
         Inl e \<Rightarrow> e \<in> {OutOfBounds, Uninitialised, Diverges, AssertFailed}
       | Inr w' \<Rightarrow> \<exists>X. reachable lib X w')
    \<and> ((\<forall>bs \<in> set ps. 0 < length bs \<and> length bs \<le> 2047) \<longrightarrow>
        hex_loop lib clock 0 (hex_lines ps) w0 = handle_packets lib clock 0 ps w0)
    \<and> ((\<forall>bs \<in> set ps. 10 < length bs \<and> length bs \<le> 2047) \<longrightarrow>
        hex_loop lib clock 0 (hex_lines ps) w0 \<noteq> Inl AssertFailed)"
proof (intro conjI impI)
  have w0: "reaches lib w0" unfolding assms(3) by (rule diag_init_reaches [OF assms(2)])
  from hex_loop_passes [OF assms(1) this, of clock 0 stdin]
  show "case hex_loop lib clock 0 stdin w0 of Inl e \<Rightarrow> e \<in> {OutOfBounds, Uninitialised, Diverges, AssertFailed} | Inr w' \<Rightarrow> \<exists>X. reachable lib X w'"
    by (auto simp: passes_def res_ok_def soft_def reaches_def split: sum.splits)
  show "hex_loop lib clock 0 (hex_lines ps) w0 = handle_packets lib clock 0 ps w0" if "\<forall>bs \<in> set ps. 0 < length bs \<and> length bs \<le> 2047"
    using that by (rule hex_loop_packets)
  assume ps: "\<forall>bs \<in> set ps. 10 < length bs \<and> length bs \<le> 2047"
  then have "hex_loop lib clock 0 (hex_lines ps) w0 = handle_packets lib clock 0 ps w0" by (intro hex_loop_packets) auto
  with handle_packets_safe [OF assms(1) w0 ps, of clock 0] show "hex_loop lib clock 0 (hex_lines ps) w0 \<noteq> Inl AssertFailed" by auto
qed

theorem hex_import_safe_witness:
  "let w0 = diag_init 1 1 False False False 0 zero_world; f = (\<lambda>_. zero_timeval) in
   (case hex_loop sample_lib f 0 [0x31, 0x30, 0x0d, 0x0a] w0 of
         Inl e \<Rightarrow> e \<in> {OutOfBounds, Uninitialised, Diverges, AssertFailed}
       | Inr w' \<Rightarrow> \<exists>X. reachable sample_lib X w')
    \<and> hex_loop sample_lib f 0 (hex_lines [sample_packet]) w0 = handle_packets sample_lib f 0 [sample_packet] w0
    \<and> hex_loop sample_lib f 0 (hex_lines [sample_packet]) w0 \<noteq> Inl AssertFailed"
proof -
  have "\<forall>bs \<in> set [sample_packet]. 0 < length bs \<and> length bs \<le> 2047" "\<forall>bs \<in> set [sample_packet]. 10 < length bs \<and> length bs \<le> 2047"
    by (simp_all add: sample_packet_def)
  note len = this
  have "fresh_world zero_world" by (simp add: fresh_world_def zero_world_def)
  from hex_import_safe [OF sample_lib_ok this refl, of "\<lambda>_. zero_timeval" "[0x31, 0x30, 0x0d, 0x0a]" 1 1 False False "[sample_packet]"]
  show ?thesis using len unfolding Let_def by blast
qed

lemma hexparse_bad:
  assumes "\<exists>c \<in> set cs. hex_char c = None" and "i + length cs \<le> 2 * length b"
  shows "\<exists>b'. hexparse_from i cs b = Inr (b', False)"
  using assms
proof (induction cs arbitrary: i b)
  case (Cons c cs)
  show ?case
  proof (cases "hex_char c")
    case (Some v)
    have "i div 2 < length b" using Cons.prems(2) by auto
    with Cons.IH [of "Suc i" "b[i div 2 := _]"] Cons.prems Some show ?thesis by auto
  qed simp
qed simp

text \<open>Lines that end with a carriage return and a newline stop the hexadecimal importer: it looks for the carriage return before it has removed the newline, so that it stays in the line,
  which is then no hexadecimal text, and the assertion on the result fails.\<close>

theorem hex_import_crlf:
  assumes "0x0a \<notin> set l" and "\<forall>c \<in> set l. nz c" and "length l < 4094"
  shows "hex_loop lib clock k (l @ [0x0d, 0x0a] @ f) w = Inl AssertFailed"
proof -
  let ?l = "l @ [0x0d]"
  have c: "cstr ?l = ?l" using assms(2) by (intro cstr_nz) auto
  have "hex_char 0x0d = None" by (simp add: hex_char_def)
  then obtain b' where "hexparse_from 0 ?l (replicate 4096 0) = Inr (b', False)"
    using hexparse_bad [of ?l 0 "replicate 4096 0"] assms(3) by auto
  moreover have "wrn (replicate 4096 0x2b) 0 (replicate 4096 0) = Inr (replicate 4096 (0 :: u8))" by (simp add: wrn_def)
  ultimately have "\<exists>b'. osmo_hexparse ?l (replicate 4096 0x2b) 4096 = Inr (b', - 1)"
    unfolding osmo_hexparse_def Let_def c by auto
  then show ?thesis using hex_loop_line [of ?l lib clock k f w] assms by (auto simp: rassert_def)
qed

theorem hex_import_crlf_witness: "hex_loop sample_lib (\<lambda>_. zero_timeval) 0 ([0x31, 0x30] @ [0x0d, 0x0a] @ []) zero_world = Inl AssertFailed"
  by (rule hex_import_crlf) simp_all

section \<open>Files with names\<close>

lemma unnamed_upd [simp]:
  "unnamed (s\<lparr>s_imsi := i\<rparr>) = unnamed s" "unnamed (s\<lparr>s_timestamp := t\<rparr>) = unnamed s" "unnamed (s\<lparr>s_rat := r\<rparr>) = unnamed s"
  "unnamed (s\<lparr>s_mcc := m\<rparr>) = unnamed s" "unnamed (s\<lparr>s_mnc := n\<rparr>) = unnamed s" "unnamed (s\<lparr>s_lac := l\<rparr>) = unnamed s"
  "unnamed (s\<lparr>s_cid := c\<rparr>) = unnamed s" "unnamed (s\<lparr>s_appid := a\<rparr>) = unnamed s"
  by (simp_all add: unnamed_def)

lemma named_as_upd:
  "length i = length (s_imsi s) \<Longrightarrow> named_as s (s\<lparr>s_imsi := i\<rparr>)" "named_as s (s\<lparr>s_timestamp := t\<rparr>)" "named_as s (s\<lparr>s_rat := r\<rparr>)"
  "named_as s (s\<lparr>s_mcc := m\<rparr>)" "named_as s (s\<lparr>s_mnc := n\<rparr>)" "named_as s (s\<lparr>s_lac := l\<rparr>)" "named_as s (s\<lparr>s_cid := c\<rparr>)"
  "named_as s (s\<lparr>s_appid := a\<rparr>)" "named_as s s"
  by (simp_all add: named_as_def)

lemma named_as_trans: "named_as s s' \<Longrightarrow> named_as s' s'' \<Longrightarrow> named_as s s''"
  by (simp add: named_as_def)

text \<open>The steps of the parser of names change only these fields.\<close>

definition names :: "(session_info \<Rightarrow> bool \<times> session_info) \<Rightarrow> bool" where
  "names k \<longleftrightarrow> (\<forall>s. length (s_imsi s) = 32 \<longrightarrow> named_as s (snd (k s)))"

lemma with_token_names: "(\<And>t p. names (k t p)) \<Longrightarrow> names (with_token ptr k)"
  by (auto simp: names_def with_token_def named_as_upd split: prod.splits option.splits)

lemma named_as_if: "named_as s x \<Longrightarrow> named_as s y \<Longrightarrow> named_as s (if b then x else y)"
  by simp

lemma named_as_cell:
  assumes "named_as s s'"
  shows "named_as s (s'\<lparr>s_mcc := m\<rparr>)" "named_as s (s'\<lparr>s_mnc := n\<rparr>)" "named_as s (s'\<lparr>s_lac := l\<rparr>)" "named_as s (s'\<lparr>s_cid := c\<rparr>)"
  using assms by (simp_all add: named_as_def)

lemma filename_cell_names: "names (filename_cell token)"
  unfolding names_def filename_cell_def Let_def if_distrib [of snd] snd_conv
  by (intro allI impI named_as_if named_as_cell named_as_upd)

lemma filename_time_names: "names (filename_time mktime now token)"
  by (auto simp: names_def filename_time_def Let_def named_as_upd split: list.splits)

lemma names_bind: "names f \<Longrightarrow> names g \<Longrightarrow> names (\<lambda>s. case f s of (False, s) \<Rightarrow> (False, s) | (True, s) \<Rightarrow> g s)"
  by (fastforce simp: names_def named_as_def split: prod.splits bool.splits)

lemma names_upd: "names g \<Longrightarrow> (\<And>s. length (s_imsi s) = 32 \<Longrightarrow> named_as s (f s)) \<Longrightarrow> names (\<lambda>s. g (f s))"
  by (auto simp: names_def named_as_def)

lemma filename_place_names: "names (filename_place mktime now token ptr)"
proof -
  have "names (\<lambda>s. case filename_network t of None \<Rightarrow> (False, s)
      | Some rat \<Rightarrow> with_token p (\<lambda>token ptr s. filename_cell token s) (s\<lparr>s_rat := rat\<rparr>))" for t p
  proof (cases "filename_network t")
    case (Some r)
    have "names (\<lambda>s. with_token p (\<lambda>token ptr s. filename_cell token s) (s\<lparr>s_rat := r\<rparr>))"
      by (rule names_upd [OF with_token_names]) (simp_all add: filename_cell_names named_as_upd)
    with Some show ?thesis by simp
  qed (simp add: names_def named_as_upd)
  from names_bind [OF filename_time_names with_token_names [OF this]] show ?thesis by (simp add: filename_place_def [abs_def])
qed

lemma filename_fields_names: "names (filename_fields mktime now ptr)"
proof -
  have i: "names (filename_imsi mktime now token ptr)" for token ptr
  proof (cases "length token \<in> {5, 6}")
    case True
    have "names (\<lambda>s. with_token ptr (filename_place mktime now) (if scan_number 10 (Some 6) token \<noteq> None then s\<lparr>s_imsi := strncpy_buf 32 (str_bytes token)\<rparr> else s))"
      by (rule names_upd [OF with_token_names]) (simp_all add: filename_place_names named_as_upd strncpy_buf_def)
    with True show ?thesis by (simp add: filename_imsi_def [abs_def])
  qed (simp add: filename_imsi_def [abs_def] filename_place_names)
  show ?thesis
    unfolding filename_fields_def by (intro with_token_names) (simp add: i with_token_names)
qed

lemma session_from_filename_names:
  assumes "session_from_filename mktime auto now name s = Inr (r, s', name')" and "length (s_imsi s) = 32"
  shows "named_as s s'"
proof -
  obtain a where a: "parse_appid name = Inr a" using assms(1) by (auto simp: session_from_filename_def rbind_def split: sum.splits)
  have n: "named_as s (snd (filename_fields mktime now ptr (s\<lparr>s_appid := a\<rparr>)))" for ptr
    using filename_fields_names [of mktime now ptr] assms(2) by (auto simp: names_def named_as_def)
  have "\<exists>s1. named_as s s1 \<and> (s' = s1 \<or> s' = s1\<lparr>s_timestamp := now\<rparr>)"
  proof (cases "filename_marker name")
    case None
    with assms(1) a show ?thesis by (intro exI [of _ "s\<lparr>s_appid := a\<rparr>"]) (auto simp: session_from_filename_def Let_def named_as_upd)
  next
    case (Some ptr)
    with assms(1) a n [of ptr] show ?thesis
      by (intro exI [of _ "snd (filename_fields mktime now ptr (s\<lparr>s_appid := a\<rparr>))"])
        (auto simp: session_from_filename_def Let_def split: prod.splits bool.splits if_splits)
  qed
  then show ?thesis using named_as_upd(2) named_as_trans by blast
qed

lemma diag_init_file_reaches:
  assumes "fresh_world w" and "diag_init_file mktime name sid cid gsmtap callback autotime appid w = Inr w0"
  shows "reaches lib w0"
proof -
  let ?v = "w\<lparr>w_auto_timestamp := autotime\<rparr>"
  let ?w = "session_init sid False gsmtap callback ?v"
  let ?app = "\<lambda>s. if nz appid then s\<lparr>s_appid := appid\<rparr> else s"
  have "?v = ?v\<lparr>w_auto_reset := True, w_msgs := [], w_cells := [], w_cell_list := []\<rparr>"
    using assms(1) by (cases w) (simp add: fresh_world_def)
  then have start: "reachable lib {} ?w" using reachable.start [of lib ?v] by (simp add: start_world_def)
  from assms(2) obtain r0 s0 n0 r1 s1 n1 where
    a: "session_from_filename mktime autotime (w_tod ?w) name (w_sess ?w ! 0) = Inr (r0, s0, n0)" and
    b: "session_from_filename mktime autotime (w_tod ?w) n0 (w_sess ?w ! 1) = Inr (r1, s1, n1)" and
    w0: "w0 = cell_init cid (ucast (tv_sec (s_timestamp (?app s0)))) callback (?w\<lparr>w_sess := [?app s0, ?app s1]\<rparr>)"
    by (auto simp: diag_init_file_def Let_def rbind_def split: sum.splits if_splits)
  define f where "f s = (if s_domain s = DOMAIN_PS then ?app s1 else ?app s0)" for s :: session_info
  obtain z0 z1 where z: "w_sess ?w = [z0, z1]" "length (s_imsi z0) = 32" "length (s_imsi z1) = 32" "s_domain z0 = 0" "s_domain z1 = DOMAIN_PS"
    by (simp add: session_init_def zero_session_def)
  have "named_as z0 (?app s0)" "named_as z1 (?app s1)"
    using session_from_filename_names [OF a] session_from_filename_names [OF b] z named_as_upd(8) named_as_trans by auto
  then have "\<forall>s \<in> set (w_sess ?w). named_as s (f s)" using z by (simp add: f_def DOMAIN_PS_def)
  moreover have "map f (w_sess ?w) = [?app s0, ?app s1]" using z by (simp add: f_def DOMAIN_PS_def)
  ultimately have "reachable lib {} (?w\<lparr>w_sess := [?app s0, ?app s1]\<rparr>)" using reachable.named [OF start, of f] by metis
  from reachable.cells [OF this] show ?thesis unfolding w0 reaches_def by blast
qed

text \<open>C3. The import of a capture of any size and content, from the standard input or from a file of any name.  The importer either comes to a reachable state of the parser, to
  which the theorems on reachable states apply, or it stops with one of these faults: a read or write outside of a buffer, a use of unwritten memory, the endless loop of the short message
  parser, a failed assertion (only if the capture has a packet that is cut off within its header), or a null pointer.  The null pointer is exactly that of \<open>parse_appid\<close>: it depends on
  the name alone, on its header or that of the cut name, and it does not occur with the standard input.  No freed message is used and nothing aborts.\<close>

theorem import_safe:
  assumes "rrc_lib_ok lib" and "fresh_world w"
  shows "(if parse_appid name = Inl NullDeref \<or> parse_appid (cut_name name) = Inl NullDeref
      then diag_init_file mktime name sid cid gsmtap callback autotime appid w = Inl NullDeref
      else case rbind (diag_init_file mktime name sid cid gsmtap callback autotime appid w) (import_loop lib clock 0 infile) of
          Inl e \<Rightarrow> e \<in> {OutOfBounds, Uninitialised, Diverges}
            \<or> e = AssertFailed \<and> (\<exists>(msg, len) \<in> set (packets infile). short_packet msg (of_nat len))
        | Inr w' \<Rightarrow> \<exists>X. reachable lib X w')
    \<and> (case import_loop lib clock 0 infile (diag_init sid cid gsmtap callback autotime appid w) of
          Inl e \<Rightarrow> e \<in> {OutOfBounds, Uninitialised, Diverges}
            \<or> e = AssertFailed \<and> (\<exists>(msg, len) \<in> set (packets infile). short_packet msg (of_nat len))
        | Inr w' \<Rightarrow> \<exists>X. reachable lib X w')"
proof -
  have *: "case import_loop lib clock 0 infile w0 of
      Inl e \<Rightarrow> e \<in> {OutOfBounds, Uninitialised, Diverges} \<or> e = AssertFailed \<and> (\<exists>(msg, len) \<in> set (packets infile). short_packet msg (of_nat len))
    | Inr w' \<Rightarrow> \<exists>X. reachable lib X w'" if "reaches lib w0" for w0
    using import_loop_outcome [OF assms(1) that, of clock 0 infile]
    by (cases "import_loop lib clock 0 infile w0") (simp_all add: soft_def reaches_def)
  from * [OF diag_init_reaches [OF assms(2)]] show ?thesis
    using diag_init_file_cases [of name mktime sid cid gsmtap callback autotime appid w]
    by (auto intro!: * diag_init_file_reaches [OF assms(2)])
qed

text \<open>Two files with names, and a capture of one packet: with the second name the importer stops before it reads the capture.\<close>

theorem import_safe_witness:
  "let infile = concat (map escape_byte sample_packet) @ [0x7e] in
   (case rbind (diag_init_file (\<lambda>_. 7) sample_name 1 1 False False False 0 zero_world) (import_loop sample_lib (\<lambda>_. zero_timeval) 0 infile) of
      Inl e \<Rightarrow> e \<in> {OutOfBounds, Uninitialised, Diverges}
    | Inr w' \<Rightarrow> \<exists>X. reachable sample_lib X w')
   \<and> diag_init_file (\<lambda>_. 7) ''2__x'' 1 1 False False False 0 zero_world = Inl NullDeref"
proof -
  let ?f = "concat (map escape_byte sample_packet) @ [0x7e]"
  have "packets [] = []" by (subst packets.simps) (simp add: fread_unescape_def fread_unescape_from.simps)
  moreover obtain msg where "packets (concat (map escape_byte sample_packet) @ 0x7e # []) = (msg, length sample_packet) # packets []"
    using packets_frame [of sample_packet "[]"] by (auto simp: sample_packet_def)
  ultimately have p: "\<not> (\<exists>(msg, len) \<in> set (packets ?f). short_packet msg (of_nat len))"
    by (simp add: short_packet_def sample_packet_def)
  have f: "fresh_world zero_world" by (simp add: fresh_world_def zero_world_def)
  have n: "parse_appid sample_name \<noteq> Inl NullDeref" "parse_appid (cut_name sample_name) \<noteq> Inl NullDeref" "parse_appid ''2__x'' = Inl NullDeref"
    by code_simp+
  note r = import_safe [OF sample_lib_ok f, where mktime = "\<lambda>_. 7" and sid = 1 and cid = 1 and gsmtap = False and callback = False and autotime = False
      and appid = 0 and clock = "\<lambda>_. zero_timeval" and infile = ?f]
  from r [of sample_name] r [of "''2__x''"] n show ?thesis unfolding Let_def by (auto simp: p split: sum.splits)
qed

end
