(* ===== verification/Spec2Isabelle.thy ===== *)
theory Spec2Isabelle
  imports Cch Address Chan_Detect Gprs Program Msg_Spec Lapdm_Frames Sms_Header Diag_Safe Sch Burst Gsmtap Sql_Cells Importers
begin

text \<open>
  A verification of \<open>gsm-parser\<close>, the analyser for mobile phone traffic of SRLabs (\<open>src/gsm-parser\<close>), with the
  functions of the bundled \<open>libosmocore\<close> that it calls.

  \<^bold>\<open>The program.\<close>  A front end turns a recording into radio messages: DIAG packets of a Qualcomm baseband
  (\<open>diag_input.c\<close>, \<open>diag_import.c\<close>), GSMTAP packets of a network capture (\<open>gsmtap_import.c\<close>) or bursts from the air
  (\<open>process.c\<close>, \<open>ccch.c\<close>, \<open>tch.c\<close>, \<open>gprs.c\<close>), which are deciphered and decoded first.  \<open>handle_radio_msg\<close>
  (\<open>l3_handler.c\<close>) attaches a message to one of the two sessions, circuit or packet switched, and hands it to the handlers of its
  technology; these parse the layers above, update the session and the table of cells, and may close the session, which
  writes what was learnt about it to a database, and start a new one.  Every message is allocated by a front
  end and afterwards belongs to the linked list of a session or is freed.

  \<^bold>\<open>The model.\<close>  C functions are functions into \<open>'a res\<close>, the sum of a fault and a result (\<open>Prelude\<close>).  The
  faults are accesses outside of an object, null and dangling pointers, failed assertions, \<open>abort()\<close>, use of
  unwritten memory and divergence; each read and write of an array is checked.  Integers have the width and the
  wrap-around of the code.  An array is a list, a pointer into it the suffix that starts there.  The state of the program,
  \<open>world\<close>, has the two sessions, a store of messages and one of cells, in which a freed object is \<open>None\<close>, the global variables, and
  the list of what was written.  Loops are structural recursion, counted folds, or functions with a termination proof.

  \<^bold>\<open>Theories and sources.\<close>

  \<^item> Coding: \<open>Bit_Func\<close> (\<open>bit_func.c\<close>), \<open>Crc\<close> (\<open>crc.c\<close>), \<open>Interleave\<close> (\<open>gsm_interleave.c\<close>, \<open>punct.c\<close>), \<open>Viterbi\<close>
    (\<open>viterbi.c\<close>), \<open>Cch\<close> (\<open>cch.c\<close>), \<open>Sch\<close> (\<open>sch.c\<close>), \<open>A5\<close> (\<open>libosmocore/src/gsm/a5.c\<close>), \<open>Chan_Detect\<close>
    (\<open>chan_detect.c\<close>), \<open>Gprs\<close> (\<open>gprs.c\<close>), \<open>Rlcmac\<close> (\<open>rlcmac.c\<close>), \<open>Burst\<close> (\<open>process.c\<close>, \<open>ccch.c\<close>, \<open>tch.c\<close>).
    The encoders, the interleavers and the parity check are inverted by the decoders; the decoders of the convolutional codes find the
    sent bits, and for the synchronisation channel a nearest code word; every short error burst is detected; bursts
    that carry a message are collected, deciphered and decoded to it; radio blocks are reassembled to the sent frame, whether a length
    indicator or the end of the block flow ends it.  The Viterbi decoder of the control channels writes one int past its array: the theorems that rest on it say what it
    does where that int may be written, and that it gives no result where not.  The
    word operations of the cipher implement three shift registers.
  \<^item> State: \<open>Radio\<close> (\<open>process.h\<close>, \<open>burst_desc.h\<close>), \<open>Rand_Check\<close> (\<open>rand_check.c\<close>), \<open>State\<close> (\<open>session.h\<close>,
    \<open>assignment.h\<close>, \<open>sms.h\<close>), \<open>Session\<close> (\<open>session.c\<close>), \<open>Cell_Info\<close> (\<open>cell_info.c\<close>).
  \<^item> Messages: \<open>Osmo\<close> and \<open>Freq_List\<close> (\<open>tlv_parser.c\<close>, \<open>gsm48.c\<close>, \<open>gsm48_ie.c\<close>, \<open>gsm_utils.c\<close>, \<open>rsl.c\<close>,
    \<open>bitvec.c\<close> of \<open>libosmocore\<close>), \<open>Address\<close> (\<open>address.c\<close>), \<open>Assignment\<close> (\<open>assignment.c\<close>), \<open>Sms\<close> (\<open>sms.c\<close>),
    \<open>Identity\<close>, \<open>L3_Handler\<close> and \<open>Lapdm\<close> (\<open>l3_handler.c\<close>), \<open>Lte_Eps\<close> (\<open>lte_eps.c\<close>), \<open>Umts_Rrc\<close> (\<open>umts_rrc.c\<close>).
    The frequency list decoder stays within its arrays, and its unrolled formulas are the recursion of the standard;
    \<open>Lapdm_Frames\<close> has the round trip and the reassembly of link layer frames, \<open>Sms_Header\<close> the termination of the walk
    over a user data header and the input on which it does not terminate.
  \<^item> Memory safety: \<open>Msg_Store\<close> and \<open>Msg_Spec\<close> relate the linked lists to lists of addresses; \<open>Faults\<close> is a calculus
    for results that are at worst a fault within a buffer; the locale \<open>handler_contract\<close> of \<open>Contract\<close> states what the
    handlers rely on while they work on a message and proves that they keep it; \<open>Msg_Life\<close> interprets it with the invariant of the
    message store; \<open>Program\<close> is the transition system of the whole parser, with the invariant of its reachable states, the
    absence of temporal memory errors and the release of all messages at the end, but for those that a front end has lost before.
  \<^item> Front ends: \<open>Diag_Input\<close> and \<open>Diag_Safe\<close> (\<open>diag_input.c\<close>), \<open>Gsmtap\<close> (\<open>output.c\<close>, \<open>gsmtap_util.c\<close>, \<open>gsmtap_import.c\<close>),
    \<open>Filename\<close> (\<open>session_from_filename\<close> of \<open>session.c\<close>), \<open>Importers\<close> (\<open>diag_import.c\<close>, \<open>hex_import.c\<close>, \<open>osmo_hexparse\<close>).  A packet, whatever
    it contains, takes the parser through steps of \<open>Program\<close> or ends in one of the faults that the theorems list, from the standard input, from files of any name, from hexadecimal lines and from
    packet captures; failed assertions are traced to the packets that cause them, and the null pointer to the name of the file.  A
    message that is sent as GSMTAP is read back with its octets, frame number, frequency and SACCH mark, and without its other flags and its channel type.  A
    well formed name of a file is parsed, but the second session learns only the application identifier from it.
  \<^item> Output: \<open>Sql_Text\<close> has the texts of the SQL statements (\<open>session.c\<close>, \<open>sms.c\<close>, \<open>cell_info.c\<close>).  \<open>Sql_Read\<close> and \<open>Sql_Cells\<close>
    read them back: under every column stands the field of that name, in particular the ninety-seven conversions of
    the longest format are in the right order, the statements are not truncated, and quoted texts are one value;
    without SQLite, a quote in the number of a short message breaks the statement.

  \<^bold>\<open>Parameters.\<close>  The generated ASN.1 decoders of UMTS messages, which are not in the repository, are the record
  \<open>rrc_lib\<close>, of which the safety theorems assume that a decoded message is of the alternative that its type field names, with
  one of the two domains (\<open>rrc_lib_ok\<close>).  \<open>mktime\<close> depends on the time zone and is a function of the fields of the date.  The clock of the host is a function of the number of the packet.  The contents of memory from \<open>malloc\<close> is the
  parameter \<open>mem\<close>, and \<open>junk\<close> that of variables on the stack.  How many ints behind two arrays on the stack may be written or read is the record \<open>call_stack\<close>
  (\<open>Cch\<close>): \<open>conv_cch_decode\<close> writes behind \<open>state_history\<close>, and \<open>FC_syndrome_shift\<close> reads behind its register; by the declarations both numbers are 0.  The quoting of SQLite is the parameter \<open>q\<close>, whose documented behaviour
  is \<open>sqlite_Q\<close>.

  \<^bold>\<open>Bounds.\<close>  \<open>udh_walk\<close> has fuel 256: the walk is at an offset below 256, so that a longer one repeats itself, and running out of
  fuel is the fault \<open>Diverges\<close>; \<open>udh_walk_ends\<close> shows that it does not happen below 255 octets and
  \<open>handle_udh_endless\<close> that the loop of the code is endless otherwise.  Following the links of a list has the size of the
  store as fuel, which is enough for a list without cycles, and the invariant excludes cycles.  The importers end
  because each round shortens the file.

  \<^bold>\<open>Not modelled.\<close>  \<open>libasn1c\<close> and the rest of \<open>libosmocore\<close>: vendored libraries that the parser does not call, or calls through
  generated code that is not in the repository.  \<open>db_import.c\<close>, \<open>mysql_api.c\<close> and \<open>sqlite_api.c\<close>: calls of
  the client libraries of databases; in the model a statement is an output.  \<open>compat.c\<close>: replacements of library functions for Android.
  The arguments of the programs, the report on the console (\<open>session_print\<close>) and debugging output.
\<close>

end
